(* ===== verification/Prelude.thy ===== *)
theory Prelude
  imports Main "HOL-Library.Sublist"
begin

text \<open>
  Shared vocabulary of the development.

  \<^item> \<open>model_simps\<close> collects the rewrite rules every component adds for its own
    operations; \<open>inv_intros\<close> collects the preservation lemmas of the
    components' invariants.
  \<^item> \<open>run\<close> executes a deterministic component over a list of events and the
    locale \<open>stable\<close> states once what a property kept by every step is, and
    \<open>machine\<close> adds a start state that has it. Every stateful component interprets
    them on its own step function.
  \<^item> \<open>uniq_by\<close> is the "seen map" loop that the Go code repeats in several
    places: keep the first occurrence of every value, in order.
\<close>

named_theorems model_simps
named_theorems inv_intros

section \<open>Running a component over a list of events\<close>

fun run :: "('s \<Rightarrow> 'e \<Rightarrow> 's) \<Rightarrow> 's \<Rightarrow> 'e list \<Rightarrow> 's" where
  "run step s [] = s"
| "run step s (e # es) = run step (step s e) es"

lemma run_append [simp]: "run step s (es @ fs) = run step (run step s es) fs"
  by (induction es arbitrary: s) auto

lemma run_foldl: "run step s es = foldl step s es"
  by (induction es arbitrary: s) auto

lemma run_frame:
  assumes "\<And>s e. f (step s e) = f s"
  shows "f (run step s es) = f s"
  by (induction es arbitrary: s) (auto simp: assms)

locale stable =
  fixes step :: "'s \<Rightarrow> 'e \<Rightarrow> 's" and inv :: "'s \<Rightarrow> bool"
  assumes inv_step: "inv s \<Longrightarrow> inv (step s e)"
begin

lemma inv_run: "inv s \<Longrightarrow> inv (run step s es)"
  by (induction es arbitrary: s) (auto intro: inv_step)

end

locale machine = stable +
  fixes start :: 's
  assumes inv_start: "inv start"
begin

lemma inv_reachable: "inv (run step start es)"
  by (rule inv_run[OF inv_start])

lemma inv_at_every_prefix: "inv (run step start (take n es))"
  by (rule inv_reachable)

end

section \<open>First occurrences\<close>

text \<open>The first occurrences of the values that are not in \<open>seen\<close>.\<close>

fun uniq_from :: "'a list \<Rightarrow> 'a list \<Rightarrow> 'a list" where
  "uniq_from seen [] = []"
| "uniq_from seen (x # xs) =
     (if x \<in> set seen then uniq_from seen xs else x # uniq_from (x # seen) xs)"

abbreviation uniq :: "'a list \<Rightarrow> 'a list" where
  "uniq \<equiv> uniq_from []"

lemma set_uniq_from [simp]: "set (uniq_from seen xs) = set xs - set seen"
  by (induction seen xs rule: uniq_from.induct) auto

lemma distinct_uniq_from [simp]: "distinct (uniq_from seen xs)"
  by (induction seen xs rule: uniq_from.induct) auto

lemma uniq_from_id: "distinct xs \<Longrightarrow> set xs \<inter> set seen = {} \<Longrightarrow> uniq_from seen xs = xs"
  by (induction seen xs rule: uniq_from.induct) auto

lemma uniq_id: "distinct xs \<Longrightarrow> uniq xs = xs"
  by (simp add: uniq_from_id)

lemma uniq_idem [simp]: "uniq (uniq xs) = uniq xs"
  by (simp add: uniq_id)

lemma uniq_from_distinct:
  "distinct ys \<Longrightarrow> uniq_from seen ys = filter (\<lambda>y. y \<notin> set seen) ys"
proof (induction ys arbitrary: seen)
  case (Cons y ys)
  then have "filter (\<lambda>z. z \<noteq> y \<and> z \<notin> set seen) ys = filter (\<lambda>z. z \<notin> set seen) ys"
    by (intro filter_cong) auto
  with Cons show ?case by simp
qed simp

lemma uniq_from_append:
  "distinct ys \<Longrightarrow>
   uniq_from seen (xs @ ys) = uniq_from seen xs @ filter (\<lambda>y. y \<notin> set seen \<union> set xs) ys"
proof (induction xs arbitrary: seen)
  case (Cons x xs)
  have "filter (\<lambda>y. y \<notin> set (x # seen) \<union> set xs) ys = filter (\<lambda>y. y \<notin> set seen \<union> set (x # xs)) ys"
    by (intro filter_cong) auto
  moreover have "x \<in> set seen \<Longrightarrow>
      filter (\<lambda>y. y \<notin> set seen \<union> set xs) ys = filter (\<lambda>y. y \<notin> set seen \<union> set (x # xs)) ys"
    by (intro filter_cong) auto
  ultimately show ?case using Cons by simp
qed (simp add: uniq_from_distinct)

lemma length_uniq_from: "length (uniq_from seen xs) \<le> length xs"
  by (induction seen xs rule: uniq_from.induct) auto

section \<open>Small facts about lists and maps\<close>

lemma distinct_filter_map_fst:
  "distinct (map f xs) \<Longrightarrow> distinct (map f (filter P xs))"
  by (induction xs) auto

lemma filter_neq_id: "x \<notin> set xs \<Longrightarrow> filter (\<lambda>y. y \<noteq> x) xs = xs"
  by (induction xs) auto

lemma mem_map_filter: "y \<in> set (List.map_filter f xs) \<longleftrightarrow> (\<exists>x \<in> set xs. f x = Some y)"
  by (induction xs) (auto simp: List.map_filter_simps split: option.splits)

end
