(* ===== verification/GoStrings.thy ===== *)
theory GoStrings
  imports Prelude
begin

text \<open>
  Go strings and the functions of the package \<open>strings\<close> that the code uses.

  A Go string is a sequence of bytes; \<open>string\<close> (a \<open>char list\<close>) has one
  \<open>char\<close> per byte, so a rune beyond ASCII is its UTF-8 encoding and
  \<open>length\<close> is Go's \<open>len\<close>. \<open>TrimSpace\<close> removes every rune of Unicode's
  White\_Space class from both ends: \<open>space_runes\<close> lists their encodings, and because
  UTF-8 is self-synchronising, removing encodings byte by byte from an end removes exactly
  the runes. \<open>to_lower\<close> maps the ASCII letters and the two further runes whose lower
  case is an ASCII letter (U+0130 and U+212A); every other rune stays as it is, since its
  lower case is not ASCII either and the code compares the result with ASCII constants only.
\<close>

section \<open>Trimming\<close>

definition space_runes :: "string list" where
  "space_runes =
     [[CHR 0x20], [CHR 0x09], [CHR 0x0A], [CHR 0x0B], [CHR 0x0C], [CHR 0x0D],
      [CHR 0xC2, CHR 0x85], [CHR 0xC2, CHR 0xA0], [CHR 0xE1, CHR 0x9A, CHR 0x80],
      [CHR 0xE2, CHR 0x80, CHR 0x80], [CHR 0xE2, CHR 0x80, CHR 0x81],
      [CHR 0xE2, CHR 0x80, CHR 0x82], [CHR 0xE2, CHR 0x80, CHR 0x83],
      [CHR 0xE2, CHR 0x80, CHR 0x84], [CHR 0xE2, CHR 0x80, CHR 0x85],
      [CHR 0xE2, CHR 0x80, CHR 0x86], [CHR 0xE2, CHR 0x80, CHR 0x87],
      [CHR 0xE2, CHR 0x80, CHR 0x88], [CHR 0xE2, CHR 0x80, CHR 0x89],
      [CHR 0xE2, CHR 0x80, CHR 0x8A], [CHR 0xE2, CHR 0x80, CHR 0xA8],
      [CHR 0xE2, CHR 0x80, CHR 0xA9], [CHR 0xE2, CHR 0x80, CHR 0xAF],
      [CHR 0xE2, CHR 0x81, CHR 0x9F], [CHR 0xE3, CHR 0x80, CHR 0x80]]"

definition starts_with_any :: "string list \<Rightarrow> string \<Rightarrow> string option" where
  "starts_with_any ws s = find (\<lambda>w. w \<noteq> [] \<and> prefix w s) ws"

lemma starts_with_any_SomeD:
  "starts_with_any ws s = Some w \<Longrightarrow> w \<in> set ws \<and> w \<noteq> [] \<and> prefix w s"
  by (auto simp: starts_with_any_def find_Some_iff)

lemma starts_with_any_None_iff:
  "starts_with_any ws s = None \<longleftrightarrow> (\<forall>w \<in> set ws. w \<noteq> [] \<longrightarrow> \<not> prefix w s)"
  by (auto simp: starts_with_any_def find_None_iff)

function strip :: "string list \<Rightarrow> string \<Rightarrow> string" where
  "strip ws s =
     (case starts_with_any ws s of
        None \<Rightarrow> s
      | Some w \<Rightarrow> strip ws (drop (length w) s))"
  by pat_completeness auto
termination
proof (relation "measure (\<lambda>(ws, s). length s)")
  fix ws s w
  assume "starts_with_any ws s = Some w"
  then have "w \<noteq> [] \<and> prefix w s" by (auto dest: starts_with_any_SomeD)
  then show "((ws, drop (length w) s), (ws, s)) \<in> measure (\<lambda>(ws, s). length s)"
    by (cases s; cases w) auto
qed simp

declare strip.simps [simp del]

definition trim_left :: "string \<Rightarrow> string" where
  "trim_left s = strip space_runes s"

definition trim_right :: "string \<Rightarrow> string" where
  "trim_right s = rev (strip (map rev space_runes) (rev s))"

definition trim_space :: "string \<Rightarrow> string" where
  "trim_space s = trim_right (trim_left s)"

lemma strip_stop: "starts_with_any ws s = None \<Longrightarrow> strip ws s = s"
  by (subst strip.simps) simp

lemma strip_result: "starts_with_any ws (strip ws s) = None"
proof (induction ws s rule: strip.induct)
  case (1 ws s)
  then show ?case
    by (cases "starts_with_any ws s") (simp_all add: strip.simps[of ws s])
qed

lemma strip_idem [simp]: "strip ws (strip ws s) = strip ws s"
  by (rule strip_stop) (rule strip_result)

lemma suffix_strip: "suffix (strip ws s) s"
proof (induction ws s rule: strip.induct)
  case (1 ws s)
  show ?case
  proof (cases "starts_with_any ws s")
    case None
    then show ?thesis by (simp add: strip_stop)
  next
    case (Some w)
    then have "suffix (strip ws (drop (length w) s)) (drop (length w) s)"
      by (rule 1)
    then show ?thesis
      using Some by (simp add: strip.simps[of ws s]) (meson suffix_drop suffix_order.trans)
  qed
qed

lemma prefix_trim_right: "prefix (trim_right s) s"
  using suffix_strip[of "map rev space_runes" "rev s"]
  by (simp add: trim_right_def suffix_to_prefix)

lemma strip_Nil [simp]: "strip ws [] = []"
  using suffix_strip[of ws "[]"] by simp

lemma trim_space_Nil [simp]: "trim_space [] = []"
  by (simp add: trim_space_def trim_right_def trim_left_def)

lemma length_trim_space: "length (trim_space s) \<le> length s"
  using prefix_length_le[OF prefix_trim_right[of "trim_left s"]]
    suffix_length_le[OF suffix_strip[of space_runes s]]
  by (simp add: trim_space_def trim_left_def)

text \<open>A string is trimmed when no space rune starts it and none ends it.\<close>

definition trimmed :: "string \<Rightarrow> bool" where
  "trimmed s \<longleftrightarrow>
     starts_with_any space_runes s = None \<and>
     starts_with_any (map rev space_runes) (rev s) = None"

lemma trim_space_id [simp]: "trimmed s \<Longrightarrow> trim_space s = s"
  by (simp add: trimmed_def trim_space_def trim_left_def trim_right_def strip_stop)

lemma starts_with_any_prefix_None:
  "starts_with_any ws s = None \<Longrightarrow> prefix t s \<Longrightarrow> starts_with_any ws t = None"
  by (auto simp: starts_with_any_None_iff dest: prefix_order.trans)

lemma trimmed_trim_space [simp]: "trimmed (trim_space s)"
proof -
  have "starts_with_any space_runes (trim_left s) = None"
    unfolding trim_left_def by (rule strip_result)
  then have "starts_with_any space_runes (trim_space s) = None"
    using prefix_trim_right[of "trim_left s"]
    unfolding trim_space_def by (rule starts_with_any_prefix_None)
  moreover have "starts_with_any (map rev space_runes) (rev (trim_space s)) = None"
    unfolding trim_space_def trim_right_def by (simp add: strip_result)
  ultimately show ?thesis by (simp add: trimmed_def)
qed

lemma trim_space_idem [simp]: "trim_space (trim_space s) = trim_space s"
  by simp

lemma trimmed_Nil [simp]: "trimmed []"
  by (metis trim_space_Nil trimmed_trim_space)

lemma trimmed_iff: "trimmed s \<longleftrightarrow> trim_space s = s"
  by (metis trim_space_id trimmed_trim_space)

lemma strip_empty: "strip ws s = [] \<Longrightarrow> set s \<subseteq> \<Union> (set ` set ws)"
proof (induction ws s rule: strip.induct)
  case (1 ws s)
  show ?case
  proof (cases "starts_with_any ws s")
    case None
    with 1(2) show ?thesis by (simp add: strip_stop)
  next
    case (Some w)
    then have w: "w \<in> set ws" "prefix w s" by (auto dest: starts_with_any_SomeD)
    have "strip ws (drop (length w) s) = []" using 1(2) Some by (simp add: strip.simps[of ws s])
    then have "set (drop (length w) s) \<subseteq> \<Union> (set ` set ws)" using 1(1)[OF Some] by simp
    moreover have "s = w @ drop (length w) s" using w(2) by (auto simp: prefix_def)
    ultimately show ?thesis using w(1) by (metis UN_upper le_sup_iff set_append)
  qed
qed

text \<open>A text with a character that is no part of a space rune is not blank.\<close>

lemma trim_space_ne:
  assumes "c \<in> set s" "c \<notin> \<Union> (set ` set space_runes)"
  shows "trim_space s \<noteq> []"
proof
  assume "trim_space s = []"
  then have "set (trim_left s) \<subseteq> \<Union> (set ` set (map rev space_runes))"
    using strip_empty[of "map rev space_runes" "rev (trim_left s)"] by (simp add: trim_space_def trim_right_def)
  then have "c \<notin> set (trim_left s)" using assms(2) by auto
  moreover have "c \<in> set (strip ws t)" if "c \<in> set t" "c \<notin> \<Union> (set ` set ws)" for ws t
    using that
  proof (induction ws t rule: strip.induct)
    case (1 ws t)
    show ?case
    proof (cases "starts_with_any ws t")
      case None
      with 1(2) show ?thesis by (simp add: strip_stop)
    next
      case (Some w)
      then have w: "w \<in> set ws" "prefix w t" by (auto dest: starts_with_any_SomeD)
      have "c \<notin> set w" using w(1) 1(3) by auto
      then have "c \<in> set (drop (length w) t)" using w(2) 1(2) by (auto simp: prefix_def)
      with 1(1)[OF Some _ 1(3)] show ?thesis using Some by (simp add: strip.simps[of ws t])
    qed
  qed
  ultimately show False using assms by (simp add: trim_left_def)
qed

section \<open>Lower case\<close>

definition lower_char :: "char \<Rightarrow> char" where
  "lower_char c =
     (let n = of_char c :: nat in if 65 \<le> n \<and> n \<le> 90 then char_of (n + 32) else c)"

function to_lower :: "string \<Rightarrow> string" where
  "to_lower s =
     (if prefix [CHR 0xC4, CHR 0xB0] s then CHR ''i'' # to_lower (drop 2 s)
      else if prefix [CHR 0xE2, CHR 0x84, CHR 0xAA] s then CHR ''k'' # to_lower (drop 3 s)
      else case s of [] \<Rightarrow> [] | c # cs \<Rightarrow> lower_char c # to_lower cs)"
  by pat_completeness auto
termination
  by (relation "measure length") (auto simp: prefix_def)

declare to_lower.simps [simp del]

section \<open>Plain words\<close>

text \<open>
  The constants the code compares with are words of lower-case ASCII letters, digits and
  punctuation: trimming and lower-casing leave them alone.
\<close>

definition plain_byte :: "nat \<Rightarrow> bool" where
  "plain_byte n \<longleftrightarrow> 33 \<le> n \<and> n < 127 \<and> \<not> (65 \<le> n \<and> n \<le> 90)"

definition plain_word :: "string \<Rightarrow> bool" where
  "plain_word w \<longleftrightarrow> list_all (\<lambda>c. plain_byte (of_char c)) w"

lemma space_runes_ends:
  "list_all (\<lambda>w. w \<noteq> [] \<and> \<not> plain_byte (of_char (hd w)) \<and> \<not> plain_byte (of_char (last w))) space_runes"
  by code_simp

lemma plain_word_trimmed:
  assumes "plain_word w"
  shows "trimmed w"
proof -
  have r: "r \<noteq> [] \<and> hd r \<notin> set w \<and> last r \<notin> set w" if "r \<in> set space_runes" for r
    using that space_runes_ends assms by (auto simp: list_all_iff plain_word_def)
  have "\<not> prefix r w" if "r \<in> set space_runes" for r
    using r[OF that] set_mono_prefix[of r w] hd_in_set[of r] by blast
  moreover have "\<not> prefix (rev r) (rev w)" if "r \<in> set space_runes" for r
    using r[OF that] set_mono_prefix[of "rev r" "rev w"] last_in_set[of r] by (auto simp: subset_iff)
  ultimately show ?thesis by (auto simp: trimmed_def starts_with_any_None_iff)
qed

lemma plain_word_lower: "plain_word w \<Longrightarrow> to_lower w = w"
proof (induction w)
  case (Cons c w)
  have "\<not> plain_byte (of_char (CHR 0xC4))" "\<not> plain_byte (of_char (CHR 0xE2))" by code_simp+
  with Cons show ?case
    by (auto simp: to_lower.simps[of "c # w"] plain_word_def lower_char_def plain_byte_def Let_def)
qed (simp add: to_lower.simps)

lemma plain_word_trim: "plain_word w \<Longrightarrow> trim_space w = w"
  by (rule trim_space_id) (rule plain_word_trimmed)

lemmas plain_simps = plain_word_def plain_byte_def

section \<open>Splitting and joining\<close>

text \<open>\<open>strings.Split\<close> with a one-byte separator: never empty.\<close>

fun split_on :: "char \<Rightarrow> string \<Rightarrow> string list" where
  "split_on c [] = [[]]"
| "split_on c (x # xs) =
     (if x = c then [] # split_on c xs
      else (case split_on c xs of p # ps \<Rightarrow> (x # p) # ps | [] \<Rightarrow> [[x]]))"

fun join :: "string \<Rightarrow> string list \<Rightarrow> string" where
  "join sep [] = []"
| "join sep [x] = x"
| "join sep (x # xs) = x @ sep @ join sep xs"

lemma split_on_ne [simp]: "split_on c s \<noteq> []"
  by (cases s) (auto split: list.split)

lemma length_split_on_pos [simp]: "0 < length (split_on c s)"
  by simp

lemma join_Cons: "xs \<noteq> [] \<Longrightarrow> join sep (x # xs) = x @ sep @ join sep xs"
  by (cases xs) auto

lemma join_split_on: "join [c] (split_on c s) = s"
proof (induction s)
  case (Cons x xs)
  obtain p ps where "split_on c xs = p # ps"
    by (meson list.exhaust split_on_ne)
  with Cons show ?case
    by (cases ps) (auto simp: join_Cons)
qed simp

lemma split_on_notin: "c \<notin> set p \<Longrightarrow> split_on c p = [p]"
  by (induction p) auto

lemma split_on_append: "c \<notin> set p \<Longrightarrow> split_on c (p @ c # s) = p # split_on c s"
  by (induction p) auto

lemma split_on_append2: "split_on c (p @ c # s) = split_on c p @ split_on c s"
proof (induction p)
  case (Cons x p)
  then show ?case by (cases "split_on c p") auto
qed simp

lemma split_on_parts: "p \<in> set (split_on c s) \<Longrightarrow> c \<notin> set p"
proof (induction s arbitrary: p)
  case (Cons x xs)
  obtain q qs where "split_on c xs = q # qs"
    by (meson list.exhaust split_on_ne)
  with Cons show ?case by (auto split: if_splits)
qed simp

lemma split_on_join:
  "ps \<noteq> [] \<Longrightarrow> \<forall>p \<in> set ps. c \<notin> set p \<Longrightarrow> split_on c (join [c] ps) = ps"
proof (induction ps)
  case (Cons p ps)
  then show ?case
    by (cases "ps = []") (auto simp: join_Cons split_on_notin split_on_append)
qed simp

section \<open>The first non-empty value\<close>

text \<open>
  \<open>firstNonEmpty\<close> is declared in several packages with the same body: the first
  argument with a non-blank value, trimmed.
\<close>

fun first_non_empty :: "string list \<Rightarrow> string" where
  "first_non_empty [] = []"
| "first_non_empty (v # vs) =
     (if trim_space v \<noteq> [] then trim_space v else first_non_empty vs)"

lemma trimmed_first_non_empty [simp]: "trimmed (first_non_empty vs)"
  by (induction vs) auto

lemma first_non_empty_Nil_iff:
  "first_non_empty vs = [] \<longleftrightarrow> (\<forall>v \<in> set vs. trim_space v = [])"
  by (induction vs) auto

text \<open>Trim, drop the blanks and the repetitions, keep the order.\<close>

definition trim_unique :: "string list \<Rightarrow> string list" where
  "trim_unique vs = uniq (filter (\<lambda>v. v \<noteq> []) (map trim_space vs))"

lemma distinct_trim_unique [simp]: "distinct (trim_unique vs)"
  by (simp add: trim_unique_def)

lemma set_trim_unique: "set (trim_unique vs) = trim_space ` set vs - {[]}"
  by (auto simp: trim_unique_def)

lemma trim_unique_id:
  "distinct vs \<Longrightarrow> \<forall>v \<in> set vs. trimmed v \<and> v \<noteq> [] \<Longrightarrow> trim_unique vs = vs"
proof -
  assume d: "distinct vs" and t: "\<forall>v \<in> set vs. trimmed v \<and> v \<noteq> []"
  from t have "map trim_space vs = vs"
    by (induction vs) auto
  moreover from t have "filter (\<lambda>v. v \<noteq> []) vs = vs"
    by (induction vs) auto
  ultimately show ?thesis using d by (simp add: trim_unique_def uniq_id)
qed

lemma trim_unique_wf: "\<forall>v \<in> set (trim_unique vs). trimmed v \<and> v \<noteq> []"
  by (auto simp: set_trim_unique)

lemma trim_unique_idem [simp]: "trim_unique (trim_unique vs) = trim_unique vs"
  by (rule trim_unique_id) (auto simp: trim_unique_wf)

lemma trim_unique_Nil [simp]: "trim_unique [] = []"
  by (simp add: trim_unique_def)

section \<open>Evaluating\<close>

text \<open>
  Most strings of the code begin and end with a visible ASCII character; then trimming is the
  identity, which evaluation can see from two characters.
\<close>

definition visible :: "char \<Rightarrow> bool" where
  "visible c \<longleftrightarrow> \<not> digit7 c \<and> (digit6 c \<or> digit5 c \<and> (digit0 c \<or> digit1 c \<or> digit2 c \<or> digit3 c \<or> digit4 c))"

lemma no_space_visible: "list_all (\<lambda>w. w \<noteq> [] \<and> \<not> visible (hd w) \<and> \<not> visible (last w)) space_runes"
  by code_simp

lemma starts_with_any_visible:
  assumes "\<forall>w \<in> set ws. w \<noteq> [] \<longrightarrow> \<not> visible (hd w)" "visible c"
  shows "starts_with_any ws (c # cs) = None"
  using assms unfolding starts_with_any_None_iff by (auto simp: prefix_Cons)

lemma trimmed_visible:
  assumes "s \<noteq> []" "visible (hd s)" "visible (last s)"
  shows "trimmed s"
proof -
  have "starts_with_any space_runes (hd s # tl s) = None"
    using no_space_visible assms(2) by (intro starts_with_any_visible) (auto simp: list_all_iff)
  moreover have "starts_with_any (map rev space_runes) (last s # rev (butlast s)) = None"
    using no_space_visible assms(3) by (intro starts_with_any_visible) (auto simp: list_all_iff hd_rev)
  moreover have "rev s = last s # rev (butlast s)"
    using assms(1) by (metis append_butlast_last_id rev_eq_Cons_iff rev_rev_ident)
  ultimately show ?thesis using assms(1) by (simp only: trimmed_def) simp
qed

lemma trim_space_code [code]:
  "trim_space s =
     (if s = [] then [] else if visible (hd s) \<and> visible (last s) then s else trim_right (trim_left s))"
proof (cases "s \<noteq> [] \<and> visible (hd s) \<and> visible (last s)")
  case True
  then show ?thesis using trimmed_visible[of s] by simp
qed (auto simp: trim_space_def trim_left_def trim_right_def)

lemma trimmed_code [code]:
  "trimmed s \<longleftrightarrow>
     s = [] \<or> visible (hd s) \<and> visible (last s) \<or>
     starts_with_any space_runes s = None \<and> starts_with_any (map rev space_runes) (rev s) = None"
proof (cases "s \<noteq> [] \<and> visible (hd s) \<and> visible (last s)")
  case True
  then show ?thesis using trimmed_visible[of s] by simp
qed (auto simp: trimmed_def starts_with_any_None_iff)

end
