(* ===== verification/GoAny.thy ===== *)
theory GoAny
  imports Complex_Main GoStrings
begin

text \<open>
  Values of Go's type \<open>any\<close> as \<open>encoding/json\<close> decodes them:
  \<open>nil\<close>, booleans, numbers, strings, \<open>[]any\<close> and \<open>map[string]any\<close>.
  A number is a \<open>float64\<close> (\<open>AFloat\<close>, an exact rational) or, once
  \<open>normalizeDecodedJSONValue\<close> of the file store has seen it, an \<open>int64\<close> when it is
  integral (\<open>AInt\<close>). A map is an association list in which the first entry of a key
  counts. The readers below return the zero value on a value of another type, as the Go type
  switches do. The text form of JSON is not modelled: decoding the text of a value gives
  \<open>decoded\<close> of it, which holds for integers of at most 53 bits and valid UTF-8.
\<close>

datatype any =
    ANil
  | ABool bool
  | AInt int
  | AFloat rat
  | AStr string
  | AList "any list"
  | AMap "(string \<times> any) list"

definition trunc_rat :: "rat \<Rightarrow> int" where
  "trunc_rat r = (if 0 \<le> r then \<lfloor>r\<rfloor> else \<lceil>r\<rceil>)"

lemma trunc_rat_of_int [simp]: "trunc_rat (of_int n) = n"
  by (simp add: trunc_rat_def)

fun entries :: "any \<Rightarrow> (string \<times> any) list" where
  "entries (AMap m) = m"
| "entries _ = []"

definition field :: "any \<Rightarrow> string \<Rightarrow> any" where
  "field v k = (case map_of (entries v) k of None \<Rightarrow> ANil | Some w \<Rightarrow> w)"

fun string_from_any :: "any \<Rightarrow> string" where
  "string_from_any (AStr s) = trim_space s"
| "string_from_any _ = []"

fun int64_from_any :: "any \<Rightarrow> int" where
  "int64_from_any (AInt n) = n"
| "int64_from_any (AFloat r) = trunc_rat r"
| "int64_from_any _ = 0"

fun bool_from_any :: "any \<Rightarrow> bool" where
  "bool_from_any (ABool b) = b"
| "bool_from_any _ = False"

text \<open>\<open>normalizeDecodedJSONValue\<close>: integral floats become integers, at every depth.\<close>

fun normalize_decoded :: "any \<Rightarrow> any" where
  "normalize_decoded (AMap m) = AMap (map (\<lambda>(k, v). (k, normalize_decoded v)) m)"
| "normalize_decoded (AList xs) = AList (map normalize_decoded xs)"
| "normalize_decoded (AFloat r) =
     (if r = of_int (trunc_rat r) then AInt (trunc_rat r) else AFloat r)"
| "normalize_decoded v = v"

fun string_slice_from_any :: "any \<Rightarrow> string list" where
  "string_slice_from_any (AList xs) = filter (\<lambda>s. s \<noteq> []) (map string_from_any xs)"
| "string_slice_from_any _ = []"

text \<open>
  A decoder into \<open>any\<close> makes every number a float. A value is canonical when
  normalising what the decoder makes of it gives it back: no float of it is integral.
\<close>

fun decoded :: "any \<Rightarrow> any" where
  "decoded (AMap m) = AMap (map (\<lambda>(k, v). (k, decoded v)) m)"
| "decoded (AList xs) = AList (map decoded xs)"
| "decoded (AInt n) = AFloat (of_int n)"
| "decoded v = v"

fun canonical :: "any \<Rightarrow> bool" where
  "canonical (AMap m) \<longleftrightarrow> list_all (\<lambda>(k, v). canonical v) m"
| "canonical (AList xs) \<longleftrightarrow> list_all canonical xs"
| "canonical (AFloat r) \<longleftrightarrow> r \<noteq> of_int (trunc_rat r)"
| "canonical v \<longleftrightarrow> True"

lemma normalize_decoded_canonical: "canonical v \<Longrightarrow> normalize_decoded (decoded v) = v"
proof (induction v rule: canonical.induct)
  case (1 m)
  then show ?case by (induction m) auto
next
  case (2 xs)
  then show ?case by (induction xs) auto
qed auto

lemma trimmed_string_from_any [simp]: "trimmed (string_from_any v)"
  by (cases v) auto

lemma string_slice_wf: "\<forall>s \<in> set (string_slice_from_any v). trimmed s \<and> s \<noteq> []"
  by (cases v) auto

lemma field_AMap:
  "field (AMap ((k, v) # m)) j = (if j = k then v else field (AMap m) j)"
  "field (AMap []) j = ANil"
  by (simp_all add: field_def)

lemma string_slice_map_AStr:
  "\<forall>s \<in> set xs. trimmed s \<and> s \<noteq> [] \<Longrightarrow> string_slice_from_any (AList (map AStr xs)) = xs"
  by (induction xs) auto

section \<open>Encoding a struct\<close>

text \<open>
  A struct is encoded field by field; a field with \<open>omitempty\<close> that holds its zero value
  is left out. \<open>present\<close> keeps the fields that are written.
\<close>

fun present :: "(string \<times> any option) list \<Rightarrow> (string \<times> any) list" where
  "present [] = []"
| "present ((k, v) # m) = (case v of None \<Rightarrow> present m | Some w \<Rightarrow> (k, w) # present m)"

definition some_str :: "string \<Rightarrow> any option" where
  "some_str s = (if s = [] then None else Some (AStr s))"

definition some_int :: "int \<Rightarrow> any option" where
  "some_int n = (if n = 0 then None else Some (AInt n))"

definition some_list :: "any list \<Rightarrow> any option" where
  "some_list xs = (if xs = [] then None else Some (AList xs))"

definition value_of :: "any option \<Rightarrow> any" where
  "value_of v = (case v of None \<Rightarrow> ANil | Some w \<Rightarrow> w)"

lemma value_of_Some [simp]: "value_of (Some v) = v"
  by (simp add: value_of_def)

lemma value_of_None [simp]: "value_of None = ANil"
  by (simp add: value_of_def)

lemma map_of_present:
  "distinct (map fst m) \<Longrightarrow>
   map_of (present m) k = (case map_of m k of None \<Rightarrow> None | Some v \<Rightarrow> v)"
proof (induction m)
  case (Cons e m)
  obtain j v where e: "e = (j, v)" by fastforce
  have "map_of m j = None" if "j \<notin> fst ` set m"
    using that by (simp add: map_of_eq_None_iff)
  with Cons e show ?case by (cases v) auto
qed simp

declare present.simps [simp del]

lemma field_present:
  "distinct (map fst m) \<Longrightarrow>
   field (AMap (present m)) k = (case map_of m k of None \<Rightarrow> ANil | Some v \<Rightarrow> value_of v)"
  by (auto simp: field_def map_of_present value_of_def split: option.split)

lemma canonical_present:
  "list_all (\<lambda>(k, v). case v of None \<Rightarrow> True | Some w \<Rightarrow> canonical w) m \<Longrightarrow>
   canonical (AMap (present m))"
  by (induction m rule: present.induct) (auto simp: present.simps split: option.splits)

lemma canonical_some [simp]:
  "(case some_str s of None \<Rightarrow> True | Some w \<Rightarrow> canonical w)"
  "(case some_int n of None \<Rightarrow> True | Some w \<Rightarrow> canonical w)"
  "list_all canonical xs \<Longrightarrow> (case some_list xs of None \<Rightarrow> True | Some w \<Rightarrow> canonical w)"
  by (simp_all add: some_str_def some_int_def some_list_def)

lemma list_all_AStr [simp]: "list_all canonical (map AStr xs)"
  by (induction xs) auto

lemma read_str [simp]: "trimmed s \<Longrightarrow> string_from_any (value_of (some_str s)) = s"
  by (simp add: some_str_def)

lemma read_int [simp]: "int64_from_any (value_of (some_int n)) = n"
  by (simp add: some_int_def)

lemma read_strings [simp]:
  "\<forall>s \<in> set xs. trimmed s \<and> s \<noteq> [] \<Longrightarrow>
   string_slice_from_any (value_of (some_list (map AStr xs))) = xs"
  using string_slice_map_AStr[of xs] by (auto simp: some_list_def)

end
