(* ===== verification/SessionKey.thy ===== *)
theory SessionKey
  imports GoStrings
begin

text \<open>
  Structured session keys, \<open>internal/protocol/model_session_key.go\<close>: the address
  \<open>agent:<agent>:<channel>:<chat>:<ref>[:topic:<thread>]\<close> of a private
  runtime and \<open>room:group:<conversation>\<close> of a shared stream. Validation, parsing and
  building are translated branch by branch; the lemmas show that building and parsing are
  inverse on well-formed segments, so that two addresses never share a key.
\<close>

section \<open>Keys\<close>

datatype session_key_kind = KindAgent | KindRoom | KindUnknown

record session_key =
  sk_raw :: string
  sk_kind :: session_key_kind
  sk_structured :: bool
  sk_shared :: bool
  sk_agent :: string
  sk_channel :: string
  sk_chat_type :: string
  sk_ref :: string
  sk_thread :: string
  sk_conversation :: string
  sk_room_ref :: string

abbreviation colon :: char where
  "colon \<equiv> CHR '':''"

fun find_topic_from :: "nat \<Rightarrow> string list \<Rightarrow> nat option" where
  "find_topic_from i [] = None"
| "find_topic_from i (v # vs) =
     (if v = ''topic'' \<and> 4 \<le> i then Some i else find_topic_from (Suc i) vs)"

definition find_topic_index :: "string list \<Rightarrow> nat option" where
  "find_topic_index parts = find_topic_from 0 parts"

definition agent_key_shape :: string where
  "agent_key_shape =
     ''session_key must match agent:<agent_id>:<channel>:<chat_type>:<ref>[:topic:<thread_id>]''"

definition validation_error :: "string \<Rightarrow> string" where
  "validation_error raw =
     (let normalized = trim_space raw in
      if normalized = [] then ''session_key is required''
      else if prefix ''agent:'' normalized then
        (let parts = split_on colon normalized in
         if length parts < 5 \<or> trim_space (parts ! 1) = [] \<or> trim_space (parts ! 2) = []
            \<or> trim_space (parts ! 3) = []
         then agent_key_shape
         else
           (case find_topic_index parts of
              Some t \<Rightarrow>
                (let ref = trim_space (join '':'' (take (t - 4) (drop 4 parts)));
                     thread_id = trim_space (join '':'' (drop (Suc t) parts))
                 in if ref = [] \<or> thread_id = [] then agent_key_shape else [])
            | None \<Rightarrow>
                (if trim_space (join '':'' (drop 4 parts)) = [] then agent_key_shape else [])))
      else if prefix ''room:'' normalized then
        (let parts = split_on colon normalized;
             conversation_id =
               (if 2 < length parts then trim_space (join '':'' (drop 2 parts)) else [])
         in if length parts < 3 \<or> parts ! 1 \<noteq> ''group'' \<or> conversation_id = []
            then ''session_key must match room:group:<conversation_id>'' else [])
      else ''session_key must use structured session_key format'')"

definition is_structured_key :: "string \<Rightarrow> bool" where
  "is_structured_key raw \<longleftrightarrow> validation_error raw = []"

definition require_structured_key :: "string \<Rightarrow> string + string" where
  "require_structured_key raw =
     (if validation_error raw \<noteq> [] then Inl (validation_error raw) else Inr (trim_space raw))"

definition parse_session_key :: "string \<Rightarrow> session_key" where
  "parse_session_key raw =
     (let normalized = trim_space raw;
          valid = (validation_error normalized = []);
          result = \<lparr>sk_raw = normalized, sk_kind = KindUnknown, sk_structured = valid,
                    sk_shared = False, sk_agent = [], sk_channel = [], sk_chat_type = [],
                    sk_ref = [], sk_thread = [], sk_conversation = [], sk_room_ref = []\<rparr>
      in
      if prefix ''agent:'' normalized then
        (let parts = split_on colon normalized;
             result = result\<lparr>
               sk_kind := KindAgent,
               sk_agent := (if 1 < length parts then trim_space (parts ! 1) else []),
               sk_channel := (if 2 < length parts then trim_space (parts ! 2) else []),
               sk_chat_type :=
                 (if 3 < length parts \<and> trim_space (parts ! 3) \<noteq> []
                  then trim_space (parts ! 3) else ''dm'')\<rparr>
         in
         (case find_topic_index parts of
            Some t \<Rightarrow>
              result\<lparr>sk_ref := trim_space (join '':'' (take (t - 4) (drop 4 parts))),
                     sk_thread := trim_space (join '':'' (drop (Suc t) parts))\<rparr>
          | None \<Rightarrow>
              (if 4 < length parts
               then result\<lparr>sk_ref := trim_space (join '':'' (drop 4 parts))\<rparr>
               else result)))
      else if prefix ''room:'' normalized then
        (let parts = split_on colon normalized;
             conversation_id =
               (if 2 < length parts then trim_space (join '':'' (drop 2 parts)) else [])
         in result\<lparr>
               sk_kind := KindRoom,
               sk_shared := valid,
               sk_chat_type :=
                 (if 1 < length parts \<and> trim_space (parts ! 1) \<noteq> []
                  then trim_space (parts ! 1) else ''group''),
               sk_ref := conversation_id,
               sk_room_ref := conversation_id,
               sk_conversation := conversation_id\<rparr>)
      else result)"

section \<open>Normalisation of the segments\<close>

definition normalize_channel_segment :: "string \<Rightarrow> string" where
  "normalize_channel_segment channel =
     (let c = to_lower (trim_space channel) in
      if c \<in> set [''ws'', ''websocket''] then ''ws''
      else if c \<in> set [''dg'', ''discord''] then ''dg''
      else if c \<in> set [''tg'', ''telegram''] then ''tg''
      else if c \<in> set [''dt'', ''dingtalk''] then ''dt''
      else if c \<in> set [''wx'', ''wechat''] then ''wx''
      else if c \<in> set [''fs'', ''feishu''] then ''fs''
      else if c = ''internal'' then ''internal''
      else trim_space channel)"

definition normalize_stored_channel :: "string \<Rightarrow> string" where
  "normalize_stored_channel channel =
     (let c = to_lower (trim_space channel) in
      if c \<in> set [''ws'', ''websocket''] then ''websocket''
      else if c \<in> set [''dg'', ''discord''] then ''discord''
      else if c \<in> set [''tg'', ''telegram''] then ''telegram''
      else if c \<in> set [''dt'', ''dingtalk''] then ''dingtalk''
      else if c \<in> set [''wx'', ''wechat''] then ''wechat''
      else if c \<in> set [''fs'', ''feishu''] then ''feishu''
      else if c = ''internal'' then ''internal''
      else trim_space channel)"

definition normalize_chat_type :: "string \<Rightarrow> string" where
  "normalize_chat_type chat_type =
     (let c = to_lower (trim_space chat_type) in
      if c \<in> set [[], ''dm''] then ''dm''
      else if c = ''group'' then ''group''
      else trim_space chat_type)"

section \<open>Building\<close>

definition build_agent_key ::
  "string \<Rightarrow> string \<Rightarrow> string \<Rightarrow> string \<Rightarrow> string \<Rightarrow> string" where
  "build_agent_key agent_id channel chat_type ref thread_id =
     (let base = ''agent:'' @ agent_id @ '':'' @ normalize_channel_segment channel @ '':'' @
                 normalize_chat_type chat_type @ '':'' @ ref
      in if thread_id = [] then base else base @ '':'' @ ''topic'' @ '':'' @ thread_id)"

definition build_room_key :: "string \<Rightarrow> string" where
  "build_room_key conversation_id = ''room:'' @ ''group'' @ '':'' @ trim_space conversation_id"

definition build_room_agent_key :: "string \<Rightarrow> string \<Rightarrow> string \<Rightarrow> string" where
  "build_room_agent_key conversation_id agent_id room_type =
     (let chat_type = (if trim_space room_type = ''dm'' then ''dm'' else ''group'')
      in build_agent_key (trim_space agent_id) ''ws'' chat_type (trim_space conversation_id) [])"

definition is_room_shared_key :: "string \<Rightarrow> bool" where
  "is_room_shared_key raw \<longleftrightarrow>
     (let parsed = parse_session_key raw
      in sk_kind parsed = KindRoom \<and> sk_structured parsed \<and> sk_conversation parsed \<noteq> [])"

definition parse_room_conversation :: "string \<Rightarrow> string" where
  "parse_room_conversation raw =
     (let parsed = parse_session_key raw
      in if sk_kind parsed \<noteq> KindRoom then [] else sk_conversation parsed)"

section \<open>Segments, topics and trimmed keys\<close>

definition wf_segment :: "string \<Rightarrow> bool" where
  "wf_segment s \<longleftrightarrow> trimmed s \<and> s \<noteq> [] \<and> colon \<notin> set s"

text \<open>A reference may contain colons, but no \<open>topic\<close> segment of its own.\<close>

definition wf_ref :: "string \<Rightarrow> bool" where
  "wf_ref s \<longleftrightarrow> trimmed s \<and> s \<noteq> [] \<and> ''topic'' \<notin> set (split_on colon s)"

lemma find_topic_from_notin: "''topic'' \<notin> set ps \<Longrightarrow> find_topic_from i ps = None"
  by (induction ps arbitrary: i) auto

lemma find_topic_from_first:
  "''topic'' \<notin> set ps \<Longrightarrow> 4 \<le> i \<Longrightarrow>
   find_topic_from i (ps @ ''topic'' # qs) = Some (i + length ps)"
  by (induction ps arbitrary: i) auto

lemma find_topic_index_head:
  "find_topic_index (a # b # c # d # ps) = find_topic_from 4 ps"
  by (simp add: find_topic_index_def numeral_eq_Suc)

lemma find_topic_from_bound: "find_topic_from i ps = Some t \<Longrightarrow> i \<le> t \<and> 4 \<le> t"
  by (induction ps arbitrary: i) (auto split: if_splits dest: Suc_leD)

lemma prefix_before_sep: "prefix w (a @ c # t) \<Longrightarrow> c \<notin> set w \<Longrightarrow> prefix w a"
  by (induction a arbitrary: w) (auto simp: prefix_Cons)

lemma space_runes_shape:
  "list_all (\<lambda>w. colon \<notin> set w \<and> hd w \<noteq> CHR ''a'' \<and> hd w \<noteq> CHR ''r'') space_runes"
  by code_simp

lemma space_runes_no_colon: "w \<in> set space_runes \<Longrightarrow> colon \<notin> set w"
  using space_runes_shape by (auto simp: list_all_iff)

lemma trimmed_key:
  assumes "trimmed s" "c \<in> set ''ar''"
  shows "trimmed (c # p @ colon # s)"
proof -
  have "starts_with_any space_runes (c # p @ colon # s) = None"
    using assms(2) space_runes_shape
    by (auto simp: starts_with_any_None_iff list_all_iff prefix_Cons)
  moreover have "starts_with_any (map rev space_runes) (rev (c # p @ colon # s)) = None"
    unfolding starts_with_any_None_iff
  proof (intro ballI impI notI)
    fix w assume w: "w \<in> set (map rev space_runes)" "w \<noteq> []"
      and "prefix w (rev (c # p @ colon # s))"
    then have "prefix w (rev s @ colon # (rev p @ [c]))" by simp
    moreover have "colon \<notin> set w"
      using w(1) space_runes_no_colon by auto
    ultimately have "prefix w (rev s)" by (rule prefix_before_sep)
    with assms(1) w show False
      by (auto simp: trimmed_def starts_with_any_None_iff)
  qed
  ultimately show ?thesis by (simp add: trimmed_def)
qed

lemma trimmed_agent_key: "trimmed s \<Longrightarrow> trimmed (''agent'' @ colon # p @ colon # s)"
  using trimmed_key[of s "CHR ''a''" "''gent'' @ colon # p"] by simp

lemma trimmed_room_key: "trimmed s \<Longrightarrow> trimmed (''room'' @ colon # p @ colon # s)"
  using trimmed_key[of s "CHR ''r''" "''oom'' @ colon # p"] by simp

lemma colon_notin_wf_segment [simp]: "wf_segment s \<Longrightarrow> colon \<notin> set s"
  by (simp add: wf_segment_def)

lemma split_agent_key:
  assumes "wf_segment a" "wf_segment c" "wf_segment t"
  shows "split_on colon (''agent'' @ colon # a @ colon # c @ colon # t @ colon # rest) =
    ''agent'' # a # c # t # split_on colon rest"
proof -
  have "split_on colon (''agent'' @ colon # s) = ''agent'' # split_on colon s" for s
    by (rule split_on_append) code_simp
  then show ?thesis using assms by (simp add: split_on_append del: append.simps)
qed

lemmas parse_simps = parse_session_key_def validation_error_def Let_def

section \<open>Building and parsing are inverse\<close>

definition agent_key :: "string \<Rightarrow> string \<Rightarrow> string \<Rightarrow> string \<Rightarrow> string" where
  "agent_key a c t rest = ''agent'' @ colon # a @ colon # c @ colon # t @ colon # rest"

lemma build_agent_key_eq:
  "build_agent_key a ch ct ref th =
     agent_key a (normalize_channel_segment ch) (normalize_chat_type ct)
       (if th = [] then ref else ref @ colon # ''topic'' @ colon # th)"
  by (simp add: build_agent_key_def agent_key_def Let_def)

lemma agent_key_prefix: "prefix ''agent:'' (agent_key a c t rest)"
  by (simp add: agent_key_def)

lemma agent_key_ne: "agent_key a c t rest \<noteq> []"
  by (simp add: agent_key_def)

lemma parse_agent_key:
  assumes seg: "wf_segment a" "wf_segment c" "wf_segment t"
    and key: "trimmed (agent_key a c t rest)"
    and parts: "split_on colon rest = parts"
    and topic: "find_topic_from 4 parts = topic"
    and ref: "(case topic of None \<Rightarrow> join '':'' parts | Some i \<Rightarrow> join '':'' (take (i - 4) parts)) = ref"
      "trimmed ref" "ref \<noteq> []"
    and thread: "(case topic of None \<Rightarrow> [] | Some i \<Rightarrow> join '':'' (drop (Suc i - 4) parts)) = th"
      "trimmed th" "topic \<noteq> None \<Longrightarrow> th \<noteq> []"
  shows "parse_session_key (agent_key a c t rest) =
    \<lparr>sk_raw = agent_key a c t rest, sk_kind = KindAgent, sk_structured = True,
     sk_shared = False, sk_agent = a, sk_channel = c, sk_chat_type = t, sk_ref = ref,
     sk_thread = th, sk_conversation = [], sk_room_ref = []\<rparr>"
proof -
  have split: "split_on colon (agent_key a c t rest) = ''agent'' # a # c # t # parts"
    unfolding agent_key_def by (simp only: split_agent_key[OF seg] parts)
  have ne: "parts \<noteq> []" using parts by auto
  have idx: "find_topic_index (''agent'' # a # c # t # parts) = topic"
    by (simp add: find_topic_index_head topic)
  have seg': "trim_space a = a" "a \<noteq> []" "trim_space c = c" "c \<noteq> []" "trim_space t = t" "t \<noteq> []"
    using seg by (auto simp: wf_segment_def)
  have len: "\<not> length (''agent'' # a # c # t # parts) < 5" using ne by (cases parts) auto
  have dr: "drop 4 (''agent'' # a # c # t # parts) = parts"
    by (simp add: numeral_eq_Suc)
  have dr2: "topic = Some i \<Longrightarrow> drop i (a # c # t # parts) = drop (i - 3) parts" for i
    using find_topic_from_bound[of 4 parts i] topic
    by (simp add: numeral_eq_Suc drop_Cons split: nat.splits)
  have valid: "validation_error (agent_key a c t rest) = []"
    unfolding validation_error_def Let_def trim_space_id[OF key] split idx dr
    using seg' len ref thread agent_key_ne[of a c t rest]
    by (cases topic) (auto simp: agent_key_prefix dr2)
  show ?thesis
    unfolding parse_session_key_def Let_def trim_space_id[OF key] split idx dr valid
    using seg' ref thread len ne
    by (cases topic) (auto simp: agent_key_prefix dr2)
qed

lemma trimmed_agent_build:
  assumes "wf_ref ref" "trimmed th"
  shows "trimmed (agent_key a c t
    (if th = [] then ref else ref @ colon # ''topic'' @ colon # th))"
proof (cases "th = []")
  case True
  then show ?thesis
    using assms trimmed_agent_key[of ref "a @ colon # c @ colon # t"]
    by (simp add: agent_key_def wf_ref_def)
next
  case False
  then show ?thesis
    using assms trimmed_agent_key[of th "a @ colon # c @ colon # t @ colon # ref @ colon # ''topic''"]
    by (simp add: agent_key_def)
qed

lemma parse_build_agent:
  assumes "wf_segment a" "wf_segment (normalize_channel_segment ch)"
    "wf_segment (normalize_chat_type ct)" "wf_ref ref" "trimmed th"
  shows "parse_session_key (build_agent_key a ch ct ref th) =
    \<lparr>sk_raw = build_agent_key a ch ct ref th, sk_kind = KindAgent, sk_structured = True,
     sk_shared = False, sk_agent = a, sk_channel = normalize_channel_segment ch,
     sk_chat_type = normalize_chat_type ct, sk_ref = ref, sk_thread = th,
     sk_conversation = [], sk_room_ref = []\<rparr>"
proof (cases "th = []")
  case True
  have "find_topic_from 4 (split_on colon ref) = None"
    using assms(4) by (simp add: wf_ref_def find_topic_from_notin)
  with True show ?thesis
    unfolding build_agent_key_eq
    using assms trimmed_agent_build[OF assms(4,5)]
    by (intro parse_agent_key[where topic = None]) (auto simp: join_split_on wf_ref_def)
next
  case False
  have topic: "colon \<notin> set ''topic''" by code_simp
  have parts: "split_on colon (ref @ colon # ''topic'' @ colon # th) =
      split_on colon ref @ ''topic'' # split_on colon th"
    using split_on_append[OF topic] by (simp add: split_on_append2 del: append.simps)
  have find: "find_topic_from 4 (split_on colon ref @ ''topic'' # split_on colon th) =
      Some (4 + length (split_on colon ref))"
    using assms(4) by (intro find_topic_from_first) (auto simp: wf_ref_def)
  have nid: "(if th = [] then ref else ref @ colon # ''topic'' @ colon # th) =
      ref @ colon # ''topic'' @ colon # th"
    using False by simp
  show ?thesis
    using assms False find trimmed_agent_build[OF assms(4,5)]
    unfolding build_agent_key_eq nid
    by (intro parse_agent_key[OF _ _ _ _ parts find]) (auto simp: join_split_on wf_ref_def)
qed

lemma build_agent_key_inj:
  assumes "wf_segment a" "wf_segment (normalize_channel_segment ch)"
    "wf_segment (normalize_chat_type ct)" "wf_ref ref" "trimmed th"
    and "wf_segment a'" "wf_segment (normalize_channel_segment ch')"
    "wf_segment (normalize_chat_type ct')" "wf_ref ref'" "trimmed th'"
    and eq: "build_agent_key a ch ct ref th = build_agent_key a' ch' ct' ref' th'"
  shows "a = a' \<and> normalize_channel_segment ch = normalize_channel_segment ch' \<and>
    normalize_chat_type ct = normalize_chat_type ct' \<and> ref = ref' \<and> th = th'"
  using parse_build_agent[OF assms(1-5)] parse_build_agent[OF assms(6-10)] eq by simp

section \<open>Room keys\<close>
lemma split_room_key:
  "split_on colon (build_room_key c) = ''room'' # ''group'' # split_on colon (trim_space c)"
proof -
  have "split_on colon (''room'' @ colon # s) = ''room'' # split_on colon s"
    "split_on colon (''group'' @ colon # s) = ''group'' # split_on colon s" for s
    by (rule split_on_append, code_simp)+
  then show ?thesis by (simp add: build_room_key_def del: split_on.simps)
qed

lemma trimmed_build_room_key: "trimmed (build_room_key c)"
  using trimmed_room_key[of "trim_space c" "''group''"] by (simp add: build_room_key_def)

lemma build_room_key_prefix:
  "prefix ''room:'' (build_room_key c)" "\<not> prefix ''agent:'' (build_room_key c)"
  "build_room_key c \<noteq> []"
  by (simp_all add: build_room_key_def)

lemma room_key_parts:
  "drop 2 (split_on colon (build_room_key c)) = split_on colon (trim_space c)"
  "split_on colon (build_room_key c) ! 1 = ''group''"
  "2 < length (split_on colon (build_room_key c))"
  by (simp_all add: split_room_key del: split_on.simps)

lemma validation_build_room:
  "validation_error (build_room_key c) = [] \<longleftrightarrow> trim_space c \<noteq> []"
  using room_key_parts[of c]
  unfolding validation_error_def Let_def trim_space_id[OF trimmed_build_room_key]
  by (simp add: build_room_key_prefix join_split_on)

lemma parse_build_room:
  "parse_room_conversation (build_room_key c) = trim_space c"
  "is_room_shared_key (build_room_key c) \<longleftrightarrow> trim_space c \<noteq> []"
proof -
  note room_key_parts[of c]
  then have p: "sk_conversation (parse_session_key (build_room_key c)) = trim_space c"
    "sk_kind (parse_session_key (build_room_key c)) = KindRoom"
    "sk_structured (parse_session_key (build_room_key c)) \<longleftrightarrow> trim_space c \<noteq> []"
    unfolding parse_session_key_def Let_def trim_space_id[OF trimmed_build_room_key]
    by (simp_all add: build_room_key_prefix join_split_on validation_build_room)
  show "parse_room_conversation (build_room_key c) = trim_space c"
    "is_room_shared_key (build_room_key c) \<longleftrightarrow> trim_space c \<noteq> []"
    by (auto simp: parse_room_conversation_def is_room_shared_key_def Let_def p)
qed

section \<open>Channels\<close>
lemma to_lower_trimmed: "trimmed c \<Longrightarrow> to_lower (trim_space c) = to_lower c"
  by simp

text \<open>The canonical names are fixed points; any other value is kept, trimmed.\<close>

abbreviation known_channels :: "string list" where
  "known_channels \<equiv> [''ws'', ''websocket'', ''dg'', ''discord'', ''tg'', ''telegram'', ''dt'',
     ''dingtalk'', ''wx'', ''wechat'', ''fs'', ''feishu'', ''internal'']"

lemma known_channels_plain: "list_all plain_word known_channels"
  by (simp add: plain_simps)

lemma known_channel_lower:
  assumes "w \<in> set known_channels"
  shows "trim_space w = w" "to_lower w = w"
  using assms known_channels_plain unfolding list_all_iff
  by (auto intro: plain_word_trim plain_word_lower)

lemma channel_names:
  assumes "w \<in> set known_channels"
  shows "normalize_channel_segment (normalize_stored_channel w) = normalize_channel_segment w \<and>
    normalize_stored_channel (normalize_channel_segment w) = normalize_stored_channel w \<and>
    normalize_channel_segment (normalize_channel_segment w) = normalize_channel_segment w \<and>
    normalize_stored_channel (normalize_stored_channel w) = normalize_stored_channel w"
proof -
  have seg: "normalize_channel_segment v = (let c = v in
      if c \<in> set [''ws'', ''websocket''] then ''ws''
      else if c \<in> set [''dg'', ''discord''] then ''dg''
      else if c \<in> set [''tg'', ''telegram''] then ''tg''
      else if c \<in> set [''dt'', ''dingtalk''] then ''dt''
      else if c \<in> set [''wx'', ''wechat''] then ''wx''
      else if c \<in> set [''fs'', ''feishu''] then ''fs''
      else if c = ''internal'' then ''internal'' else c)" if "v \<in> set known_channels" for v
    using that known_channel_lower[OF that] by (simp add: normalize_channel_segment_def Let_def)
  have st: "normalize_stored_channel v = (let c = v in
      if c \<in> set [''ws'', ''websocket''] then ''websocket''
      else if c \<in> set [''dg'', ''discord''] then ''discord''
      else if c \<in> set [''tg'', ''telegram''] then ''telegram''
      else if c \<in> set [''dt'', ''dingtalk''] then ''dingtalk''
      else if c \<in> set [''wx'', ''wechat''] then ''wechat''
      else if c \<in> set [''fs'', ''feishu''] then ''feishu''
      else if c = ''internal'' then ''internal'' else c)" if "v \<in> set known_channels" for v
    using that known_channel_lower[OF that] by (simp add: normalize_stored_channel_def Let_def)
  show ?thesis
    using assms by (simp only: set_simps insert_iff empty_iff simp_thms) (elim disjE; simp add: seg st)
qed

lemma normalize_channel_by_name:
  assumes "to_lower (trim_space c) = w" "to_lower (trim_space d) = w" "w \<in> set known_channels"
  shows "normalize_channel_segment c = normalize_channel_segment d"
    "normalize_stored_channel c = normalize_stored_channel d"
  using assms(3)
  unfolding normalize_channel_segment_def normalize_stored_channel_def Let_def assms(1,2)
  by (simp_all split del: if_split only: set_simps insert_iff empty_iff simp_thms)
    (elim disjE; simp)+

lemma normalize_channel_cases:
  obtains (known) w where "w \<in> set known_channels"
      "normalize_channel_segment c = normalize_channel_segment w"
      "normalize_stored_channel c = normalize_stored_channel w"
  | (other) "normalize_channel_segment c = trim_space c" "normalize_stored_channel c = trim_space c"
proof (cases "to_lower (trim_space c) \<in> set known_channels")
  case True
  have "to_lower (trim_space (to_lower (trim_space c))) = to_lower (trim_space c)"
    using known_channel_lower[OF True] by (simp only:)
  then show thesis by (intro that(1)[OF True] normalize_channel_by_name[OF refl _ True])
next
  case False
  then show thesis
    by (intro that(2)) (simp_all add: normalize_channel_segment_def normalize_stored_channel_def Let_def)
qed

section \<open>Properties\<close>

text \<open>C40. Building an agent session key and parsing it gives back every segment: for an agent id,
  channel and chat type without colons and a reference without a \<open>topic\<close> segment, the parse
  is structured, of the agent kind, and holds exactly the normalised segments that went in.\<close>
theorem agent_key_roundtrip:
  assumes "wf_segment a" "wf_segment (normalize_channel_segment ch)"
    "wf_segment (normalize_chat_type ct)" "wf_ref ref" "trimmed th"
  shows "parse_session_key (build_agent_key a ch ct ref th) =
    \<lparr>sk_raw = build_agent_key a ch ct ref th, sk_kind = KindAgent, sk_structured = True,
     sk_shared = False, sk_agent = a, sk_channel = normalize_channel_segment ch,
     sk_chat_type = normalize_chat_type ct, sk_ref = ref, sk_thread = th,
     sk_conversation = [], sk_room_ref = []\<rparr>"
  by (rule parse_build_agent[OF assms])

theorem agent_key_roundtrip_witness:
  "sk_ref (parse_session_key (build_agent_key ''a1'' ''Telegram'' [] ''x:y'' ''t'')) = ''x:y''"
proof -
  have "wf_segment ''a1''" "wf_segment (normalize_channel_segment ''Telegram'')"
    "wf_segment (normalize_chat_type [])" "wf_ref ''x:y''" "trimmed ''t''"
    by code_simp+
  from agent_key_roundtrip[OF this] show ?thesis by simp
qed

text \<open>Two well-formed addresses never share an agent session key: equal keys have equal agent,
  channel, chat type, reference and thread.\<close>
lemma agent_key_injective:
  assumes "wf_segment a" "wf_segment (normalize_channel_segment ch)"
    "wf_segment (normalize_chat_type ct)" "wf_ref ref" "trimmed th"
    and "wf_segment a'" "wf_segment (normalize_channel_segment ch')"
    "wf_segment (normalize_chat_type ct')" "wf_ref ref'" "trimmed th'"
  shows "build_agent_key a ch ct ref th = build_agent_key a' ch' ct' ref' th' \<longleftrightarrow>
    a = a' \<and> normalize_channel_segment ch = normalize_channel_segment ch' \<and>
    normalize_chat_type ct = normalize_chat_type ct' \<and> ref = ref' \<and> th = th'"
  using build_agent_key_inj[OF assms] by (auto simp: build_agent_key_def)

lemma agent_key_injective_witness:
  "build_agent_key ''a'' ''ws'' ''dm'' ''r'' [] \<noteq> build_agent_key ''b'' ''ws'' ''dm'' ''r'' []"
proof -
  have w: "wf_segment ''a''" "wf_segment ''b''" "wf_segment (normalize_channel_segment ''ws'')"
    "wf_segment (normalize_chat_type ''dm'')" "wf_ref ''r''" "trimmed []"
    by code_simp+
  show ?thesis
    using agent_key_injective[OF w(1,3,4,5,6) w(2,3,4,5,6)] by simp
qed

text \<open>A shared room key names its conversation: parsing the key built for a conversation gives
  the trimmed conversation id back, and the key counts as a shared room key exactly when that
  id is not blank.\<close>
lemma room_key_roundtrip:
  "parse_room_conversation (build_room_key c) = trim_space c \<and>
   (is_room_shared_key (build_room_key c) \<longleftrightarrow> trim_space c \<noteq> []) \<and>
   (is_structured_key (build_room_key c) \<longleftrightarrow> trim_space c \<noteq> [])"
  using parse_build_room[of c] validation_build_room[of c] by (simp add: is_structured_key_def)

text \<open>The short name of a channel in a key and its stored long name are two views of one channel:
  normalising either way after the other, or twice, gives what normalising once gives.\<close>
lemma channel_names_agree:
  "normalize_stored_channel (normalize_channel_segment c) = normalize_stored_channel c \<and>
   normalize_channel_segment (normalize_stored_channel c) = normalize_channel_segment c \<and>
   normalize_channel_segment (normalize_channel_segment c) = normalize_channel_segment c \<and>
   normalize_stored_channel (normalize_stored_channel c) = normalize_stored_channel c"
proof (cases rule: normalize_channel_cases[of c])
  case (known w)
  then show ?thesis using channel_names[OF known(1)] by simp
next
  case other
  moreover have "normalize_channel_segment (trim_space c) = normalize_channel_segment c"
    "normalize_stored_channel (trim_space c) = normalize_stored_channel c"
    by (simp_all add: normalize_channel_segment_def normalize_stored_channel_def Let_def)
  ultimately show ?thesis by simp
qed

end
