(* ===== verification/SessionPaths.thy ===== *)
theory SessionPaths
  imports SessionKey
begin

text \<open>
  Where the workspace store keeps a session, \<open>internal/storage/workspace/paths.go\<close>:
  the directory name of a session key and the paths below it. The lemmas show that a
  directory name is confined: it is built from a fixed safe alphabet and starts with a fixed
  word, so no key can leave the sessions directory.
\<close>

section \<open>Runes\<close>

text \<open>
  Ranging over a Go string decodes UTF-8; a byte that starts no well-formed encoding counts
  as one rune, U+FFFD.
\<close>

definition byte :: "char \<Rightarrow> nat" where
  "byte c = of_char c"

definition cont_byte :: "nat \<Rightarrow> bool" where
  "cont_byte n \<longleftrightarrow> 128 \<le> n \<and> n < 192"

definition decode2 :: "nat \<Rightarrow> string \<Rightarrow> (nat \<times> nat) option" where
  "decode2 b cs = (case cs of
      c1 # _ \<Rightarrow>
        if 194 \<le> b \<and> b < 224 \<and> cont_byte (byte c1)
        then Some ((b - 192) * 64 + (byte c1 - 128), 2) else None
    | _ \<Rightarrow> None)"

definition decode3 :: "nat \<Rightarrow> string \<Rightarrow> (nat \<times> nat) option" where
  "decode3 b cs = (case cs of
      c1 # c2 # _ \<Rightarrow>
        (let r = (b - 224) * 4096 + (byte c1 - 128) * 64 + (byte c2 - 128) in
         if 224 \<le> b \<and> b < 240 \<and> cont_byte (byte c1) \<and> cont_byte (byte c2)
            \<and> 2048 \<le> r \<and> \<not> (55296 \<le> r \<and> r < 57344)
         then Some (r, 3) else None)
    | _ \<Rightarrow> None)"

definition decode4 :: "nat \<Rightarrow> string \<Rightarrow> (nat \<times> nat) option" where
  "decode4 b cs = (case cs of
      c1 # c2 # c3 # _ \<Rightarrow>
        (let r = (b - 240) * 262144 + (byte c1 - 128) * 4096 + (byte c2 - 128) * 64
                 + (byte c3 - 128) in
         if 240 \<le> b \<and> b < 245 \<and> cont_byte (byte c1) \<and> cont_byte (byte c2)
            \<and> cont_byte (byte c3) \<and> 65536 \<le> r \<and> r < 1114112
         then Some (r, 4) else None)
    | _ \<Rightarrow> None)"

definition decode_rune :: "char \<Rightarrow> string \<Rightarrow> nat \<times> nat" where
  "decode_rune c cs =
     (let b = byte c in
      if b < 128 then (b, 1)
      else case decode2 b cs of Some r \<Rightarrow> r
      | None \<Rightarrow> (case decode3 b cs of Some r \<Rightarrow> r
      | None \<Rightarrow> (case decode4 b cs of Some r \<Rightarrow> r
      | None \<Rightarrow> (65533, 1))))"

text \<open>The loop drops the decoded rune; \<open>size - 1\<close> bytes after the first.\<close>

function runes :: "string \<Rightarrow> nat list" where
  "runes [] = []"
| "runes (c # cs) = (let (r, n) = decode_rune c cs in r # runes (drop (n - 1) cs))"
  by pat_completeness auto
termination
  by (relation "measure length") auto

text \<open>\<open>utf8.RuneCountInString\<close> and \<open>len([]rune(s))\<close>.\<close>

definition rune_count :: "string \<Rightarrow> nat" where
  "rune_count s = length (runes s)"

section \<open>Directory names\<close>

definition hex_digit :: "nat \<Rightarrow> char" where
  "hex_digit n = (if n < 10 then char_of (48 + n) else char_of (87 + n))"

text \<open>\<open>strconv.FormatInt(n, 16)\<close> of a rune.\<close>

fun format_hex :: "nat \<Rightarrow> string" where
  "format_hex n =
     (if n < 16 then [hex_digit n] else format_hex (n div 16) @ [hex_digit (n mod 16)])"

declare format_hex.simps [simp del]

definition is_alnum :: "nat \<Rightarrow> bool" where
  "is_alnum r \<longleftrightarrow> (97 \<le> r \<and> r \<le> 122) \<or> (65 \<le> r \<and> r \<le> 90) \<or> (48 \<le> r \<and> r \<le> 57)"

text \<open>\<open>strings.Trim(s, "-")\<close>.\<close>

definition trim_dashes :: "string \<Rightarrow> string" where
  "trim_dashes s =
     rev (dropWhile (\<lambda>c. c = CHR ''-'') (rev (dropWhile (\<lambda>c. c = CHR ''-'') s)))"

definition escape_rune :: "nat \<Rightarrow> string" where
  "escape_rune r =
     (if is_alnum r then [char_of r]
      else if r = 45 \<or> r = 95 \<or> r = 46 then [char_of r]
      else ''_'' @ format_hex r)"

definition escape_path_atom :: "string \<Rightarrow> string" where
  "escape_path_atom value =
     (let v = trim_space value
      in if v = [] then [] else trim_dashes (concat (map escape_rune (runes v))))"

definition join_path_segments :: "string list \<Rightarrow> string" where
  "join_path_segments parts = join ''-'' (filter (\<lambda>p. p \<noteq> []) (map trim_dashes parts))"

definition opt_part :: "string \<Rightarrow> string list" where
  "opt_part s = (if s = [] then [] else [s])"

definition opt_topic :: "string \<Rightarrow> string list" where
  "opt_topic s = (if s = [] then [] else [''topic'', s])"

definition encode_session_dir_name :: "string \<Rightarrow> string" where
  "encode_session_dir_name value =
     (let parsed = parse_session_key value in
      case sk_kind parsed of
        KindRoom \<Rightarrow> join_path_segments [''room'', escape_path_atom (sk_conversation parsed)]
      | KindAgent \<Rightarrow>
          (if trim_space (sk_chat_type parsed) = ''dm'' then
             join_path_segments
               ([''dm''] @ opt_part (escape_path_atom (sk_channel parsed))
                 @ opt_part (escape_path_atom (sk_ref parsed))
                 @ opt_topic (escape_path_atom (sk_thread parsed)))
           else if trim_space (sk_chat_type parsed) = ''group'' then
             (let channel = trim_space (sk_channel parsed) in
              join_path_segments
                ([''room'']
                 @ (if channel \<noteq> [] \<and> channel \<noteq> ''ws'' then [escape_path_atom channel] else [])
                 @ opt_part (escape_path_atom (sk_ref parsed))
                 @ opt_topic (escape_path_atom (sk_thread parsed))))
           else
             join_path_segments
               [''session'', escape_path_atom (sk_channel parsed),
                escape_path_atom (sk_ref parsed), escape_path_atom (sk_thread parsed)])
      | KindUnknown \<Rightarrow> join_path_segments [''session'', escape_path_atom value])"

definition encode_conversation_dir_name :: "string \<Rightarrow> string" where
  "encode_conversation_dir_name conversation_id =
     join_path_segments [''room'', escape_path_atom conversation_id]"

section \<open>Paths\<close>

text \<open>
  \<open>filepath.Join\<close> on Unix: the non-empty elements joined by a slash, then cleaned
  lexically; \<open>clean_segments\<close> is the cleaning with the segments seen so far reversed.
\<close>

fun clean_segments :: "bool \<Rightarrow> string list \<Rightarrow> string list \<Rightarrow> string list" where
  "clean_segments rooted acc [] = rev acc"
| "clean_segments rooted acc (s # ss) =
     (if s = [] \<or> s = ''.'' then clean_segments rooted acc ss
      else if s = ''..'' then
        (case acc of
           a # acc' \<Rightarrow>
             if a = ''..'' then clean_segments rooted (''..'' # acc) ss
             else clean_segments rooted acc' ss
         | [] \<Rightarrow> clean_segments rooted (if rooted then [] else [''..'']) ss)
      else clean_segments rooted (s # acc) ss)"

definition clean_path :: "string \<Rightarrow> string" where
  "clean_path p =
     (let rooted = prefix ''/'' p;
          body = join ''/'' (clean_segments rooted [] (split_on (CHR ''/'') p))
      in if rooted then ''/'' @ body else if body = [] then ''.'' else body)"

definition file_join :: "string list \<Rightarrow> string" where
  "file_join elems =
     (let es = filter (\<lambda>e. e \<noteq> []) elems
      in if es = [] then [] else clean_path (join ''/'' es))"

definition session_dir :: "string \<Rightarrow> string \<Rightarrow> string" where
  "session_dir workspace_path key =
     file_join [workspace_path, ''.agents'', ''sessions'', encode_session_dir_name key]"

definition session_root :: "string \<Rightarrow> string" where
  "session_root workspace_path = file_join [workspace_path, ''.agents'', ''sessions'']"

definition session_meta_path :: "string \<Rightarrow> string \<Rightarrow> string" where
  "session_meta_path workspace_path key = file_join [session_dir workspace_path key, ''meta.json'']"

definition session_overlay_path :: "string \<Rightarrow> string \<Rightarrow> string" where
  "session_overlay_path workspace_path key =
     file_join [session_dir workspace_path key, ''overlay.jsonl'']"

definition session_input_queue_path :: "string \<Rightarrow> string \<Rightarrow> string" where
  "session_input_queue_path workspace_path key =
     file_join [session_dir workspace_path key, ''input_queue.jsonl'']"

section \<open>Directory names are confined\<close>

definition safe_char :: "char \<Rightarrow> bool" where
  "safe_char c \<longleftrightarrow> is_alnum (byte c) \<or> byte c = 45 \<or> byte c = 95 \<or> byte c = 46"

definition safe_name :: "string \<Rightarrow> bool" where
  "safe_name s \<longleftrightarrow> (\<forall>c \<in> set s. safe_char c)"

definition safe_parts :: "string list \<Rightarrow> bool" where
  "safe_parts ps \<longleftrightarrow> (\<forall>p \<in> set ps. safe_name p)"

lemma safe_name_simps [simp]:
  "safe_name []"
  "safe_name (s @ t) \<longleftrightarrow> safe_name s \<and> safe_name t"
  by (auto simp: safe_name_def)

lemma safe_parts_simps [simp]:
  "safe_parts []"
  "safe_parts (p # ps) \<longleftrightarrow> safe_name p \<and> safe_parts ps"
  "safe_parts (ps @ qs) \<longleftrightarrow> safe_parts ps \<and> safe_parts qs"
  by (auto simp: safe_parts_def)

lemma safe_char_hex_digit: "n < 16 \<Longrightarrow> safe_char (hex_digit n)"
  by (auto simp: hex_digit_def safe_char_def is_alnum_def byte_def of_char_of)

lemma safe_format_hex: "safe_name (format_hex n)"
proof (induction n rule: format_hex.induct)
  case (1 n)
  then show ?case
    by (cases "n < 16") (simp_all add: format_hex.simps[of n] safe_char_hex_digit, simp_all add: safe_name_def safe_char_hex_digit)
qed

lemma safe_underscore: "safe_name ''_''"
  by code_simp

lemma safe_escape_rune: "safe_name (escape_rune r)"
proof (cases "is_alnum r \<or> r = 45 \<or> r = 95 \<or> r = 46")
  case True
  then show ?thesis
    by (auto simp: escape_rune_def safe_name_def safe_char_def is_alnum_def byte_def of_char_of)
next
  case False
  then have "escape_rune r = ''_'' @ format_hex r" by (simp add: escape_rune_def)
  then show ?thesis
    by (simp only: safe_name_simps safe_underscore safe_format_hex)
qed

lemma safe_trim_dashes [simp]: "safe_name s \<Longrightarrow> safe_name (trim_dashes s)"
  by (force simp: trim_dashes_def safe_name_def dest: set_dropWhileD)

lemma safe_escape_path_atom [simp]: "safe_name (escape_path_atom v)"
proof -
  have "safe_name (concat (map escape_rune rs))" for rs
    by (induction rs) (simp_all add: safe_escape_rune)
  then show ?thesis by (simp add: escape_path_atom_def Let_def)
qed

lemma safe_dash: "safe_name ''-''"
  by code_simp

lemma safe_join: "safe_parts ps \<Longrightarrow> safe_name (join ''-'' ps)"
proof (induction ps)
  case (Cons p ps)
  show ?case
  proof (cases "ps = []")
    case False
    with Cons have "safe_name p \<and> safe_name ''-'' \<and> safe_name (join ''-'' ps)"
      by (auto simp: safe_dash)
    then show ?thesis by (simp only: join_Cons[OF False] safe_name_simps)
  qed (use Cons in simp)
qed simp

lemma safe_join_path_segments: "safe_parts ps \<Longrightarrow> safe_name (join_path_segments ps)"
  unfolding join_path_segments_def by (rule safe_join) (auto simp: safe_parts_def)

lemma safe_words [simp]:
  "safe_name ''room''" "safe_name ''dm''" "safe_name ''session''" "safe_name ''topic''"
  by code_simp+

lemma safe_opt [simp]:
  "safe_parts (opt_part (escape_path_atom v))" "safe_parts (opt_topic (escape_path_atom v))"
  by (simp_all add: opt_part_def opt_topic_def)

lemma safe_encode_session_dir_name: "safe_name (encode_session_dir_name k)"
  unfolding encode_session_dir_name_def Let_def
  by (simp split: session_key_kind.split add: safe_join_path_segments)

lemma prefix_join_path_segments:
  assumes "trim_dashes w = w" "w \<noteq> []"
  shows "prefix w (join_path_segments (w # ps))"
  using assms
  by (cases "filter (\<lambda>p. p \<noteq> []) (map trim_dashes ps)") (auto simp: join_path_segments_def)

lemma trim_dashes_words:
  "trim_dashes ''room'' = ''room''" "trim_dashes ''dm'' = ''dm''"
  "trim_dashes ''session'' = ''session''"
  by (simp_all add: trim_dashes_def)

lemmas word_prefixes =
  trim_dashes_words[THEN prefix_join_path_segments, simplified]

lemma prefix_encode_session_dir_name:
  "prefix ''room'' (encode_session_dir_name k) \<or> prefix ''dm'' (encode_session_dir_name k)
   \<or> prefix ''session'' (encode_session_dir_name k)"
  unfolding encode_session_dir_name_def Let_def
  by (cases "sk_kind (parse_session_key k)") (simp_all add: word_prefixes)

text \<open>
  The name is a single path segment: it has no slash and is neither empty nor one of the
  special names, so cleaning keeps it as the last segment.
\<close>

lemma safe_name_no_slash: "safe_name s \<Longrightarrow> CHR ''/'' \<notin> set s"
  by (auto simp: safe_name_def safe_char_def is_alnum_def byte_def)

lemma session_dir_name_segment:
  "CHR ''/'' \<notin> set (encode_session_dir_name k)"
  "encode_session_dir_name k \<noteq> []"
  "encode_session_dir_name k \<noteq> ''.''"
  "encode_session_dir_name k \<noteq> ''..''"
  using prefix_encode_session_dir_name[of k] safe_name_no_slash[OF safe_encode_session_dir_name]
  by auto

section \<open>Paths below the sessions directory\<close>

lemma clean_segments_append:
  "clean_segments rooted acc (xs @ ys) = clean_segments rooted (rev (clean_segments rooted acc xs)) ys"
  by (induction xs arbitrary: acc) (auto split: list.split)

definition plain_segment :: "string \<Rightarrow> bool" where
  "plain_segment s \<longleftrightarrow> CHR ''/'' \<notin> set s \<and> s \<noteq> [] \<and> s \<noteq> ''.'' \<and> s \<noteq> ''..''"

lemma clean_segments_plain:
  "list_all plain_segment ys \<Longrightarrow> clean_segments rooted acc ys = rev acc @ ys"
  by (induction ys arbitrary: acc) (auto simp: plain_segment_def)

lemma split_on_join_plain:
  "list_all plain_segment ys \<Longrightarrow>
   split_on (CHR ''/'') (join ''/'' (w # ys)) = split_on (CHR ''/'') w @ ys"
proof (cases "ys = []")
  case False
  assume "list_all plain_segment ys"
  with False have "split_on (CHR ''/'') (join ''/'' ys) = ys"
    by (intro split_on_join) (auto simp: list_all_iff plain_segment_def)
  with False show ?thesis by (simp add: join_Cons split_on_append2)
qed simp

lemma join_snoc: "xs \<noteq> [] \<Longrightarrow> join sep (xs @ [x]) = join sep xs @ sep @ x"
  by (induction xs rule: induct_list012) auto

text \<open>Joining plain segments to a directory appends them to its cleaned segments.\<close>

lemma file_join_plain:
  assumes "list_all plain_segment ys" "ys \<noteq> []" "w \<noteq> []"
  shows "file_join (w # ys) =
    (if prefix ''/'' w then ''/'' else []) @
    join ''/'' (clean_segments (prefix ''/'' w) [] (split_on (CHR ''/'') w) @ ys)"
proof -
  have f: "filter (\<lambda>e. e \<noteq> []) (w # ys) = w # ys"
    using assms by (auto simp: list_all_iff plain_segment_def filter_id_conv)
  have p: "prefix ''/'' (join ''/'' (w # ys)) = prefix ''/'' w"
    using assms(2,3) by (cases w) (auto simp: join_Cons)
  have ne: "join ''/'' (xs @ ys) \<noteq> []" for xs
  proof -
    obtain zs z where "ys = zs @ [z]" "z \<noteq> []"
      using assms(1,2) by (cases ys rule: rev_cases) (auto simp: plain_segment_def)
    then show ?thesis by (cases "xs @ zs = []") (auto simp: join_snoc simp flip: append_assoc)
  qed
  show ?thesis
    unfolding file_join_def f clean_path_def Let_def p split_on_join_plain[OF assms(1)]
    using ne by (simp add: clean_segments_append clean_segments_plain[OF assms(1)])
qed

lemma plain_session_name: "plain_segment (encode_session_dir_name k)"
  using session_dir_name_segment[of k] by (simp add: plain_segment_def)

lemma plain_fixed: "plain_segment ''.agents''" "plain_segment ''sessions''"
  by code_simp+

lemma session_dir_below_root:
  assumes "w \<noteq> []"
  shows "session_dir w k = session_root w @ ''/'' @ encode_session_dir_name k"
proof -
  have "join ''/'' (xs @ [''.agents'', ''sessions'', n]) =
      join ''/'' (xs @ [''.agents'', ''sessions'']) @ ''/'' @ n" for xs n
    using join_snoc[of "xs @ [''.agents'', ''sessions'']" "''/''" n] by simp
  then show ?thesis
    using assms by (simp add: session_dir_def session_root_def file_join_plain plain_fixed plain_session_name)
qed

section \<open>Properties\<close>

text \<open>A session key cannot leave the sessions directory: whatever text the key holds, its
  directory is the sessions root followed by one path segment, which has no slash, is neither
  \<open>.\<close> nor \<open>..\<close>, and uses only letters, digits, dash, underscore and dot.\<close>

lemma session_dir_confined:
  assumes "w \<noteq> []"
  shows "session_dir w k = session_root w @ ''/'' @ encode_session_dir_name k \<and>
    CHR ''/'' \<notin> set (encode_session_dir_name k) \<and>
    encode_session_dir_name k \<notin> {[], ''.'', ''..''} \<and>
    (\<forall>c \<in> set (encode_session_dir_name k). safe_char c)"
  using session_dir_below_root[OF assms] session_dir_name_segment[of k]
    safe_encode_session_dir_name[of k]
  by (auto simp: safe_name_def list_all_iff)

lemma session_dir_confined_witness:
  "session_dir ''/w'' ''../../etc'' = ''/w/.agents/sessions/session-.._2f.._2fetc'' \<and>
   session_dir ''/w'' ''../../etc'' =
     session_root ''/w'' @ ''/'' @ encode_session_dir_name ''../../etc''"
proof -
  have "session_root ''/w'' = ''/w/.agents/sessions''"
    "encode_session_dir_name ''../../etc'' = ''session-.._2f.._2fetc''"
    by code_simp+
  then show ?thesis using session_dir_confined[of "''/w''" "''../../etc''"] by simp
qed

text \<open>The directory name of a session does not identify it: two different structured keys, one
  with a topic thread and one whose reference spells the same words with dashes, are stored in
  the same directory, and so are two references that differ only in an escaped character.\<close>

lemma session_dirs_collide:
  "is_structured_key ''agent:a:ws:dm:x:topic:y'' \<and> is_structured_key ''agent:a:ws:dm:x-topic-y'' \<and>
   encode_session_dir_name ''agent:a:ws:dm:x:topic:y'' =
     encode_session_dir_name ''agent:a:ws:dm:x-topic-y'' \<and>
   encode_session_dir_name ''agent:a:ws:dm:x y'' = encode_session_dir_name ''agent:a:ws:dm:x_20y''"
  by (intro conjI; code_simp)

end
