(* ===== verification/InputQueue.thy ===== *)
theory InputQueue
  imports GoAny SessionKey
begin

text \<open>
  Items of the pending-input queue: \<open>internal/protocol/model_input_queue.go\<close>,
  \<open>model_delivery_policy.go\<close>, \<open>model_chat_attachment.go\<close>, the reply route of
  \<open>model_room_directed_message.go\<close> and the normalisation and decoding functions of
  \<open>internal/storage/workspace/store_input_queue.go\<close>. Go's string enumerations stay
  strings, since a raw value can be any string until it is normalised. The lemmas show that
  normalisation is idempotent, lands in the enumerations, and that a normalised item survives
  being written to and read back from the log.
\<close>

section \<open>Enumerations\<close>

definition normalize_queue_scope :: "string \<Rightarrow> string" where
  "normalize_queue_scope value =
     (if to_lower (trim_space value) = ''room'' then ''room'' else ''dm'')"

definition normalize_queue_source :: "string \<Rightarrow> string" where
  "normalize_queue_source value =
     (let normalized = to_lower (trim_space value) in
      if normalized \<in> set [''agent_public_mention'', ''agent_room_directed_message'']
      then normalized else ''user'')"

definition normalize_delivery_policy :: "string \<Rightarrow> string" where
  "normalize_delivery_policy value =
     (let p = to_lower (trim_space value) in
      if p = ''interrupt'' then ''interrupt''
      else if p = ''guide'' then ''guide''
      else if p = ''auto'' then ''auto''
      else if p \<in> set [''queue'', ''append''] then ''queue''
      else ''queue'')"

definition should_queue_running_round :: "string \<Rightarrow> bool" where
  "should_queue_running_round policy \<longleftrightarrow> policy = ''queue'' \<or> policy = ''auto''"

definition should_guide_running_round :: "string \<Rightarrow> bool" where
  "should_guide_running_round policy \<longleftrightarrow> policy = ''guide''"

section \<open>Attachments\<close>

record attachment =
  at_file_name :: string
  at_workspace_path :: string
  at_workspace_agent :: string
  at_room :: string
  at_conversation :: string
  at_scope :: string
  at_kind :: string
  at_mime :: string
  at_size :: int

definition normalize_attachment_kind :: "string \<Rightarrow> string" where
  "normalize_attachment_kind value =
     (let k = to_lower (trim_space value) in
      if k = ''image'' then ''image'' else if k = ''file'' then ''file'' else ''text'')"

definition normalize_attachment_scope :: "string \<Rightarrow> string \<Rightarrow> string" where
  "normalize_attachment_scope value conversation_id =
     (let s = to_lower (trim_space value) in
      if s = ''room_conversation'' then ''room_conversation''
      else if s = ''agent_workspace'' then ''agent_workspace''
      else if trim_space conversation_id \<noteq> [] then ''room_conversation''
      else ''agent_workspace'')"

definition normalize_attachment :: "attachment \<Rightarrow> string \<Rightarrow> attachment" where
  "normalize_attachment a default_agent =
     (let path = trim_space (map (\<lambda>c. if c = CHR 0x5C then CHR ''/'' else c) (at_workspace_path a));
          agent = first_non_empty [at_workspace_agent a, default_agent];
          conversation = trim_space (at_conversation a);
          scope = normalize_attachment_scope (at_scope a) conversation
      in \<lparr>at_file_name = trim_space (at_file_name a),
          at_workspace_path = path,
          at_workspace_agent = (if scope = ''room_conversation'' then [] else agent),
          at_room = trim_space (at_room a),
          at_conversation = conversation,
          at_scope = scope,
          at_kind = normalize_attachment_kind (at_kind a),
          at_mime = trim_space (at_mime a),
          at_size = (if at_size a < 0 then 0 else at_size a)\<rparr>)"

definition normalize_attachments :: "attachment list \<Rightarrow> string \<Rightarrow> attachment list" where
  "normalize_attachments values default_agent =
     filter (\<lambda>a. at_workspace_path a \<noteq> [])
       (map (\<lambda>a. normalize_attachment a default_agent) values)"

definition has_chat_input :: "string \<Rightarrow> attachment list \<Rightarrow> bool" where
  "has_chat_input content attachments \<longleftrightarrow>
     trim_space content \<noteq> [] \<or> 0 < length (normalize_attachments attachments [])"

definition attachment_from_map :: "any \<Rightarrow> attachment" where
  "attachment_from_map v =
     \<lparr>at_file_name = string_from_any (field v ''file_name''),
      at_workspace_path = string_from_any (field v ''workspace_path''),
      at_workspace_agent = string_from_any (field v ''workspace_agent_id''),
      at_room = string_from_any (field v ''room_id''),
      at_conversation = string_from_any (field v ''conversation_id''),
      at_scope = string_from_any (field v ''scope''),
      at_kind = string_from_any (field v ''kind''),
      at_mime = string_from_any (field v ''mime_type''),
      at_size = int64_from_any (field v ''size'')\<rparr>"

fun is_map :: "any \<Rightarrow> bool" where
  "is_map (AMap m) = True"
| "is_map _ = False"

fun attachments_from_any :: "any \<Rightarrow> attachment list" where
  "attachments_from_any (AList xs) =
     normalize_attachments (map attachment_from_map (filter is_map xs)) []"
| "attachments_from_any _ = []"

section \<open>Reply routes\<close>

datatype reply_route =
  ReplyRoute (rr_mode: string) (rr_recipients: "string list") (rr_wake: string)
    (rr_next: "reply_route option")

definition no_route :: reply_route where
  "no_route = ReplyRoute [] [] [] None"

fun normalize_reply_route :: "reply_route \<Rightarrow> reply_route" where
  "normalize_reply_route (ReplyRoute mode recipients wake nxt) =
     (if mode = ''public'' then ReplyRoute ''public'' [] [] None
      else if mode = ''private'' then
        ReplyRoute ''private'' (trim_unique recipients) wake
          (map_option normalize_reply_route nxt)
      else if mode = ''none'' then ReplyRoute ''none'' [] [] None
      else no_route)"

text \<open>
  \<open>inputQueueReplyRouteFromAny\<close> calls itself on the field \<open>next_reply_route\<close>, a
  strictly smaller value; on a missing field the call returns the empty route.
\<close>

lemma size_map_of: "map_of m k = Some w \<Longrightarrow> size w < size (AMap m)"
  by (induction m) (auto split: if_splits)

lemma size_field: "is_map v \<Longrightarrow> size (field v k) < size v"
  by (cases v) (auto simp: field_def split: option.split dest: size_map_of)

function reply_route_from_any :: "any \<Rightarrow> reply_route" where
  "reply_route_from_any v =
     (if \<not> is_map v then no_route
      else
        (let nxt = reply_route_from_any (field v ''next_reply_route'')
         in ReplyRoute (string_from_any (field v ''mode''))
              (string_slice_from_any (field v ''recipients''))
              (string_from_any (field v ''wake_policy''))
              (if rr_mode nxt \<noteq> [] then Some nxt else None)))"
  by pat_completeness auto
termination
  by (relation "measure size") (auto intro: size_field)

declare reply_route_from_any.simps [simp del]

section \<open>Queue items\<close>

record queue_item =
  iq_id :: string
  iq_scope :: string
  iq_session :: string
  iq_room :: string
  iq_conversation :: string
  iq_agent :: string
  iq_source_agent :: string
  iq_source_message :: string
  iq_targets :: "string list"
  iq_source :: string
  iq_content :: string
  iq_attachments :: "attachment list"
  iq_policy :: string
  iq_route :: reply_route
  iq_owner :: string
  iq_root_round :: string
  iq_hop :: int
  iq_order :: int
  iq_created :: int
  iq_updated :: int

record queue_location =
  loc_scope :: string
  loc_workspace :: string
  loc_session :: string
  loc_room :: string
  loc_conversation :: string

definition normalize_item :: "queue_location \<Rightarrow> queue_item \<Rightarrow> int \<Rightarrow> queue_item" where
  "normalize_item loc item now =
     (let created = (if iq_created item = 0 then now else iq_created item) in
      \<lparr>iq_id = trim_space (iq_id item),
       iq_scope = normalize_queue_scope (first_non_empty [iq_scope item, loc_scope loc]),
       iq_session = trim_space (first_non_empty [iq_session item, loc_session loc]),
       iq_room = trim_space (first_non_empty [iq_room item, loc_room loc]),
       iq_conversation = trim_space (first_non_empty [iq_conversation item, loc_conversation loc]),
       iq_agent = trim_space (iq_agent item),
       iq_source_agent = trim_space (iq_source_agent item),
       iq_source_message = trim_space (iq_source_message item),
       iq_targets = trim_unique (iq_targets item),
       iq_source = normalize_queue_source (iq_source item),
       iq_content = trim_space (iq_content item),
       iq_attachments = normalize_attachments (iq_attachments item) (trim_space (iq_agent item)),
       iq_policy = normalize_delivery_policy (iq_policy item),
       iq_route = normalize_reply_route (iq_route item),
       iq_owner = trim_space (iq_owner item),
       iq_root_round = trim_space (iq_root_round item),
       iq_hop = (if iq_hop item < 0 then 0 else iq_hop item),
       iq_order = (if iq_order item = 0 then created else iq_order item),
       iq_created = created,
       iq_updated = (if iq_updated item = 0 then created else iq_updated item)\<rparr>)"

text \<open>\<open>intFromAny\<close> of the store also parses strings; a log never has a string there.\<close>

definition item_from_any :: "any \<Rightarrow> queue_item option" where
  "item_from_any v =
     (if \<not> is_map v then None
      else Some
        \<lparr>iq_id = string_from_any (field v ''id''),
         iq_scope = string_from_any (field v ''scope''),
         iq_session = string_from_any (field v ''session_key''),
         iq_room = string_from_any (field v ''room_id''),
         iq_conversation = string_from_any (field v ''conversation_id''),
         iq_agent = string_from_any (field v ''agent_id''),
         iq_source_agent = string_from_any (field v ''source_agent_id''),
         iq_source_message = string_from_any (field v ''source_message_id''),
         iq_targets = string_slice_from_any (field v ''target_agent_ids''),
         iq_source = string_from_any (field v ''source''),
         iq_content = string_from_any (field v ''content''),
         iq_attachments = attachments_from_any (field v ''attachments''),
         iq_policy = string_from_any (field v ''delivery_policy''),
         iq_route = reply_route_from_any (field v ''reply_route''),
         iq_owner = string_from_any (field v ''owner_user_id''),
         iq_root_round = string_from_any (field v ''root_round_id''),
         iq_hop = int64_from_any (field v ''hop_index''),
         iq_order = int64_from_any (field v ''queue_order''),
         iq_created = int64_from_any (field v ''created_at''),
         iq_updated = int64_from_any (field v ''updated_at'')\<rparr>)"

section \<open>Encoding, by the json tags of the structs\<close>

definition attachment_fields :: "attachment \<Rightarrow> (string \<times> any option) list" where
  "attachment_fields a =
     [(''file_name'', Some (AStr (at_file_name a))),
      (''workspace_path'', Some (AStr (at_workspace_path a))),
      (''workspace_agent_id'', some_str (at_workspace_agent a)),
      (''room_id'', some_str (at_room a)),
      (''conversation_id'', some_str (at_conversation a)),
      (''scope'', some_str (at_scope a)),
      (''kind'', Some (AStr (at_kind a))),
      (''mime_type'', some_str (at_mime a)),
      (''size'', some_int (at_size a))]"

definition encode_attachment :: "attachment \<Rightarrow> any" where
  "encode_attachment a = AMap (present (attachment_fields a))"

fun encode_reply_route :: "reply_route \<Rightarrow> any" where
  "encode_reply_route (ReplyRoute mode recipients wake nxt) =
     AMap (present
       [(''mode'', Some (AStr mode)),
        (''recipients'', some_list (map AStr recipients)),
        (''wake_policy'', some_str wake),
        (''next_reply_route'', map_option encode_reply_route nxt)])"

definition item_fields :: "queue_item \<Rightarrow> (string \<times> any option) list" where
  "item_fields i =
     [(''id'', Some (AStr (iq_id i))),
      (''scope'', Some (AStr (iq_scope i))),
      (''session_key'', Some (AStr (iq_session i))),
      (''room_id'', some_str (iq_room i)),
      (''conversation_id'', some_str (iq_conversation i)),
      (''agent_id'', some_str (iq_agent i)),
      (''source_agent_id'', some_str (iq_source_agent i)),
      (''source_message_id'', some_str (iq_source_message i)),
      (''target_agent_ids'', some_list (map AStr (iq_targets i))),
      (''source'', Some (AStr (iq_source i))),
      (''content'', Some (AStr (iq_content i))),
      (''attachments'', some_list (map encode_attachment (iq_attachments i))),
      (''delivery_policy'', Some (AStr (iq_policy i))),
      (''reply_route'', Some (encode_reply_route (iq_route i))),
      (''owner_user_id'', some_str (iq_owner i)),
      (''root_round_id'', some_str (iq_root_round i)),
      (''hop_index'', some_int (iq_hop i)),
      (''queue_order'', some_int (iq_order i)),
      (''created_at'', Some (AInt (iq_created i))),
      (''updated_at'', Some (AInt (iq_updated i)))]"

definition encode_item :: "queue_item \<Rightarrow> any" where
  "encode_item i = AMap (present (item_fields i))"

section \<open>Normalised values\<close>

lemma lower_constants [simp]:
  "to_lower ''room'' = ''room''" "to_lower ''dm'' = ''dm''"
  "to_lower ''agent_public_mention'' = ''agent_public_mention''"
  "to_lower ''agent_room_directed_message'' = ''agent_room_directed_message''"
  "to_lower ''user'' = ''user''" "to_lower ''interrupt'' = ''interrupt''"
  "to_lower ''guide'' = ''guide''" "to_lower ''auto'' = ''auto''"
  "to_lower ''queue'' = ''queue''" "to_lower ''image'' = ''image''"
  "to_lower ''file'' = ''file''" "to_lower ''text'' = ''text''"
  "to_lower ''room_conversation'' = ''room_conversation''"
  "to_lower ''agent_workspace'' = ''agent_workspace''"
  by code_simp+

lemma trimmed_constants [simp]:
  "trimmed ''room''" "trimmed ''dm''"
  "trimmed ''agent_public_mention''" "trimmed ''agent_room_directed_message''"
  "trimmed ''user''" "trimmed ''interrupt''" "trimmed ''guide''" "trimmed ''auto''"
  "trimmed ''queue''" "trimmed ''image''" "trimmed ''file''" "trimmed ''text''"
  "trimmed ''room_conversation''" "trimmed ''agent_workspace''"
  "trimmed ''public''" "trimmed ''private''" "trimmed ''none''"
  by code_simp+

lemma normalize_queue_scope_idem [simp]:
  "normalize_queue_scope (normalize_queue_scope v) = normalize_queue_scope v"
  by (simp add: normalize_queue_scope_def)

lemma normalize_queue_source_idem [simp]:
  "normalize_queue_source (normalize_queue_source v) = normalize_queue_source v"
  by (simp add: normalize_queue_source_def Let_def)

lemma normalize_delivery_policy_idem [simp]:
  "normalize_delivery_policy (normalize_delivery_policy v) = normalize_delivery_policy v"
  by (simp add: normalize_delivery_policy_def Let_def)

lemma trimmed_normalize [simp]:
  "trimmed (normalize_queue_scope v)" "trimmed (normalize_queue_source v)"
  "trimmed (normalize_delivery_policy v)" "trimmed (normalize_attachment_kind v)"
  "trimmed (normalize_attachment_scope v c)"
  by (auto simp: normalize_queue_scope_def normalize_queue_source_def Let_def
      normalize_delivery_policy_def normalize_attachment_kind_def normalize_attachment_scope_def)

lemma normalize_queue_scope_ne [simp]: "normalize_queue_scope v \<noteq> []"
  by (simp add: normalize_queue_scope_def)

lemma normalize_attachment_idem_aux [simp]:
  "normalize_attachment_kind (normalize_attachment_kind v) = normalize_attachment_kind v"
  "normalize_attachment_scope (normalize_attachment_scope v c) d = normalize_attachment_scope v c"
  by (simp_all add: normalize_attachment_kind_def normalize_attachment_scope_def Let_def)

lemma set_strip: "set (strip ws s) \<subseteq> set s"
  using suffix_strip[of ws s] by (auto dest: set_mono_suffix)

lemma set_trim_space: "set (trim_space s) \<subseteq> set s"
  using set_strip[of space_runes s]
    set_strip[of "map rev space_runes" "rev (strip space_runes s)"]
  by (auto simp: trim_space_def trim_left_def trim_right_def)

lemma slashes_idem:
  "CHR 0x5C \<notin> set s \<Longrightarrow> map (\<lambda>c. if c = CHR 0x5C then CHR ''/'' else c) s = s"
  by (induction s) auto

lemma no_backslash: "CHR 0x5C \<notin> set (trim_space (map (\<lambda>c. if c = CHR 0x5C then CHR ''/'' else c) s))"
  using set_trim_space[of "map (\<lambda>c. if c = CHR 0x5C then CHR ''/'' else c) s"] by auto

lemma normalize_attachment_idem:
  "e = d \<or> e = [] \<Longrightarrow>
   normalize_attachment (normalize_attachment a d) e = normalize_attachment a d"
  by (auto simp: normalize_attachment_def Let_def slashes_idem no_backslash)

lemma normalize_attachments_idem [simp]:
  "e = d \<or> e = [] \<Longrightarrow>
   normalize_attachments (normalize_attachments as d) e = normalize_attachments as d"
  by (induction as) (auto simp: normalize_attachments_def normalize_attachment_idem)

lemma normalize_reply_route_idem [simp]:
  "normalize_reply_route (normalize_reply_route r) = normalize_reply_route r"
proof (induction r rule: normalize_reply_route.induct)
  case (1 mode recipients wake nxt)
  then show ?case by (cases nxt) (auto simp: no_route_def)
qed

lemma first_non_empty_trimmed [simp]: "trimmed v \<Longrightarrow> v \<noteq> [] \<Longrightarrow> first_non_empty (v # vs) = v"
  by simp

lemma first_non_empty_again [simp]:
  "first_non_empty [first_non_empty [a, b], b] = first_non_empty [a, b]"
  by simp

lemma normalize_item_idem:
  assumes "now \<noteq> 0"
  shows "normalize_item loc (normalize_item loc i now) t = normalize_item loc i now"
proof -
  have scope: "normalize_queue_scope (first_non_empty [normalize_queue_scope v, w]) = normalize_queue_scope v" for v w
    by simp
  show ?thesis
    using assms unfolding normalize_item_def Let_def
    by (simp add: scope del: first_non_empty.simps)
qed

section \<open>Writing an item and reading it back\<close>

text \<open>
  The route of an item survives encoding when its strings are trimmed and no nested route has
  the empty mode, which the encoding cannot tell from an absent one.
\<close>

fun wf_route :: "reply_route \<Rightarrow> bool" where
  "wf_route (ReplyRoute mode recipients wake nxt) \<longleftrightarrow>
     trimmed mode \<and> (\<forall>r \<in> set recipients. trimmed r \<and> r \<noteq> []) \<and> trimmed wake \<and>
     (case nxt of None \<Rightarrow> True | Some r \<Rightarrow> rr_mode r \<noteq> [] \<and> wf_route r)"

lemma reply_route_ANil [simp]: "reply_route_from_any ANil = no_route"
  by (simp add: reply_route_from_any.simps)

lemma decode_encode_route: "wf_route r \<Longrightarrow> reply_route_from_any (encode_reply_route r) = r"
proof (induction r rule: encode_reply_route.induct)
  case (1 mode recipients wake nxt)
  have nxt: "(let n = reply_route_from_any (value_of (map_option encode_reply_route nxt))
      in if rr_mode n \<noteq> [] then Some n else None) = nxt"
    using 1 by (cases nxt) (auto simp: no_route_def)
  show ?case
    using 1(2) nxt
    by (subst reply_route_from_any.simps) (simp add: field_present Let_def)
qed

definition wf_attachment :: "attachment \<Rightarrow> bool" where
  "wf_attachment a \<longleftrightarrow> normalize_attachment a [] = a \<and> at_workspace_path a \<noteq> []"

lemma attachment_trimmed:
  assumes "normalize_attachment a [] = a"
  shows "trimmed (at_file_name a)" "trimmed (at_workspace_path a)" "trimmed (at_workspace_agent a)"
    "trimmed (at_room a)" "trimmed (at_conversation a)" "trimmed (at_scope a)"
    "trimmed (at_kind a)" "trimmed (at_mime a)"
  by (subst assms[symmetric], simp add: normalize_attachment_def Let_def)+

lemma decode_encode_attachment:
  assumes "normalize_attachment a [] = a"
  shows "attachment_from_map (encode_attachment a) = a"
  using attachment_trimmed[OF assms]
  by (cases a) (simp add: attachment_from_map_def encode_attachment_def attachment_fields_def
      field_present)

lemma decode_encode_attachments:
  assumes "\<forall>a \<in> set as. wf_attachment a"
  shows "attachments_from_any (AList (map encode_attachment as)) = as"
proof -
  have "is_map (encode_attachment a)" for a
    by (simp add: encode_attachment_def)
  then have "map attachment_from_map (filter is_map (map encode_attachment as)) = as"
    using assms by (induction as) (auto simp: wf_attachment_def decode_encode_attachment)
  moreover have "normalize_attachments as [] = as"
    using assms by (induction as) (auto simp: wf_attachment_def normalize_attachments_def)
  ultimately show ?thesis by simp
qed

definition wf_item :: "queue_item \<Rightarrow> bool" where
  "wf_item i \<longleftrightarrow>
     trimmed (iq_id i) \<and> trimmed (iq_scope i) \<and> trimmed (iq_session i) \<and> trimmed (iq_room i) \<and>
     trimmed (iq_conversation i) \<and> trimmed (iq_agent i) \<and> trimmed (iq_source_agent i) \<and>
     trimmed (iq_source_message i) \<and> (\<forall>t \<in> set (iq_targets i). trimmed t \<and> t \<noteq> []) \<and>
     trimmed (iq_source i) \<and> trimmed (iq_content i) \<and>
     (\<forall>a \<in> set (iq_attachments i). wf_attachment a) \<and> trimmed (iq_policy i) \<and>
     wf_route (iq_route i) \<and> trimmed (iq_owner i) \<and> trimmed (iq_root_round i)"

lemma attachments_from_Nil: "attachments_from_any (AList []) = []"
  by (simp add: normalize_attachments_def)

lemma is_map_encode_item: "is_map (encode_item i)"
  by (simp add: encode_item_def)

lemma distinct_item_fields: "distinct (map fst (item_fields i))"
  by (simp add: item_fields_def)

lemma item_fields_lookup:
  "map_of (item_fields i) ''id'' = Some (Some (AStr (iq_id i)))"
  "map_of (item_fields i) ''scope'' = Some (Some (AStr (iq_scope i)))"
  "map_of (item_fields i) ''session_key'' = Some (Some (AStr (iq_session i)))"
  "map_of (item_fields i) ''room_id'' = Some (some_str (iq_room i))"
  "map_of (item_fields i) ''conversation_id'' = Some (some_str (iq_conversation i))"
  "map_of (item_fields i) ''agent_id'' = Some (some_str (iq_agent i))"
  "map_of (item_fields i) ''source_agent_id'' = Some (some_str (iq_source_agent i))"
  "map_of (item_fields i) ''source_message_id'' = Some (some_str (iq_source_message i))"
  "map_of (item_fields i) ''target_agent_ids'' = Some (some_list (map AStr (iq_targets i)))"
  "map_of (item_fields i) ''source'' = Some (Some (AStr (iq_source i)))"
  "map_of (item_fields i) ''content'' = Some (Some (AStr (iq_content i)))"
  "map_of (item_fields i) ''attachments'' =
     Some (some_list (map encode_attachment (iq_attachments i)))"
  "map_of (item_fields i) ''delivery_policy'' = Some (Some (AStr (iq_policy i)))"
  "map_of (item_fields i) ''reply_route'' = Some (Some (encode_reply_route (iq_route i)))"
  "map_of (item_fields i) ''owner_user_id'' = Some (some_str (iq_owner i))"
  "map_of (item_fields i) ''root_round_id'' = Some (some_str (iq_root_round i))"
  "map_of (item_fields i) ''hop_index'' = Some (some_int (iq_hop i))"
  "map_of (item_fields i) ''queue_order'' = Some (some_int (iq_order i))"
  "map_of (item_fields i) ''created_at'' = Some (Some (AInt (iq_created i)))"
  "map_of (item_fields i) ''updated_at'' = Some (Some (AInt (iq_updated i)))"
  by (simp_all add: item_fields_def)

lemma read_attachments:
  "\<forall>a \<in> set as. wf_attachment a \<Longrightarrow>
   attachments_from_any (value_of (some_list (map encode_attachment as))) = as"
  using decode_encode_attachments[of as] by (auto simp: some_list_def)

lemma decode_encode_item:
  assumes "wf_item i"
  shows "item_from_any (encode_item i) = Some i"
  using assms unfolding item_from_any_def wf_item_def encode_item_def
    field_present[OF distinct_item_fields] item_fields_lookup
  by (simp add: read_attachments decode_encode_route)

lemma wf_normalize_attachments: "\<forall>a \<in> set (normalize_attachments as d). wf_attachment a"
  by (auto simp: wf_attachment_def normalize_attachments_def normalize_attachment_idem)

lemma wf_normalize_item:
  "wf_route (normalize_reply_route (iq_route i)) \<Longrightarrow> wf_item (normalize_item loc i now)"
  by (simp add: wf_item_def normalize_item_def Let_def trim_unique_wf wf_normalize_attachments
      del: first_non_empty.simps)

lemma canonical_encode_attachment [simp]: "canonical (encode_attachment a)"
  unfolding encode_attachment_def attachment_fields_def
  by (rule canonical_present) simp

lemma canonical_encode_reply_route [simp]: "canonical (encode_reply_route r)"
proof (induction r rule: encode_reply_route.induct)
  case (1 mode recipients wake nxt)
  then show ?case
    unfolding encode_reply_route.simps
    by (intro canonical_present) (cases nxt, auto)
qed

lemma canonical_encode_item [simp]: "canonical (encode_item i)"
proof -
  have "list_all canonical (map encode_attachment as)" for as
    by (induction as) auto
  then show ?thesis
    unfolding encode_item_def item_fields_def by (intro canonical_present) simp
qed

text \<open>Items that normalisation leaves alone, whatever the time.\<close>

definition normal_item :: "queue_location \<Rightarrow> queue_item \<Rightarrow> bool" where
  "normal_item loc i \<longleftrightarrow> (\<forall>t. normalize_item loc i t = i)"

lemma normal_normalize_item [intro]: "0 < now \<Longrightarrow> normal_item loc (normalize_item loc i now)"
  by (simp add: normal_item_def normalize_item_idem)

lemma iq_id_normalize [simp]: "iq_id (normalize_item loc i t) = trim_space (iq_id i)"
  by (simp add: normalize_item_def Let_def)

lemma iq_created_normalize:
  "iq_created (normalize_item loc i t) = (if iq_created i = 0 then t else iq_created i)"
  by (simp add: normalize_item_def Let_def)

lemma normal_item_created: "normal_item loc i \<Longrightarrow> iq_created i \<noteq> 0"
  using iq_created_normalize[of loc i 1] by (auto simp: normal_item_def)

lemma normal_item_id: "normal_item loc i \<Longrightarrow> trimmed (iq_id i)"
  using iq_id_normalize[of loc i 1] by (simp add: normal_item_def trimmed_iff)

lemma normalize_item_order:
  "n \<noteq> 0 \<Longrightarrow> m \<noteq> 0 \<Longrightarrow> normalize_item loc (i\<lparr>iq_order := n, iq_updated := m\<rparr>) t =
     (normalize_item loc i t)\<lparr>iq_order := n, iq_updated := m\<rparr>"
  by (simp add: normalize_item_def Let_def)

lemma normalize_item_policy:
  "m \<noteq> 0 \<Longrightarrow> normalize_item loc (i\<lparr>iq_policy := p, iq_root_round := r, iq_updated := m\<rparr>) t =
     (normalize_item loc i t)\<lparr>iq_policy := normalize_delivery_policy p,
        iq_root_round := trim_space r, iq_updated := m\<rparr>"
  by (simp add: normalize_item_def Let_def)

lemma normalize_item_id:
  "normalize_item loc (i\<lparr>iq_id := k, iq_updated := m\<rparr>) t =
     (normalize_item loc i t)\<lparr>iq_id := trim_space k,
       iq_updated := (if m = 0 then iq_created (normalize_item loc i t) else m)\<rparr>"
  by (simp add: normalize_item_def Let_def)

lemma iq_order_normalize_ne: "0 < t \<Longrightarrow> iq_order (normalize_item loc i t) \<noteq> 0"
  "0 < t \<Longrightarrow> iq_created (normalize_item loc i t) \<noteq> 0"
  by (auto simp: normalize_item_def Let_def)

lemma iq_route_normalize: "iq_route (normalize_item loc i t) = normalize_reply_route (iq_route i)"
  by (simp add: normalize_item_def Let_def)

lemma wf_normal_item: "normal_item loc i \<Longrightarrow> wf_route (iq_route i) \<Longrightarrow> wf_item i"
  using wf_normalize_item[of i loc 1] iq_route_normalize[of loc i 1]
  by (simp add: normal_item_def)

end
