(* ===== verification/QueueStore.thy ===== *)
theory QueueStore
  imports InputQueue SessionPaths
begin

text \<open>
  The input queue store, \<open>internal/storage/workspace/store_input_queue.go\<close>: a queue is
  the replay of an append-only log of actions, one JSON line each
  (\<open>appendJSONL\<close> and \<open>readJSONL\<close> of \<open>store_session_file.go\<close>). The state is
  the map from paths to the rows written there; every operation takes the current time and
  returns an error or its result with the new files. The store's mutex makes each operation
  one step, so operations are functions. Operating system calls are taken to succeed.

  The abstract queue is a list of items with distinct ids; \<open>view\<close> is the abstraction of a
  replay state, and the lemmas \<open>view_...\<close> are the refinement of each row by a list
  operation. The locale \<open>append_log\<close> is the contract between the log and its readers.
\<close>

section \<open>The log\<close>

type_synonym files = "string \<rightharpoonup> any list"

definition append_jsonl :: "files \<Rightarrow> string \<Rightarrow> any \<Rightarrow> files" where
  "append_jsonl fs path row =
     fs(path \<mapsto> (case fs path of None \<Rightarrow> [] | Some rows \<Rightarrow> rows) @ [row])"

definition read_jsonl :: "files \<Rightarrow> string \<Rightarrow> any list option" where
  "read_jsonl fs path =
     map_option (\<lambda>rows. filter is_map (map (\<lambda>r. normalize_decoded (decoded r)) rows)) (fs path)"

text \<open>A log that does not exist yet reads as an empty one.\<close>

definition log_rows :: "files \<Rightarrow> string \<Rightarrow> any list" where
  "log_rows fs path = (case read_jsonl fs path of None \<Rightarrow> [] | Some rows \<Rightarrow> rows)"

locale append_log =
  fixes append :: "'f \<Rightarrow> 'p \<Rightarrow> 'r \<Rightarrow> 'f"
    and rows :: "'f \<Rightarrow> 'p \<Rightarrow> 'r list"
    and good :: "'r \<Rightarrow> bool"
  assumes rows_append: "good r \<Longrightarrow> rows (append f p r) p = rows f p @ [r]"
    and rows_append_other: "q \<noteq> p \<Longrightarrow> rows (append f p r) q = rows f q"
begin

lemma replay_append:
  "good r \<Longrightarrow> foldl step s (rows (append f p r) p) = step (foldl step s (rows f p)) r"
  by (simp add: rows_append)

lemma rows_append_all:
  "list_all good rs \<Longrightarrow> rows (foldl (\<lambda>f r. append f p r) f rs) p = rows f p @ rs"
  by (induction rs arbitrary: f) (simp_all add: rows_append)

lemma rows_append_all_other:
  "q \<noteq> p \<Longrightarrow> rows (foldl (\<lambda>f r. append f p r) f rs) q = rows f q"
  by (induction rs arbitrary: f) (simp_all add: rows_append_other)

lemma replay_append_all:
  "list_all good rs \<Longrightarrow>
   foldl step s (rows (foldl (\<lambda>f r. append f p r) f rs) p) = foldl step (foldl step s (rows f p)) rs"
  by (simp add: rows_append_all)

end

definition good_row :: "any \<Rightarrow> bool" where
  "good_row r \<longleftrightarrow> is_map r \<and> canonical r"

interpretation jsonl: append_log append_jsonl log_rows good_row
  by unfold_locales
    (auto simp: append_jsonl_def log_rows_def read_jsonl_def good_row_def
      normalize_decoded_canonical split: option.splits)

section \<open>Replaying a log\<close>

record replay_state =
  rs_items :: "string \<rightharpoonup> queue_item"
  rs_order :: "string list"

definition empty_replay :: replay_state where
  "empty_replay = \<lparr>rs_items = Map.empty, rs_order = []\<rparr>"

definition normalize_timestamp :: "any \<Rightarrow> int \<Rightarrow> int" where
  "normalize_timestamp v now = (let t = int64_from_any v in if 0 < t then t else now)"

definition remove_order_id :: "string list \<Rightarrow> string \<Rightarrow> string list" where
  "remove_order_id order item_id = filter (\<lambda>i. i \<noteq> item_id) order"

definition reorder_ids ::
  "string list \<Rightarrow> (string \<rightharpoonup> queue_item) \<Rightarrow> string list \<Rightarrow> string list" where
  "reorder_ids current items ordered =
     uniq (filter (\<lambda>i. i \<noteq> [] \<and> items i \<noteq> None) (map trim_space ordered)
           @ filter (\<lambda>i. items i \<noteq> None) current)"

fun apply_order ::
  "(string \<rightharpoonup> queue_item) \<Rightarrow> string list \<Rightarrow> int \<Rightarrow> (string \<rightharpoonup> queue_item)" where
  "apply_order items [] stamp = items"
| "apply_order items (i # is) stamp =
     (let j = trim_space i in
      apply_order
        (case items j of
           None \<Rightarrow> items
         | Some item \<Rightarrow>
             if j = [] then items else items(j \<mapsto> item\<lparr>iq_order := stamp, iq_updated := stamp\<rparr>))
        is (stamp + 1))"

definition replay_enqueue ::
  "queue_location \<Rightarrow> int \<Rightarrow> replay_state \<Rightarrow> any \<Rightarrow> replay_state" where
  "replay_enqueue loc ts st v =
     (case item_from_any v of
        None \<Rightarrow> st
      | Some item \<Rightarrow>
          if trim_space (iq_id item) = [] \<or> \<not> has_chat_input (iq_content item) (iq_attachments item)
          then st
          else
            (let item = normalize_item loc item ts in
             st\<lparr>rs_order := (if rs_items st (iq_id item) = None
                             then rs_order st @ [iq_id item] else rs_order st),
                rs_items := (rs_items st)(iq_id item \<mapsto> item)\<rparr>))"

definition replay_remove :: "replay_state \<Rightarrow> string \<Rightarrow> replay_state" where
  "replay_remove st item_id =
     (if item_id = [] then st
      else st\<lparr>rs_items := (rs_items st)(item_id := None),
              rs_order := remove_order_id (rs_order st) item_id\<rparr>)"

definition replay_reorder :: "int \<Rightarrow> replay_state \<Rightarrow> string list \<Rightarrow> replay_state" where
  "replay_reorder ts st ordered =
     st\<lparr>rs_order := reorder_ids (rs_order st) (rs_items st) ordered,
        rs_items := apply_order (rs_items st) ordered ts\<rparr>"

definition replay_update ::
  "queue_location \<Rightarrow> int \<Rightarrow> replay_state \<Rightarrow> any \<Rightarrow> replay_state" where
  "replay_update loc ts st v =
     (case item_from_any v of
        None \<Rightarrow> st
      | Some item \<Rightarrow>
          if trim_space (iq_id item) = [] then st
          else (case rs_items st (iq_id item) of
              None \<Rightarrow> st
            | Some previous \<Rightarrow>
                (let item = normalize_item loc item ts;
                     item = (if iq_order item = 0 then item\<lparr>iq_order := iq_order previous\<rparr> else item);
                     item = (if iq_created item = 0
                             then item\<lparr>iq_created := iq_created previous\<rparr> else item)
                 in st\<lparr>rs_items := (rs_items st)(iq_id item \<mapsto> item)\<rparr>)))"

definition replay_row ::
  "queue_location \<Rightarrow> int \<Rightarrow> replay_state \<Rightarrow> any \<Rightarrow> replay_state" where
  "replay_row loc now st row =
     (let action = string_from_any (field row ''action'');
          ts = normalize_timestamp (field row ''timestamp'') now
      in if action = ''enqueue'' then replay_enqueue loc ts st (field row ''item'')
         else if action \<in> set [''delete'', ''dispatch''] then
           replay_remove st (string_from_any (field row ''item_id''))
         else if action = ''reorder'' then
           replay_reorder ts st (string_slice_from_any (field row ''ordered_ids''))
         else if action = ''update'' then replay_update loc ts st (field row ''item'')
         else st)"

definition view :: "replay_state \<Rightarrow> queue_item list" where
  "view st = List.map_filter (rs_items st) (rs_order st)"

definition replay_rows :: "queue_location \<Rightarrow> int \<Rightarrow> any list \<Rightarrow> queue_item list" where
  "replay_rows loc now rows = view (foldl (replay_row loc now) empty_replay rows)"

section \<open>The operations of the store\<close>

definition path_for_location :: "queue_location \<Rightarrow> string + string" where
  "path_for_location loc =
     (let workspace_path = trim_space (loc_workspace loc);
          key = trim_space (loc_session loc)
      in if workspace_path = [] then Inl ''workspace_path is required''
         else if key = [] then Inl ''session_key is required''
         else Inr (session_input_queue_path workspace_path key))"

definition snapshot :: "files \<Rightarrow> queue_location \<Rightarrow> int \<Rightarrow> string + queue_item list" where
  "snapshot fs loc now =
     (case path_for_location loc of
        Inl e \<Rightarrow> Inl e
      | Inr path \<Rightarrow>
          (case read_jsonl fs path of
             None \<Rightarrow> Inr []
           | Some rows \<Rightarrow> Inr (replay_rows loc now rows)))"

definition append_action :: "files \<Rightarrow> queue_location \<Rightarrow> any \<Rightarrow> string + files" where
  "append_action fs loc row =
     (case path_for_location loc of
        Inl e \<Rightarrow> Inl e
      | Inr path \<Rightarrow> Inr (append_jsonl fs path row))"

text \<open>The pattern "append, then return the latest snapshot" of every writing operation.\<close>

definition append_then_snapshot ::
  "files \<Rightarrow> queue_location \<Rightarrow> any \<Rightarrow> int \<Rightarrow> string + (queue_item list \<times> files)" where
  "append_then_snapshot fs loc row now =
     (case append_action fs loc row of
        Inl e \<Rightarrow> Inl e
      | Inr fs' \<Rightarrow> (case snapshot fs' loc now of Inl e \<Rightarrow> Inl e | Inr q \<Rightarrow> Inr (q, fs')))"

definition item_row :: "string \<Rightarrow> queue_item \<Rightarrow> int \<Rightarrow> any" where
  "item_row action item now =
     AMap [(''action'', AStr action), (''item'', encode_item item), (''timestamp'', AInt now)]"

definition id_row :: "string \<Rightarrow> string \<Rightarrow> int \<Rightarrow> any" where
  "id_row action item_id now =
     AMap [(''action'', AStr action), (''item_id'', AStr item_id), (''timestamp'', AInt now)]"

definition reorder_row :: "string list \<Rightarrow> int \<Rightarrow> any" where
  "reorder_row ids now =
     AMap [(''action'', AStr ''reorder''), (''ordered_ids'', AList (map AStr ids)),
           (''timestamp'', AInt now)]"

text \<open>\<open>new_id\<close> is the random identifier of \<open>NewInputQueueID\<close>.\<close>

definition prepare_item :: "queue_location \<Rightarrow> queue_item \<Rightarrow> int \<Rightarrow> string \<Rightarrow> queue_item" where
  "prepare_item loc item now new_id =
     (let item = normalize_item loc item now;
          item = (if iq_id item = [] then item\<lparr>iq_id := new_id\<rparr> else item);
          item = (if iq_created item = 0 then item\<lparr>iq_created := now\<rparr> else item)
      in item\<lparr>iq_updated := now\<rparr>)"

definition enqueue ::
  "files \<Rightarrow> queue_location \<Rightarrow> queue_item \<Rightarrow> int \<Rightarrow> string \<Rightarrow> string + (queue_item list \<times> files)" where
  "enqueue fs loc item now new_id =
     append_then_snapshot fs loc (item_row ''enqueue'' (prepare_item loc item now new_id) now) now"

definition remove_item ::
  "files \<Rightarrow> queue_location \<Rightarrow> string \<Rightarrow> string \<Rightarrow> int \<Rightarrow> string + (queue_item list \<times> files)" where
  "remove_item fs loc item_id action now =
     (let item_id = trim_space item_id in
      if item_id = [] then
        (case snapshot fs loc now of Inl e \<Rightarrow> Inl e | Inr q \<Rightarrow> Inr (q, fs))
      else append_then_snapshot fs loc (id_row action item_id now) now)"

definition delete_item ::
  "files \<Rightarrow> queue_location \<Rightarrow> string \<Rightarrow> int \<Rightarrow> string + (queue_item list \<times> files)" where
  "delete_item fs loc item_id now = remove_item fs loc item_id ''delete'' now"

definition dispatch_item ::
  "files \<Rightarrow> queue_location \<Rightarrow> string \<Rightarrow> int \<Rightarrow> string + (queue_item list \<times> files)" where
  "dispatch_item fs loc item_id now = remove_item fs loc item_id ''dispatch'' now"

definition update_delivery_policy ::
  "files \<Rightarrow> queue_location \<Rightarrow> string \<Rightarrow> string \<Rightarrow> string list \<Rightarrow> int \<Rightarrow>
   string + (queue_item list \<times> files)" where
  "update_delivery_policy fs loc item_id policy root_rounds now =
     (case snapshot fs loc now of
        Inl e \<Rightarrow> Inl e
      | Inr items \<Rightarrow>
          (let item_id = trim_space item_id in
           if item_id = [] then Inr (items, fs)
           else (case find (\<lambda>i. iq_id i = item_id) items of
               None \<Rightarrow> Inr (items, fs)
             | Some selected \<Rightarrow>
                 append_then_snapshot fs loc
                   (item_row ''update''
                     (selected\<lparr>iq_policy := normalize_delivery_policy policy,
                        iq_root_round :=
                          (case root_rounds of r # _ \<Rightarrow> trim_space r | [] \<Rightarrow> []),
                        iq_updated := now\<rparr>) now) now)))"

definition dispatch_next ::
  "files \<Rightarrow> queue_location \<Rightarrow> int \<Rightarrow> string + (queue_item option \<times> queue_item list \<times> files)" where
  "dispatch_next fs loc now =
     (case snapshot fs loc now of
        Inl e \<Rightarrow> Inl e
      | Inr [] \<Rightarrow> Inr (None, [], fs)
      | Inr (item # items) \<Rightarrow>
          (case remove_item fs loc (iq_id item) ''dispatch'' now of
             Inl e \<Rightarrow> Inl e
           | Inr (q, fs') \<Rightarrow> Inr (Some item, q, fs')))"

definition dispatch_first_dispatchable ::
  "files \<Rightarrow> queue_location \<Rightarrow> int \<Rightarrow> string + (queue_item option \<times> queue_item list \<times> files)" where
  "dispatch_first_dispatchable fs loc now =
     (case snapshot fs loc now of
        Inl e \<Rightarrow> Inl e
      | Inr items \<Rightarrow>
          (case find (\<lambda>i. \<not> should_guide_running_round (iq_policy i)) items of
             None \<Rightarrow> Inr (None, items, fs)
           | Some item \<Rightarrow>
               (case remove_item fs loc (iq_id item) ''dispatch'' now of
                  Inl e \<Rightarrow> Inl e
                | Inr (q, fs') \<Rightarrow> Inr (Some item, q, fs'))))"

definition matches_guidance_target :: "queue_item \<Rightarrow> string list \<Rightarrow> bool" where
  "matches_guidance_target item root_rounds \<longleftrightarrow>
     (if root_rounds = [] then True
      else if trim_space (iq_root_round item) = [] then True
      else trim_space (iq_root_round item) \<in> set (map trim_space root_rounds))"

definition is_guidance :: "string list \<Rightarrow> queue_item \<Rightarrow> bool" where
  "is_guidance root_rounds item \<longleftrightarrow>
     should_guide_running_round (iq_policy item) \<and> matches_guidance_target item root_rounds"

fun append_dispatches ::
  "files \<Rightarrow> queue_location \<Rightarrow> queue_item list \<Rightarrow> int \<Rightarrow> string + files" where
  "append_dispatches fs loc [] now = Inr fs"
| "append_dispatches fs loc (i # is) now =
     (case append_action fs loc (id_row ''dispatch'' (iq_id i) now) of
        Inl e \<Rightarrow> Inl e
      | Inr fs' \<Rightarrow> append_dispatches fs' loc is now)"

definition dispatch_guidance ::
  "files \<Rightarrow> queue_location \<Rightarrow> string list \<Rightarrow> int \<Rightarrow>
   string + (queue_item list \<times> queue_item list \<times> files)" where
  "dispatch_guidance fs loc root_rounds now =
     (case snapshot fs loc now of
        Inl e \<Rightarrow> Inl e
      | Inr items \<Rightarrow>
          (let guidance = filter (is_guidance root_rounds) items in
           if guidance = [] then Inr ([], items, fs)
           else (case append_dispatches fs loc guidance now of
               Inl e \<Rightarrow> Inl e
             | Inr fs' \<Rightarrow>
                 (case snapshot fs' loc now of
                    Inl e \<Rightarrow> Inl e
                  | Inr q \<Rightarrow> Inr (guidance, q, fs')))))"

definition reorder_queue ::
  "files \<Rightarrow> queue_location \<Rightarrow> string list \<Rightarrow> int \<Rightarrow> string + (queue_item list \<times> files)" where
  "reorder_queue fs loc ordered now =
     append_then_snapshot fs loc (reorder_row (trim_unique ordered) now) now"

section \<open>The invariant of a replay\<close>

definition replay_inv :: "queue_location \<Rightarrow> replay_state \<Rightarrow> bool" where
  "replay_inv loc st \<longleftrightarrow>
     distinct (rs_order st) \<and> dom (rs_items st) = set (rs_order st) \<and>
     (\<forall>k i. rs_items st k = Some i \<longrightarrow> iq_id i = k \<and> k \<noteq> [] \<and> normal_item loc i)"

lemma replay_invD:
  assumes "replay_inv loc st"
  shows "distinct (rs_order st)" "dom (rs_items st) = set (rs_order st)"
    "rs_items st k = Some i \<Longrightarrow> iq_id i = k \<and> k \<noteq> [] \<and> normal_item loc i"
  using assms by (auto simp: replay_inv_def)

lemma normalize_timestamp_pos: "0 < now \<Longrightarrow> 0 < normalize_timestamp v now"
  by (simp add: normalize_timestamp_def Let_def)

lemma replay_inv_empty: "replay_inv loc empty_replay"
  by (simp add: replay_inv_def empty_replay_def)

lemma item_from_any_trimmed: "item_from_any v = Some i \<Longrightarrow> trimmed (iq_id i)"
  by (auto simp: item_from_any_def split: if_splits)

lemma replay_inv_enqueue:
  assumes "replay_inv loc st" "0 < ts"
  shows "replay_inv loc (replay_enqueue loc ts st v)"
  using assms
  by (auto simp: replay_enqueue_def replay_inv_def Let_def split: option.splits)

lemma replay_inv_remove:
  assumes "replay_inv loc st"
  shows "replay_inv loc (replay_remove st k)"
  using assms
  by (auto simp: replay_remove_def replay_inv_def remove_order_id_def)

lemma dom_apply_order: "dom (apply_order items is stamp) = dom items"
  by (induction items "is" stamp rule: apply_order.induct)
    (auto simp: Let_def split: option.splits)

lemma apply_order_normal:
  assumes "\<forall>k i. items k = Some i \<longrightarrow> iq_id i = k \<and> k \<noteq> [] \<and> normal_item loc i" "0 < stamp"
  shows "\<forall>k i. apply_order items is stamp k = Some i \<longrightarrow> iq_id i = k \<and> k \<noteq> [] \<and> normal_item loc i"
  using assms
proof (induction items "is" stamp rule: apply_order.induct)
  case (2 items i "is" stamp)
  have "\<forall>k j. (case items (trim_space i) of None \<Rightarrow> items
      | Some item \<Rightarrow> if trim_space i = [] then items
          else items(trim_space i \<mapsto> item\<lparr>iq_order := stamp, iq_updated := stamp\<rparr>)) k = Some j \<longrightarrow>
      iq_id j = k \<and> k \<noteq> [] \<and> normal_item loc j"
    using "2.prems"
    by (auto simp: normal_item_def normalize_item_order split: option.split)
  with 2 show ?case by (simp add: Let_def)
qed simp

lemma set_reorder_ids:
  "dom items = set order \<Longrightarrow> set (reorder_ids order items ks) = set order"
  by (auto simp: reorder_ids_def dom_def)

lemma replay_inv_reorder:
  assumes "replay_inv loc st" "0 < ts"
  shows "replay_inv loc (replay_reorder ts st ks)"
proof -
  have "\<forall>k i. apply_order (rs_items st) ks ts k = Some i \<longrightarrow>
      iq_id i = k \<and> k \<noteq> [] \<and> normal_item loc i"
    using assms by (intro apply_order_normal) (auto simp: replay_inv_def)
  moreover have "distinct (reorder_ids (rs_order st) (rs_items st) ks)"
    by (simp add: reorder_ids_def)
  moreover have "dom (apply_order (rs_items st) ks ts) = set (reorder_ids (rs_order st) (rs_items st) ks)"
    using replay_invD(2)[OF assms(1)] by (simp add: dom_apply_order set_reorder_ids)
  ultimately show ?thesis by (simp add: replay_reorder_def replay_inv_def)
qed

lemma replay_inv_update:
  assumes "replay_inv loc st" "0 < ts"
  shows "replay_inv loc (replay_update loc ts st v)"
  using assms iq_order_normalize_ne[of ts loc]
  by (auto simp: replay_update_def replay_inv_def Let_def trimmed_iff
      dest!: item_from_any_trimmed split: option.splits)

lemma replay_inv_row:
  assumes "replay_inv loc st" "0 < now"
  shows "replay_inv loc (replay_row loc now st row)"
  unfolding replay_row_def Let_def
  using assms normalize_timestamp_pos[OF assms(2)]
  by (simp add: replay_inv_enqueue replay_inv_remove replay_inv_reorder replay_inv_update)

interpretation replay: machine "replay_row loc now"
  "\<lambda>st. 0 < now \<longrightarrow> replay_inv loc st" empty_replay for loc now
  by unfold_locales (auto intro: replay_inv_empty replay_inv_row)

lemma replay_inv_log: "0 < now \<Longrightarrow> replay_inv loc (foldl (replay_row loc now) empty_replay rows)"
  using replay.inv_reachable[of now loc rows] by (simp add: run_foldl)

section \<open>The abstract queue\<close>

definition q_put :: "queue_item \<Rightarrow> queue_item list \<Rightarrow> queue_item list" where
  "q_put i q =
     (if iq_id i \<in> iq_id ` set q then map (\<lambda>j. if iq_id j = iq_id i then i else j) q
      else q @ [i])"

definition q_remove :: "string \<Rightarrow> queue_item list \<Rightarrow> queue_item list" where
  "q_remove k q = filter (\<lambda>i. iq_id i \<noteq> k) q"

lemma view_eq:
  assumes "replay_inv loc st"
  shows "view st = map (\<lambda>k. the (rs_items st k)) (rs_order st)"
proof -
  have "List.map_filter m ks = map (\<lambda>k. the (m k)) ks" if "set ks \<subseteq> dom m"
    for m :: "string \<rightharpoonup> queue_item" and ks
    using that by (induction ks) (auto simp: List.map_filter_simps split: option.split)
  then show ?thesis
    using replay_invD(2)[OF assms] by (simp add: view_def)
qed

lemma item_at:
  assumes "replay_inv loc st" "k \<in> set (rs_order st)"
  shows "rs_items st k = Some (the (rs_items st k))" "iq_id (the (rs_items st k)) = k"
proof -
  have "k \<in> dom (rs_items st)" using assms replay_invD(2) by simp
  then obtain i where "rs_items st k = Some i" by auto
  then show "rs_items st k = Some (the (rs_items st k))" "iq_id (the (rs_items st k)) = k"
    using replay_invD(3)[OF assms(1)] by auto
qed

lemma view_ids: "replay_inv loc st \<Longrightarrow> map iq_id (view st) = rs_order st"
  by (simp add: view_eq map_idI item_at(2))

lemma view_mem:
  assumes "replay_inv loc st"
  shows "i \<in> set (view st) \<longleftrightarrow> rs_items st (iq_id i) = Some i"
proof
  assume "i \<in> set (view st)"
  then obtain k where k: "k \<in> set (rs_order st)" "i = the (rs_items st k)"
    by (auto simp: view_eq[OF assms])
  then have "iq_id i = k" using item_at(2)[OF assms k(1)] by simp
  with k show "rs_items st (iq_id i) = Some i" using item_at(1)[OF assms k(1)] by simp
next
  assume i: "rs_items st (iq_id i) = Some i"
  then have "iq_id i \<in> set (rs_order st)" using replay_invD(2)[OF assms] by auto
  moreover have "i = the (rs_items st (iq_id i))" using i by simp
  ultimately show "i \<in> set (view st)" by (auto simp: view_eq[OF assms])
qed

lemma view_item:
  assumes "replay_inv loc st" "i \<in> set (view st)"
  shows "trimmed (iq_id i)" "iq_id i \<noteq> []" "normal_item loc i"
proof -
  have "rs_items st (iq_id i) = Some i"
    using assms(2) by (simp only: view_mem[OF assms(1)])
  from replay_invD(3)[OF assms(1) this]
  show "iq_id i \<noteq> []" "normal_item loc i" "trimmed (iq_id i)"
    by (auto dest: normal_item_id)
qed

lemma view_ids_set: "replay_inv loc st \<Longrightarrow> iq_id ` set (view st) = dom (rs_items st)"
  using view_ids[of loc st] replay_invD(2)[of loc st] by (metis list.set_map)

lemma distinct_view: "replay_inv loc st \<Longrightarrow> distinct (map iq_id (view st))"
  by (simp add: view_ids replay_invD(1))

lemma view_put:
  assumes "replay_inv loc st" "rs_items st' = (rs_items st)(iq_id i \<mapsto> i)"
    "rs_order st' = (if rs_items st (iq_id i) = None then rs_order st @ [iq_id i] else rs_order st)"
    "replay_inv loc st'"
  shows "view st' = q_put i (view st)"
proof -
  have dom: "iq_id i \<in> iq_id ` set (view st) \<longleftrightarrow> rs_items st (iq_id i) \<noteq> None"
    using view_ids_set[OF assms(1)] by auto
  have other: "map (\<lambda>k. the (((rs_items st)(iq_id i \<mapsto> i)) k)) ks = map (\<lambda>k. the (rs_items st k)) ks"
    if "iq_id i \<notin> set ks" for ks
    using that by (induction ks) auto
  have ids: "\<forall>k \<in> set (rs_order st). iq_id (the (rs_items st k)) = k"
    using item_at(2)[OF assms(1)] by simp
  show ?thesis
  proof (cases "rs_items st (iq_id i)")
    case None
    then have "iq_id i \<notin> set (rs_order st)"
      using replay_invD(2)[OF assms(1)] by auto
    with None dom assms(2,3) show ?thesis
      by (simp add: q_put_def view_eq[OF assms(4)] view_eq[OF assms(1)] other)
  next
    case (Some j)
    with ids dom assms(2,3) show ?thesis
      by (simp add: q_put_def view_eq[OF assms(4)] view_eq[OF assms(1)])
  qed
qed

lemma view_enqueue:
  assumes "replay_inv loc st" "0 < ts" "item_from_any v = Some item"
    "trim_space (iq_id item) \<noteq> []" "has_chat_input (iq_content item) (iq_attachments item)"
  shows "view (replay_enqueue loc ts st v) = q_put (normalize_item loc item ts) (view st)"
  using assms(3-5) replay_inv_enqueue[OF assms(1,2), of v]
  by (intro view_put[OF assms(1)]) (simp_all add: replay_enqueue_def Let_def)

lemma q_remove_map:
  "\<forall>j \<in> set ks. iq_id (f j) = j \<Longrightarrow> q_remove k (map f ks) = map f (filter (\<lambda>j. j \<noteq> k) ks)"
  by (induction ks) (auto simp: q_remove_def)

lemma view_remove:
  assumes "replay_inv loc st"
  shows "view (replay_remove st k) = q_remove k (view st)"
proof (cases "k = []")
  case True
  then have "\<forall>i \<in> set (view st). iq_id i \<noteq> k"
    using view_item(2)[OF assms] by simp
  with True show ?thesis by (simp add: replay_remove_def q_remove_def filter_id_conv)
next
  case False
  let ?st = "replay_remove st k"
  have inv: "replay_inv loc ?st" by (rule replay_inv_remove[OF assms])
  have "q_remove k (map (\<lambda>j. the (rs_items st j)) (rs_order st)) =
      map (\<lambda>j. the (rs_items st j)) (filter (\<lambda>j. j \<noteq> k) (rs_order st))"
    by (rule q_remove_map) (simp add: item_at(2)[OF assms])
  also have "\<dots> = map (\<lambda>j. the (((rs_items st)(k := None)) j)) (filter (\<lambda>j. j \<noteq> k) (rs_order st))"
    by (rule map_cong) auto
  finally show ?thesis
    using False by (simp add: view_eq[OF inv] view_eq[OF assms])
      (simp add: replay_remove_def remove_order_id_def)
qed

lemma view_update:
  assumes "replay_inv loc st" "0 < ts" "item_from_any v = Some item" "trim_space (iq_id item) \<noteq> []"
    "trim_space (iq_id item) \<in> iq_id ` set (view st)"
  shows "view (replay_update loc ts st v) = q_put (normalize_item loc item ts) (view st)"
proof -
  have id: "trim_space (iq_id item) = iq_id item"
    using item_from_any_trimmed[OF assms(3)] by simp
  then obtain p where "rs_items st (iq_id item) = Some p"
    using assms(5) view_ids_set[OF assms(1)] by auto
  then show ?thesis
    using assms(3,4) id replay_inv_update[OF assms(1,2), of v] iq_order_normalize_ne[OF assms(2)]
    by (intro view_put[OF assms(1)]) (simp_all add: replay_update_def Let_def)
qed

lemma apply_order_item:
  "apply_order items ks stamp k = Some i \<Longrightarrow>
   \<exists>j. items k = Some j \<and> i\<lparr>iq_order := iq_order j, iq_updated := iq_updated j\<rparr> = j"
proof (induction items ks stamp arbitrary: i rule: apply_order.induct)
  case (2 items j ks stamp)
  let ?m = "case items (trim_space j) of None \<Rightarrow> items
      | Some item \<Rightarrow> if trim_space j = [] then items
          else items(trim_space j \<mapsto> item\<lparr>iq_order := stamp, iq_updated := stamp\<rparr>)"
  have "apply_order ?m ks (stamp + 1) k = Some i"
    using "2.prems" by (simp add: Let_def)
  then obtain j' where j': "?m k = Some j'" "i\<lparr>iq_order := iq_order j', iq_updated := iq_updated j'\<rparr> = j'"
    using "2.IH"[OF refl] by blast
  have "\<exists>j0. items k = Some j0 \<and> j'\<lparr>iq_order := iq_order j0, iq_updated := iq_updated j0\<rparr> = j0"
    using j'(1) by (auto split: option.splits if_splits)
  then show ?case using j'(2) by (metis (no_types, lifting) queue_item.surjective queue_item.update_convs(18,20))
qed auto

lemma view_reorder_ids:
  assumes "replay_inv loc st" "0 < ts" "\<forall>k \<in> set ks. trimmed k \<and> k \<noteq> []" "distinct ks"
  shows "map iq_id (view (replay_reorder ts st ks)) =
    filter (\<lambda>k. k \<in> iq_id ` set (view st)) ks @
    filter (\<lambda>k. k \<notin> set ks) (map iq_id (view st))"
proof -
  let ?q = "iq_id ` set (view st)"
  have items: "rs_items st k \<noteq> None \<longleftrightarrow> k \<in> ?q" for k
    using view_ids_set[OF assms(1)] by auto
  have trim: "map trim_space ks = ks"
    using assms(3) by (induction ks) auto
  have left: "filter (\<lambda>k. k \<noteq> [] \<and> rs_items st k \<noteq> None) ks = filter (\<lambda>k. k \<in> ?q) ks"
    using assms(3) by (intro filter_cong) (simp_all only: items, auto)
  have right: "filter (\<lambda>k. rs_items st k \<noteq> None) (rs_order st) = rs_order st"
    using replay_invD(2)[OF assms(1)] by (auto simp: filter_id_conv)
  have "filter (\<lambda>k. k \<notin> set (filter (\<lambda>k. k \<in> ?q) ks)) (rs_order st) =
      filter (\<lambda>k. k \<notin> set ks) (rs_order st)"
    using view_ids_set[OF assms(1)] replay_invD(2)[OF assms(1)] by (intro filter_cong) auto
  then have "reorder_ids (rs_order st) (rs_items st) ks =
      filter (\<lambda>k. k \<in> ?q) ks @ filter (\<lambda>k. k \<notin> set ks) (rs_order st)"
    unfolding reorder_ids_def trim left right
    using replay_invD(1)[OF assms(1)] assms(4)
    by (simp add: uniq_from_append uniq_id)
  then show ?thesis
    by (simp add: view_ids[OF assms(1)] view_ids[OF replay_inv_reorder[OF assms(1,2)]])
      (simp add: replay_reorder_def)
qed

lemma view_reorder_items:
  assumes "replay_inv loc st" "0 < ts" "i \<in> set (view (replay_reorder ts st ks))"
  shows "\<exists>j \<in> set (view st). i\<lparr>iq_order := iq_order j, iq_updated := iq_updated j\<rparr> = j"
proof -
  have "rs_items (replay_reorder ts st ks) (iq_id i) = Some i"
    using assms(3) by (simp only: view_mem[OF replay_inv_reorder[OF assms(1,2)]])
  then have "apply_order (rs_items st) ks ts (iq_id i) = Some i"
    by (simp add: replay_reorder_def)
  then obtain j where j: "rs_items st (iq_id i) = Some j"
    "i\<lparr>iq_order := iq_order j, iq_updated := iq_updated j\<rparr> = j"
    by (auto dest: apply_order_item)
  then have "rs_items st (iq_id j) = Some j"
    using replay_invD(3)[OF assms(1) j(1)] by simp
  then have "j \<in> set (view st)" by (simp only: view_mem[OF assms(1)])
  with j(2) show ?thesis by blast
qed

section \<open>Operations on the abstract queue\<close>

definition store_state :: "files \<Rightarrow> queue_location \<Rightarrow> int \<Rightarrow> string \<Rightarrow> replay_state" where
  "store_state fs loc now path = foldl (replay_row loc now) empty_replay (log_rows fs path)"

lemma snapshot_eq:
  "path_for_location loc = Inr path \<Longrightarrow>
   snapshot fs loc now = Inr (view (store_state fs loc now path))"
  by (cases "read_jsonl fs path")
    (simp_all add: snapshot_def replay_rows_def store_state_def log_rows_def empty_replay_def
      view_def List.map_filter_simps)

lemma snapshotE:
  assumes "snapshot fs loc now = Inr q" "0 < now"
  obtains path where "path_for_location loc = Inr path"
    "replay_inv loc (store_state fs loc now path)" "view (store_state fs loc now path) = q"
proof -
  obtain path where p: "path_for_location loc = Inr path"
    using assms(1) by (cases "path_for_location loc") (auto simp: snapshot_def)
  then show ?thesis
    using that[OF p] assms replay_inv_log[OF assms(2)] snapshot_eq[OF p]
    by (simp add: store_state_def)
qed

lemma store_state_append:
  "good_row row \<Longrightarrow> store_state (append_jsonl fs path row) loc now path =
     replay_row loc now (store_state fs loc now path) row"
  unfolding store_state_def by (rule jsonl.replay_append)

lemma append_then_snapshot_eq:
  assumes "path_for_location loc = Inr path" "good_row row"
  shows "append_then_snapshot fs loc row now =
    Inr (view (replay_row loc now (store_state fs loc now path) row), append_jsonl fs path row)"
  using assms
  by (simp add: append_then_snapshot_def append_action_def snapshot_eq store_state_append)

lemma action_constants [simp]:
  "trimmed ''enqueue''" "trimmed ''delete''" "trimmed ''dispatch''" "trimmed ''reorder''"
  "trimmed ''update''"
  by code_simp+

lemma good_rows [simp]:
  "good_row (item_row a i now)" "good_row (id_row a k now)" "good_row (reorder_row ks now)"
  by (simp_all add: good_row_def item_row_def id_row_def reorder_row_def)

lemma replay_id_row:
  "act \<in> {''delete'', ''dispatch''} \<Longrightarrow> trimmed k \<Longrightarrow>
   replay_row loc now st (id_row act k t) = replay_remove st k"
  by (auto simp: replay_row_def id_row_def field_AMap)

lemma replay_item_row:
  "0 < t \<Longrightarrow> replay_row loc now st (item_row ''enqueue'' i t) = replay_enqueue loc t st (encode_item i)"
  "0 < t \<Longrightarrow> replay_row loc now st (item_row ''update'' i t) = replay_update loc t st (encode_item i)"
  by (simp_all add: replay_row_def item_row_def field_AMap normalize_timestamp_def)

lemma replay_reorder_row:
  "0 < t \<Longrightarrow> \<forall>k \<in> set ks. trimmed k \<and> k \<noteq> [] \<Longrightarrow>
   replay_row loc now st (reorder_row ks t) = replay_reorder t st ks"
  by (simp add: replay_row_def reorder_row_def field_AMap normalize_timestamp_def string_slice_map_AStr
      del: string_slice_from_any.simps(1))

text \<open>Every writing operation returns the snapshot of the files it leaves.\<close>

lemma append_then_snapshot_consistent:
  "append_then_snapshot fs loc row now = Inr (q, fs') \<Longrightarrow> snapshot fs' loc now = Inr q"
  by (auto simp: append_then_snapshot_def split: sum.splits)

lemma remove_item_spec:
  assumes "snapshot fs loc now = Inr q" "0 < now" "act \<in> {''delete'', ''dispatch''}"
  shows "\<exists>fs'. remove_item fs loc k act now = Inr (q_remove (trim_space k) q, fs') \<and>
    snapshot fs' loc now = Inr (q_remove (trim_space k) q)"
proof -
  obtain path where p: "path_for_location loc = Inr path"
    "replay_inv loc (store_state fs loc now path)" "view (store_state fs loc now path) = q"
    using assms(1,2) by (rule snapshotE)
  show ?thesis
  proof (cases "trim_space k = []")
    case True
    have "q_remove [] q = q"
      using view_remove[OF p(2), of "[]"] p(3) by (simp add: replay_remove_def)
    with True assms(1) show ?thesis by (simp add: remove_item_def)
  next
    case False
    then have "remove_item fs loc k act now =
        Inr (q_remove (trim_space k) q, append_jsonl fs path (id_row act (trim_space k) now))"
      using append_then_snapshot_eq[OF p(1)] replay_id_row[OF assms(3)] view_remove[OF p(2)] p(3)
      by (simp add: remove_item_def Let_def)
    then show ?thesis
      using False by (auto simp: remove_item_def Let_def intro: append_then_snapshot_consistent)
  qed
qed

lemma prepare_item_id:
  "trimmed new_id \<Longrightarrow>
   iq_id (prepare_item loc item now new_id) =
     (if trim_space (iq_id item) = [] then new_id else trim_space (iq_id item))"
  by (simp add: prepare_item_def Let_def)

lemma prepare_item_normal:
  assumes "0 < now" "trimmed new_id"
  shows "normalize_item loc (prepare_item loc item now new_id) t = prepare_item loc item now new_id"
proof -
  have "iq_created (normalize_item loc item now) \<noteq> 0"
    using assms(1) by (simp add: iq_order_normalize_ne)
  then have "prepare_item loc item now new_id =
      (normalize_item loc item now)\<lparr>iq_id := iq_id (prepare_item loc item now new_id), iq_updated := now\<rparr>"
    by (simp add: prepare_item_def Let_def)
  moreover have "trimmed (iq_id (prepare_item loc item now new_id))"
    using assms(2) by (simp add: prepare_item_id)
  ultimately show ?thesis
    using assms(1) normalize_item_id[where i = "normalize_item loc item now" and m = now
        and k = "iq_id (prepare_item loc item now new_id)" and loc = loc and t = t]
      normalize_item_idem[of now loc item t]
    by simp
qed

lemma prepare_item_wf:
  assumes "wf_route (normalize_reply_route (iq_route item))" "trimmed new_id"
  shows "wf_item (prepare_item loc item now new_id)"
  using wf_normalize_item[OF assms(1), of loc now] assms(2)
  by (simp add: prepare_item_def Let_def wf_item_def)

lemma has_chat_input_normalize:
  "has_chat_input (iq_content item) (iq_attachments item) \<Longrightarrow>
   has_chat_input (iq_content (prepare_item loc item now new_id))
     (iq_attachments (prepare_item loc item now new_id))"
proof -
  have "map at_workspace_path (normalize_attachments as d) = map at_workspace_path (normalize_attachments as e)"
    for as d e
    by (induction as) (auto simp: normalize_attachments_def normalize_attachment_def Let_def)
  then have "length (normalize_attachments as d) = length (normalize_attachments as e)" for as d e
    by (metis length_map)
  moreover assume "has_chat_input (iq_content item) (iq_attachments item)"
  ultimately show ?thesis
    by (auto simp: has_chat_input_def prepare_item_def normalize_item_def Let_def)
      (metis length_0_conv length_greater_0_conv)+
qed

lemma enqueue_spec:
  assumes "snapshot fs loc now = Inr q" "0 < now" "trimmed new_id" "new_id \<noteq> []"
    "has_chat_input (iq_content item) (iq_attachments item)"
    "wf_route (normalize_reply_route (iq_route item))"
  shows "\<exists>fs'. enqueue fs loc item now new_id = Inr (q_put (prepare_item loc item now new_id) q, fs') \<and>
    snapshot fs' loc now = Inr (q_put (prepare_item loc item now new_id) q)"
proof -
  let ?i = "prepare_item loc item now new_id"
  obtain path where p: "path_for_location loc = Inr path"
    "replay_inv loc (store_state fs loc now path)" "view (store_state fs loc now path) = q"
    using assms(1,2) by (rule snapshotE)
  have id: "trim_space (iq_id ?i) \<noteq> []"
    using assms(3,4) by (simp add: prepare_item_id)
  have "view (replay_enqueue loc now (store_state fs loc now path) (encode_item ?i)) = q_put ?i q"
    using view_enqueue[OF p(2) assms(2) decode_encode_item[OF prepare_item_wf[OF assms(6,3)]] id
        has_chat_input_normalize[OF assms(5)]] p(3) prepare_item_normal[OF assms(2,3)]
    by simp
  then have "enqueue fs loc item now new_id =
      Inr (q_put ?i q, append_jsonl fs path (item_row ''enqueue'' ?i now))"
    using append_then_snapshot_eq[OF p(1)] by (simp add: enqueue_def replay_item_row assms(2))
  then show ?thesis
    by (auto simp: enqueue_def intro: append_then_snapshot_consistent)
qed

lemma update_policy_spec:
  assumes "snapshot fs loc now = Inr q" "0 < now"
    "i \<in> set q" "iq_id i = trim_space k" "wf_route (iq_route i)"
  shows "\<exists>fs'. update_delivery_policy fs loc k policy roots now =
      Inr (q_put (i\<lparr>iq_policy := normalize_delivery_policy policy,
        iq_root_round := (case roots of r # _ \<Rightarrow> trim_space r | [] \<Rightarrow> []), iq_updated := now\<rparr>) q, fs')"
    (is "\<exists>fs'. _ = Inr (q_put ?j q, fs')")
proof -
  obtain path where p: "path_for_location loc = Inr path"
    "replay_inv loc (store_state fs loc now path)" "view (store_state fs loc now path) = q"
    using assms(1,2) by (rule snapshotE)
  have normal: "normal_item loc i" and id: "iq_id i \<noteq> []"
    using view_item[OF p(2)] p(3) assms(3) by simp_all
  have unique: "find (\<lambda>j. iq_id j = trim_space k) q = Some i"
  proof -
    have "distinct (map iq_id q)" using distinct_view[OF p(2)] p(3) by simp
    then show ?thesis using assms(3,4) by (induction q) force+
  qed
  have "wf_item ?j"
    using wf_normal_item[OF normal assms(5)] by (simp add: wf_item_def split: list.split)
  then have decode: "item_from_any (encode_item ?j) = Some ?j"
    by (rule decode_encode_item)
  have "normalize_item loc ?j now = ?j"
    using normal assms(2) by (simp add: normalize_item_policy normal_item_def split: list.split)
  moreover have "trim_space (iq_id ?j) = iq_id i" using assms(4) by simp
  ultimately have "view (replay_update loc now (store_state fs loc now path) (encode_item ?j)) = q_put ?j q"
    using view_update[OF p(2) assms(2) decode] p(3) assms(3) id by simp
  then show ?thesis
    using assms(1,4) id unique append_then_snapshot_eq[OF p(1)] assms(2)
    by (simp add: update_delivery_policy_def replay_item_row)
qed

lemma dispatch_first_spec:
  assumes "snapshot fs loc now = Inr q" "0 < now"
  shows "\<exists>fs'. dispatch_first_dispatchable fs loc now =
      (case find (\<lambda>i. \<not> should_guide_running_round (iq_policy i)) q of
         None \<Rightarrow> Inr (None, q, fs)
       | Some i \<Rightarrow> Inr (Some i, q_remove (iq_id i) q, fs'))"
proof (cases "find (\<lambda>i. \<not> should_guide_running_round (iq_policy i)) q")
  case (Some i)
  obtain path where p: "path_for_location loc = Inr path"
    "replay_inv loc (store_state fs loc now path)" "view (store_state fs loc now path) = q"
    using assms by (rule snapshotE)
  have "i \<in> set q" using Some by (auto simp: find_Some_iff)
  then have "trim_space (iq_id i) = iq_id i"
    using view_item(1)[OF p(2)] p(3) by simp
  then show ?thesis
    using remove_item_spec[OF assms, of "''dispatch''" "iq_id i"] Some assms(1)
    by (auto simp: dispatch_first_dispatchable_def)
qed (simp add: dispatch_first_dispatchable_def assms(1))

lemma append_dispatches_eq:
  "path_for_location loc = Inr path \<Longrightarrow>
   append_dispatches fs loc items now =
     Inr (foldl (\<lambda>f r. append_jsonl f path r) fs (map (\<lambda>i. id_row ''dispatch'' (iq_id i) now) items))"
  by (induction items arbitrary: fs) (simp_all add: append_action_def)

lemma view_removes:
  assumes "replay_inv loc st" "0 < now" "\<forall>i \<in> set items. trimmed (iq_id i)"
  shows "view (foldl (replay_row loc now) st (map (\<lambda>i. id_row ''dispatch'' (iq_id i) now) items)) =
    filter (\<lambda>i. iq_id i \<notin> iq_id ` set items) (view st)"
  using assms
proof (induction items arbitrary: st)
  case (Cons i items)
  have "view (replay_remove st (iq_id i)) = q_remove (iq_id i) (view st)"
    by (rule view_remove[OF Cons.prems(1)])
  with Cons show ?case
    by (simp add: replay_id_row replay_inv_remove q_remove_def conj_commute)
qed simp

lemma dispatch_guidance_spec:
  assumes "snapshot fs loc now = Inr q" "0 < now"
  shows "\<exists>fs'. dispatch_guidance fs loc roots now =
    Inr (filter (is_guidance roots) q, filter (\<lambda>i. \<not> is_guidance roots i) q, fs')"
proof -
  let ?g = "filter (is_guidance roots) q"
  obtain path where p: "path_for_location loc = Inr path"
    "replay_inv loc (store_state fs loc now path)" "view (store_state fs loc now path) = q"
    using assms by (rule snapshotE)
  let ?rows = "map (\<lambda>i. id_row ''dispatch'' (iq_id i) now) ?g"
  let ?fs = "foldl (\<lambda>f r. append_jsonl f path r) fs ?rows"
  have inj: "inj_on iq_id (set q)"
    using distinct_view[OF p(2)] p(3) by (simp add: distinct_map)
  have rest: "filter (\<lambda>i. iq_id i \<notin> iq_id ` set ?g) q = filter (\<lambda>i. \<not> is_guidance roots i) q"
    by (intro filter_cong) (use inj in \<open>auto simp: inj_on_def\<close>)
  have trim: "\<forall>i \<in> set ?g. trimmed (iq_id i)"
    using view_item(1)[OF p(2)] p(3) by simp
  have "store_state ?fs loc now path = foldl (replay_row loc now) (store_state fs loc now path) ?rows"
    unfolding store_state_def by (rule jsonl.replay_append_all) (simp add: list_all_iff)
  then have "snapshot ?fs loc now = Inr (filter (\<lambda>i. \<not> is_guidance roots i) q)"
    using view_removes[OF p(2) assms(2) trim] p(3) rest by (simp add: snapshot_eq[OF p(1)])
  moreover have "?g = [] \<Longrightarrow> filter (\<lambda>i. \<not> is_guidance roots i) q = q"
    by (auto simp: filter_empty_conv filter_id_conv)
  ultimately show ?thesis
    using assms(1) append_dispatches_eq[OF p(1)]
    by (auto simp: dispatch_guidance_def Let_def)
qed

lemma reorder_spec:
  assumes "snapshot fs loc now = Inr q" "0 < now"
  shows "\<exists>q' fs'. reorder_queue fs loc ordered now = Inr (q', fs') \<and> snapshot fs' loc now = Inr q' \<and>
    map iq_id q' = filter (\<lambda>k. k \<in> iq_id ` set q) (trim_unique ordered) @
      filter (\<lambda>k. k \<notin> set (trim_unique ordered)) (map iq_id q) \<and>
    (\<forall>i \<in> set q'. \<exists>j \<in> set q. i\<lparr>iq_order := iq_order j, iq_updated := iq_updated j\<rparr> = j)"
proof -
  obtain path where p: "path_for_location loc = Inr path"
    "replay_inv loc (store_state fs loc now path)" "view (store_state fs loc now path) = q"
    using assms by (rule snapshotE)
  let ?st = "replay_reorder now (store_state fs loc now path) (trim_unique ordered)"
  have run: "reorder_queue fs loc ordered now =
      Inr (view ?st, append_jsonl fs path (reorder_row (trim_unique ordered) now))"
    using append_then_snapshot_eq[OF p(1)] assms(2)
    by (simp add: reorder_queue_def replay_reorder_row trim_unique_wf)
  moreover have "map iq_id (view ?st) = filter (\<lambda>k. k \<in> iq_id ` set q) (trim_unique ordered) @
      filter (\<lambda>k. k \<notin> set (trim_unique ordered)) (map iq_id q)"
    using view_reorder_ids[OF p(2) assms(2) trim_unique_wf distinct_trim_unique] p(3) by simp
  moreover have "\<forall>i \<in> set (view ?st). \<exists>j \<in> set q.
      i\<lparr>iq_order := iq_order j, iq_updated := iq_updated j\<rparr> = j"
    using view_reorder_items[OF p(2) assms(2)] p(3) by blast
  moreover have "snapshot (append_jsonl fs path (reorder_row (trim_unique ordered) now)) loc now = Inr (view ?st)"
    using run unfolding reorder_queue_def by (rule append_then_snapshot_consistent)
  ultimately show ?thesis by blast
qed

text \<open>Queues in different files do not see each other's operations.\<close>

lemma append_then_snapshot_isolated:
  assumes "append_then_snapshot fs loc row now = Inr (q, fs')"
    "path_for_location loc = Inr path" "path_for_location loc' = Inr path'" "path \<noteq> path'"
  shows "snapshot fs' loc' t = snapshot fs loc' t"
proof -
  have "fs' = append_jsonl fs path row"
    using assms(1,2) by (auto simp: append_then_snapshot_def append_action_def split: sum.splits)
  then show ?thesis
    using assms(3,4) jsonl.rows_append_other[of path' path fs row]
    by (simp add: snapshot_eq store_state_def)
qed

section \<open>A small queue\<close>

text \<open>Concrete data for the witnesses: a location and a log with three items.\<close>

definition sample_location :: queue_location where
  "sample_location =
     \<lparr>loc_scope = ''room'', loc_workspace = ''/w'', loc_session = ''room:group:c1'',
      loc_room = ''r1'', loc_conversation = ''c1''\<rparr>"

definition sample_item :: "string \<Rightarrow> string \<Rightarrow> int \<Rightarrow> queue_item" where
  "sample_item k policy t =
     \<lparr>iq_id = k, iq_scope = ''room'', iq_session = ''s'', iq_room = ''r1'', iq_conversation = ''c1'',
      iq_agent = [], iq_source_agent = [], iq_source_message = [], iq_targets = [],
      iq_source = ''user'', iq_content = ''hi'', iq_attachments = [], iq_policy = policy,
      iq_route = no_route, iq_owner = [], iq_root_round = [], iq_hop = 0, iq_order = t,
      iq_created = t, iq_updated = t\<rparr>"

definition sample_rows :: "any list" where
  "sample_rows =
     [item_row ''enqueue'' (sample_item ''a'' ''guide'' 5) 5,
      item_row ''enqueue'' (sample_item ''b'' ''queue'' 6) 6,
      item_row ''enqueue'' (sample_item ''c'' ''guide'' 7) 7]"

definition sample_files :: files where
  "sample_files =
     (\<lambda>_. None)(session_input_queue_path ''/w'' ''room:group:c1'' := Some sample_rows)"

definition sample_queue :: "queue_item list" where
  "sample_queue =
     [sample_item ''a'' ''guide'' 5, sample_item ''b'' ''queue'' 6, sample_item ''c'' ''guide'' 7]"

lemma sample_path:
  "path_for_location sample_location = Inr (session_input_queue_path ''/w'' ''room:group:c1'')"
proof -
  have "trimmed ''/w''" "trimmed ''room:group:c1''" by code_simp+
  then show ?thesis by (simp add: path_for_location_def sample_location_def)
qed

lemma sample_replay: "replay_rows sample_location 9 sample_rows = sample_queue"
  by code_simp

lemma sample_snapshot: "snapshot sample_files sample_location 9 = Inr sample_queue"
proof -
  have "filter is_map (map (\<lambda>r. normalize_decoded (decoded r)) sample_rows) = sample_rows"
    using good_rows(1) by (simp add: sample_rows_def good_row_def normalize_decoded_canonical)
  then show ?thesis
    using sample_replay
    by (simp add: snapshot_def sample_path read_jsonl_def sample_files_def)
qed

section \<open>Properties\<close>

text \<open>C32. Whatever rows a log holds, the queue read from it has pairwise distinct, non-blank
  ids, and every item is in normal form: replaying can neither duplicate an item nor return
  one that normalisation would change.\<close>
theorem snapshot_well_formed:
  assumes "snapshot fs loc now = Inr q" "0 < now"
  shows "distinct (map iq_id q) \<and> (\<forall>i \<in> set q. iq_id i \<noteq> [] \<and> normalize_item loc i t = i)"
proof -
  obtain path where p: "path_for_location loc = Inr path"
    "replay_inv loc (store_state fs loc now path)" "view (store_state fs loc now path) = q"
    using assms by (rule snapshotE)
  then show ?thesis
    using distinct_view[OF p(2)] view_item[OF p(2)] by (auto simp: normal_item_def)
qed

theorem snapshot_well_formed_witness:
  "snapshot sample_files sample_location 9 = Inr sample_queue \<and> distinct (map iq_id sample_queue)"
  using snapshot_well_formed[OF sample_snapshot, of 1] sample_snapshot by simp



text \<open>Deleting an item, or dispatching it by id, removes exactly the items with that id and keeps
  the order of the others; a blank or unknown id changes nothing.\<close>

lemma remove_item_filters:
  assumes "snapshot fs loc now = Inr q" "0 < now" "act \<in> {''delete'', ''dispatch''}"
  shows "\<exists>fs'. remove_item fs loc k act now = Inr (filter (\<lambda>i. iq_id i \<noteq> trim_space k) q, fs') \<and>
    snapshot fs' loc now = Inr (filter (\<lambda>i. iq_id i \<noteq> trim_space k) q)"
  using remove_item_spec[OF assms] by (simp add: q_remove_def)

lemma remove_item_filters_witness:
  "\<exists>fs'. remove_item sample_files sample_location '' b'' ''delete'' 9 =
     Inr ([sample_item ''a'' ''guide'' 5, sample_item ''c'' ''guide'' 7], fs')"
proof -
  have "filter (\<lambda>i. iq_id i \<noteq> trim_space '' b'') sample_queue =
      [sample_item ''a'' ''guide'' 5, sample_item ''c'' ''guide'' 7]"
    by code_simp
  then show ?thesis
    using remove_item_filters[OF sample_snapshot, of "''delete''" "'' b''"] by auto
qed

text \<open>Dispatching takes the first item that does not wait for a guidance hook, returns it, and
  leaves a queue without it in which every other item keeps its place: dispatch is first in
  first out among the ordinary items, never returns a guide item, and returns no item twice.\<close>

lemma dispatch_first_is_fifo:
  assumes "snapshot fs loc now = Inr (before @ item # rest)" "0 < now"
    "\<forall>i \<in> set before. iq_policy i = ''guide''" "iq_policy item \<noteq> ''guide''"
  shows "\<exists>fs'. dispatch_first_dispatchable fs loc now = Inr (Some item, before @ rest, fs')"
proof -
  have d: "distinct (map iq_id (before @ item # rest))"
    using snapshotE[OF assms(1,2)] distinct_view by metis
  have "filter (\<lambda>i. iq_id i \<noteq> iq_id item) before = before"
    "filter (\<lambda>i. iq_id i \<noteq> iq_id item) rest = rest"
    using d by (force simp: filter_id_conv image_iff)+
  then have "q_remove (iq_id item) (before @ item # rest) = before @ rest"
    by (simp add: q_remove_def)
  moreover have "find (\<lambda>i. \<not> should_guide_running_round (iq_policy i)) (before @ item # rest) = Some item"
    using assms(3,4) by (induction before) (auto simp: should_guide_running_round_def)
  ultimately show ?thesis
    using dispatch_first_spec[OF assms(1,2)] by simp
qed

lemma dispatch_first_is_fifo_witness:
  "\<exists>fs'. dispatch_first_dispatchable sample_files sample_location 9 =
     Inr (Some (sample_item ''b'' ''queue'' 6),
          [sample_item ''a'' ''guide'' 5, sample_item ''c'' ''guide'' 7], fs')"
  using dispatch_first_is_fifo[of sample_files sample_location 9 "[sample_item ''a'' ''guide'' 5]"
      "sample_item ''b'' ''queue'' 6" "[sample_item ''c'' ''guide'' 7]"] sample_snapshot
  by (simp add: sample_queue_def sample_item_def)

text \<open>Dispatching guidance splits the queue: it returns the guide items addressed to one of the given
  root rounds (or to none in particular), in queue order, and leaves exactly the others, in
  order.\<close>

lemma dispatch_guidance_partitions:
  assumes "snapshot fs loc now = Inr q" "0 < now"
  shows "\<exists>fs'. dispatch_guidance fs loc roots now =
    Inr (filter (is_guidance roots) q, filter (\<lambda>i. \<not> is_guidance roots i) q, fs')"
  by (rule dispatch_guidance_spec[OF assms])

lemma dispatch_guidance_partitions_witness:
  "\<exists>fs'. dispatch_guidance sample_files sample_location [''x''] 9 =
     Inr ([sample_item ''a'' ''guide'' 5, sample_item ''c'' ''guide'' 7],
          [sample_item ''b'' ''queue'' 6], fs')"
proof -
  have "filter (is_guidance [''x'']) sample_queue =
      [sample_item ''a'' ''guide'' 5, sample_item ''c'' ''guide'' 7]"
    "filter (\<lambda>i. \<not> is_guidance [''x''] i) sample_queue = [sample_item ''b'' ''queue'' 6]"
    by code_simp+
  then show ?thesis
    using dispatch_guidance_partitions[OF sample_snapshot, of "[''x'']"] by simp
qed

text \<open>C34. Reordering neither loses nor invents items: the queue then lists the requested ids that it
  has, in the requested order and once each, followed by all remaining items in their old
  order, and no item changes but for its position stamp and update time.\<close>
theorem reorder_permutes:
  assumes "snapshot fs loc now = Inr q" "0 < now"
  shows "\<exists>q' fs'. reorder_queue fs loc ordered now = Inr (q', fs') \<and> snapshot fs' loc now = Inr q' \<and>
    map iq_id q' = filter (\<lambda>k. k \<in> iq_id ` set q) (trim_unique ordered) @
      filter (\<lambda>k. k \<notin> set (trim_unique ordered)) (map iq_id q) \<and>
    (\<forall>i \<in> set q'. \<exists>j \<in> set q. i\<lparr>iq_order := iq_order j, iq_updated := iq_updated j\<rparr> = j)"
  by (rule reorder_spec[OF assms])

theorem reorder_permutes_witness:
  "\<exists>q' fs'. reorder_queue sample_files sample_location [''c'', ''zz'', '' c '', ''a''] 9 = Inr (q', fs') \<and>
     map iq_id q' = [''c'', ''a'', ''b'']"
proof -
  have "filter (\<lambda>k. k \<in> iq_id ` set sample_queue) (trim_unique [''c'', ''zz'', '' c '', ''a'']) @
      filter (\<lambda>k. k \<notin> set (trim_unique [''c'', ''zz'', '' c '', ''a''])) (map iq_id sample_queue) =
      [''c'', ''a'', ''b'']"
    by code_simp
  then show ?thesis
    using reorder_permutes[OF sample_snapshot, of "[''c'', ''zz'', '' c '', ''a'']"] by auto
qed

text \<open>Updating the delivery policy of an item changes that item's policy, root round and update
  time only; its place and every other item stay as they are.\<close>

lemma update_policy_updates_one:
  assumes "snapshot fs loc now = Inr q" "0 < now"
    "i \<in> set q" "iq_id i = trim_space k" "wf_route (iq_route i)"
  shows "\<exists>fs'. update_delivery_policy fs loc k policy roots now =
    Inr (map (\<lambda>j. if iq_id j = iq_id i
           then i\<lparr>iq_policy := normalize_delivery_policy policy,
                  iq_root_round := (case roots of r # _ \<Rightarrow> trim_space r | [] \<Rightarrow> []),
                  iq_updated := now\<rparr>
           else j) q, fs')"
proof -
  have "iq_id i \<in> iq_id ` set q" using assms(3) by (rule imageI)
  then show ?thesis
    using update_policy_spec[OF assms, of policy roots] by (simp add: q_put_def)
qed

lemma update_policy_updates_one_witness:
  "\<exists>fs'. update_delivery_policy sample_files sample_location ''b'' ''GUIDE'' ['' r''] 9 =
     Inr ([sample_item ''a'' ''guide'' 5,
           (sample_item ''b'' ''guide'' 6)\<lparr>iq_root_round := ''r'', iq_updated := 9\<rparr>,
           sample_item ''c'' ''guide'' 7], fs')"
proof -
  have "trimmed ''b''" "normalize_delivery_policy ''GUIDE'' = ''guide''" "trim_space '' r'' = ''r''"
    by code_simp+
  then show ?thesis
    using update_policy_updates_one[OF sample_snapshot, of "sample_item ''b'' ''queue'' 6" "''b''"
        "''GUIDE''" "['' r'']"]
    by (simp add: sample_queue_def sample_item_def no_route_def)
qed

text \<open>An operation on one queue leaves every queue in another file as it is: the snapshot of a
  location whose path differs is unchanged by an enqueue.\<close>

lemma enqueue_isolated:
  assumes "enqueue fs loc item now new_id = Inr (q, fs')"
    "path_for_location loc = Inr path" "path_for_location loc' = Inr path'" "path \<noteq> path'"
  shows "snapshot fs' loc' t = snapshot fs loc' t"
  using append_then_snapshot_isolated assms unfolding enqueue_def by blast

lemma enqueue_isolated_witness:
  "\<exists>fs' q. enqueue sample_files (sample_location\<lparr>loc_workspace := ''/v''\<rparr>) (sample_item ''z'' ''queue'' 5) 9 ''n'' = Inr (q, fs')
     \<and> snapshot fs' sample_location 9 = Inr sample_queue"
proof -
  let ?loc = "sample_location\<lparr>loc_workspace := ''/v''\<rparr>"
  have "trimmed ''/v''" "trimmed ''room:group:c1''" by code_simp+
  then have p: "path_for_location ?loc = Inr (session_input_queue_path ''/v'' ''room:group:c1'')"
    by (simp add: path_for_location_def sample_location_def)
  have ne: "session_input_queue_path ''/v'' ''room:group:c1'' \<noteq> session_input_queue_path ''/w'' ''room:group:c1''"
    by code_simp
  obtain q fs' where e: "enqueue sample_files ?loc (sample_item ''z'' ''queue'' 5) 9 ''n'' = Inr (q, fs')"
    unfolding enqueue_def by (simp add: append_then_snapshot_eq[OF p])
  then have "snapshot fs' sample_location 9 = snapshot sample_files sample_location 9"
    using enqueue_isolated[OF e p sample_path ne] by simp
  with e sample_snapshot show ?thesis by auto
qed

text \<open>Dispatching by id does not tell whether the item was still there: when two callers have read
  the same queue and both dispatch the same item, both calls succeed with the same result, so
  each caller goes on to run the item.\<close>

lemma dispatch_not_exclusive:
  assumes "snapshot fs loc now = Inr q" "0 < now"
  shows "\<exists>fs1 fs2. dispatch_item fs loc k now = Inr (filter (\<lambda>i. iq_id i \<noteq> trim_space k) q, fs1) \<and>
    dispatch_item fs1 loc k now = Inr (filter (\<lambda>i. iq_id i \<noteq> trim_space k) q, fs2)"
proof -
  obtain fs1 where fs1: "remove_item fs loc k ''dispatch'' now = Inr (q_remove (trim_space k) q, fs1)"
    "snapshot fs1 loc now = Inr (q_remove (trim_space k) q)"
    using remove_item_spec[OF assms, of "''dispatch''" k] by auto
  obtain fs2 where "remove_item fs1 loc k ''dispatch'' now =
      Inr (q_remove (trim_space k) (q_remove (trim_space k) q), fs2)"
    using remove_item_spec[OF fs1(2) assms(2), of "''dispatch''" k] by auto
  with fs1(1) show ?thesis by (simp add: dispatch_item_def q_remove_def)
qed

lemma dispatch_not_exclusive_witness:
  "\<exists>fs1 fs2 r. dispatch_item sample_files sample_location ''b'' 9 = Inr (r, fs1) \<and>
     dispatch_item fs1 sample_location ''b'' 9 = Inr (r, fs2)"
  using dispatch_not_exclusive[OF sample_snapshot, of "''b''"] by auto

end
