(* ===== verification/GoDict.thy ===== *)
theory GoDict
  imports GoStrings "HOL-Library.AList" "HOL-Library.List_Lexorder" "HOL-Library.Char_ord"
begin

text \<open>
  Go maps and sorted strings. A map is an association list with distinct keys, so that
  emptiness, size and iteration compute; a set (\<open>map[string]struct{}\<close>) is a list
  without duplicates. Go leaves the iteration order open: the model iterates in list order,
  and what the code returns from an iteration is sorted or a count. \<open>sort.Strings\<close>
  is \<open>sort\<close> over the bytewise lexicographic order.

  The locale \<open>dict\<close> states what a map promises and derives what the components use;
  it is interpreted on the association lists.
\<close>

section \<open>The contract of a map\<close>

locale dict =
  fixes lookup :: "'m \<Rightarrow> 'k \<Rightarrow> 'v option"
    and upd :: "'k \<Rightarrow> 'v \<Rightarrow> 'm \<Rightarrow> 'm"
    and del :: "'k \<Rightarrow> 'm \<Rightarrow> 'm"
    and wf :: "'m \<Rightarrow> bool"
  assumes lookup_upd: "lookup (upd k v m) j = (if j = k then Some v else lookup m j)"
    and lookup_del: "lookup (del k m) j = (if j = k then None else lookup m j)"
    and wf_upd: "wf m \<Longrightarrow> wf (upd k v m)"
    and wf_del: "wf m \<Longrightarrow> wf (del k m)"
begin

lemma dom_lookup_upd: "dom (lookup (upd k v m)) = insert k (dom (lookup m))"
  by (auto simp: lookup_upd)

lemma dom_lookup_del: "dom (lookup (del k m)) = dom (lookup m) - {k}"
  by (auto simp: lookup_del split: if_splits)

lemma ran_upd: "x \<in> ran (lookup (upd k v m)) \<Longrightarrow> x = v \<or> x \<in> ran (lookup m)"
  by (auto simp: lookup_upd ran_def split: if_splits)

lemma ran_del: "x \<in> ran (lookup (del k m)) \<Longrightarrow> x \<in> ran (lookup m)"
  by (auto simp: lookup_del ran_def split: if_splits)

text \<open>A property of all entries survives an update with a value that has it.\<close>

definition all_entries :: "('k \<Rightarrow> 'v \<Rightarrow> bool) \<Rightarrow> 'm \<Rightarrow> bool" where
  "all_entries P m \<longleftrightarrow> (\<forall>k v. lookup m k = Some v \<longrightarrow> P k v)"

lemma all_entriesI: "(\<And>k v. lookup m k = Some v \<Longrightarrow> P k v) \<Longrightarrow> all_entries P m"
  by (simp add: all_entries_def)

lemma all_entriesD: "all_entries P m \<Longrightarrow> lookup m k = Some v \<Longrightarrow> P k v"
  by (simp add: all_entries_def)

lemma all_entries_upd: "all_entries P m \<Longrightarrow> P k v \<Longrightarrow> all_entries P (upd k v m)"
  by (auto simp: all_entries_def lookup_upd)

lemma all_entries_del: "all_entries P m \<Longrightarrow> all_entries P (del k m)"
  by (auto simp: all_entries_def lookup_del)

lemma all_entries_mono: "all_entries P m \<Longrightarrow> (\<And>k v. P k v \<Longrightarrow> Q k v) \<Longrightarrow> all_entries Q m"
  by (auto simp: all_entries_def)

end

section \<open>Association lists\<close>

definition wf_dict :: "('k \<times> 'v) list \<Rightarrow> bool" where
  "wf_dict m \<longleftrightarrow> distinct (map fst m)"

interpretation go_map: dict map_of AList.update AList.delete wf_dict
proof
  fix k j :: 'k and v :: 'v and m :: "('k \<times> 'v) list"
  show "map_of (AList.update k v m) j = (if j = k then Some v else map_of m j)"
    by (simp add: update_conv')
  show "map_of (AList.delete k m) j = (if j = k then None else map_of m j)"
    by (simp add: delete_conv')
  show "wf_dict m \<Longrightarrow> wf_dict (AList.update k v m)"
    by (simp add: wf_dict_def distinct_update)
  show "wf_dict m \<Longrightarrow> wf_dict (AList.delete k m)"
    by (simp add: wf_dict_def distinct_delete)
qed

lemmas dict_simps [simp] = go_map.lookup_upd go_map.lookup_del

lemma wf_dict_Nil [simp]: "wf_dict []"
  by (simp add: wf_dict_def)

declare go_map.wf_upd [inv_intros] go_map.wf_del [inv_intros]

lemma map_of_None_iff: "map_of m k = None \<longleftrightarrow> k \<notin> fst ` set m"
  by (simp add: map_of_eq_None_iff)

text \<open>\<open>m[k]\<close> with the zero value for an absent key.\<close>

definition get_or :: "'v \<Rightarrow> ('k \<times> 'v) list \<Rightarrow> 'k \<Rightarrow> 'v" where
  "get_or d m k = (case map_of m k of None \<Rightarrow> d | Some v \<Rightarrow> v)"

lemma get_or_update [simp]: "get_or d (AList.update k v m) j = (if j = k then v else get_or d m j)"
  by (simp add: get_or_def)

lemma get_or_delete [simp]: "get_or d (AList.delete k m) j = (if j = k then d else get_or d m j)"
  by (simp add: get_or_def)

lemma map_of_filter_wf:
  "wf_dict m \<Longrightarrow> map_of (filter (\<lambda>(k, v). P k v) m) k =
     (case map_of m k of Some v \<Rightarrow> if P k v then Some v else None | None \<Rightarrow> None)"
proof (induction m)
  case (Cons e m)
  then have "map_of m (fst e) = None" by (auto simp: wf_dict_def map_of_eq_None_iff)
  with Cons show ?case by (cases e) (auto simp: wf_dict_def)
qed simp

text \<open>Filling a map in a loop.\<close>

lemma update_mem: "e \<in> set (AList.update k v d) \<Longrightarrow> e = (k, v) \<or> e \<in> set d"
  by (induction d) (auto split: if_splits)

lemma foldl_update_mem:
  "e \<in> set (foldl (\<lambda>d x. AList.update (k x) (v x) d) [] xs) \<Longrightarrow> \<exists>x \<in> set xs. e = (k x, v x)"
  by (induction xs rule: rev_induct) (auto dest: update_mem)

lemma distinct_update_values:
  "distinct (map (\<lambda>e. f (snd e)) d) \<Longrightarrow> f v \<notin> (\<lambda>e. f (snd e)) ` set d \<Longrightarrow>
   distinct (map (\<lambda>e. f (snd e)) (AList.update k v d))"
proof (induction d)
  case (Cons e d)
  have "f (snd x) \<noteq> f (snd e)" if "x \<in> set (AList.update k v d)" for x
    using Cons.prems update_mem[OF that] by (auto simp: image_iff)
  then have "f (snd e) \<notin> (\<lambda>e. f (snd e)) ` set (AList.update k v d)" by force
  then show ?case using Cons by (cases e) (auto simp: image_iff)
qed simp

lemma distinct_foldl_update_values:
  "distinct (map (\<lambda>x. f (v x)) xs) \<Longrightarrow>
   distinct (map (\<lambda>e. f (snd e)) (foldl (\<lambda>d x. AList.update (k x) (v x) d) [] xs))"
proof (induction xs rule: rev_induct)
  case (snoc x xs)
  have "f (v x) \<notin> (\<lambda>e. f (snd e)) ` set (foldl (\<lambda>d x. AList.update (k x) (v x) d) [] xs)"
    using snoc.prems by (force dest: foldl_update_mem)
  with snoc show ?case by (simp add: distinct_update_values)
qed simp

lemma foldl_update_ne: "xs \<noteq> [] \<Longrightarrow> foldl (\<lambda>d x. AList.update (k x) (v x) d) [] xs \<noteq> []"
proof (induction xs rule: rev_induct)
  case (snoc x xs)
  have "AList.update (k x) (v x) d \<noteq> []" for d by (cases d) auto
  then show ?case by simp
qed simp

section \<open>Sets of strings\<close>

lemma distinct_insert_list [simp]: "distinct (List.insert x xs) \<longleftrightarrow> distinct xs"
  by (simp add: List.insert_def)

lemma insert_list_ne [simp]: "List.insert x xs \<noteq> []"
  by (auto simp: List.insert_def)

lemma removeAll_eq_Nil_iff: "removeAll x xs = [] \<longleftrightarrow> set xs \<subseteq> {x}"
  by (induction xs) auto

section \<open>Substrings\<close>

text \<open>\<open>strings.Contains\<close>.\<close>

definition contains :: "string \<Rightarrow> string \<Rightarrow> bool" where
  "contains s sub \<longleftrightarrow> list_ex (prefix sub) (suffixes s)"

lemma contains_iff: "contains s sub \<longleftrightarrow> (\<exists>a b. s = a @ sub @ b)"
  by (force simp: contains_def list_ex_iff prefix_def suffix_def)

section \<open>Decimal numbers\<close>

fun decimal :: "nat \<Rightarrow> string" where
  "decimal n = (if n < 10 then [char_of (48 + n)] else decimal (n div 10) @ [char_of (48 + n mod 10)])"

declare decimal.simps [simp del]

end
