(* ===== verification/RuntimeManager.thy ===== *)
theory RuntimeManager
  imports GoDict
begin

text \<open>
  The runtime manager, \<open>internal/runtime/manager.go\<close> and \<open>guidance.go\<close>: the
  client, the running rounds, their cancel functions and done channels, the interrupt reasons
  and the pending guidance of every session. Each method is the code of its critical section;
  where a method releases the lock in between, its parts are separate definitions, the state
  that the later part sees is a parameter, and the machine of the second half interleaves the
  parts of different calls freely. A channel or cancel function is its number: the manager
  records which channels were closed, and a method returns the functions it called. The SDK
  client is the type \<open>'c\<close>; what its methods return is an argument.
\<close>

section \<open>State\<close>

record guided_input =
  gi_round :: string
  gi_content :: string

record 'c session_state =
  st_client :: "'c option"
  st_running :: "string list"
  st_cancels :: "(string \<times> nat) list"
  st_done :: "(string \<times> nat) list"
  st_interruptions :: "(string \<times> string) list"
  st_guided :: "guided_input list"

record 'c manager =
  sessions :: "(string \<times> 'c session_state) list"
  next_chan :: nat
  closed_chans :: "nat list"

text \<open>
  An error of the SDK is the fact whether \<open>errors.Is\<close> finds one of the transport
  sentinels in it, and its text.
\<close>

record sdk_error =
  err_transport :: bool
  err_text :: string

datatype runtime_error = NoRunningRound | StreamingInputUnsupported | NotConnected | SDK sdk_error | CtxDone

definition empty_session :: "'c session_state" where
  "empty_session =
     \<lparr>st_client = None, st_running = [], st_cancels = [], st_done = [], st_interruptions = [],
      st_guided = []\<rparr>"

definition new_manager :: "'c manager" where
  "new_manager = \<lparr>sessions = [], next_chan = 0, closed_chans = []\<rparr>"

definition session_of :: "'c manager \<Rightarrow> string \<Rightarrow> 'c session_state" where
  "session_of m key = get_or empty_session (sessions m) key"

text \<open>\<open>ensureStateLocked\<close> followed by an update of the state it returns.\<close>

definition put_session :: "string \<Rightarrow> 'c session_state \<Rightarrow> 'c manager \<Rightarrow> 'c manager" where
  "put_session key st m = m\<lparr>sessions := AList.update key st (sessions m)\<rparr>"

definition ensure_state :: "'c manager \<Rightarrow> string \<Rightarrow> 'c session_state \<times> 'c manager" where
  "ensure_state m key =
     (case map_of (sessions m) key of
        Some st \<Rightarrow> (st, m)
      | None \<Rightarrow> (empty_session, put_session key empty_session m))"

section \<open>Clients\<close>

definition is_transport_closed_error :: "sdk_error option \<Rightarrow> bool" where
  "is_transport_closed_error err =
     (case err of
        None \<Rightarrow> False
      | Some e \<Rightarrow>
          if err_transport e then True
          else let message = to_lower (err_text e) in
            contains message ''write payload failed''
            \<or> contains message ''pipe has been ended''
            \<or> contains message ''broken pipe''
            \<or> contains message ''file already closed''
            \<or> contains message ''client: not connected'')"

text \<open>
  The critical sections of \<open>GetOrCreate\<close>: reading the present client, creating one
  when there is still none, and replacing a client whose transport is closed, unless another
  call has replaced it already. \<open>next\<close> is what the factory made.
\<close>

definition existing_client :: "'c manager \<Rightarrow> string \<Rightarrow> 'c option" where
  "existing_client m key =
     (case map_of (sessions m) key of None \<Rightarrow> None | Some st \<Rightarrow> st_client st)"

definition create_client :: "'c manager \<Rightarrow> string \<Rightarrow> 'c option \<Rightarrow> 'c option \<times> bool \<times> 'c manager" where
  "create_client m key made =
     (let (st, m) = ensure_state m key in
      case st_client st of
        None \<Rightarrow> (made, True, put_session key (st\<lparr>st_client := made\<rparr>) m)
      | Some c \<Rightarrow> (Some c, False, m))"

definition swap_client ::
  "'c manager \<Rightarrow> string \<Rightarrow> 'c \<Rightarrow> 'c option \<Rightarrow> 'c option \<times> bool \<times> 'c manager" where
  "swap_client m key stale made =
     (let (st, m) = ensure_state m key in
      if st_client st \<noteq> Some stale then (st_client st, False, m)
      else (made, True, put_session key (st\<lparr>st_client := made\<rparr>) m))"

text \<open>
  \<open>replaceDisconnectedClient\<close> and \<open>GetOrCreate\<close>. \<open>reconfigure\<close> and
  \<open>disconnect\<close> are the results of the client's methods, \<open>made\<close> what the
  factory returns, and \<open>others\<close> what other goroutines do to the manager between two
  critical sections.
\<close>

definition replace_disconnected_client ::
  "('c \<Rightarrow> sdk_error option) \<Rightarrow> 'c option \<Rightarrow> 'c manager \<Rightarrow> string \<Rightarrow> 'c \<Rightarrow>
   (runtime_error + 'c) \<times> 'c manager" where
  "replace_disconnected_client disconnect made m key stale =
     (case swap_client m key stale made of
        (current, False, m') \<Rightarrow>
          ((case current of None \<Rightarrow> Inl NotConnected | Some c \<Rightarrow> Inr c), m')
      | (_, True, m') \<Rightarrow>
          (case disconnect stale of
             Some e \<Rightarrow>
               if \<not> is_transport_closed_error (Some e) then (Inl (SDK e), m')
               else ((case made of None \<Rightarrow> Inl NotConnected | Some c \<Rightarrow> Inr c), m')
           | None \<Rightarrow> ((case made of None \<Rightarrow> Inl NotConnected | Some c \<Rightarrow> Inr c), m')))"

definition get_or_create ::
  "('c \<Rightarrow> sdk_error option) \<Rightarrow> ('c \<Rightarrow> sdk_error option) \<Rightarrow> 'c option \<Rightarrow>
   ('c manager \<Rightarrow> 'c manager) \<Rightarrow> 'c manager \<Rightarrow> string \<Rightarrow>
   (runtime_error + 'c option) \<times> 'c manager" where
  "get_or_create reconfigure disconnect made others m key =
     (case existing_client m key of
        Some c \<Rightarrow>
          (case reconfigure c of
             None \<Rightarrow> (Inr (Some c), others m)
           | Some e \<Rightarrow>
               if is_transport_closed_error (Some e) then
                 (case replace_disconnected_client disconnect made (others m) key c of
                    (Inl err, m') \<Rightarrow> (Inl err, m')
                  | (Inr c', m') \<Rightarrow> (Inr (Some c'), m'))
               else (Inl (SDK e), others m))
      | None \<Rightarrow>
          (case create_client (others m) key made of
             (c, True, m') \<Rightarrow> (Inr c, m')
           | (c, False, m') \<Rightarrow>
               (case c of
                  None \<Rightarrow> (Inr None, m')
                | Some c' \<Rightarrow>
                    (case reconfigure c' of
                       Some e \<Rightarrow> (Inl (SDK e), m')
                     | None \<Rightarrow> (Inr (Some c'), m')))))"

section \<open>Rounds\<close>

definition start_round :: "'c manager \<Rightarrow> string \<Rightarrow> string \<Rightarrow> nat option \<Rightarrow> 'c manager" where
  "start_round m key round_id cancel =
     (if key = [] \<or> round_id = [] then m
      else
        let (st, m) = ensure_state m key;
            st = st\<lparr>st_running := List.insert round_id (st_running st),
                    st_interruptions := AList.delete round_id (st_interruptions st)\<rparr>;
            st = (case cancel of
                    None \<Rightarrow> st
                  | Some f \<Rightarrow> st\<lparr>st_cancels := AList.update round_id f (st_cancels st)\<rparr>)
        in case map_of (st_done st) round_id of
             Some _ \<Rightarrow> put_session key st m
           | None \<Rightarrow>
               put_session key
                 (st\<lparr>st_done := AList.update round_id (next_chan m) (st_done st)\<rparr>)
                 (m\<lparr>next_chan := Suc (next_chan m)\<rparr>))"

definition mark_round_finished :: "'c manager \<Rightarrow> string \<Rightarrow> string \<Rightarrow> 'c manager" where
  "mark_round_finished m key round_id =
     (if key = [] \<or> round_id = [] then m
      else case map_of (sessions m) key of
        None \<Rightarrow> m
      | Some st \<Rightarrow>
          let st = st\<lparr>st_running := removeAll round_id (st_running st),
                      st_cancels := AList.delete round_id (st_cancels st),
                      st_interruptions := AList.delete round_id (st_interruptions st)\<rparr>;
              st = (if st_running st = [] then st\<lparr>st_guided := []\<rparr> else st)
          in case map_of (st_done st) round_id of
               None \<Rightarrow> put_session key st m
             | Some ch \<Rightarrow>
                 put_session key (st\<lparr>st_done := AList.delete round_id (st_done st)\<rparr>)
                   (m\<lparr>closed_chans := ch # closed_chans m\<rparr>))"

definition running_round_ids :: "'c manager \<Rightarrow> string \<Rightarrow> string list" where
  "running_round_ids m key =
     (case map_of (sessions m) key of
        None \<Rightarrow> []
      | Some st \<Rightarrow> if st_running st = [] then [] else sort (st_running st))"

definition session_belongs_to_agent :: "string \<Rightarrow> string \<Rightarrow> bool" where
  "session_belongs_to_agent key agent_id \<longleftrightarrow> prefix (''agent:'' @ agent_id @ '':'') key"

definition count_running_rounds :: "'c manager \<Rightarrow> string \<Rightarrow> nat" where
  "count_running_rounds m agent_id =
     (if agent_id = [] then 0
      else sum_list (map (\<lambda>(key, st).
             if st_running st = [] then 0
             else if \<not> session_belongs_to_agent key agent_id then 0
             else length (st_running st)) (sessions m)))"

definition interrupt_reason :: "'c manager \<Rightarrow> string \<Rightarrow> string \<Rightarrow> string" where
  "interrupt_reason m key round_id =
     (if trim_space key = [] \<or> trim_space round_id = [] then []
      else case map_of (sessions m) key of
        None \<Rightarrow> []
      | Some st \<Rightarrow> trim_space (get_or [] (st_interruptions st) round_id))"

text \<open>The second component lists the cancel functions called.\<close>

definition close_session ::
  "('c \<Rightarrow> sdk_error option) \<Rightarrow> 'c manager \<Rightarrow> string \<Rightarrow> sdk_error option \<times> nat list \<times> 'c manager" where
  "close_session disconnect m key =
     (case map_of (sessions m) key of
        None \<Rightarrow> (None, [], m)
      | Some st \<Rightarrow>
          let m' = m\<lparr>sessions := AList.delete key (sessions m)\<rparr> in
          case st_client st of
            None \<Rightarrow> (None, [], m')
          | Some c \<Rightarrow> (disconnect c, map snd (st_cancels st), m'))"

section \<open>Interrupting\<close>

text \<open>
  What \<open>InterruptSession\<close> reads under the lock: the running rounds, their done
  channels and their cancel functions. It then marks the rounds under the lock taken anew.
\<close>

definition interrupt_collect ::
  "'c manager \<Rightarrow> string \<Rightarrow> (string list \<times> nat list \<times> nat list) option" where
  "interrupt_collect m key =
     (case map_of (sessions m) key of
        None \<Rightarrow> None
      | Some st \<Rightarrow>
          Some (sort (st_running st),
                List.map_filter (map_of (st_done st)) (st_running st),
                List.map_filter (map_of (st_cancels st)) (st_running st)))"

fun set_interruptions :: "(string \<times> string) list \<Rightarrow> string list \<Rightarrow> string \<Rightarrow> (string \<times> string) list" where
  "set_interruptions ints [] reason = ints"
| "set_interruptions ints (r # rs) reason = set_interruptions (AList.update r reason ints) rs reason"

definition interrupt_mark ::
  "'c manager \<Rightarrow> string \<Rightarrow> string list \<Rightarrow> string \<Rightarrow> 'c option \<times> 'c manager" where
  "interrupt_mark m key round_ids reason =
     (let (st, m) = ensure_state m key
      in (st_client st,
          put_session key
            (st\<lparr>st_interruptions := set_interruptions (st_interruptions st) round_ids reason\<rparr>) m))"

text \<open>
  \<open>waitRoundDoneSignals\<close>: what each \<open>select\<close> of the loop picks is an
  argument. Once the force cancel has run (or there is none), the timer is no case of the
  \<open>select\<close> any more, so a \<open>WakeTimer\<close> is then skipped. The second component counts the calls
  of \<open>forceCancel\<close>; \<open>Blocked\<close> is a wait that nothing has ended yet.
\<close>

datatype wake = WakeDone | WakeCtx | WakeTimer

datatype wait_result = WaitOk | WaitCancelled | Blocked

fun wait_signals :: "nat \<Rightarrow> bool \<Rightarrow> wake list \<Rightarrow> wait_result \<times> nat" where
  "wait_signals 0 forced ws = (WaitOk, 0)"
| "wait_signals (Suc n) forced [] = (Blocked, 0)"
| "wait_signals (Suc n) forced (w # ws) =
     (case w of
        WakeDone \<Rightarrow> wait_signals n forced ws
      | WakeCtx \<Rightarrow> (WaitCancelled, 0)
      | WakeTimer \<Rightarrow>
          if forced then wait_signals (Suc n) forced ws
          else let (r, calls) = wait_signals (Suc n) True ws in (r, Suc calls))"

text \<open>
  \<open>interrupt\<close> is the result of the client's \<open>Interrupt\<close>, \<open>others\<close> what
  happens between the two critical sections. The result holds the error, if any, the round
  ids and the cancel functions called; \<open>None\<close> is a wait that has not returned.
\<close>

definition interrupt_session ::
  "('c \<Rightarrow> sdk_error option) \<Rightarrow> ('c manager \<Rightarrow> 'c manager) \<Rightarrow> wake list \<Rightarrow> 'c manager \<Rightarrow>
   string \<Rightarrow> string \<Rightarrow> (runtime_error option \<times> string list \<times> nat list) option \<times> 'c manager" where
  "interrupt_session interrupt others wakes m key reason =
     (case interrupt_collect m key of
        None \<Rightarrow> (Some (None, [], []), m)
      | Some (round_ids, signals, cancels) \<Rightarrow>
          if round_ids = [] then (Some (None, [], []), m)
          else
            let (client, m') = interrupt_mark (others m) key round_ids (trim_space reason);
                finish = (\<lambda>(r, calls) before.
                  let called = before @ concat (replicate calls cancels) in
                  case r of
                    WaitOk \<Rightarrow> Some (None, round_ids, called)
                  | WaitCancelled \<Rightarrow> Some (Some CtxDone, round_ids, called)
                  | Blocked \<Rightarrow> None)
            in case client of
                 None \<Rightarrow> (finish (wait_signals (length signals) True wakes) cancels, m')
               | Some c \<Rightarrow>
                   (case interrupt c of
                      Some e \<Rightarrow> (Some (Some (SDK e), round_ids, []), m')
                    | None \<Rightarrow> (finish (wait_signals (length signals) False wakes) [], m')))"

section \<open>Input to a running round\<close>

text \<open>\<open>send\<close> is the client's \<open>SendContent\<close>, \<open>None\<close> for a client without it.\<close>

definition send_client_content ::
  "('c \<Rightarrow> ('a \<Rightarrow> sdk_error option) option) \<Rightarrow> 'c option \<Rightarrow> 'a \<Rightarrow> runtime_error option" where
  "send_client_content send client content =
     (case client of
        None \<Rightarrow> Some NoRunningRound
      | Some c \<Rightarrow>
          (case send c of
             None \<Rightarrow> Some StreamingInputUnsupported
           | Some f \<Rightarrow> map_option SDK (f content)))"

definition send_content_to_running_round ::
  "('c \<Rightarrow> ('a \<Rightarrow> sdk_error option) option) \<Rightarrow> 'c manager \<Rightarrow> string \<Rightarrow> 'a \<Rightarrow>
   runtime_error option \<times> string list" where
  "send_content_to_running_round send m key content =
     (case map_of (sessions m) key of
        None \<Rightarrow> (Some NoRunningRound, [])
      | Some st \<Rightarrow>
          if st_client st = None \<or> st_running st = [] then (Some NoRunningRound, [])
          else (send_client_content send (st_client st) content, sort (st_running st)))"

section \<open>Guidance\<close>

definition queue_guidance ::
  "'c manager \<Rightarrow> string \<Rightarrow> string \<Rightarrow> string \<Rightarrow> (runtime_error + string list) \<times> 'c manager" where
  "queue_guidance m key round_id content =
     (if trim_space content = [] then (Inr [], m)
      else case map_of (sessions m) key of
        None \<Rightarrow> (Inl NoRunningRound, m)
      | Some st \<Rightarrow>
          if st_running st = [] then (Inl NoRunningRound, m)
          else (Inr (sort (st_running st)),
                put_session key
                  (st\<lparr>st_guided := st_guided st @
                        [\<lparr>gi_round = trim_space round_id, gi_content = trim_space content\<rparr>]\<rparr>) m))"

definition pending_guidance_count :: "'c manager \<Rightarrow> string \<Rightarrow> nat" where
  "pending_guidance_count m key =
     (case map_of (sessions m) key of None \<Rightarrow> 0 | Some st \<Rightarrow> length (st_guided st))"

definition drain_guidance :: "'c manager \<Rightarrow> string \<Rightarrow> guided_input list \<times> 'c manager" where
  "drain_guidance m key =
     (case map_of (sessions m) key of
        None \<Rightarrow> ([], m)
      | Some st \<Rightarrow>
          if st_guided st = [] then ([], m)
          else (st_guided st, put_session key (st\<lparr>st_guided := []\<rparr>) m))"

text \<open>
  The context that the hook hands to the model: one numbered line per input, in order; a
  blank input keeps its number but has no line. The instruction is the UTF-8 encoding of the
  fixed Chinese sentence of the source.
\<close>

definition guidance_instruction :: string where
  "guidance_instruction =
     [CHR 0xE7, CHR 0x94, CHR 0xA8, CHR 0xE6, CHR 0x88, CHR 0xB7, CHR 0xE5, CHR 0x9C,
      CHR 0xA8, CHR 0xE4, CHR 0xBD, CHR 0xA0, CHR 0xE6, CHR 0x89, CHR 0xA7, CHR 0xE8,
      CHR 0xA1, CHR 0x8C, CHR 0xE5, CHR 0xBD, CHR 0x93, CHR 0xE5, CHR 0x89, CHR 0x8D,
      CHR 0x20, CHR 0x72, CHR 0x6F, CHR 0x75, CHR 0x6E, CHR 0x64, CHR 0x20, CHR 0xE6,
      CHR 0x97, CHR 0xB6, CHR 0xE8, CHR 0xA1, CHR 0xA5, CHR 0xE5, CHR 0x85, CHR 0x85,
      CHR 0xE4, CHR 0xBA, CHR 0x86, CHR 0xE4, CHR 0xBB, CHR 0xA5, CHR 0xE4, CHR 0xB8,
      CHR 0x8B, CHR 0xE5, CHR 0xBC, CHR 0x95, CHR 0xE5, CHR 0xAF, CHR 0xBC, CHR 0xE3,
      CHR 0x80, CHR 0x82, CHR 0xE8, CHR 0xAF, CHR 0xB7, CHR 0xE5, CHR 0x9C, CHR 0xA8,
      CHR 0xE7, CHR 0xBB, CHR 0xA7, CHR 0xE7, CHR 0xBB, CHR 0xAD, CHR 0xE4, CHR 0xB8,
      CHR 0x8B, CHR 0xE4, CHR 0xB8, CHR 0x80, CHR 0xE6, CHR 0xAD, CHR 0xA5, CHR 0xE5,
      CHR 0x89, CHR 0x8D, CHR 0xE7, CHR 0xBB, CHR 0x93, CHR 0xE5, CHR 0x90, CHR 0x88,
      CHR 0xE8, CHR 0xBF, CHR 0x99, CHR 0xE4, CHR 0xBA, CHR 0x9B, CHR 0xE8, CHR 0xA6,
      CHR 0x81, CHR 0xE6, CHR 0xB1, CHR 0x82, CHR 0xEF, CHR 0xBC, CHR 0x9B, CHR 0xE5,
      CHR 0xA6, CHR 0x82, CHR 0xE6, CHR 0x9E, CHR 0x9C, CHR 0xE4, CHR 0xB8, CHR 0x8E,
      CHR 0xE5, CHR 0x8E, CHR 0x9F, CHR 0xE4, CHR 0xBB, CHR 0xBB, CHR 0xE5, CHR 0x8A,
      CHR 0xA1, CHR 0xE5, CHR 0x86, CHR 0xB2, CHR 0xE7, CHR 0xAA, CHR 0x81, CHR 0xEF,
      CHR 0xBC, CHR 0x8C, CHR 0xE4, CHR 0xBB, CHR 0xA5, CHR 0xE6, CHR 0x9C, CHR 0x80,
      CHR 0xE6, CHR 0x96, CHR 0xB0, CHR 0xE5, CHR 0xBC, CHR 0x95, CHR 0xE5, CHR 0xAF,
      CHR 0xBC, CHR 0xE4, CHR 0xB8, CHR 0xBA, CHR 0xE5, CHR 0x87, CHR 0x86, CHR 0xE3,
      CHR 0x80, CHR 0x82]"

definition guidance_line :: "nat \<times> guided_input \<Rightarrow> string option" where
  "guidance_line = (\<lambda>(index, input).
     let content = trim_space (gi_content input) in
     if content = [] then None
     else if trim_space (gi_round input) \<noteq> [] then
       Some (decimal (index + 1) @ ''. round_id='' @ trim_space (gi_round input) @ '': '' @ content)
     else Some (decimal (index + 1) @ ''. '' @ content))"

definition format_guidance :: "guided_input list \<Rightarrow> string" where
  "format_guidance inputs =
     join [CHR 0x0A]
       ([''<nexus_guidance>'', guidance_instruction]
        @ List.map_filter guidance_line (enumerate 0 inputs)
        @ [''</nexus_guidance>''])"

text \<open>
  The hook after a tool use, and its wrapper: \<open>None\<close> is the empty output, for which the
  wrapper says \<open>continue\<close>.
\<close>

definition post_tool_use_hook :: "'c manager \<Rightarrow> string \<Rightarrow> string \<Rightarrow> string option \<times> 'c manager" where
  "post_tool_use_hook m key event_name =
     (if event_name \<noteq> [] \<and> event_name \<noteq> ''PostToolUse'' then (None, m)
      else
        let (inputs, m') = drain_guidance m key in
        if inputs = [] then (None, m') else (Some (format_guidance inputs), m'))"

datatype hook_output = Continue | AdditionalContext string

definition wrapped_hook :: "'c manager \<Rightarrow> string \<Rightarrow> string \<Rightarrow> hook_output \<times> 'c manager" where
  "wrapped_hook m key event_name =
     (case post_tool_use_hook m key event_name of
        (None, m') \<Rightarrow> (Continue, m')
      | (Some ctx, m') \<Rightarrow> (AdditionalContext ctx, m'))"

section \<open>The machine\<close>

text \<open>
  One step is one critical section. \<open>EMark\<close> takes any round ids, since
  \<open>InterruptSession\<close> marks the rounds it read before it took the lock again.
\<close>

datatype 'c event =
    EStart string string "nat option"
  | EFinish string string
  | ECreate string "'c option"
  | ESwap string 'c "'c option"
  | EMark string "string list" string
  | EQueue string string string
  | EDrain string
  | EClose string

fun manager_step :: "'c manager \<Rightarrow> 'c event \<Rightarrow> 'c manager" where
  "manager_step m (EStart key r cancel) = start_round m key r cancel"
| "manager_step m (EFinish key r) = mark_round_finished m key r"
| "manager_step m (ECreate key made) = snd (snd (create_client m key made))"
| "manager_step m (ESwap key stale made) = snd (snd (swap_client m key stale made))"
| "manager_step m (EMark key rs reason) = snd (interrupt_mark m key rs reason)"
| "manager_step m (EQueue key r content) = snd (queue_guidance m key r content)"
| "manager_step m (EDrain key) = snd (drain_guidance m key)"
| "manager_step m (EClose key) = snd (snd (close_session (\<lambda>_. None) m key))"

definition chan_at :: "'c manager \<Rightarrow> string \<Rightarrow> string \<Rightarrow> nat option" where
  "chan_at m key r = map_of (st_done (session_of m key)) r"

definition session_ok :: "'c session_state \<Rightarrow> bool" where
  "session_ok st \<longleftrightarrow>
     distinct (st_running st) \<and> wf_dict (st_cancels st) \<and> wf_dict (st_done st)
     \<and> wf_dict (st_interruptions st)
     \<and> dom (map_of (st_done st)) = set (st_running st)
     \<and> dom (map_of (st_cancels st)) \<subseteq> set (st_running st)
     \<and> (st_guided st \<noteq> [] \<longrightarrow> st_running st \<noteq> [])"

definition chans_ok :: "'c manager \<Rightarrow> bool" where
  "chans_ok m \<longleftrightarrow>
     (\<forall>k r c. chan_at m k r = Some c \<longrightarrow> c < next_chan m \<and> c \<notin> set (closed_chans m))
     \<and> (\<forall>k r k' r' c. chan_at m k r = Some c \<longrightarrow> chan_at m k' r' = Some c \<longrightarrow> k = k' \<and> r = r')
     \<and> distinct (closed_chans m) \<and> (\<forall>c \<in> set (closed_chans m). c < next_chan m)"

definition manager_inv :: "'c manager \<Rightarrow> bool" where
  "manager_inv m \<longleftrightarrow>
     wf_dict (sessions m) \<and> (\<forall>k. session_ok (session_of m k)) \<and> chans_ok m"

lemma session_of_put [simp]: "session_of (put_session k st m) j = (if j = k then st else session_of m j)"
  by (simp add: session_of_def put_session_def)

lemma put_session_simps [simp]:
  "next_chan (put_session k st m) = next_chan m"
  "closed_chans (put_session k st m) = closed_chans m"
  "session_of (m\<lparr>next_chan := n\<rparr>) j = session_of m j"
  "session_of (m\<lparr>closed_chans := cs\<rparr>) j = session_of m j"
  by (simp_all add: put_session_def session_of_def)

lemma session_of_Some: "map_of (sessions m) k = Some st \<Longrightarrow> session_of m k = st"
  by (simp add: session_of_def get_or_def)

lemma session_of_None: "map_of (sessions m) k = None \<Longrightarrow> session_of m k = empty_session"
  by (simp add: session_of_def get_or_def)

lemma session_ok_empty [simp]: "session_ok empty_session"
  by (simp add: session_ok_def empty_session_def)

lemma manager_inv_session: "manager_inv m \<Longrightarrow> session_ok (session_of m k)"
  by (simp add: manager_inv_def)

text \<open>Storing a session whose done channels are unchanged keeps the invariant.\<close>

lemma manager_inv_put:
  assumes "manager_inv m" "session_ok st" "st_done st = st_done (session_of m k)"
  shows "manager_inv (put_session k st m)"
proof -
  have "chan_at (put_session k st m) = chan_at m"
    using assms(3) by (auto simp: chan_at_def fun_eq_iff)
  then have "chans_ok (put_session k st m)"
    using assms(1) by (simp add: chans_ok_def manager_inv_def)
  then show ?thesis
    using assms by (simp add: manager_inv_def put_session_def session_of_def inv_intros)
qed

lemma ensure_state_eq:
  assumes "ensure_state m k = (st, m')"
  shows "st = session_of m k" "session_of m' = session_of m" "next_chan m' = next_chan m"
    "closed_chans m' = closed_chans m" "manager_inv m \<Longrightarrow> manager_inv m'"
proof -
  show "manager_inv m \<Longrightarrow> manager_inv m'"
    using assms manager_inv_put[of m empty_session k]
    by (auto simp: ensure_state_def session_of_None split: option.splits)
qed (use assms in \<open>auto simp: ensure_state_def fun_eq_iff session_of_Some session_of_None
    split: option.splits\<close>)


text \<open>Opening the next channel, and closing one that a round holds.\<close>

lemma chans_okD:
  assumes "chans_ok m" "chan_at m k r = Some c"
  shows "c < next_chan m" "c \<notin> set (closed_chans m)" "chan_at m k' r' = Some c \<Longrightarrow> k' = k \<and> r' = r"
  using assms unfolding chans_ok_def by blast+

lemma chans_ok_open:
  assumes "chans_ok m" "chan_at m' = (chan_at m)(k := (chan_at m k)(r \<mapsto> next_chan m))"
    "next_chan m' = Suc (next_chan m)" "closed_chans m' = closed_chans m"
  shows "chans_ok m'"
proof -
  have other: "chan_at m i s = Some c \<Longrightarrow> c \<noteq> next_chan m" for i s c
    using chans_okD(1)[OF assms(1)] by blast
  have closed: "distinct (closed_chans m)" "\<forall>c \<in> set (closed_chans m). c < next_chan m"
    using assms(1) by (simp_all add: chans_ok_def)
  show ?thesis
    unfolding chans_ok_def
  proof (intro conjI allI impI)
    fix i s c assume "chan_at m' i s = Some c"
    then show "c < next_chan m'" "c \<notin> set (closed_chans m')"
      using closed chans_okD(1,2)[OF assms(1), of i s c]
      by (auto simp: assms(2-4) split: if_splits)
  next
    fix i s i' s' c
    assume a: "chan_at m' i s = Some c" "chan_at m' i' s' = Some c"
    show "i = i'" "s = s'"
      using a chans_okD(3)[OF assms(1), of i s c i' s'] other
      by (auto simp: assms(2) split: if_splits)
  qed (use closed in \<open>auto simp: assms(3,4)\<close>)
qed

lemma chans_ok_close:
  assumes "chans_ok m" "chan_at m k r = Some ch" "chan_at m' = (chan_at m)(k := (chan_at m k)(r := None))"
    "next_chan m' = next_chan m" "closed_chans m' = ch # closed_chans m"
  shows "chans_ok m'"
proof -
  have held: "chan_at m' i s = Some c \<Longrightarrow> chan_at m i s = Some c \<and> c \<noteq> ch" for i s c
    using chans_okD(3)[OF assms(1,2), of i s] by (auto simp: assms(3) split: if_splits)
  have closed: "distinct (closed_chans m)" "\<forall>c \<in> set (closed_chans m). c < next_chan m"
    using assms(1) by (simp_all add: chans_ok_def)
  show ?thesis
    unfolding chans_ok_def
  proof (intro conjI allI impI)
    fix i s c assume "chan_at m' i s = Some c"
    then show "c < next_chan m'" "c \<notin> set (closed_chans m')"
      using held chans_okD(1,2)[OF assms(1), of i s c] by (auto simp: assms(4,5))
  next
    fix i s i' s' c
    assume a: "chan_at m' i s = Some c" "chan_at m' i' s' = Some c"
    show "i = i'" "s = s'"
      using held[OF a(1)] held[OF a(2)] chans_okD(3)[OF assms(1), of i s c i' s'] by auto
  qed (use closed chans_okD(1,2)[OF assms(1,2)] in \<open>auto simp: assms(4,5)\<close>)
qed

lemma inv_start_round [inv_intros]:
  assumes "manager_inv m"
  shows "manager_inv (start_round m key r cancel)"
proof (cases "key = [] \<or> r = []")
  case True
  with assms show ?thesis by (simp add: start_round_def)
next
  case False
  obtain st m' where e: "ensure_state m key = (st, m')" by (cases "ensure_state m key")
  note eq = ensure_state_eq[OF e]
  define st' where "st' = (case cancel of
      None \<Rightarrow> st\<lparr>st_running := List.insert r (st_running st),
                st_interruptions := AList.delete r (st_interruptions st)\<rparr>
    | Some f \<Rightarrow> st\<lparr>st_running := List.insert r (st_running st),
                st_interruptions := AList.delete r (st_interruptions st),
                st_cancels := AList.update r f (st_cancels st)\<rparr>)"
  have inv: "manager_inv m'" using assms eq(5) by simp
  have ok: "session_ok st" using assms by (simp add: eq(1) manager_inv_def)
  have dn: "st_done st' = st_done st" by (simp add: st'_def split: option.splits)
  have c: "st_running st' = List.insert r (st_running st)"
    "st_interruptions st' = AList.delete r (st_interruptions st)" "st_guided st' = st_guided st"
    "wf_dict (st_cancels st) \<Longrightarrow> wf_dict (st_cancels st')"
    "dom (map_of (st_cancels st')) \<subseteq> insert r (dom (map_of (st_cancels st)))"
    by (simp_all add: st'_def inv_intros go_map.dom_lookup_upd subset_insertI split: option.splits)
  have run: "start_round m key r cancel = (case map_of (st_done st) r of
      Some _ \<Rightarrow> put_session key st' m'
    | None \<Rightarrow> put_session key (st'\<lparr>st_done := AList.update r (next_chan m') (st_done st)\<rparr>)
                (m'\<lparr>next_chan := Suc (next_chan m')\<rparr>))"
    using False by (auto simp: start_round_def e st'_def Let_def split: option.splits)
  show ?thesis
  proof (cases "map_of (st_done st) r")
    case (Some c)
    then have "r \<in> set (st_running st)" using ok by (auto simp: session_ok_def)
    then have "session_ok st'"
      using ok c(4,5) dn unfolding session_ok_def
      by (simp add: c(1-3) inv_intros insert_absorb) blast
    then show ?thesis
      using Some run manager_inv_put[OF inv] dn eq(1,2) by simp
  next
    case None
    let ?st = "st'\<lparr>st_done := AList.update r (next_chan m') (st_done st)\<rparr>"
    let ?m = "put_session key ?st (m'\<lparr>next_chan := Suc (next_chan m')\<rparr>)"
    have "session_ok ?st"
      using ok c(4,5) unfolding session_ok_def
      by (simp add: c(1-3) inv_intros go_map.dom_lookup_upd) blast
    moreover have "chan_at ?m = (chan_at m')(key := (chan_at m' key)(r \<mapsto> next_chan m'))"
      using eq(1,2) by (auto simp: chan_at_def fun_eq_iff)
    then have "chans_ok ?m"
      using inv by (intro chans_ok_open[of m' ?m key r]) (simp_all add: manager_inv_def)
    moreover have "wf_dict (sessions ?m)"
      using inv by (simp add: manager_inv_def put_session_def inv_intros)
    ultimately have "manager_inv ?m"
      using inv by (simp add: manager_inv_def)
    then show ?thesis using None run by simp
  qed
qed

lemma inv_finish [inv_intros]:
  assumes "manager_inv m"
  shows "manager_inv (mark_round_finished m key r)"
proof (cases "key = [] \<or> r = [] \<or> map_of (sessions m) key = None")
  case True
  with assms show ?thesis by (auto simp: mark_round_finished_def)
next
  case False
  then obtain st where st: "map_of (sessions m) key = Some st" by auto
  then have so: "session_of m key = st" by (rule session_of_Some)
  have ok: "session_ok st" using assms by (auto simp: manager_inv_def simp flip: so)
  define st' where "st' = (let s = st\<lparr>st_running := removeAll r (st_running st),
        st_cancels := AList.delete r (st_cancels st),
        st_interruptions := AList.delete r (st_interruptions st)\<rparr>
      in if st_running s = [] then s\<lparr>st_guided := []\<rparr> else s)"
  have dn: "st_done st' = st_done st" by (simp add: st'_def Let_def)
  have run: "mark_round_finished m key r = (case map_of (st_done st) r of
      None \<Rightarrow> put_session key st' m
    | Some ch \<Rightarrow> put_session key (st'\<lparr>st_done := AList.delete r (st_done st)\<rparr>)
                  (m\<lparr>closed_chans := ch # closed_chans m\<rparr>))"
    using False st by (auto simp: mark_round_finished_def st'_def Let_def split: option.splits)
  have ok': "session_ok (st'\<lparr>st_done := AList.delete r (st_done st)\<rparr>)"
  proof -
    have c: "st_running st' = removeAll r (st_running st)"
      "st_cancels st' = AList.delete r (st_cancels st)"
      "st_interruptions st' = AList.delete r (st_interruptions st)"
      "st_guided st' \<noteq> [] \<longrightarrow> st_running st' \<noteq> []"
      by (auto simp: st'_def Let_def)
    show ?thesis
      using ok c(4) unfolding session_ok_def
      by (simp add: c(1-3) inv_intros go_map.dom_lookup_del distinct_removeAll) blast
  qed
  show ?thesis
  proof (cases "map_of (st_done st) r")
    case None
    then have "AList.delete r (st_done st) = st_done st"
      by (simp add: delete_id map_of_eq_None_iff)
    with ok' dn have "session_ok st'" by (simp add: session_ok_def)
    then show ?thesis
      using None run manager_inv_put[OF assms] dn so by simp
  next
    case (Some ch)
    let ?m = "put_session key (st'\<lparr>st_done := AList.delete r (st_done st)\<rparr>)
                (m\<lparr>closed_chans := ch # closed_chans m\<rparr>)"
    have "chan_at ?m = (chan_at m)(key := (chan_at m key)(r := None))"
      using so by (auto simp: chan_at_def fun_eq_iff)
    moreover have "chan_at m key r = Some ch" using Some so by (simp add: chan_at_def)
    ultimately have "chans_ok ?m"
      using assms by (intro chans_ok_close[of m key r ch ?m]) (simp_all add: manager_inv_def)
    moreover have "wf_dict (sessions ?m)"
      using assms by (simp add: manager_inv_def put_session_def inv_intros)
    ultimately have "manager_inv ?m" using assms ok' by (simp add: manager_inv_def)
    then show ?thesis using Some run by simp
  qed
qed

lemma set_interruptions_wf: "wf_dict ints \<Longrightarrow> wf_dict (set_interruptions ints rs reason)"
  by (induction ints rs reason rule: set_interruptions.induct) (auto simp: inv_intros)

lemma get_set_interruptions:
  "map_of (set_interruptions ints rs reason) r = (if r \<in> set rs then Some reason else map_of ints r)"
  by (induction ints rs reason rule: set_interruptions.induct) auto

lemma inv_clients [inv_intros]:
  assumes "manager_inv m"
  shows "manager_inv (snd (snd (create_client m key made)))"
    "manager_inv (snd (snd (swap_client m key stale made)))"
    "manager_inv (snd (interrupt_mark m key rs reason))"
proof -
  obtain st m' where e: "ensure_state m key = (st, m')" by (cases "ensure_state m key")
  note eq = ensure_state_eq[OF e]
  have inv: "manager_inv m'" using assms eq(5) by simp
  have ok: "session_ok st" using assms by (simp add: eq(1) manager_inv_def)
  have "session_ok (st\<lparr>st_client := c\<rparr>)" for c using ok by (simp add: session_ok_def)
  then have put: "manager_inv (put_session key (st\<lparr>st_client := c\<rparr>) m')" for c
    using manager_inv_put[OF inv] eq(1,2) by simp
  then show "manager_inv (snd (snd (create_client m key made)))"
    "manager_inv (snd (snd (swap_client m key stale made)))"
    using inv by (auto simp: create_client_def swap_client_def e split: option.splits)
  have "session_ok (st\<lparr>st_interruptions := set_interruptions (st_interruptions st) rs reason\<rparr>)"
    using ok by (simp add: session_ok_def set_interruptions_wf)
  then show "manager_inv (snd (interrupt_mark m key rs reason))"
    using manager_inv_put[OF inv] eq(1,2) by (simp add: interrupt_mark_def e)
qed

lemma inv_guidance [inv_intros]:
  assumes "manager_inv m"
  shows "manager_inv (snd (queue_guidance m key r content))" "manager_inv (snd (drain_guidance m key))"
proof -
  have put: "manager_inv (put_session key (st\<lparr>st_guided := g\<rparr>) m)"
    if "map_of (sessions m) key = Some st" "g \<noteq> [] \<longrightarrow> st_running st \<noteq> []" for st g
  proof -
    have "session_ok st" using assms session_of_Some[OF that(1)] by (auto simp: manager_inv_def)
    with that have "session_ok (st\<lparr>st_guided := g\<rparr>)" by (simp add: session_ok_def)
    then show ?thesis using manager_inv_put[OF assms] session_of_Some[OF that(1)] by simp
  qed
  show "manager_inv (snd (queue_guidance m key r content))"
    using assms put by (auto simp: queue_guidance_def split: option.splits)
  show "manager_inv (snd (drain_guidance m key))"
    using assms put by (auto simp: drain_guidance_def split: option.splits)
qed

lemma close_session_state:
  "session_of (snd (snd (close_session d m key))) = (session_of m)(key := empty_session)"
  "next_chan (snd (snd (close_session d m key))) = next_chan m"
  "closed_chans (snd (snd (close_session d m key))) = closed_chans m"
  by (auto simp: close_session_def session_of_def get_or_def fun_eq_iff Let_def split: option.splits)

lemma inv_close [inv_intros]:
  assumes "manager_inv m"
  shows "manager_inv (snd (snd (close_session d m key)))"
proof -
  let ?m = "snd (snd (close_session d m key))"
  have "chan_at ?m k r = (if k = key then None else chan_at m k r)" for k r
    by (simp add: chan_at_def close_session_state) (simp add: empty_session_def)
  then have "chans_ok ?m"
    using assms by (auto simp: manager_inv_def chans_ok_def close_session_state)
  moreover have "wf_dict (sessions ?m)"
    using assms by (auto simp: manager_inv_def close_session_def Let_def inv_intros split: option.splits)
  ultimately show ?thesis
    using assms by (simp add: manager_inv_def close_session_state)
qed

lemma manager_inv_new: "manager_inv new_manager"
  by (simp add: manager_inv_def chans_ok_def chan_at_def session_of_def get_or_def new_manager_def)
    (simp add: empty_session_def)

interpretation manager: machine manager_step manager_inv new_manager
proof
  fix m :: "'c manager" and e :: "'c event"
  assume "manager_inv m"
  then show "manager_inv (manager_step m e)" by (cases e) (auto intro: inv_intros)
qed (rule manager_inv_new)


section \<open>Guidance queues\<close>

text \<open>What the guidance operations of a run accepted and delivered for one session.\<close>

abbreviation pending :: "string \<Rightarrow> 'c manager \<Rightarrow> guided_input list" where
  "pending key m \<equiv> st_guided (session_of m key)"

fun accepts :: "string \<Rightarrow> 'c manager \<Rightarrow> 'c event \<Rightarrow> guided_input list" where
  "accepts key m (EQueue k r content) =
     (if k = key \<and> trim_space content \<noteq> [] \<and> st_running (session_of m key) \<noteq> []
      then [\<lparr>gi_round = trim_space r, gi_content = trim_space content\<rparr>] else [])"
| "accepts key m _ = []"

fun delivers :: "string \<Rightarrow> 'c manager \<Rightarrow> 'c event \<Rightarrow> guided_input list" where
  "delivers key m (EDrain k) = (if k = key then fst (drain_guidance m k) else [])"
| "delivers key m _ = []"

fun outputs :: "('c manager \<Rightarrow> 'c event \<Rightarrow> 'a list) \<Rightarrow> 'c manager \<Rightarrow> 'c event list \<Rightarrow> 'a list" where
  "outputs f m [] = []"
| "outputs f m (e # es) = f m e @ outputs f (manager_step m e) es"

fun may_drop :: "string \<Rightarrow> 'c event \<Rightarrow> bool" where
  "may_drop key (EFinish k r) \<longleftrightarrow> k = key"
| "may_drop key (EClose k) \<longleftrightarrow> k = key"
| "may_drop key _ \<longleftrightarrow> False"

lemma pending_start: "pending key (start_round m k r c) = pending key m"
proof (cases "k = [] \<or> r = []")
  case False
  obtain st m' where e: "ensure_state m k = (st, m')" by (cases "ensure_state m k")
  show ?thesis
    using False ensure_state_eq(1,2)[OF e]
    by (auto simp: start_round_def e Let_def split: option.splits)
qed (auto simp: start_round_def)

lemma pending_finish:
  "pending key (mark_round_finished m k r) = pending key m \<or>
   k = key \<and> pending key (mark_round_finished m k r) = []"
  by (auto simp: mark_round_finished_def Let_def session_of_Some split: option.splits)

lemma pending_clients:
  "pending key (snd (snd (create_client m k made))) = pending key m"
  "pending key (snd (snd (swap_client m k stale made))) = pending key m"
  "pending key (snd (interrupt_mark m k rs reason)) = pending key m"
proof -
  obtain st m' where e: "ensure_state m k = (st, m')" by (cases "ensure_state m k")
  note eq = ensure_state_eq(1,2)[OF e]
  show "pending key (snd (snd (create_client m k made))) = pending key m"
    "pending key (snd (snd (swap_client m k stale made))) = pending key m"
    "pending key (snd (interrupt_mark m k rs reason)) = pending key m"
    using eq by (auto simp: create_client_def swap_client_def interrupt_mark_def e split: option.splits)
qed

lemma pending_queue:
  "pending key (snd (queue_guidance m k r c)) = pending key m @ accepts key m (EQueue k r c)"
  by (auto simp: queue_guidance_def session_of_Some session_of_None empty_session_def split: option.splits)

lemma pending_drain:
  "fst (drain_guidance m k) = pending k m"
  "pending key (snd (drain_guidance m k)) = (if k = key then [] else pending key m)"
  by (auto simp: drain_guidance_def session_of_Some session_of_None empty_session_def split: option.splits)

lemma guidance_step:
  "subseq (delivers key m e @ pending key (manager_step m e)) (pending key m @ accepts key m e)"
  "\<not> may_drop key e \<Longrightarrow>
   delivers key m e @ pending key (manager_step m e) = pending key m @ accepts key m e"
proof -
  have "empty_session\<lparr>st_guided := []\<rparr> = empty_session" by (simp add: empty_session_def)
  then have "pending key (snd (snd (close_session d m k))) = (if k = key then [] else pending key m)" for d k
    by (simp add: close_session_state) (simp add: empty_session_def)
  moreover have "subseq (pending key (mark_round_finished m k r)) (pending key m)" for k r
    using pending_finish[where key = key and m = m and k = k and r = r] by auto
  moreover have "k \<noteq> key \<Longrightarrow> pending key (mark_round_finished m k r) = pending key m" for k r
    using pending_finish[where key = key and m = m and k = k and r = r] by auto
  ultimately show "subseq (delivers key m e @ pending key (manager_step m e)) (pending key m @ accepts key m e)"
    "\<not> may_drop key e \<Longrightarrow>
     delivers key m e @ pending key (manager_step m e) = pending key m @ accepts key m e"
    by (cases e; simp add: pending_start pending_clients pending_queue pending_drain)+
qed

lemma guidance_run:
  "subseq (outputs (delivers key) m es @ pending key (run manager_step m es))
     (pending key m @ outputs (accepts key) m es)"
proof (induction es arbitrary: m)
  case (Cons e es)
  let ?m = "manager_step m e"
  have "subseq (delivers key m e @ outputs (delivers key) ?m es @ pending key (run manager_step ?m es))
      (delivers key m e @ pending key ?m @ outputs (accepts key) ?m es)"
    using Cons by (simp add: subseq_append')
  also have "subseq \<dots> ((pending key m @ accepts key m e) @ outputs (accepts key) ?m es)"
    using list_emb_append_mono[OF guidance_step(1)[of key m e] subseq_order.refl] by simp
  finally show ?case by simp
qed simp

lemma guidance_run_lossless:
  assumes "\<forall>e \<in> set es. \<not> may_drop key e"
  shows "outputs (delivers key) m es @ pending key (run manager_step m es) =
    pending key m @ outputs (accepts key) m es"
  using assms
proof (induction es arbitrary: m)
  case (Cons e es)
  then show ?case using guidance_step(2)[of key e m] by simp
qed simp

section \<open>Waiting and interrupting\<close>

definition wakes_before_ctx :: "wake list \<Rightarrow> nat" where
  "wakes_before_ctx ws = length (filter (\<lambda>w. w = WakeDone) (takeWhile (\<lambda>w. w \<noteq> WakeCtx) ws))"

lemma wait_signals_forced: "snd (wait_signals n True ws) = 0"
  by (induction n True ws rule: wait_signals.induct) (auto split: wake.splits)

lemma wait_signals_calls: "snd (wait_signals n forced ws) \<le> 1"
  by (induction n forced ws rule: wait_signals.induct)
    (auto split: wake.splits prod.splits dest: arg_cong[where f = snd] simp: wait_signals_forced)

lemma wait_signals_ok: "fst (wait_signals n forced ws) = WaitOk \<longleftrightarrow> n \<le> wakes_before_ctx ws"
  by (induction n forced ws rule: wait_signals.induct)
    (auto split: wake.splits prod.splits simp: wakes_before_ctx_def)

lemma wait_signals_okD: "wait_signals n forced ws = (WaitOk, c) \<Longrightarrow> n \<le> wakes_before_ctx ws"
  using wait_signals_ok[of n forced ws] by simp

lemma interrupt_mark_state:
  assumes "interrupt_mark m key rs reason = (c, m')"
  shows "c = st_client (session_of m key)"
    "session_of m' key = (session_of m key)\<lparr>st_interruptions :=
       set_interruptions (st_interruptions (session_of m key)) rs reason\<rparr>"
    "k \<noteq> key \<Longrightarrow> session_of m' k = session_of m k"
proof -
  obtain st m1 where e: "ensure_state m key = (st, m1)" by (cases "ensure_state m key")
  note eq = ensure_state_eq(1,2)[OF e]
  show "c = st_client (session_of m key)"
    "session_of m' key = (session_of m key)\<lparr>st_interruptions :=
       set_interruptions (st_interruptions (session_of m key)) rs reason\<rparr>"
    "k \<noteq> key \<Longrightarrow> session_of m' k = session_of m k"
    using assms eq by (auto simp: interrupt_mark_def e)
qed

lemma interrupt_session_state:
  assumes "st_running (session_of m key) \<noteq> []"
  shows "session_of (snd (interrupt_session interrupt (\<lambda>m. m) ws m key reason)) key =
    (session_of m key)\<lparr>st_interruptions := set_interruptions
      (st_interruptions (session_of m key)) (sort (st_running (session_of m key))) (trim_space reason)\<rparr>"
proof -
  obtain st where st: "map_of (sessions m) key = Some st"
    using assms by (cases "map_of (sessions m) key") (auto simp: session_of_None empty_session_def)
  have so: "session_of m key = st" using st by (rule session_of_Some)
  have ne: "sort (st_running st) \<noteq> []"
    using assms so by (metis set_empty set_sort)
  obtain c m' where im: "interrupt_mark m key (sort (st_running st)) (trim_space reason) = (c, m')"
    by (cases "interrupt_mark m key (sort (st_running st)) (trim_space reason)")
  show ?thesis
    using interrupt_mark_state(2)[OF im] ne
    by (simp add: interrupt_session_def interrupt_collect_def st so im Let_def split: option.split)
qed

text \<open>The interrupted rounds, and the reasons a caller returns with.\<close>

lemma interrupt_session_result:
  assumes "fst (interrupt_session interrupt others ws m key reason) = Some (err, ids, called)"
  shows "ids = sort (st_running (session_of m key)) \<or> ids = []"
    "err = None \<Longrightarrow> ids \<noteq> [] \<Longrightarrow>
     length (List.map_filter (map_of (st_done (session_of m key))) (st_running (session_of m key)))
       \<le> wakes_before_ctx ws"
proof -
  note defs = interrupt_session_def interrupt_collect_def Let_def
  show "ids = sort (st_running (session_of m key)) \<or> ids = []"
    using assms
    by (auto simp: defs session_of_Some split: option.splits if_splits prod.splits wait_result.splits)
  show "length (List.map_filter (map_of (st_done (session_of m key))) (st_running (session_of m key)))
       \<le> wakes_before_ctx ws" if "err = None" "ids \<noteq> []"
    using assms that
    by (auto simp: defs session_of_Some split: option.splits if_splits prod.splits wait_result.splits
        dest: wait_signals_okD)
qed

section \<open>Closed sessions\<close>

text \<open>A channel that no round holds any more stays open for ever.\<close>

definition orphaned :: "nat \<Rightarrow> 'c manager \<Rightarrow> bool" where
  "orphaned c m \<longleftrightarrow>
     c < next_chan m \<and> c \<notin> set (closed_chans m) \<and> (\<forall>k r. chan_at m k r \<noteq> Some c)"

lemma orphaned_step:
  assumes "orphaned c m"
  shows "orphaned c (manager_step m e)"
proof -
  have free: "map_of (st_done (session_of m k)) r \<noteq> Some c" for k r
    using assms by (simp add: orphaned_def chan_at_def)
  have free': "map_of (sessions m) k = Some st \<Longrightarrow> map_of (st_done st) r \<noteq> Some c" for k st r
    using free[of k r] by (simp add: session_of_Some)
  have start: "orphaned c (start_round m k r f)" for k r f
  proof (cases "k = [] \<or> r = []")
    case False
    obtain st m' where e: "ensure_state m k = (st, m')" by (cases "ensure_state m k")
    show ?thesis
      using False assms free ensure_state_eq(1-4)[OF e]
      by (auto simp: start_round_def e Let_def orphaned_def chan_at_def split: option.splits)
  qed (use assms in \<open>auto simp: start_round_def\<close>)
  have finish: "orphaned c (mark_round_finished m k r)" for k r
    using assms free free'
    by (auto simp: mark_round_finished_def Let_def orphaned_def chan_at_def split: option.splits)
  have clients: "orphaned c (snd (snd (create_client m k made)))"
    "orphaned c (snd (snd (swap_client m k stale made)))"
    "orphaned c (snd (interrupt_mark m k rs reason))" for k made stale rs reason
  proof -
    obtain st m' where e: "ensure_state m k = (st, m')" by (cases "ensure_state m k")
    show "orphaned c (snd (snd (create_client m k made)))"
      "orphaned c (snd (snd (swap_client m k stale made)))"
      "orphaned c (snd (interrupt_mark m k rs reason))"
      using assms free ensure_state_eq(1-4)[OF e]
      by (auto simp: create_client_def swap_client_def interrupt_mark_def e orphaned_def chan_at_def
          split: option.splits)
  qed
  have guidance: "orphaned c (snd (queue_guidance m k r x))" "orphaned c (snd (drain_guidance m k))" for k r x
    using assms free free'
    by (auto simp: queue_guidance_def drain_guidance_def orphaned_def chan_at_def split: option.splits)
  have close: "orphaned c (snd (snd (close_session d m k)))" for d k
    using assms free
    by (auto simp: orphaned_def chan_at_def close_session_state) (simp add: empty_session_def)
  show ?thesis
    by (cases e) (simp_all add: start finish clients guidance close)
qed

interpretation orphan: stable manager_step "orphaned c" for c
  by unfold_locales (rule orphaned_step)

lemma orphaned_by_close:
  assumes "manager_inv m" "chan_at m key r = Some c"
  shows "orphaned c (snd (snd (close_session d m key)))"
proof -
  have "chans_ok m" using assms(1) by (simp add: manager_inv_def)
  note cd = chans_okD[OF this assms(2)]
  have "chan_at (snd (snd (close_session d m key))) k s = (if k = key then None else chan_at m k s)" for k s
    by (simp add: chan_at_def close_session_state) (simp add: empty_session_def)
  then show ?thesis
    using cd by (auto simp: orphaned_def close_session_state)
qed

lemma running_of: "set (running_round_ids m key) = set (st_running (session_of m key))"
  by (cases "map_of (sessions m) key")
    (simp_all add: running_round_ids_def session_of_Some session_of_None empty_session_def)

lemma running_start_round:
  "set (running_round_ids (start_round m key r c) k) =
     (if k = key \<and> key \<noteq> [] \<and> r \<noteq> [] then insert r (set (running_round_ids m k))
      else set (running_round_ids m k))"
proof (cases "key = [] \<or> r = []")
  case False
  obtain st m' where e: "ensure_state m key = (st, m')" by (cases "ensure_state m key")
  show ?thesis
    using False ensure_state_eq(1,2)[OF e]
    by (auto simp: running_of start_round_def e Let_def split: option.splits)
qed (auto simp: start_round_def)

lemma running_finish:
  assumes "r \<noteq> []" "key \<noteq> []"
  shows "set (running_round_ids (mark_round_finished m key r) k) =
    (if k = key then set (running_round_ids m k) - {r} else set (running_round_ids m k))"
  using assms
  by (cases "map_of (sessions m) key")
    (auto simp: running_of mark_round_finished_def session_of_None session_of_Some empty_session_def Let_def
      removeAll_eq_Nil_iff split: option.splits)

section \<open>Properties\<close>

text \<open>C35. Whatever sequence of critical sections runs, the sessions stay consistent: the running
  rounds are listed once; exactly they have a done channel, and only they a cancel function;
  guidance waits only in a session with a running round; the open done channels are all
  different and never among the closed ones; and no channel is closed twice, so closing never
  panics.\<close>
theorem runtime_rounds_consistent:
  fixes es :: "'c event list"
  defines "m \<equiv> run manager_step new_manager es"
  shows "distinct (closed_chans m) \<and>
    {c. \<exists>k r. chan_at m k r = Some c} \<inter> set (closed_chans m) = {} \<and>
    inj_on (\<lambda>(k, r). chan_at m k r) {(k, r). chan_at m k r \<noteq> None} \<and>
    (\<forall>k. distinct (st_running (session_of m k)) \<and>
         dom (chan_at m k) = set (st_running (session_of m k)) \<and>
         dom (map_of (st_cancels (session_of m k))) \<subseteq> set (st_running (session_of m k)) \<and>
         (pending k m = [] \<or> 0 < length (st_running (session_of m k))))"
proof -
  have inv: "manager_inv m" unfolding m_def by (rule manager.inv_reachable)
  then have c: "chans_ok m" and s: "\<And>k. session_ok (session_of m k)"
    by (simp_all add: manager_inv_def)
  have "inj_on (\<lambda>(k, r). chan_at m k r) {(k, r). chan_at m k r \<noteq> None}"
    using chans_okD(3)[OF c] by (auto simp: inj_on_def)
  moreover have "chan_at m k = map_of (st_done (session_of m k))" for k
    by (simp add: chan_at_def fun_eq_iff)
  ultimately show ?thesis
    using c s by (auto simp: chans_ok_def session_ok_def)
qed

text \<open>C36. Guidance is delivered at most once and in order: over any run, what the hook drained from
  a session followed by what still waits is a subsequence of what was accepted for it; and it
  is exactly what was accepted when no round of the session finishes and it is not closed.\<close>
theorem guidance_delivered_in_order:
  fixes es :: "'c event list"
  shows "subseq (outputs (delivers key) new_manager es @ pending key (run manager_step new_manager es))
     (outputs (accepts key) new_manager es) \<and>
   (list_all (\<lambda>e. \<not> may_drop key e) es \<longrightarrow>
     outputs (delivers key) new_manager es @ pending key (run manager_step new_manager es) =
     outputs (accepts key) new_manager es)"
proof -
  have "pending key (new_manager :: 'c manager) = []"
    by (simp add: session_of_def get_or_def new_manager_def empty_session_def)
  then show ?thesis
    using guidance_run[of key new_manager es] guidance_run_lossless[of es key new_manager]
    by (simp add: list_all_iff)
qed

theorem guidance_delivered_in_order_witness:
  "outputs (delivers ''k'') (new_manager :: nat manager)
     [EStart ''k'' ''r'' None, EQueue ''k'' ''r'' '' go '', EDrain ''k'', EDrain ''k''] =
   [\<lparr>gi_round = ''r'', gi_content = ''go''\<rparr>]"
proof -
  let ?es = "[EStart ''k'' ''r'' None, EQueue ''k'' ''r'' '' go '', EDrain ''k'', EDrain ''k''] :: nat event list"
  have "outputs (accepts ''k'') new_manager ?es = [\<lparr>gi_round = ''r'', gi_content = ''go''\<rparr>]"
    "pending ''k'' (run manager_step new_manager ?es) = []"
    by code_simp+
  then show ?thesis
    using guidance_delivered_in_order[of "''k''" ?es]
    by code_simp
qed

text \<open>Interrupting a session records the reason for every running round and for no other, returns
  exactly those rounds, sorted, and leaves the rounds, their channels and the waiting
  guidance as they are.\<close>

lemma interrupt_marks_running_rounds:
  assumes "st_running (session_of m key) \<noteq> []"
    "interrupt_session interrupt (\<lambda>m. m) ws m key reason = (Some (err, ids, called), m')"
  shows "ids = sort (st_running (session_of m key)) \<and>
    map_of (st_interruptions (session_of m' key)) r =
      (if r \<in> set (st_running (session_of m key)) then Some (trim_space reason)
       else map_of (st_interruptions (session_of m key)) r) \<and>
    session_of m' key = (session_of m key)\<lparr>st_interruptions := st_interruptions (session_of m' key)\<rparr>"
proof -
  have "ids = sort (st_running (session_of m key))"
    using assms
    by (auto simp: interrupt_session_def interrupt_collect_def Let_def session_of_Some session_of_None
        empty_session_def split: option.splits if_splits prod.splits wait_result.splits
        dest!: arg_cong[where f = set])
  then show ?thesis
    using interrupt_session_state[OF assms(1), of interrupt ws reason] assms(2)
    by (simp add: get_set_interruptions)
qed

lemma interrupt_marks_running_rounds_witness:
  "session_of (snd (interrupt_session (\<lambda>_. None) (\<lambda>m. m) [WakeDone]
       (run manager_step new_manager [EStart ''k'' ''r'' None] :: nat manager) ''k'' '' stop '')) ''k'' =
   (session_of (run manager_step new_manager [EStart ''k'' ''r'' None] :: nat manager) ''k'')
     \<lparr>st_interruptions := [(''r'', ''stop'')]\<rparr>"
proof -
  let ?m = "run manager_step new_manager [EStart ''k'' ''r'' None] :: nat manager"
  let ?i = "interrupt_session (\<lambda>_. None) (\<lambda>m. m) [WakeDone] ?m ''k'' '' stop ''"
  have ne: "st_running (session_of ?m ''k'') \<noteq> []" by code_simp
  have r: "?i = (Some (None, [''r''], []), snd ?i)" by code_simp
  have i: "st_interruptions (session_of (snd ?i) ''k'') = [(''r'', ''stop'')]" by code_simp
  show ?thesis
    using interrupt_marks_running_rounds[OF ne r, of "''r''"] i by simp
qed

text \<open>Waiting for interrupted rounds is decided by the order of the wake-ups: the wait succeeds
  exactly when every done signal arrives before the caller's context ends, and the force
  cancel runs at most once, and never when there is none.\<close>

lemma wait_signals_correct:
  "(fst (wait_signals n forced ws) = WaitOk \<longleftrightarrow> n \<le> wakes_before_ctx ws) \<and>
   snd (wait_signals n forced ws) \<le> 1 \<and> snd (wait_signals n True ws) = 0"
  using wait_signals_calls[of n forced ws] by (simp add: wait_signals_ok wait_signals_forced)

text \<open>Closing a session strands whoever waits for its rounds: the done channel of a round that
  was running is never closed afterwards, whatever happens, not even when the round finishes,
  because the session that held it is gone.\<close>

lemma closed_session_strands_waiters:
  assumes "manager_inv m" "chan_at m key r = Some c"
  shows "c \<notin> set (closed_chans (run manager_step m (EClose key # EFinish key r # es)))"
proof -
  have "orphaned c (run manager_step (snd (snd (close_session (\<lambda>_. None) m key))) (EFinish key r # es))"
    by (rule orphan.inv_run[OF orphaned_by_close[OF assms]])
  then show ?thesis by (simp add: orphaned_def)
qed

lemma closed_session_strands_waiters_witness:
  "0 \<notin> set (closed_chans (run manager_step
     (run manager_step new_manager [EStart ''k'' ''r'' None])
     ([EClose ''k'', EFinish ''k'' ''r''] :: nat event list)))"
proof -
  let ?m = "run manager_step new_manager [EStart ''k'' ''r'' None] :: nat manager"
  have "chan_at ?m ''k'' ''r'' = Some 0" by code_simp
  from closed_session_strands_waiters[OF manager.inv_reachable this, of "[]"] show ?thesis by simp
qed

text \<open>A session has one client: the client that \<open>GetOrCreate\<close> hands out is the one the
  session then holds, also when another goroutine stored or replaced it between the two
  critical sections, as long as a client that reconfigured without error was not replaced.\<close>

lemma get_or_create_returns_stored:
  assumes "get_or_create reconfigure disconnect made others m key = (Inr (Some c), m')"
    "\<And>c0. existing_client m key = Some c0 \<Longrightarrow> reconfigure c0 = None \<Longrightarrow>
       existing_client (others m) key = Some c0"
  shows "existing_client m' key = Some c"
proof -
  have ex: "existing_client n key = st_client (session_of n key)" for n :: "'a manager"
    by (auto simp: existing_client_def session_of_Some session_of_None empty_session_def split: option.split)
  obtain st m1 where e: "ensure_state (others m) key = (st, m1)" by (cases "ensure_state (others m) key")
  note eq = ensure_state_eq(1,2)[OF e]
  show ?thesis
    using assms eq
    by (auto simp: get_or_create_def create_client_def swap_client_def replace_disconnected_client_def
        e ex split: option.splits if_splits prod.splits bool.splits)
qed

lemma get_or_create_returns_stored_witness:
  "existing_client (snd (get_or_create (\<lambda>_. None) (\<lambda>_. None) (Some (7::nat)) (\<lambda>m. m) new_manager ''k'')) ''k'' = Some 7"
proof -
  let ?r = "get_or_create (\<lambda>_. None) (\<lambda>_. None) (Some (7::nat)) (\<lambda>m. m) new_manager ''k''"
  have r: "?r = (Inr (Some 7), snd ?r)" by code_simp
  have "existing_client (new_manager :: nat manager) ''k'' = None" by code_simp
  then show ?thesis using get_or_create_returns_stored[OF r] by simp
qed

end
