(* ===== verification/Events.thy ===== *)
theory Events
  imports GoAny GoDict
begin

text \<open>
  The event envelope and its constructors, \<open>internal/protocol/model_event.go\<close>. The
  time of the event is an argument; the optional sequence numbers and the envelope id, which only the transport
  sets, are left out.
\<close>

record event_message =
  ev_version :: int
  ev_delivery :: string
  ev_type :: string
  ev_session :: string
  ev_room :: string
  ev_conversation :: string
  ev_agent :: string
  ev_message :: string
  ev_session_id :: string
  ev_caused_by :: string
  ev_data :: any
  ev_time :: int

definition new_event :: "int \<Rightarrow> string \<Rightarrow> any \<Rightarrow> event_message" where
  "new_event now event_type data =
     \<lparr>ev_version = 2, ev_delivery = ''ephemeral'', ev_type = event_type, ev_session = [],
      ev_room = [], ev_conversation = [], ev_agent = [], ev_message = [], ev_session_id = [], ev_caused_by = [],
      ev_data = data, ev_time = now\<rparr>"

definition error_event :: "int \<Rightarrow> string \<Rightarrow> string \<Rightarrow> event_message" where
  "error_event now key message =
     (new_event now ''error'' (AMap [(''message'', AStr message)]))\<lparr>ev_session := key\<rparr>"

definition pong_event :: "int \<Rightarrow> string \<Rightarrow> event_message" where
  "pong_event now key = (new_event now ''pong'' (AMap []))\<lparr>ev_session := key\<rparr>"

definition round_status_event :: "int \<Rightarrow> string \<Rightarrow> string \<Rightarrow> string \<Rightarrow> string \<Rightarrow> event_message" where
  "round_status_event now key round_id status result_subtype =
     (let data = [(''round_id'', AStr round_id), (''status'', AStr status),
                  (''is_terminal'', ABool (status = ''finished'' \<or> status = ''interrupted'' \<or> status = ''error''))];
          data = (if trim_space result_subtype \<noteq> []
                  then AList.update ''result_subtype'' (AStr (trim_space result_subtype)) data else data)
      in (new_event now ''round_status'' (AMap data))\<lparr>ev_session := key\<rparr>)"

definition chat_ack_event :: "int \<Rightarrow> string \<Rightarrow> string \<Rightarrow> string \<Rightarrow> any list \<Rightarrow> event_message" where
  "chat_ack_event now key req_id round_id pending =
     (new_event now ''chat_ack''
        (AMap [(''req_id'', AStr req_id), (''round_id'', AStr round_id), (''pending'', AList pending),
               (''ack_timeout_ms'', AInt 10000)]))\<lparr>ev_session := key\<rparr>"

definition permission_resolved_event :: "int \<Rightarrow> string \<Rightarrow> string \<Rightarrow> string \<Rightarrow> event_message" where
  "permission_resolved_event now key request_id status =
     (new_event now ''permission_request_resolved''
        (AMap [(''request_id'', AStr request_id), (''status'', AStr (trim_space status))]))
       \<lparr>ev_session := key\<rparr>"

lemma round_status_event_data:
  "field (ev_data (round_status_event now key r status sub)) ''status'' = AStr status"
  "field (ev_data (round_status_event now key r status sub)) ''is_terminal'' =
     ABool (status \<in> {''finished'', ''interrupted'', ''error''})"
  by (simp_all add: round_status_event_def new_event_def field_def Let_def)

end
