(* ===== verification/Permission.thy ===== *)
theory Permission
  imports Events SessionKey
begin

text \<open>
  The permission context, \<open>internal/runtime/permission/{context,request,presenter}.go\<close>:
  which senders (WebSocket connections) are bound to which session, where the requests of a
  runtime session are shown, how a request is presented, and how the answer of the front end
  becomes a decision. The waiting and answering of requests, which several goroutines do at
  once, is the theory \<open>PermissionFlow\<close>.

  A sender is its key and its identity; whether it \<open>IsClosed\<close> at the time of a call
  is the argument \<open>gone\<close>. The types of the SDK's permission package are records with
  the fields the code uses.
\<close>

section \<open>Bindings\<close>

record sender =
  sn_key :: string
  sn_id :: nat

record route =
  rt_dispatch :: string
  rt_room :: string
  rt_conversation :: string
  rt_agent :: string
  rt_message :: string
  rt_caused_by :: string

record perm_context =
  session_bindings :: "(string \<times> (string \<times> sender) list) list"
  sender_sessions :: "(string \<times> string list) list"
  session_routes :: "(string \<times> route) list"

definition new_perm_context :: perm_context where
  "new_perm_context = \<lparr>session_bindings = [], sender_sessions = [], session_routes = []\<rparr>"

abbreviation bindings_of :: "perm_context \<Rightarrow> string \<Rightarrow> (string \<times> sender) list" where
  "bindings_of c key \<equiv> get_or [] (session_bindings c) key"

abbreviation sessions_of :: "perm_context \<Rightarrow> string \<Rightarrow> string list" where
  "sessions_of c sender_key \<equiv> get_or [] (sender_sessions c) sender_key"

definition remove_binding :: "perm_context \<Rightarrow> string \<Rightarrow> string \<Rightarrow> perm_context" where
  "remove_binding c key sender_key =
     (if bindings_of c key = [] then c
      else
        let rest = AList.delete sender_key (bindings_of c key);
            c = (if rest = [] then c\<lparr>session_bindings := AList.delete key (session_bindings c)\<rparr>
                 else c\<lparr>session_bindings := AList.update key rest (session_bindings c)\<rparr>)
        in if sessions_of c sender_key = [] then c
           else
             let others = removeAll key (sessions_of c sender_key) in
             if others = [] then c\<lparr>sender_sessions := AList.delete sender_key (sender_sessions c)\<rparr>
             else c\<lparr>sender_sessions := AList.update sender_key others (sender_sessions c)\<rparr>)"

text \<open>The loop visits the bindings of the session and removes those with a closed sender.\<close>

fun remove_closed ::
  "(sender \<Rightarrow> bool) \<Rightarrow> string \<Rightarrow> perm_context \<Rightarrow> (string \<times> sender) list \<Rightarrow> perm_context" where
  "remove_closed gone key c [] = c"
| "remove_closed gone key c ((k, s) # bs) =
     remove_closed gone key (if gone s then remove_binding c key k else c) bs"

definition prune :: "(sender \<Rightarrow> bool) \<Rightarrow> perm_context \<Rightarrow> string \<Rightarrow> perm_context" where
  "prune gone c key =
     (if bindings_of c key = [] then c\<lparr>session_bindings := AList.delete key (session_bindings c)\<rparr>
      else
        let c = remove_closed gone key c (bindings_of c key) in
        if bindings_of c key = [] then c\<lparr>session_bindings := AList.delete key (session_bindings c)\<rparr>
        else c)"

definition bind_session :: "(sender \<Rightarrow> bool) \<Rightarrow> perm_context \<Rightarrow> string \<Rightarrow> sender \<Rightarrow> perm_context" where
  "bind_session gone c key s =
     (if gone s \<or> key = [] then c
      else prune gone
        (c\<lparr>session_bindings :=
             AList.update key (AList.update (sn_key s) s (bindings_of c key)) (session_bindings c),
           sender_sessions :=
             AList.update (sn_key s) (List.insert key (sessions_of c (sn_key s))) (sender_sessions c)\<rparr>) key)"

definition unbind_session :: "(sender \<Rightarrow> bool) \<Rightarrow> perm_context \<Rightarrow> string \<Rightarrow> sender \<Rightarrow> perm_context" where
  "unbind_session gone c key s =
     (if key = [] then c else prune gone (remove_binding c key (sn_key s)) key)"

fun unbind_all ::
  "(sender \<Rightarrow> bool) \<Rightarrow> string \<Rightarrow> perm_context \<Rightarrow> string list \<Rightarrow> perm_context" where
  "unbind_all gone sender_key c [] = c"
| "unbind_all gone sender_key c (key # keys) =
     unbind_all gone sender_key (prune gone (remove_binding c key sender_key) key) keys"

definition unregister_sender ::
  "(sender \<Rightarrow> bool) \<Rightarrow> perm_context \<Rightarrow> sender \<Rightarrow> string list \<times> perm_context" where
  "unregister_sender gone c s =
     (let keys = sessions_of c (sn_key s) in
      if keys = [] then ([], c)
      else
        let c = unbind_all gone (sn_key s) c keys
        in (sort keys, c\<lparr>sender_sessions := AList.delete (sn_key s) (sender_sessions c)\<rparr>))"

definition is_bound :: "(sender \<Rightarrow> bool) \<Rightarrow> perm_context \<Rightarrow> string \<Rightarrow> sender \<Rightarrow> bool \<times> perm_context" where
  "is_bound gone c key s =
     (let c = prune gone c key in (map_of (bindings_of c key) (sn_key s) \<noteq> None, c))"

definition resolve_senders ::
  "(sender \<Rightarrow> bool) \<Rightarrow> perm_context \<Rightarrow> string \<Rightarrow> sender list \<times> perm_context" where
  "resolve_senders gone c key =
     (let c = prune gone c key;
          bindings = bindings_of c key
      in if bindings = [] then ([], c)
         else (sort_key sn_key (filter (\<lambda>s. \<not> gone s) (map snd bindings)), c))"

section \<open>Broadcasting\<close>

text \<open>The result lists the events sent, in order; send errors only make up the returned list.\<close>

definition broadcast_event ::
  "(sender \<Rightarrow> bool) \<Rightarrow> perm_context \<Rightarrow> string \<Rightarrow> event_message \<Rightarrow>
   (sender \<times> event_message) list \<times> perm_context" where
  "broadcast_event gone c key ev =
     (let (senders, c) = resolve_senders gone c key;
          ev = (if ev_session ev = [] then ev\<lparr>ev_session := key\<rparr> else ev)
      in (map (\<lambda>s. (s, ev)) senders, c))"

definition broadcast_session_status ::
  "(sender \<Rightarrow> bool) \<Rightarrow> int \<Rightarrow> perm_context \<Rightarrow> string \<Rightarrow> string list \<Rightarrow>
   (sender \<times> event_message) list \<times> perm_context" where
  "broadcast_session_status gone now c key running =
     (let (senders, c) = resolve_senders gone c key;
          ev = (new_event now ''session_status''
                  (AMap [(''is_generating'', ABool (0 < length running)),
                         (''running_round_ids'', AList (map AStr running))]))\<lparr>ev_session := key\<rparr>
      in (map (\<lambda>s. (s, ev)) senders, c))"

section \<open>Routes\<close>

definition empty_route :: route where
  "empty_route = \<lparr>rt_dispatch = [], rt_room = [], rt_conversation = [], rt_agent = [],
     rt_message = [], rt_caused_by = []\<rparr>"

definition bind_session_route :: "perm_context \<Rightarrow> string \<Rightarrow> route \<Rightarrow> perm_context" where
  "bind_session_route c key r =
     (if key = [] then c
      else
        let r = (if rt_dispatch r = [] then r\<lparr>rt_dispatch := key\<rparr> else r)
        in c\<lparr>session_routes := AList.update key r (session_routes c)\<rparr>)"

definition unbind_session_route :: "perm_context \<Rightarrow> string \<Rightarrow> perm_context" where
  "unbind_session_route c key =
     (if key = [] then c else c\<lparr>session_routes := AList.delete key (session_routes c)\<rparr>)"

definition resolve_dispatch_key :: "perm_context \<Rightarrow> string \<Rightarrow> string" where
  "resolve_dispatch_key c key =
     (case map_of (session_routes c) key of
        Some r \<Rightarrow> if rt_dispatch r \<noteq> [] then rt_dispatch r else key
      | None \<Rightarrow> key)"

definition resolve_route :: "perm_context \<Rightarrow> string \<Rightarrow> route" where
  "resolve_route c key =
     (let r = get_or empty_route (session_routes c) key
      in if rt_dispatch r = [] then r\<lparr>rt_dispatch := key\<rparr> else r)"

section \<open>Requests and decisions\<close>

record rule_value =
  rv_tool :: string
  rv_content :: string

record perm_update =
  up_type :: string
  up_behavior :: string
  up_mode :: string
  up_destination :: string
  up_directories :: "string list"
  up_rules :: "rule_value list"

datatype decision =
    Allow "(string \<times> any) list" "perm_update list"
  | Deny string bool

record sdk_request =
  sr_tool :: string
  sr_input :: "(string \<times> any) list"
  sr_suggestions :: "perm_update list"

record request =
  rq_id :: string
  rq_session :: string
  rq_dispatch :: string
  rq_tool :: string
  rq_input :: "(string \<times> any) list"
  rq_suggestions :: "perm_update list"
  rq_expires :: int
  rq_route :: route

definition request_timeout :: int where
  "request_timeout = 60000000000"

definition new_pending_request :: "int \<Rightarrow> perm_context \<Rightarrow> string \<Rightarrow> sdk_request \<Rightarrow> request" where
  "new_pending_request now c key r =
     (let rt = resolve_route c key in
      \<lparr>rq_id = ''perm_'' @ decimal (nat now),
       rq_session = key,
       rq_dispatch = first_non_empty [rt_dispatch rt, key],
       rq_tool = trim_space (sr_tool r),
       rq_input = sr_input r,
       rq_suggestions = sr_suggestions r,
       rq_expires = now + request_timeout,
       rq_route = rt\<rparr>)"

subsection \<open>Answers to questions\<close>

fun list_of :: "any \<Rightarrow> any list" where
  "list_of (AList xs) = xs"
| "list_of _ = []"

fun is_object :: "any \<Rightarrow> bool" where
  "is_object (AMap m) \<longleftrightarrow> True"
| "is_object _ \<longleftrightarrow> False"

definition list_of_maps :: "any \<Rightarrow> any list" where
  "list_of_maps v = filter is_object (list_of v)"

definition add_answer :: "any list \<Rightarrow> (string \<times> string) list \<Rightarrow> any \<Rightarrow> (string \<times> string) list" where
  "add_answer questions answers row =
     (let index = int64_from_any (field row ''question_index'') in
      if index < 0 \<or> int (length questions) \<le> index then answers
      else
        let text = string_from_any (field (questions ! nat index) ''question'') in
        if text = [] then answers
        else
          let selected = string_slice_from_any (field row ''selected_options'') in
          if selected = [] then answers
          else AList.update text (join '', '' selected) answers)"

definition build_question_answers ::
  "(string \<times> any) list \<Rightarrow> any list \<Rightarrow> (string \<times> string) list" where
  "build_question_answers input user_answers =
     (let questions = list_of (field (AMap input) ''questions'') in
      if questions = [] then [] else foldl (add_answer questions) [] user_answers)"

subsection \<open>Permission updates\<close>

definition deserialize_rule :: "any \<Rightarrow> rule_value option" where
  "deserialize_rule v =
     (if \<not> is_object v then None
      else
        let tool = first_non_empty [string_from_any (field v ''tool_name''), string_from_any (field v ''toolName'')] in
        if tool = [] then None
        else Some \<lparr>rv_tool = tool,
                   rv_content = first_non_empty
                     [string_from_any (field v ''rule_content''), string_from_any (field v ''ruleContent'')]\<rparr>)"

definition deserialize_rules :: "any \<Rightarrow> rule_value list" where
  "deserialize_rules raw = List.map_filter deserialize_rule (list_of raw)"

definition deserialize_update :: "any \<Rightarrow> perm_update option" where
  "deserialize_update v =
     (if \<not> is_object v then None
      else
        let update_type = string_from_any (field v ''type'') in
        if update_type = [] then None
        else Some
          \<lparr>up_type = update_type,
           up_behavior = string_from_any (field v ''behavior''),
           up_mode = string_from_any (field v ''mode''),
           up_destination = string_from_any (field v ''destination''),
           up_directories = string_slice_from_any (field v ''directories''),
           up_rules = deserialize_rules (field v ''rules'')\<rparr>)"

definition deserialize_updates :: "any \<Rightarrow> perm_update list" where
  "deserialize_updates raw = List.map_filter deserialize_update (list_of raw)"

definition serialize_rule :: "rule_value \<Rightarrow> any" where
  "serialize_rule r = AMap [(''toolName'', AStr (rv_tool r)), (''ruleContent'', AStr (rv_content r))]"

definition serialize_update :: "perm_update \<Rightarrow> any" where
  "serialize_update u =
     AMap (present
       [(''type'', Some (AStr (up_type u))),
        (''behavior'', some_str (up_behavior u)),
        (''mode'', some_str (up_mode u)),
        (''destination'', some_str (up_destination u)),
        (''directories'', some_list (map AStr (up_directories u))),
        (''rules'', some_list (map serialize_rule (up_rules u)))])"

subsection \<open>The decision\<close>

definition build_permission_decision :: "request \<Rightarrow> any \<Rightarrow> decision" where
  "build_permission_decision p message =
     (if trim_space (string_from_any (field message ''decision'')) = ''allow'' then
        let answers = (if rq_tool p = ''AskUserQuestion''
                       then build_question_answers (rq_input p) (list_of_maps (field message ''user_answers''))
                       else []);
            updated = (if answers \<noteq> []
                       then AList.update ''answers'' (AMap (map (\<lambda>(q, a). (q, AStr a)) answers)) (rq_input p)
                       else rq_input p)
        in Allow updated (deserialize_updates (field message ''updated_permissions''))
      else Deny (first_non_empty [string_from_any (field message ''message''), ''User denied permission''])
             (bool_from_any (field message ''interrupt'')))"

section \<open>Presenting a request\<close>

datatype risk_label = ReadOnly | Writing | Executing | Interactive | Sensitive

text \<open>The labels are Chinese words in the source; here they are constructors.\<close>

definition resolve_risk :: "string \<Rightarrow> string \<times> risk_label" where
  "resolve_risk tool =
     (if tool \<in> set [''Read'', ''Glob'', ''Grep'', ''LS'', ''WebFetch'', ''WebSearch'', ''Skill'']
      then (''low'', ReadOnly)
      else if tool \<in> set [''Edit'', ''Write'', ''NotebookEdit'', ''TodoWrite''] then (''medium'', Writing)
      else if tool \<in> set [''Bash'', ''KillShell'', ''Task'', ''TaskOutput''] then (''high'', Executing)
      else if tool \<in> set [''AskUserQuestion'', ''EnterPlanMode'', ''ExitPlanMode''] then (''medium'', Interactive)
      else (''high'', Sensitive))"

definition resolve_interaction_mode :: "string \<Rightarrow> string" where
  "resolve_interaction_mode tool = (if tool = ''AskUserQuestion'' then ''question'' else ''permission'')"

definition first_question :: "(string \<times> any) list \<Rightarrow> string" where
  "first_question input =
     (case list_of (field (AMap input) ''questions'') of
        [] \<Rightarrow> []
      | q # _ \<Rightarrow> string_from_any (field q ''question''))"

definition summarize_input :: "string \<Rightarrow> (string \<times> any) list \<Rightarrow> string" where
  "summarize_input tool input =
     (let text = (\<lambda>k. string_from_any (field (AMap input) k)) in
      if tool = ''Bash'' \<and> text ''command'' \<noteq> [] then text ''command''
      else
        let first = first_non_empty (map text [''file_path'', ''path'', ''target_file'', ''cwd'', ''url'', ''query'']) in
        if first \<noteq> [] then first
        else if tool = ''AskUserQuestion'' \<and> first_question input \<noteq> [] then first_question input
        else
          let second = first_non_empty (map text [''description'', ''task'', ''prompt'']) in
          if second \<noteq> [] then second else tool)"

text \<open>\<open>fmt\<close> formats a time as RFC 3339, \<open>label\<close> is the text of a risk label.\<close>

definition build_permission_payload ::
  "(int \<Rightarrow> string) \<Rightarrow> (risk_label \<Rightarrow> string) \<Rightarrow> request \<Rightarrow> any" where
  "build_permission_payload fmt label p =
     AMap
       [(''request_id'', AStr (rq_id p)), (''tool_name'', AStr (rq_tool p)),
        (''tool_input'', AMap (rq_input p)),
        (''interaction_mode'', AStr (resolve_interaction_mode (rq_tool p))),
        (''risk_level'', AStr (fst (resolve_risk (rq_tool p)))),
        (''risk_label'', AStr (label (snd (resolve_risk (rq_tool p))))),
        (''summary'', AStr (summarize_input (rq_tool p) (rq_input p))),
        (''suggestions'', AList (map serialize_update (rq_suggestions p))),
        (''expires_at'', AStr (fmt (rq_expires p)))]"

definition agent_id_from_session_key :: "string \<Rightarrow> string" where
  "agent_id_from_session_key key = sk_agent (parse_session_key key)"

text \<open>Both events of a request carry the fields of its route.\<close>

definition route_event :: "request \<Rightarrow> event_message \<Rightarrow> event_message" where
  "route_event p ev = ev\<lparr>
     ev_room := trim_space (rt_room (rq_route p)),
     ev_conversation := trim_space (rt_conversation (rq_route p)),
     ev_agent := trim_space (first_non_empty [rt_agent (rq_route p), agent_id_from_session_key (rq_session p)]),
     ev_message := trim_space (rt_message (rq_route p)),
     ev_caused_by := trim_space (rt_caused_by (rq_route p))\<rparr>"

definition build_permission_event ::
  "(int \<Rightarrow> string) \<Rightarrow> (risk_label \<Rightarrow> string) \<Rightarrow> int \<Rightarrow> request \<Rightarrow> event_message" where
  "build_permission_event fmt label now p =
     route_event p
       ((new_event now ''permission_request'' (build_permission_payload fmt label p))\<lparr>ev_session := rq_dispatch p\<rparr>)"

definition resolution_event :: "int \<Rightarrow> request \<Rightarrow> string \<Rightarrow> event_message" where
  "resolution_event now p status =
     route_event p (permission_resolved_event now (rq_dispatch p) (rq_id p) status)"

section \<open>The two binding maps agree\<close>

text \<open>
  A session lists a sender exactly when the sender lists the session; no inner map or set is
  kept empty.
\<close>

definition binding_inv :: "perm_context \<Rightarrow> bool" where
  "binding_inv c \<longleftrightarrow>
     wf_dict (session_bindings c) \<and> wf_dict (sender_sessions c)
     \<and> (\<forall>key. wf_dict (bindings_of c key)) \<and> (\<forall>k. distinct (sessions_of c k))
     \<and> (\<forall>key. map_of (session_bindings c) key \<noteq> Some [])
     \<and> (\<forall>k. map_of (sender_sessions c) k \<noteq> Some [])
     \<and> (\<forall>key k. key \<in> set (sessions_of c k) \<longleftrightarrow> map_of (bindings_of c key) k \<noteq> None)
     \<and> (\<forall>key k s. map_of (bindings_of c key) k = Some s \<longrightarrow> sn_key s = k)"

lemma binding_invD:
  assumes "binding_inv c"
  shows "wf_dict (session_bindings c)" "wf_dict (sender_sessions c)" "wf_dict (bindings_of c key)"
    "distinct (sessions_of c k)" "map_of (session_bindings c) key \<noteq> Some []"
    "map_of (sender_sessions c) k \<noteq> Some []"
    "key \<in> set (sessions_of c k) \<longleftrightarrow> map_of (bindings_of c key) k \<noteq> None"
    "map_of (bindings_of c key) k = Some s \<Longrightarrow> sn_key s = k"
  using assms by (auto simp: binding_inv_def)

lemma map_of_ne: "map_of m k \<noteq> None \<Longrightarrow> m \<noteq> []"
  by auto

lemma remove_binding_bindings:
  "bindings_of (remove_binding c key k) key' =
     (if key' = key then AList.delete k (bindings_of c key) else bindings_of c key')"
  by (auto simp: remove_binding_def Let_def)

lemma remove_binding_sessions:
  assumes "binding_inv c"
  shows "sessions_of (remove_binding c key k) k' =
    (if k' = k then removeAll key (sessions_of c k) else sessions_of c k')"
proof (cases "bindings_of c key = []")
  case True
  then have "key \<notin> set (sessions_of c k)" using binding_invD(7)[OF assms] by auto
  with True show ?thesis by (simp add: remove_binding_def)
next
  case False
  then show ?thesis by (auto simp: remove_binding_def Let_def)
qed

lemma get_or_Some_ne: "(\<And>j. map_of m j \<noteq> Some []) \<Longrightarrow> get_or [] m k = [] \<longleftrightarrow> map_of m k = None"
  by (auto simp: get_or_def split: option.splits)

lemma remove_binding_routes [simp]: "session_routes (remove_binding c key k) = session_routes c"
  by (simp add: remove_binding_def Let_def)

lemma binding_inv_remove [inv_intros]:
  assumes "binding_inv c"
  shows "binding_inv (remove_binding c key k)"
proof -
  note d = binding_invD[OF assms]
  let ?c = "remove_binding c key k"
  have "wf_dict (session_bindings ?c)" "wf_dict (sender_sessions ?c)"
    using d(1,2) by (auto simp: remove_binding_def Let_def intro: inv_intros)
  moreover have "map_of (session_bindings ?c) j \<noteq> Some []" "map_of (sender_sessions ?c) i \<noteq> Some []" for i j
    using d(5,6) by (auto simp: remove_binding_def Let_def)
  moreover have "wf_dict (bindings_of ?c j)" "distinct (sessions_of ?c i)" for i j
    using d(3,4) by (auto simp: remove_binding_bindings remove_binding_sessions[OF assms] distinct_removeAll
        intro: inv_intros)
  moreover have "j \<in> set (sessions_of ?c i) \<longleftrightarrow> map_of (bindings_of ?c j) i \<noteq> None" for i j
    using d(7)[of j i] by (auto simp: remove_binding_bindings remove_binding_sessions[OF assms])
  moreover have "map_of (bindings_of ?c j) i = Some s \<Longrightarrow> sn_key s = i" for i j s
    using d(8)[of j i s] d(8)[of key i s] by (auto simp: remove_binding_bindings split: if_splits)
  ultimately show ?thesis unfolding binding_inv_def by blast
qed

lemma remove_closed_inv: "binding_inv c \<Longrightarrow> binding_inv (remove_closed gone key c bs)"
  by (induction gone key c bs rule: remove_closed.induct) (simp_all add: inv_intros)

lemma remove_closed_routes [simp]: "session_routes (remove_closed gone key c bs) = session_routes c"
  by (induction gone key c bs rule: remove_closed.induct) simp_all

lemma remove_closed_bindings:
  "bindings_of (remove_closed gone key c bs) key' =
     (if key' = key then filter (\<lambda>(k, s). \<not> (\<exists>t. (k, t) \<in> set bs \<and> gone t)) (bindings_of c key)
      else bindings_of c key')"
proof (induction gone key c bs rule: remove_closed.induct)
  case (2 gone key c k s bs)
  show ?case
    by (auto simp: 2 remove_binding_bindings AList.delete_eq case_prod_unfold intro!: filter_cong)
qed (simp add: case_prod_unfold)

lemma prune_spec:
  assumes "binding_inv c"
  shows "binding_inv (prune gone c key)"
    "bindings_of (prune gone c key) key' =
      (if key' = key then filter (\<lambda>(k, s). \<not> gone s) (bindings_of c key) else bindings_of c key')"
    "session_routes (prune gone c key) = session_routes c"
proof -
  let ?c = "remove_closed gone key c (bindings_of c key)"
  have id: "AList.delete key (session_bindings d) = session_bindings d"
    if "binding_inv d" "bindings_of d key = []" for d
    using that get_or_Some_ne[OF binding_invD(5)[OF that(1)]]
    by (simp add: delete_id map_of_eq_None_iff)
  have p: "prune gone c key = (if bindings_of c key = [] then c else ?c)"
    using id[OF assms] id[OF remove_closed_inv[OF assms]]
    by (simp add: prune_def Let_def)
  have "(\<exists>t. (k, t) \<in> set (bindings_of c key) \<and> gone t) \<longleftrightarrow> gone s"
    if "(k, s) \<in> set (bindings_of c key)" for k s
    using that binding_invD(3)[OF assms, of key] unfolding wf_dict_def
    by (auto dest: eq_key_imp_eq_value)
  then have "filter (\<lambda>(k, s). \<not> (\<exists>t. (k, t) \<in> set (bindings_of c key) \<and> gone t)) (bindings_of c key) =
      filter (\<lambda>(k, s). \<not> gone s) (bindings_of c key)"
    by (intro filter_cong) auto
  then show "binding_inv (prune gone c key)"
    "bindings_of (prune gone c key) key' =
      (if key' = key then filter (\<lambda>(k, s). \<not> gone s) (bindings_of c key) else bindings_of c key')"
    "session_routes (prune gone c key) = session_routes c"
    using remove_closed_inv[OF assms] assms
    by (simp_all add: p remove_closed_bindings)
qed

lemmas prune_inv [inv_intros] = prune_spec(1)

lemma binding_inv_bind [inv_intros]:
  assumes "binding_inv c"
  shows "binding_inv (bind_session gone c key s)"
proof (cases "gone s \<or> key = []")
  case False
  note d = binding_invD[OF assms]
  let ?c = "c\<lparr>session_bindings :=
             AList.update key (AList.update (sn_key s) s (bindings_of c key)) (session_bindings c),
           sender_sessions :=
             AList.update (sn_key s) (List.insert key (sessions_of c (sn_key s))) (sender_sessions c)\<rparr>"
  have b: "bindings_of ?c j = (if j = key then AList.update (sn_key s) s (bindings_of c key) else bindings_of c j)"
    and ss: "sessions_of ?c i = (if i = sn_key s then List.insert key (sessions_of c i) else sessions_of c i)" for i j
    by auto
  have "wf_dict (session_bindings ?c)" "wf_dict (sender_sessions ?c)"
    using d(1,2) by (simp_all add: inv_intros)
  moreover have "map_of (session_bindings ?c) j \<noteq> Some []" "map_of (sender_sessions ?c) i \<noteq> Some []" for i j
    using d(5,6) by (auto simp: List.insert_def)
  moreover have "wf_dict (bindings_of ?c j)" "distinct (sessions_of ?c i)" for i j
    using d(3,4) unfolding b ss by (auto intro: inv_intros)
  moreover have "j \<in> set (sessions_of ?c i) \<longleftrightarrow> map_of (bindings_of ?c j) i \<noteq> None" for i j
    using d(7)[of j i] unfolding b ss by auto
  moreover have "map_of (bindings_of ?c j) i = Some t \<Longrightarrow> sn_key t = i" for i j t
    using d(8)[of j i t] d(8)[of key i t] unfolding b by (auto split: if_splits)
  ultimately have "binding_inv ?c" unfolding binding_inv_def by blast
  then show ?thesis using False by (simp add: bind_session_def inv_intros)
qed (auto simp: bind_session_def assms)

lemma unbind_all_spec:
  assumes "binding_inv c"
  shows "binding_inv (unbind_all gone k c keys)"
    and "bindings_of (unbind_all gone k c keys) key =
      (if key \<in> set keys then filter (\<lambda>(j, s). j \<noteq> k \<and> \<not> gone s) (bindings_of c key)
       else bindings_of c key)"
proof -
  have "binding_inv (unbind_all gone k c keys) \<and>
    bindings_of (unbind_all gone k c keys) key =
      (if key \<in> set keys then filter (\<lambda>(j, s). j \<noteq> k \<and> \<not> gone s) (bindings_of c key)
       else bindings_of c key)"
    using assms
  proof (induction gone k c keys rule: unbind_all.induct)
    case (2 gone k c i keys)
    have inv: "binding_inv (prune gone (remove_binding c i k) i)"
      using 2(2) by (simp add: inv_intros)
    have "filter (\<lambda>(j, s). j \<noteq> k \<and> \<not> gone s) (filter (\<lambda>(j, s). j \<noteq> k \<and> \<not> gone s) m) =
        filter (\<lambda>(j, s). j \<noteq> k \<and> \<not> gone s) m" for m
      by (auto intro!: filter_cong simp: case_prod_unfold)
    moreover have "filter (\<lambda>(j, s). \<not> gone s) (AList.delete k m) = filter (\<lambda>(j, s). j \<noteq> k \<and> \<not> gone s) m" for m
      by (auto intro!: filter_cong simp: AList.delete_eq case_prod_unfold)
    ultimately show ?case
      using 2(1)[OF inv] prune_spec(2)[OF binding_inv_remove[OF 2(2)]]
      by (auto simp: remove_binding_bindings)
  qed simp
  then show "binding_inv (unbind_all gone k c keys)"
    and "bindings_of (unbind_all gone k c keys) key =
      (if key \<in> set keys then filter (\<lambda>(j, s). j \<noteq> k \<and> \<not> gone s) (bindings_of c key)
       else bindings_of c key)"
    by simp_all
qed

lemma unregister_spec:
  assumes "binding_inv c" "unregister_sender gone c s = (keys, c')"
  shows "binding_inv c'" "keys = sort (sessions_of c (sn_key s))"
    "bindings_of c' key = (if key \<in> set keys
       then filter (\<lambda>(j, t). j \<noteq> sn_key s \<and> \<not> gone t) (bindings_of c key) else bindings_of c key)"
proof -
  let ?k = "sn_key s"
  let ?d = "unbind_all gone ?k c (sessions_of c ?k)"
  note d = unbind_all_spec[OF assms(1), of gone ?k "sessions_of c ?k"]
  have "map_of (bindings_of ?d j) ?k = None" for j
    using binding_invD(7)[OF assms(1), of j ?k] binding_invD(3)[OF assms(1), of j]
    by (auto simp: d(2) map_of_filter_wf split: option.split)
  then have "sessions_of ?d ?k = []"
    using binding_invD(7)[OF d(1)] by (metis last_in_set)
  then have "AList.delete ?k (sender_sessions ?d) = sender_sessions ?d"
    using get_or_Some_ne[OF binding_invD(6)[OF d(1)]] by (simp add: delete_id map_of_eq_None_iff)
  then have "c' = (if sessions_of c ?k = [] then c else ?d)" "keys = sort (sessions_of c ?k)"
    using assms(2) by (auto simp: unregister_sender_def Let_def split: if_splits)
  then show "binding_inv c'" "keys = sort (sessions_of c ?k)"
    "bindings_of c' key = (if key \<in> set keys
       then filter (\<lambda>(j, t). j \<noteq> sn_key s \<and> \<not> gone t) (bindings_of c key) else bindings_of c key)"
    using d assms(1) by auto
qed

section \<open>The machine of the bindings\<close>

datatype binding_event =
    BBind "sender list" string sender
  | BUnbind "sender list" string sender
  | BUnregister "sender list" sender
  | BIsBound "sender list" string sender
  | BResolve "sender list" string
  | BRoute string route
  | BUnroute string

text \<open>Each event carries the senders that are closed at its time.\<close>

fun binding_step :: "perm_context \<Rightarrow> binding_event \<Rightarrow> perm_context" where
  "binding_step c (BBind gone key s) = bind_session (\<lambda>x. x \<in> set gone) c key s"
| "binding_step c (BUnbind gone key s) = unbind_session (\<lambda>x. x \<in> set gone) c key s"
| "binding_step c (BUnregister gone s) = snd (unregister_sender (\<lambda>x. x \<in> set gone) c s)"
| "binding_step c (BIsBound gone key s) = snd (is_bound (\<lambda>x. x \<in> set gone) c key s)"
| "binding_step c (BResolve gone key) = snd (resolve_senders (\<lambda>x. x \<in> set gone) c key)"
| "binding_step c (BRoute key r) = bind_session_route c key r"
| "binding_step c (BUnroute key) = unbind_session_route c key"

lemma binding_inv_others [inv_intros]:
  assumes "binding_inv c"
  shows "binding_inv (unbind_session gone c key s)" "binding_inv (snd (unregister_sender gone c s))"
    "binding_inv (snd (is_bound gone c key s))" "binding_inv (snd (resolve_senders gone c key))"
    "binding_inv (bind_session_route c key r)" "binding_inv (unbind_session_route c key)"
proof -
  have frame: "binding_inv (c\<lparr>session_routes := rs\<rparr>)" for rs
    using assms by (simp add: binding_inv_def)
  show "binding_inv (unbind_session gone c key s)" "binding_inv (snd (is_bound gone c key s))"
    "binding_inv (snd (resolve_senders gone c key))"
    using assms by (simp_all add: unbind_session_def is_bound_def resolve_senders_def Let_def inv_intros)
  show "binding_inv (snd (unregister_sender gone c s))"
    using unregister_spec(1)[OF assms] by (cases "unregister_sender gone c s") auto
  show "binding_inv (bind_session_route c key r)" "binding_inv (unbind_session_route c key)"
    using assms frame by (simp_all add: bind_session_route_def unbind_session_route_def Let_def)
qed

lemma binding_inv_new: "binding_inv new_perm_context"
  by (simp add: binding_inv_def new_perm_context_def get_or_def)

interpretation bindings: machine binding_step binding_inv new_perm_context
proof
  fix c e
  assume "binding_inv c"
  then show "binding_inv (binding_step c e)" by (cases e) (auto intro: inv_intros)
qed (rule binding_inv_new)

section \<open>Answers and updates\<close>

definition row_answer :: "any list \<Rightarrow> any \<Rightarrow> (string \<times> string) option" where
  "row_answer questions row =
     (let index = int64_from_any (field row ''question_index'');
          text = string_from_any (field (questions ! nat index) ''question'');
          selected = string_slice_from_any (field row ''selected_options'')
      in if index < 0 \<or> int (length questions) \<le> index \<or> text = [] \<or> selected = [] then None
         else Some (text, join '', '' selected))"

lemma add_answer_row:
  "add_answer questions answers row =
     (case row_answer questions row of None \<Rightarrow> answers | Some (q, a) \<Rightarrow> AList.update q a answers)"
  by (simp add: add_answer_def row_answer_def Let_def)

lemma answers_lookup:
  "map_of (foldl (add_answer questions) answers rows) q =
     (case map_of (rev (List.map_filter (row_answer questions) rows)) q of
        Some a \<Rightarrow> Some a | None \<Rightarrow> map_of answers q)"
  by (induction rows arbitrary: answers)
    (auto simp: add_answer_row List.map_filter_simps map_add_Some_iff split: option.splits)

definition wf_update :: "perm_update \<Rightarrow> bool" where
  "wf_update u \<longleftrightarrow>
     trimmed (up_type u) \<and> up_type u \<noteq> [] \<and> trimmed (up_behavior u) \<and> trimmed (up_mode u)
     \<and> trimmed (up_destination u)
     \<and> list_all (\<lambda>d. trimmed d \<and> d \<noteq> []) (up_directories u)
     \<and> list_all (\<lambda>r. trimmed (rv_tool r) \<and> rv_tool r \<noteq> [] \<and> trimmed (rv_content r)) (up_rules u)"

lemma deserialize_serialize_rule:
  "trimmed (rv_tool r) \<Longrightarrow> rv_tool r \<noteq> [] \<Longrightarrow> trimmed (rv_content r) \<Longrightarrow>
   deserialize_rule (serialize_rule r) = Some r"
  by (simp add: deserialize_rule_def serialize_rule_def field_def Let_def)

lemma map_filter_all:
  "(\<And>x. x \<in> set xs \<Longrightarrow> f (g x) = Some x) \<Longrightarrow> List.map_filter f (map g xs) = xs"
  by (induction xs) (auto simp: List.map_filter_simps)

lemma deserialize_serialize_update:
  assumes "wf_update u"
  shows "deserialize_update (serialize_update u) = Some u"
proof -
  let ?fs = "[(''type'', Some (AStr (up_type u))), (''behavior'', some_str (up_behavior u)),
        (''mode'', some_str (up_mode u)), (''destination'', some_str (up_destination u)),
        (''directories'', some_list (map AStr (up_directories u))),
        (''rules'', some_list (map serialize_rule (up_rules u)))]"
  have d: "distinct (map fst ?fs)" by simp
  have rules: "deserialize_rules (value_of (some_list (map serialize_rule (up_rules u)))) = up_rules u"
    using assms map_filter_all[of "up_rules u" deserialize_rule serialize_rule]
    by (auto simp: wf_update_def list_all_iff deserialize_serialize_rule deserialize_rules_def
        some_list_def value_of_def List.map_filter_simps)
  have dirs: "string_slice_from_any (value_of (some_list (map AStr (up_directories u)))) = up_directories u"
    using assms by (auto simp: wf_update_def list_all_iff intro: read_strings)
  show ?thesis
    using assms rules dirs
    unfolding serialize_update_def deserialize_update_def
    by (simp add: field_present[OF d] wf_update_def Let_def)
qed

section \<open>Properties\<close>

text \<open>C39. Over any sequence of binding operations the two maps of the context agree: a sender lists a
  session exactly when the session lists the sender, under the sender's own key; no session
  is listed twice, and no empty entry stays behind in either map.\<close>
theorem bindings_agree:
  fixes es :: "binding_event list"
  defines "c \<equiv> run binding_step new_perm_context es"
  shows "(key \<in> set (sessions_of c k) \<longleftrightarrow> map_of (bindings_of c key) k \<noteq> None) \<and>
    map_option sn_key (map_of (bindings_of c key) k) \<in> {None, Some k} \<and>
    distinct (sessions_of c k) \<and>
    map_of (session_bindings c) key \<noteq> Some [] \<and> map_of (sender_sessions c) k \<noteq> Some []"
proof -
  have "binding_inv c" unfolding c_def by (rule bindings.inv_reachable)
  note d = binding_invD[OF this]
  show ?thesis
    using d(4,5,6) d(7)[of key k] d(8)[of key k] by (cases "map_of (bindings_of c key) k") auto
qed

text \<open>A broadcast to a session reaches exactly the senders bound to it that are still open, each
  once, in the order of their keys; all get the same event, addressed to the session unless it
  already names one.\<close>

lemma broadcast_reaches_bound:
  assumes "binding_inv c" "broadcast_event gone c key ev = (sent, c')"
  shows "set (map fst sent) = {s. map_of (bindings_of c key) (sn_key s) = Some s \<and> \<not> gone s} \<and>
    distinct (map fst sent) \<and> sorted (map (sn_key \<circ> fst) sent) \<and>
    set (map snd sent) \<subseteq> {if ev_session ev = [] then ev\<lparr>ev_session := key\<rparr> else ev}"
proof -
  let ?b = "filter (\<lambda>(k, s). \<not> gone s) (bindings_of c key)"
  let ?senders = "sort_key sn_key (filter (\<lambda>s. \<not> gone s) (map snd ?b))"
  have wf: "wf_dict (bindings_of c key)" by (rule binding_invD(3)[OF assms(1)])
  have s: "resolve_senders gone c key = (?senders, prune gone c key)"
    using prune_spec(2)[OF assms(1), of gone key key]
    by (auto simp: resolve_senders_def Let_def)
  then have sent: "sent = map (\<lambda>s. (s, if ev_session ev = [] then ev\<lparr>ev_session := key\<rparr> else ev)) ?senders"
    using assms(2) by (auto simp: broadcast_event_def)
  have key: "(k, s) \<in> set (bindings_of c key) \<Longrightarrow> sn_key s = k" for k s
    using binding_invD(8)[OF assms(1), of key k s] wf by (simp add: wf_dict_def map_of_is_SomeI)
  have "map fst (bindings_of c key) = map (sn_key \<circ> snd) (bindings_of c key)"
    using key by (intro map_cong refl) (metis comp_apply prod.collapse)
  then have "distinct (map snd (bindings_of c key))"
    using wf unfolding wf_dict_def by (simp add: distinct_map inj_on_def)
  then have "distinct ?senders"
    by (simp add: distinct_filter_map_fst)
  moreover have "set ?senders = {s. map_of (bindings_of c key) (sn_key s) = Some s \<and> \<not> gone s}"
  proof -
    have "(s \<in> snd ` set (bindings_of c key)) = (map_of (bindings_of c key) (sn_key s) = Some s)" for s
    proof
      assume "s \<in> snd ` set (bindings_of c key)"
      then obtain k where k: "(k, s) \<in> set (bindings_of c key)" by auto
      then have "map_of (bindings_of c key) k = Some s"
        using wf unfolding wf_dict_def by (rule map_of_is_SomeI[rotated])
      with key[OF k] show "map_of (bindings_of c key) (sn_key s) = Some s" by simp
    next
      assume "map_of (bindings_of c key) (sn_key s) = Some s"
      then have "(sn_key s, s) \<in> set (bindings_of c key)" by (rule map_of_SomeD)
      then show "s \<in> snd ` set (bindings_of c key)" by (rule image_eqI[rotated]) simp
    qed
    moreover have "set ?senders = {s \<in> snd ` set (bindings_of c key). \<not> gone s}" by force
    ultimately show ?thesis by simp
  qed
  moreover have "sorted (map sn_key ?senders)" by simp
  ultimately show ?thesis unfolding sent by (auto simp: comp_def)
qed

definition two_senders :: perm_context where
  "two_senders = run binding_step new_perm_context
     [BBind [] ''s'' \<lparr>sn_key = ''b'', sn_id = 1\<rparr>, BBind [] ''s'' \<lparr>sn_key = ''a'', sn_id = 2\<rparr>,
      BBind [] ''t'' \<lparr>sn_key = ''b'', sn_id = 1\<rparr>]"

lemma two_senders_inv: "binding_inv two_senders"
  unfolding two_senders_def by (rule bindings.inv_reachable)

lemma broadcast_reaches_bound_witness:
  "\<lparr>sn_key = ''a'', sn_id = 2\<rparr> \<in>
     set (map fst (fst (broadcast_event (\<lambda>s. sn_id s = 1) two_senders ''s'' (pong_event 0 []))))"
proof -
  let ?r = "broadcast_event (\<lambda>s. sn_id s = 1) two_senders ''s'' (pong_event 0 [])"
  have "map_of (bindings_of two_senders ''s'') ''a'' = Some \<lparr>sn_key = ''a'', sn_id = 2\<rparr>" by code_simp
  then show ?thesis
    using broadcast_reaches_bound[OF two_senders_inv surjective_pairing[of ?r]] by simp
qed

text \<open>Unregistering a sender forgets it: the sessions returned are those it was bound to, sorted;
  afterwards no session lists it, and the only other bindings that go are those of closed
  senders in these sessions.\<close>

lemma unregister_forgets_sender:
  assumes "binding_inv c" "unregister_sender gone c s = (keys, c')"
  shows "keys = sort (sessions_of c (sn_key s)) \<and>
    map_of (bindings_of c' key) (sn_key s) = None \<and> sessions_of c' (sn_key s) = [] \<and>
    (k \<noteq> sn_key s \<longrightarrow> map_of (bindings_of c' key) k =
      (case map_of (bindings_of c key) k of
         None \<Rightarrow> None
       | Some t \<Rightarrow> if key \<in> set keys \<and> gone t then None else Some t))"
proof -
  note u = unregister_spec[OF assms]
  have "map_of (bindings_of c' j) (sn_key s) = None" for j
    using u(2) binding_invD(3)[OF assms(1)] binding_invD(7)[OF assms(1), of j "sn_key s"]
    by (auto simp: u(3) map_of_filter_wf split: option.split)
  moreover from this have "sessions_of c' (sn_key s) = []"
    using binding_invD(7)[OF u(1)] by (metis last_in_set)
  moreover have "k \<noteq> sn_key s \<Longrightarrow> map_of (bindings_of c' key) k =
      (case map_of (bindings_of c key) k of
         None \<Rightarrow> None
       | Some t \<Rightarrow> if key \<in> set keys \<and> gone t then None else Some t)"
    using binding_invD(3)[OF assms(1)] by (auto simp: u(3) map_of_filter_wf split: option.split)
  ultimately show ?thesis using u(2) by blast
qed

lemma unregister_forgets_sender_witness:
  "fst (unregister_sender (\<lambda>_. False) two_senders \<lparr>sn_key = ''b'', sn_id = 1\<rparr>) = [''s'', ''t'']"
proof -
  let ?r = "unregister_sender (\<lambda>_. False) two_senders \<lparr>sn_key = ''b'', sn_id = 1\<rparr>"
  have "sort (sessions_of two_senders ''b'') = [''s'', ''t'']" by code_simp
  then show ?thesis
    using unregister_forgets_sender[OF two_senders_inv surjective_pairing[of ?r]] by simp
qed

text \<open>A tool is allowed only by an answer whose decision is \<open>allow\<close>; anything else,
  a missing or malformed decision too, denies it. An allowed tool runs on the input that was shown:
  only the \<open>answers\<close> of an \<open>AskUserQuestion\<close> are added.\<close>

lemma only_explicit_allow:
  "(case build_permission_decision p msg of Allow _ _ \<Rightarrow> True | Deny _ _ \<Rightarrow> False) =
     (string_from_any (field msg ''decision'') = ''allow'') \<and>
   (case build_permission_decision p msg of
      Allow input _ \<Rightarrow>
        (if rq_tool p = ''AskUserQuestion'' \<and> k = ''answers'' then True
         else map_of input k = map_of (rq_input p) k)
    | Deny reason _ \<Rightarrow> reason \<noteq> [])"
proof -
  have "first_non_empty [x, ''User denied permission''] \<noteq> []" for x
  proof -
    have "trimmed ''User denied permission''" by code_simp
    then show ?thesis by (simp add: first_non_empty_Nil_iff)
  qed
  then show ?thesis by (simp add: build_permission_decision_def Let_def del: first_non_empty.simps)
qed

text \<open>The answers to the questions of a tool are read row by row: a question has the answer of
  the last row that names it with a valid index and at least one non-blank option; a row with
  an index out of range, a blank question or no option counts for nothing.\<close>

lemma answers_by_last_row:
  "map_of (build_question_answers input rows) q =
     map_of (rev (List.map_filter (row_answer (list_of (field (AMap input) ''questions''))) rows)) q"
proof (cases "list_of (field (AMap input) ''questions'')")
  case Nil
  have "List.map_filter (row_answer []) rows = []"
    by (induction rows) (auto simp: List.map_filter_simps row_answer_def Let_def)
  with Nil show ?thesis by (simp add: build_question_answers_def)
next
  case (Cons x xs)
  then show ?thesis
    by (simp add: build_question_answers_def answers_lookup split: option.split)
qed

text \<open>Permission updates survive the trip to the front end and back: reading the suggestions
  that a request was presented with gives the same updates, in order.\<close>

lemma updates_roundtrip:
  assumes "list_all wf_update us"
  shows "deserialize_updates (AList (map serialize_update us)) = us"
  using assms map_filter_all[of us deserialize_update serialize_update]
  by (simp add: deserialize_updates_def list_all_iff deserialize_serialize_update)

lemma updates_roundtrip_witness:
  "deserialize_updates (AList (map serialize_update
     [\<lparr>up_type = ''addRules'', up_behavior = ''allow'', up_mode = [], up_destination = ''session'',
       up_directories = [''/w''], up_rules = [\<lparr>rv_tool = ''Bash'', rv_content = ''ls''\<rparr>]\<rparr>])) =
     [\<lparr>up_type = ''addRules'', up_behavior = ''allow'', up_mode = [], up_destination = ''session'',
       up_directories = [''/w''], up_rules = [\<lparr>rv_tool = ''Bash'', rv_content = ''ls''\<rparr>]\<rparr>]"
  by (rule updates_roundtrip) code_simp

end
