(* ===== verification/PermissionFlow.thy ===== *)
theory PermissionFlow
  imports Permission
begin

text \<open>
  A permission request from its registration to its end: \<open>RequestPermission\<close>,
  \<open>HandlePermissionResponse\<close>, \<open>CancelRequestsForSession\<close> and
  \<open>finalizeRequest\<close> of \<open>internal/runtime/permission/\<close>, as the steps that their
  goroutines take. A pending request is a cell of the heap with its response channel, which
  holds one decision, and the flag of its \<open>finalizeOnce\<close>. A goroutine that has looked up a
  request and has not sent its decision yet is an entry of \<open>answering\<close>; one that is about to
  finalize a request is an entry of \<open>finalizing\<close>. What \<open>RequestPermission\<close> returns
  and the resolutions broadcast are logged. Any enabled step may come next, so that every interleaving of
  the code is a run.
\<close>

section \<open>State\<close>

record cell =
  cl_request :: request
  cl_channel :: "decision option"
  cl_finalized :: bool

record flow =
  heap :: "cell list"
  registry :: "(string \<times> nat) list"
  answering :: "(nat \<times> decision \<times> string) list"
  finalizing :: "(nat \<times> string) list"
  returned :: "(nat \<times> decision) list"
  resolved :: "(nat \<times> string) list"

definition empty_flow :: flow where
  "empty_flow = \<lparr>heap = [], registry = [], answering = [], finalizing = [], returned = [], resolved = []\<rparr>"

abbreviation req :: "flow \<Rightarrow> nat \<Rightarrow> request" where
  "req s a \<equiv> cl_request (heap s ! a)"

section \<open>Steps\<close>

definition register_request :: "request \<Rightarrow> flow \<Rightarrow> flow" where
  "register_request p s =
     s\<lparr>heap := heap s @ [\<lparr>cl_request = p, cl_channel = None, cl_finalized = False\<rparr>],
       registry := AList.update (rq_id p) (length (heap s)) (registry s)\<rparr>"

text \<open>The part of \<open>HandlePermissionResponse\<close> before the send; \<open>None\<close> when it returns false.\<close>

definition look_up_answer :: "any \<Rightarrow> flow \<Rightarrow> flow option" where
  "look_up_answer message s =
     (let request_id = string_from_any (field message ''request_id'') in
      if request_id = [] then None
      else case map_of (registry s) request_id of
        None \<Rightarrow> None
      | Some a \<Rightarrow>
          Some (s\<lparr>answering :=
                  (a, build_permission_decision (req s a) message, ''answered'') # answering s\<rparr>))"

definition cancel_session :: "string \<Rightarrow> string \<Rightarrow> flow \<Rightarrow> nat \<times> flow" where
  "cancel_session key message s =
     (if key = [] then (0, s)
      else
        let found = filter (\<lambda>a. rq_session (req s a) = key) (map snd (registry s))
        in (length found,
            s\<lparr>answering := map (\<lambda>a. (a, Deny message True, ''cancelled'')) found @ answering s\<rparr>))"

definition send_answer :: "nat \<times> decision \<times> string \<Rightarrow> flow \<Rightarrow> flow" where
  "send_answer ans s =
     (case ans of (a, d, status) \<Rightarrow>
        let s = s\<lparr>answering := remove1 ans (answering s)\<rparr> in
        case cl_channel (heap s ! a) of
          None \<Rightarrow> s\<lparr>heap := (heap s)[a := (heap s ! a)\<lparr>cl_channel := Some d\<rparr>],
                    finalizing := (a, status) # finalizing s\<rparr>
        | Some _ \<Rightarrow> s)"

definition return_decision :: "nat \<Rightarrow> decision \<Rightarrow> string \<Rightarrow> flow \<Rightarrow> flow" where
  "return_decision a d status s =
     s\<lparr>returned := (a, d) # returned s, finalizing := (a, status) # finalizing s\<rparr>"

definition receive_answer :: "nat \<Rightarrow> decision \<Rightarrow> flow \<Rightarrow> flow" where
  "receive_answer a d s =
     return_decision a d ''answered'' (s\<lparr>heap := (heap s)[a := (heap s ! a)\<lparr>cl_channel := None\<rparr>]\<rparr>)"

definition give_up :: "nat \<Rightarrow> string \<Rightarrow> string \<Rightarrow> flow \<Rightarrow> flow" where
  "give_up a reason status s =
     return_decision a (Deny reason (rq_tool (req s a) = ''AskUserQuestion'')) status s"

definition finalize_request :: "nat \<times> string \<Rightarrow> flow \<Rightarrow> flow" where
  "finalize_request f s =
     (case f of (a, status) \<Rightarrow>
        let s = s\<lparr>finalizing := remove1 f (finalizing s)\<rparr> in
        if cl_finalized (heap s ! a) then s
        else s\<lparr>heap := (heap s)[a := (heap s ! a)\<lparr>cl_finalized := True\<rparr>],
               registry := AList.delete (rq_id (req s a)) (registry s),
               resolved := (a, status) # resolved s\<rparr>)"

definition waiting :: "nat \<Rightarrow> flow \<Rightarrow> bool" where
  "waiting a s \<longleftrightarrow> a < length (heap s) \<and> map_of (returned s) a = None"

datatype flow_label =
    LRequest request | LAnswer any | LCancel string string | LSend "nat \<times> decision \<times> string"
  | LReceive nat | LContextDone nat | LTimeout nat | LFinalize "nat \<times> string"

inductive flow_step :: "flow \<Rightarrow> flow_label \<Rightarrow> flow \<Rightarrow> bool" where
  request: "flow_step s (LRequest p) (register_request p s)"
| answer: "look_up_answer message s = Some s' \<Longrightarrow> flow_step s (LAnswer message) s'"
| cancel: "flow_step s (LCancel key message) (snd (cancel_session key message s))"
| send: "ans \<in> set (answering s) \<Longrightarrow> flow_step s (LSend ans) (send_answer ans s)"
| receive: "waiting a s \<Longrightarrow> cl_channel (heap s ! a) = Some d \<Longrightarrow>
    flow_step s (LReceive a) (receive_answer a d s)"
| context_done: "waiting a s \<Longrightarrow>
    flow_step s (LContextDone a) (give_up a ''Permission request cancelled'' ''cancelled'' s)"
| timeout: "waiting a s \<Longrightarrow>
    flow_step s (LTimeout a) (give_up a ''Permission request timeout'' ''expired'' s)"
| finalize: "f \<in> set (finalizing s) \<Longrightarrow> flow_step s (LFinalize f) (finalize_request f s)"

inductive_cases flow_stepE: "flow_step s l s'"
inductive_simps flow_step_simps:
  "flow_step s (LRequest p) s'" "flow_step s (LAnswer message) s'" "flow_step s (LSend ans) s'"
  "flow_step s (LReceive a) s'" "flow_step s (LTimeout a) s'" "flow_step s (LFinalize f) s'"

text \<open>A run from the empty state; the labels are the latest first.\<close>

inductive flow_run :: "flow_label list \<Rightarrow> flow \<Rightarrow> bool" where
  init: "flow_run [] empty_flow"
| step: "flow_run ls s \<Longrightarrow> flow_step s l s' \<Longrightarrow> flow_run (l # ls) s'"

code_pred flow_step .

section \<open>What every step keeps\<close>

lemmas op_defs = register_request_def look_up_answer_def cancel_session_def send_answer_def
  receive_answer_def return_decision_def give_up_def finalize_request_def Let_def

lemma request_of_update [simp]:
  "cl_request c = cl_request (xs ! x) \<Longrightarrow> cl_request (xs[x := c] ! a) = cl_request (xs ! a)"
  by (cases "x < length xs") (auto simp: nth_list_update list_update_beyond)

lemma step_heap:
  assumes "flow_step s l s'"
  shows "length (heap s) \<le> length (heap s')" "a < length (heap s) \<Longrightarrow> req s' a = req s a"
  using assms
  by (cases rule: flow_step.cases;
      auto simp: op_defs nth_append split: option.splits if_splits prod.splits)+

text \<open>The addresses in use are addresses of the heap.\<close>

definition addresses :: "flow \<Rightarrow> nat set" where
  "addresses s = fst ` set (answering s) \<union> fst ` set (finalizing s) \<union> fst ` set (returned s)
     \<union> fst ` set (resolved s) \<union> snd ` set (registry s)"

definition addresses_ok :: "flow \<Rightarrow> bool" where
  "addresses_ok s \<longleftrightarrow> addresses s \<subseteq> {..<length (heap s)}"

lemma addressesI:
  "x \<in> set (answering s) \<Longrightarrow> fst x \<in> addresses s"
  "y \<in> set (finalizing s) \<Longrightarrow> fst y \<in> addresses s"
  "z \<in> set (returned s) \<Longrightarrow> fst z \<in> addresses s"
  "y \<in> set (resolved s) \<Longrightarrow> fst y \<in> addresses s"
  "map_of (registry s) k = Some a \<Longrightarrow> a \<in> addresses s"
  by (auto simp: addresses_def intro: rev_image_eqI dest: map_of_SomeD)

lemma addresses_less: "addresses_ok s \<Longrightarrow> a \<in> addresses s \<Longrightarrow> a < length (heap s)"
  by (auto simp: addresses_ok_def)

lemma snd_update: "snd ` set (AList.update k v m) \<subseteq> insert v (snd ` set m)"
  by (induction m) auto

lemma snd_delete: "snd ` set (AList.delete k m) \<subseteq> snd ` set m"
  by (auto simp: AList.delete_eq)

lemma fst_remove1: "fst ` set (remove1 x xs) \<subseteq> fst ` set xs"
  using set_remove1_subset[of x xs] by (rule image_mono)

lemma un_insert_mono:
  "U \<subseteq> insert n R \<Longrightarrow> A \<union> B \<union> C \<union> D \<union> U \<subseteq> insert n (A \<union> B \<union> C \<union> D \<union> R)"
  by blast

lemma un_finalize_mono:
  "F' \<subseteq> F \<Longrightarrow> U' \<subseteq> U \<Longrightarrow> a \<in> F \<Longrightarrow>
   A \<union> F' \<union> C \<union> insert a D \<union> U' \<subseteq> A \<union> F \<union> C \<union> D \<union> U \<and>
   A \<union> F' \<union> C \<union> D \<union> U' \<subseteq> A \<union> F \<union> C \<union> D \<union> U"
  by blast

lemma look_up_SomeE:
  assumes "look_up_answer message s = Some s'"
  obtains a where "map_of (registry s) (string_from_any (field message ''request_id'')) = Some a"
    and "s' = s\<lparr>answering := (a, build_permission_decision (req s a) message, ''answered'') # answering s\<rparr>"
  using assms by (auto simp: look_up_answer_def Let_def split: if_splits option.splits)

lemma addresses_step:
  assumes "flow_step s l s'"
  shows "addresses s' \<subseteq> addresses s \<union> {a. a < length (heap s') \<and> (length (heap s) \<le> a \<or> waiting a s)}"
  using assms
proof (cases rule: flow_step.cases)
  case (request p)
  have eq: "addresses s' = fst ` set (answering s) \<union> fst ` set (finalizing s) \<union> fst ` set (returned s)
      \<union> fst ` set (resolved s) \<union> snd ` set (AList.update (rq_id p) (length (heap s)) (registry s))"
    and len: "length (heap s') = Suc (length (heap s))"
    using request by (simp_all add: addresses_def register_request_def)
  have "addresses s' \<subseteq> insert (length (heap s)) (addresses s)"
    unfolding eq unfolding addresses_def by (rule un_insert_mono) (rule snd_update)
  then show ?thesis using len by auto
next
  case (answer message)
  from answer(2) obtain a where "map_of (registry s) (string_from_any (field message ''request_id'')) = Some a"
    and "s' = s\<lparr>answering := (a, build_permission_decision (req s a) message, ''answered'') # answering s\<rparr>"
    by (rule look_up_SomeE)
  then show ?thesis
    using addressesI(5)[of s "string_from_any (field message ''request_id'')" a]
    by (simp add: addresses_def; blast)
next
  case (cancel key message)
  have "fst ` set (map (\<lambda>a. (a, Deny message True, ''cancelled''))
      (filter (\<lambda>a. rq_session (req s a) = key) (map snd (registry s)))) \<subseteq> snd ` set (registry s)"
    by (force simp: image_iff)
  then show ?thesis
    using cancel unfolding addresses_def cancel_session_def Let_def
    by (simp add: image_Un; blast)
next
  case (send ans)
  then show ?thesis
    using fst_remove1[of ans "answering s"] addressesI(1)[of ans s]
    unfolding addresses_def send_answer_def Let_def
    by (cases ans; cases "cl_channel (heap s ! fst ans)"; simp; blast)
next
  case (receive a d)
  then show ?thesis
    by (simp add: addresses_def receive_answer_def return_decision_def waiting_def; blast)
next
  case (context_done a)
  then show ?thesis
    by (simp add: addresses_def give_up_def return_decision_def waiting_def; blast)
next
  case (timeout a)
  then show ?thesis
    by (simp add: addresses_def give_up_def return_decision_def waiting_def; blast)
next
  case (finalize f)
  obtain a st where f: "f = (a, st)" by fastforce
  have a: "a \<in> fst ` set (finalizing s)" using finalize(3) f by (auto intro: rev_image_eqI)
  note mono = un_finalize_mono[OF fst_remove1[of f "finalizing s"] snd_delete[of "rq_id (req s a)" "registry s"] a]
    un_finalize_mono[OF fst_remove1[of f "finalizing s"] subset_refl a]
  have "addresses s' \<subseteq> addresses s"
    unfolding addresses_def finalize(2) finalize_request_def Let_def f
    using mono f by (cases "cl_finalized (heap s ! a)") simp_all
  then show ?thesis by blast
qed

lemma addresses_ok_step:
  assumes "flow_step s l s'" "addresses_ok s"
  shows "addresses_ok s'"
  using addresses_step[OF assms(1)] step_heap(1)[OF assms(1)] assms(2)
  unfolding addresses_ok_def by fastforce

text \<open>A request is returned at most once and resolved at most once; whoever returned is resolved or about to be.\<close>

definition once_ok :: "flow \<Rightarrow> bool" where
  "once_ok s \<longleftrightarrow>
     distinct (map fst (returned s)) \<and> distinct (map fst (resolved s))
     \<and> (\<forall>a < length (heap s). cl_finalized (heap s ! a) \<longleftrightarrow> a \<in> fst ` set (resolved s))
     \<and> fst ` set (returned s) \<subseteq> fst ` set (resolved s) \<union> fst ` set (finalizing s)"

lemma finalized_of_update [simp]:
  "cl_finalized c = cl_finalized (xs ! x) \<Longrightarrow> cl_finalized (xs[x := c] ! a) = cl_finalized (xs ! a)"
  by (cases "x < length xs") (auto simp: nth_list_update list_update_beyond)

lemma once_ok_step:
  assumes "flow_step s l s'" "once_ok s" "addresses_ok s"
  shows "once_ok s'"
  using assms(1)
proof (cases rule: flow_step.cases)
  case (request p)
  show ?thesis
  proof -
    have "length (heap s) \<notin> fst ` set (resolved s)"
      using addressesI(4) addresses_less[OF assms(3)] by (metis imageE less_irrefl)
    then show ?thesis
      using request assms(2) by (simp add: once_ok_def register_request_def nth_append less_Suc_eq)
  qed
next
  case (answer message)
  from answer(2) show ?thesis
    by (rule look_up_SomeE) (use assms(2) in \<open>simp add: once_ok_def\<close>)
next
  case (cancel key message)
  then show ?thesis using assms(2) by (simp add: once_ok_def cancel_session_def Let_def)
next
  case (send ans)
  then show ?thesis
    using assms(2) unfolding once_ok_def send_answer_def Let_def
    by (cases ans; cases "cl_channel (heap s ! fst ans)"; simp; blast)
next
  case (finalize f)
  obtain a st where f: "f = (a, st)" by fastforce
  have "fst ` set (finalizing s) \<subseteq> insert a (fst ` set (remove1 f (finalizing s)))"
    using f by (auto simp: image_iff)
  moreover have "a < length (heap s)"
    using finalize f addressesI(2)[of f s] addresses_less[OF assms(3)] by simp
  ultimately show ?thesis
    using finalize assms(2) f
    by (simp add: once_ok_def finalize_request_def Let_def nth_list_update; blast)
next
  case (receive a d)
  then show ?thesis
    using assms(2) by (simp add: once_ok_def op_defs waiting_def map_of_eq_None_iff; blast)
next
  case (context_done a)
  then show ?thesis
    using assms(2) by (simp add: once_ok_def op_defs waiting_def map_of_eq_None_iff; blast)
next
  case (timeout a)
  then show ?thesis
    using assms(2) by (simp add: once_ok_def op_defs waiting_def map_of_eq_None_iff; blast)
qed

text \<open>
  Where an allowing decision comes from: an answer of the front end that names the request
  and says \<open>allow\<close>.
\<close>

definition justified :: "flow_label list \<Rightarrow> request \<Rightarrow> decision \<Rightarrow> bool" where
  "justified ls p d \<longleftrightarrow>
     (case d of
        Deny _ _ \<Rightarrow> True
      | Allow _ _ \<Rightarrow>
          (\<exists>msg. LAnswer msg \<in> set ls \<and> string_from_any (field msg ''request_id'') = rq_id p
             \<and> d = build_permission_decision p msg))"

definition origin_ok :: "flow_label list \<Rightarrow> flow \<Rightarrow> bool" where
  "origin_ok ls s \<longleftrightarrow>
     (\<forall>(a, d, status) \<in> set (answering s). justified ls (req s a) d)
     \<and> (\<forall>a d. a < length (heap s) \<longrightarrow> cl_channel (heap s ! a) = Some d \<longrightarrow> justified ls (req s a) d)
     \<and> (\<forall>(a, d) \<in> set (returned s). justified ls (req s a) d)"

definition registry_ok :: "flow \<Rightarrow> bool" where
  "registry_ok s \<longleftrightarrow> (\<forall>k a. map_of (registry s) k = Some a \<longrightarrow> rq_id (req s a) = k)"

lemma registry_ok_step:
  assumes "flow_step s l s'" "registry_ok s" "addresses_ok s"
  shows "registry_ok s'"
proof -
  have reg: "map_of (registry s) k = Some a \<Longrightarrow> a < length (heap s)" for k a
    using addressesI(5) addresses_less[OF assms(3)] by blast
  show ?thesis
    using assms(1)
  proof (cases rule: flow_step.cases)
    case (request p)
    then show ?thesis
      using assms(2) reg by (auto simp: registry_ok_def register_request_def nth_append)
  qed (use assms(2) in \<open>auto simp: registry_ok_def op_defs split: option.splits if_splits prod.splits\<close>)
qed

lemma justified_mono: "justified ls p d \<Longrightarrow> justified (l # ls) p d"
  by (auto simp: justified_def split: decision.splits)

lemma justified_Deny [simp]: "justified ls p (Deny r i)"
  by (simp add: justified_def)

lemma origin_ok_step:
  assumes "flow_step s l s'" "origin_ok ls s" "registry_ok s" "addresses_ok s"
  shows "origin_ok (l # ls) s'"
proof -
  have in_heap: "(a, d, st) \<in> set (answering s) \<Longrightarrow> a < length (heap s)"
    "(a, d) \<in> set (returned s) \<Longrightarrow> a < length (heap s)" for a d st
    using addressesI(1,3) addresses_less[OF assms(4)] by force+
  have o: "(a, d, st) \<in> set (answering s) \<Longrightarrow> justified (l # ls) (req s a) d"
    "a < length (heap s) \<Longrightarrow> cl_channel (heap s ! a) = Some d \<Longrightarrow> justified (l # ls) (req s a) d"
    "(a, d) \<in> set (returned s) \<Longrightarrow> justified (l # ls) (req s a) d" for a d st
    using assms(2) by (auto simp: origin_ok_def intro: justified_mono)
  have chan: "a < length (heap s) \<Longrightarrow> cl_channel ((heap s)[b := (heap s ! b)\<lparr>cl_channel := c\<rparr>] ! a) =
      (if a = b then c else cl_channel (heap s ! a))" for a b c
    by (auto simp: nth_list_update)
  have fin: "cl_channel ((heap s)[b := (heap s ! b)\<lparr>cl_finalized := c\<rparr>] ! a) = cl_channel (heap s ! a)" for a b c
    by (cases "b < length (heap s)") (auto simp: nth_list_update list_update_beyond)
  show ?thesis
    using assms(1)
  proof (cases rule: flow_step.cases)
    case (request p)
    then show ?thesis
      using o in_heap
      by (fastforce simp: origin_ok_def register_request_def nth_append less_Suc_eq)
  next
    case (answer message)
    then obtain a where a: "map_of (registry s) (string_from_any (field message ''request_id'')) = Some a"
      and s': "s' = s\<lparr>answering := (a, build_permission_decision (req s a) message, ''answered'') # answering s\<rparr>"
      by (auto simp: look_up_answer_def Let_def split: if_splits option.splits)
    have "rq_id (req s a) = string_from_any (field message ''request_id'')"
      using assms(3) a by (simp add: registry_ok_def)
    then have "justified (l # ls) (req s a) (build_permission_decision (req s a) message)"
      using answer(1) by (auto simp: justified_def split: decision.splits)
    then show ?thesis using o by (auto simp: origin_ok_def s')
  next
    case (cancel key message)
    then show ?thesis using o by (auto simp: origin_ok_def cancel_session_def Let_def)
  next
    case (send ans)
    obtain a d st where ans: "ans = (a, d, st)" by (cases ans)
    have j: "justified (l # ls) (req s a) d" using send ans o(1) by auto
    have "x \<in> set (remove1 ans (answering s)) \<Longrightarrow> x \<in> set (answering s)" for x
      by (meson notin_set_remove1)
    then show ?thesis
      using send ans o j
      by (auto simp: origin_ok_def send_answer_def Let_def chan split: option.splits if_splits; blast)
  next
    case (finalize f)
    then show ?thesis
      using o
      by (auto simp: origin_ok_def finalize_request_def Let_def fin split: prod.splits)
  next
    case (receive a d)
    then show ?thesis
      using o by (auto simp: origin_ok_def receive_answer_def return_decision_def chan waiting_def split: if_splits)
  qed (use o in \<open>auto simp: origin_ok_def give_up_def return_decision_def\<close>)
qed

lemma flow_run_inv:
  "flow_run ls s \<Longrightarrow> addresses_ok s \<and> once_ok s \<and> registry_ok s \<and> origin_ok ls s"
proof (induction rule: flow_run.induct)
  case init
  show ?case by (simp add: addresses_ok_def addresses_def once_ok_def registry_ok_def origin_ok_def empty_flow_def)
next
  case (step ls s l s')
  then show ?case
    using addresses_ok_step once_ok_step registry_ok_step origin_ok_step by blast
qed

section \<open>The registry\<close>

definition ids :: "flow \<Rightarrow> string list" where
  "ids s = map (\<lambda>c. rq_id (cl_request c)) (heap s)"

text \<open>With different ids, the registry holds exactly the requests that are not finalized.\<close>

definition registry_exact :: "flow \<Rightarrow> bool" where
  "registry_exact s \<longleftrightarrow>
     (\<forall>a < length (heap s). map_of (registry s) (rq_id (req s a)) = Some a \<longleftrightarrow> \<not> cl_finalized (heap s ! a))"

lemma ids_request: "ids (register_request p s) = ids s @ [rq_id p]"
  by (simp add: ids_def register_request_def)

lemma ids_nth: "a < length (heap s) \<Longrightarrow> ids s ! a = rq_id (req s a)"
  by (simp add: ids_def)

lemma ids_update [simp]:
  "cl_request c = cl_request (heap s ! x) \<Longrightarrow>
   map (\<lambda>c. rq_id (cl_request c)) ((heap s)[x := c]) = map (\<lambda>c. rq_id (cl_request c)) (heap s)"
  by (cases "x < length (heap s)") (auto simp: map_update list_update_same_conv list_update_beyond)

lemma ids_step: "flow_step s l s' \<Longrightarrow> distinct (ids s') \<Longrightarrow> distinct (ids s)"
  by (erule flow_stepE)
    (auto simp: ids_request ids_def op_defs split: option.splits if_splits prod.splits)

lemma registry_exact_step:
  assumes "flow_step s l s'" "distinct (ids s')" "registry_exact s" "addresses_ok s"
  shows "registry_exact s'"
  using assms(1)
proof (cases rule: flow_step.cases)
  case (request p)
  have new: "rq_id (req s a) \<noteq> rq_id p" if "a < length (heap s)" for a
    using assms(2) that nth_mem[of a "ids s"] unfolding request(2) ids_request
    by (auto simp: ids_def image_iff)
  then show ?thesis
    using request assms(3) by (auto simp: registry_exact_def register_request_def nth_append less_Suc_eq)
next
  case (answer message)
  from answer(2) show ?thesis
    by (rule look_up_SomeE) (use assms(3) in \<open>simp add: registry_exact_def\<close>)
next
  case (send ans)
  then show ?thesis
    using assms(3)
    by (cases ans; cases "cl_channel (heap s ! fst ans)")
      (simp_all add: registry_exact_def send_answer_def Let_def)
next
  case (finalize f)
  obtain a st where f: "f = (a, st)" by fastforce
  have a: "a < length (heap s)"
    using finalize(3) f addressesI(2)[of f s] addresses_less[OF assms(4)] by simp
  have dist: "distinct (ids s)" by (rule ids_step[OF assms(1,2)])
  have "rq_id (req s b) = rq_id (req s a) \<Longrightarrow> b < length (heap s) \<Longrightarrow> b = a" for b
    using nth_eq_iff_index_eq[OF dist, of b a] a ids_nth[of b s] ids_nth[of a s] by (simp add: ids_def)
  then show ?thesis
    using finalize(2) assms(3) a f
    by (auto simp: registry_exact_def finalize_request_def Let_def nth_list_update)
qed (use assms(3) in \<open>simp_all add: registry_exact_def op_defs\<close>)

lemma flow_run_registry: "flow_run ls s \<Longrightarrow> distinct (ids s) \<Longrightarrow> registry_exact s"
proof (induction rule: flow_run.induct)
  case init
  show ?case by (simp add: registry_exact_def empty_flow_def)
next
  case (step ls s l s')
  then show ?case
    using registry_exact_step ids_step flow_run_inv by blast
qed

text \<open>
  \<open>replayPendingRequestsToSender\<close>: a sender that binds to a session is shown the
  registered requests of the session's dispatch key.
\<close>

definition replay_pending ::
  "(int \<Rightarrow> string) \<Rightarrow> (risk_label \<Rightarrow> string) \<Rightarrow> (sender \<Rightarrow> bool) \<Rightarrow> int \<Rightarrow> perm_context \<Rightarrow> flow \<Rightarrow>
   string \<Rightarrow> sender \<Rightarrow> (sender \<times> event_message) list" where
  "replay_pending fmt label gone now c s key to =
     (if gone to then []
      else
        let dispatch = resolve_dispatch_key c key;
            requests = filter (\<lambda>a. rq_dispatch (req s a) = dispatch) (map snd (registry s))
        in map (\<lambda>a. (to, build_permission_event fmt label now (req s a))) requests)"

text \<open>A late sender is shown every request of its dispatch key that is still unresolved.\<close>

lemma replay_shows_unresolved:
  assumes "flow_run ls s" "distinct (ids s)" "a < length (heap s)" "a \<notin> fst ` set (resolved s)"
    "rq_dispatch (req s a) = resolve_dispatch_key c key" "\<not> gone to"
  shows "(to, build_permission_event fmt label now (req s a)) \<in>
    set (replay_pending fmt label gone now c s key to)"
proof -
  have "map_of (registry s) (rq_id (req s a)) = Some a"
    using flow_run_registry[OF assms(1,2)] flow_run_inv[OF assms(1)] assms(3,4)
    by (simp add: registry_exact_def once_ok_def)
  then have "a \<in> set (map snd (registry s))"
    by (auto intro: rev_image_eqI dest: map_of_SomeD)
  with assms(5,6) show ?thesis by (auto simp: replay_pending_def Let_def)
qed

section \<open>Running concrete steps\<close>

fun try_label :: "flow \<Rightarrow> flow_label \<Rightarrow> flow option" where
  "try_label s (LRequest p) = Some (register_request p s)"
| "try_label s (LAnswer message) = look_up_answer message s"
| "try_label s (LCancel key message) = Some (snd (cancel_session key message s))"
| "try_label s (LSend ans) = (if ans \<in> set (answering s) then Some (send_answer ans s) else None)"
| "try_label s (LReceive a) =
     (if waiting a s then map_option (\<lambda>d. receive_answer a d s) (cl_channel (heap s ! a)) else None)"
| "try_label s (LContextDone a) =
     (if waiting a s then Some (give_up a ''Permission request cancelled'' ''cancelled'' s) else None)"
| "try_label s (LTimeout a) =
     (if waiting a s then Some (give_up a ''Permission request timeout'' ''expired'' s) else None)"
| "try_label s (LFinalize f) = (if f \<in> set (finalizing s) then Some (finalize_request f s) else None)"

lemma try_label_iff: "try_label s l = Some s' \<longleftrightarrow> flow_step s l s'"
  by (cases l) (auto elim!: flow_stepE intro: flow_step.intros split: if_splits)

fun try_labels :: "flow \<Rightarrow> flow_label list \<Rightarrow> flow option" where
  "try_labels s [] = Some s"
| "try_labels s (l # ls) = (case try_label s l of None \<Rightarrow> None | Some s' \<Rightarrow> try_labels s' ls)"

lemma try_labels_run: "flow_run ls s \<Longrightarrow> try_labels s ks = Some s' \<Longrightarrow> flow_run (rev ks @ ls) s'"
proof (induction ks arbitrary: ls s)
  case (Cons k ks)
  then obtain t where "try_label s k = Some t" "try_labels t ks = Some s'"
    by (auto split: option.splits)
  with Cons show ?case by (auto simp: try_label_iff intro: flow_run.step)
qed simp

definition sample_request :: request where
  "sample_request = new_pending_request 5 new_perm_context ''agent:a:ws:dm:r''
     \<lparr>sr_tool = ''Bash'', sr_input = [(''command'', AStr ''ls'')], sr_suggestions = []\<rparr>"

definition sample_allow :: any where
  "sample_allow = AMap [(''request_id'', AStr ''perm_5''), (''decision'', AStr ''allow'')]"

definition answered_flow :: flow where
  "answered_flow =
     \<lparr>heap = [\<lparr>cl_request = sample_request, cl_channel = None, cl_finalized = True\<rparr>], registry = [],
      answering = [], finalizing = [(0, ''answered'')],
      returned = [(0, Allow [(''command'', AStr ''ls'')] [])], resolved = [(0, ''answered'')]\<rparr>"

lemma answered_flow_run:
  "flow_run [LFinalize (0, ''answered''), LReceive 0,
      LSend (0, Allow [(''command'', AStr ''ls'')] [], ''answered''), LAnswer sample_allow,
      LRequest sample_request] answered_flow"
proof -
  have "try_labels empty_flow [LRequest sample_request, LAnswer sample_allow,
      LSend (0, Allow [(''command'', AStr ''ls'')] [], ''answered''), LReceive 0,
      LFinalize (0, ''answered'')] = Some answered_flow"
    by code_simp
  from try_labels_run[OF init this] show ?thesis by simp
qed

section \<open>Properties\<close>

text \<open>C37. No interleaving lets a tool run without the user's consent: whenever a request returns an
  allowing decision, the front end sent an answer that names this request and says
  \<open>allow\<close>, and the decision is the one built from that answer.\<close>
theorem allow_needs_answer:
  assumes "flow_run ls s" "(a, Allow input updates) \<in> set (returned s)"
  shows "\<exists>msg. LAnswer msg \<in> set ls \<and>
    string_from_any (field msg ''request_id'') = rq_id (req s a) \<and>
    string_from_any (field msg ''decision'') = ''allow'' \<and>
    build_permission_decision (req s a) msg = Allow input updates"
proof -
  have "justified ls (req s a) (Allow input updates)"
    using flow_run_inv[OF assms(1)] assms(2) by (auto simp: origin_ok_def)
  then obtain msg where "LAnswer msg \<in> set ls"
    "string_from_any (field msg ''request_id'') = rq_id (req s a)"
    "build_permission_decision (req s a) msg = Allow input updates"
    by (auto simp: justified_def)
  moreover from this(3) have "string_from_any (field msg ''decision'') = ''allow''"
    by (auto simp: build_permission_decision_def Let_def split: if_splits)
  ultimately show ?thesis by blast
qed

theorem allow_needs_answer_witness:
  "\<exists>msg. string_from_any (field msg ''request_id'') = rq_id sample_request \<and>
     build_permission_decision sample_request msg = Allow [(''command'', AStr ''ls'')] []"
  using allow_needs_answer[OF answered_flow_run, of 0] by (auto simp: answered_flow_def)

text \<open>C38. A request ends once: it returns at most one decision and its resolution is broadcast at most
  once, whatever answers, cancellations and timeouts race; and no request returns silently:
  its resolution has been broadcast or is about to be.\<close>
theorem request_ends_once:
  assumes "flow_run ls s"
  shows "distinct (map fst (returned s)) \<and> distinct (map fst (resolved s)) \<and>
    fst ` set (returned s) \<subseteq> fst ` set (resolved s) \<union> fst ` set (finalizing s)"
  using flow_run_inv[OF assms] by (simp add: once_ok_def)

theorem request_ends_once_witness: "distinct (map fst (resolved answered_flow))"
  using request_ends_once[OF answered_flow_run] by simp

text \<open>As long as request ids differ, the registry holds exactly the requests that are not resolved:
  a resolved request cannot be answered any more, and an unresolved one can.\<close>

lemma unresolved_stay_answerable:
  assumes "flow_run ls s" "distinct (ids s)" "a < length (heap s)"
  shows "map_of (registry s) (rq_id (req s a)) = Some a \<longleftrightarrow> a \<notin> fst ` set (resolved s)"
  using flow_run_registry[OF assms(1,2)] flow_run_inv[OF assms(1)] assms(3)
  by (simp add: registry_exact_def once_ok_def)

lemma unresolved_stay_answerable_witness:
  "map_of (registry answered_flow) (rq_id sample_request) \<noteq> Some 0"
  using unresolved_stay_answerable[OF answered_flow_run, of 0] by (simp add: answered_flow_def ids_def)

text \<open>The outcome that the front end is told can differ from what the agent gets: there is a run in
  which the user allows a request, the answer is sent and the resolution \<open>answered\<close> is
  broadcast, and the request nevertheless returns the denial of its timeout.\<close>

lemma answered_request_may_be_denied:
  "\<exists>ls s. flow_run ls s \<and> LAnswer sample_allow \<in> set ls \<and>
     build_permission_decision sample_request sample_allow = Allow [(''command'', AStr ''ls'')] [] \<and>
     resolved s = [(0, ''answered'')] \<and> finalizing s = [] \<and>
     returned s = [(0, Deny ''Permission request timeout'' False)]"
proof -
  let ?ks = "[LRequest sample_request, LAnswer sample_allow,
      LSend (0, Allow [(''command'', AStr ''ls'')] [], ''answered''), LTimeout 0,
      LFinalize (0, ''answered''), LFinalize (0, ''expired'')]"
  let ?s = "\<lparr>heap = [\<lparr>cl_request = sample_request,
        cl_channel = Some (Allow [(''command'', AStr ''ls'')] []), cl_finalized = True\<rparr>], registry = [],
      answering = [], finalizing = [],
      returned = [(0, Deny ''Permission request timeout'' False)], resolved = [(0, ''answered'')]\<rparr>"
  have "try_labels empty_flow ?ks = Some ?s" by code_simp
  from try_labels_run[OF init this] have "flow_run (rev ?ks) ?s" by simp
  moreover have "build_permission_decision sample_request sample_allow = Allow [(''command'', AStr ''ls'')] []"
    by code_simp
  ultimately show ?thesis by (intro exI[of _ "rev ?ks"] exI[of _ ?s]) simp
qed

text \<open>Two requests made in the same nanosecond get the same id; then the first to end takes the other
  out of the registry: the second still waits and is unresolved, but no answer reaches it.\<close>

lemma same_instant_requests_collide:
  "rq_id (new_pending_request now c key r) = rq_id (new_pending_request now c' key' r') \<and>
   (\<exists>ls s. flow_run ls s \<and> waiting 1 s \<and> 1 \<notin> fst ` set (resolved s) \<and>
      (\<forall>msg. look_up_answer msg s = None))"
proof -
  let ?ks = "[LRequest sample_request, LRequest sample_request, LTimeout 0, LFinalize (0, ''expired'')]"
  let ?s = "\<lparr>heap = [\<lparr>cl_request = sample_request, cl_channel = None, cl_finalized = True\<rparr>,
        \<lparr>cl_request = sample_request, cl_channel = None, cl_finalized = False\<rparr>], registry = [],
      answering = [], finalizing = [],
      returned = [(0, Deny ''Permission request timeout'' False)], resolved = [(0, ''expired'')]\<rparr>"
  have "try_labels empty_flow ?ks = Some ?s" by code_simp
  from try_labels_run[OF init this] have "flow_run (rev ?ks) ?s" by simp
  moreover have "waiting 1 ?s" "1 \<notin> fst ` set (resolved ?s)" "look_up_answer msg ?s = None" for msg
    by (simp_all add: waiting_def look_up_answer_def Let_def)
  ultimately show ?thesis by (auto simp: new_pending_request_def Let_def intro!: exI[of _ "rev ?ks"] exI[of _ ?s])
qed

end
