(* ===== verification/Mention.thy ===== *)
theory Mention
  imports SessionPaths GoDict
begin

text \<open>
  Mentions in a room, \<open>internal/chat/room/mention.go\<close> and
  \<open>public_mention.go\<close>: blanking code regions, the table of aliases, and the agents
  that a text addresses with \<open>@name\<close>. The regular expression of a name matches the
  name after an at sign, followed by one delimiter or the end of the text; \<open>scan\<close> is
  its leftmost search for non-overlapping matches (names are valid UTF-8).
\<close>

section \<open>Masking code\<close>

abbreviation tick :: char where
  "tick \<equiv> CHR 0x60"

abbreviation blank :: char where
  "blank \<equiv> CHR '' ''"

text \<open>\<open>strings.Index\<close>.\<close>

fun index_of :: "string \<Rightarrow> string \<Rightarrow> nat option" where
  "index_of sub [] = (if sub = [] then Some 0 else None)"
| "index_of sub (c # cs) = (if prefix sub (c # cs) then Some 0 else map_option Suc (index_of sub cs))"

lemma index_of_le: "index_of sub s = Some i \<Longrightarrow> i + length sub \<le> length s"
  by (induction s arbitrary: i) (auto split: if_splits dest: prefix_length_le)

text \<open>The bytes that the region starting at the first backtick covers.\<close>

definition region_length :: "string \<Rightarrow> nat" where
  "region_length s =
     (let ticks = length (takeWhile (\<lambda>c. c = tick) s);
          rest = drop ticks s
      in case index_of (replicate ticks tick) rest of
           Some closing \<Rightarrow> ticks + closing + ticks
         | None \<Rightarrow> length s)"

lemma region_length_pos: "0 < region_length (tick # cs)"
  by (auto simp: region_length_def Let_def split: option.split)

lemma region_length_le: "region_length s \<le> length s"
proof -
  let ?n = "length (takeWhile (\<lambda>c. c = tick) s)"
  have "?n \<le> length s" by (rule length_takeWhile_le)
  then show ?thesis
    using index_of_le[of "replicate ?n tick" "drop ?n s"]
    by (fastforce simp: region_length_def Let_def split: option.split)
qed

function mask_regions :: "string \<Rightarrow> string" where
  "mask_regions [] = []"
| "mask_regions (c # cs) =
     (if c \<noteq> tick then c # mask_regions cs
      else let n = region_length (c # cs)
           in replicate n blank @ mask_regions (drop n (c # cs)))"
  by pat_completeness auto
termination
proof (relation "measure length")
  fix c :: char and cs :: string and n
  assume "\<not> c \<noteq> tick" "n = region_length (c # cs)"
  then show "(drop n (c # cs), c # cs) \<in> measure length"
    using region_length_pos[of cs] by (cases n) auto
qed auto

definition mask_code :: "string \<Rightarrow> string" where
  "mask_code content = (if tick \<notin> set content then content else mask_regions content)"

section \<open>Aliases and members\<close>

record member_agent =
  ma_id :: string
  ma_name :: string
  ma_display :: string
  ma_workspace :: string

record member_record =
  mr_type :: string
  mr_agent :: string

definition add_alias :: "string \<Rightarrow> (string \<times> string) list \<Rightarrow> string \<Rightarrow> (string \<times> string) list" where
  "add_alias agent_id aliases candidate =
     (let a = trim_space candidate in
      if a = [] then aliases
      else AList.update (to_lower a) agent_id (AList.update a agent_id aliases))"

definition add_agent_aliases :: "(string \<times> string) list \<Rightarrow> member_agent \<Rightarrow> (string \<times> string) list" where
  "add_agent_aliases aliases m =
     (let agent_id = trim_space (ma_id m) in
      if agent_id = [] then aliases
      else foldl (add_alias agent_id) aliases [ma_name m, ma_display m, agent_id])"

definition add_member_alias :: "(string \<times> string) list \<Rightarrow> member_record \<Rightarrow> (string \<times> string) list" where
  "add_member_alias aliases m =
     (if mr_type m \<noteq> ''agent'' \<or> trim_space (mr_agent m) = [] then aliases
      else case map_of aliases (mr_agent m) of
        Some _ \<Rightarrow> aliases
      | None \<Rightarrow> AList.update (mr_agent m) (mr_agent m) aliases)"

definition build_mention_aliases :: "member_agent list \<Rightarrow> member_record list \<Rightarrow> (string \<times> string) list" where
  "build_mention_aliases agents members =
     foldl add_member_alias (foldl add_agent_aliases [] agents) members"

definition is_member_agent :: "member_record list \<Rightarrow> string \<Rightarrow> bool" where
  "is_member_agent members agent_id \<longleftrightarrow>
     (let a = trim_space agent_id in
      a \<noteq> [] \<and> list_ex (\<lambda>m. mr_type m = ''agent'' \<and> trim_space (mr_agent m) = a) members)"

section \<open>Resolving mentions\<close>

text \<open>White space of the regular expression syntax, and the punctuation, as UTF-8.\<close>

definition delimiters :: "string list" where
  "delimiters =
     [[CHR 0x09], [CHR 0x0A], [CHR 0x0C], [CHR 0x0D], '' '',
      [CHR 0xEF, CHR 0xBC, CHR 0x8C], [CHR 0xE3, CHR 0x80, CHR 0x82], [CHR 0xEF, CHR 0xBC, CHR 0x81],
      [CHR 0xEF, CHR 0xBC, CHR 0x9F], [CHR 0xE3, CHR 0x80, CHR 0x81],
      '','', ''.'', ''!'', ''?'', '';'', ''-'', '':'',
      [CHR 0xEF, CHR 0xBC, CHR 0x9A], [CHR 0xEF, CHR 0xBC, CHR 0x9B]]"

text \<open>The length of the match at the start of \<open>s\<close>.\<close>

definition match_here :: "string \<Rightarrow> string \<Rightarrow> nat option" where
  "match_here pat s =
     (if \<not> prefix pat s then None
      else
        let rest = drop (length pat) s in
        case find (\<lambda>d. prefix d rest) delimiters of
          Some d \<Rightarrow> Some (length pat + length d)
        | None \<Rightarrow> if rest = [] then Some (length pat) else None)"

function scan :: "string \<Rightarrow> nat \<Rightarrow> string \<Rightarrow> nat list" where
  "scan pat pos [] = []"
| "scan pat pos (c # cs) =
     (case match_here pat (c # cs) of
        Some (Suc n) \<Rightarrow> pos # scan pat (pos + Suc n) (drop n cs)
      | _ \<Rightarrow> scan pat (Suc pos) cs)"
  by pat_completeness auto
termination
  by (relation "measure (\<lambda>(pat, pos, s). length s)") auto

record mention_match =
  mm_start :: nat
  mm_length :: nat
  mm_agent :: string

definition name_matches :: "string \<Rightarrow> (string \<times> string) list \<Rightarrow> string \<Rightarrow> mention_match list" where
  "name_matches content aliases name =
     (let agent_id = trim_space (get_or [] aliases name) in
      if agent_id = [] then []
      else map (\<lambda>start. \<lparr>mm_start = start, mm_length = rune_count name, mm_agent = agent_id\<rparr>)
             (scan (CHR ''@'' # name) 0 content))"

definition resolve_mentions :: "string \<Rightarrow> (string \<times> string) list \<Rightarrow> string list" where
  "resolve_mentions content aliases =
     (if trim_space content = [] \<or> aliases = [] then []
      else
        let content = mask_code content;
            names = sort_key (\<lambda>n. - int (rune_count n)) (filter (\<lambda>n. trim_space n \<noteq> []) (map fst aliases));
            matches = concat (map (name_matches content aliases) names);
            matches = sort_key mm_start (sort_key (\<lambda>m. - int (mm_length m)) matches)
        in uniq (map mm_agent matches))"

section \<open>Masked code\<close>

lemma length_mask_regions: "length (mask_regions s) = length s"
proof (induction s rule: mask_regions.induct)
  case (2 c cs)
  then show ?case
    using region_length_le[of "c # cs"] by (auto simp: Let_def)
qed simp

lemma mask_regions_no_tick: "tick \<notin> set (mask_regions s)"
  by (induction s rule: mask_regions.induct) (auto simp: Let_def)

lemma mask_regions_nth:
  "i < length s \<Longrightarrow> mask_regions s ! i = s ! i \<or> mask_regions s ! i = blank"
proof (induction s arbitrary: i rule: mask_regions.induct)
  case (2 c cs)
  show ?case
  proof (cases "c = tick")
    case False
    then show ?thesis using 2 by (cases i) auto
  next
    case True
    let ?n = "region_length (c # cs)"
    have eq: "mask_regions (c # cs) = replicate ?n blank @ mask_regions (drop ?n (c # cs))"
      using True by (simp add: Let_def)
    have le: "?n \<le> length (c # cs)" by (rule region_length_le)
    show ?thesis
    proof (cases "i < ?n")
      case True
      then show ?thesis unfolding eq by (simp add: nth_append)
    next
      case False
      then have "mask_regions (drop ?n (c # cs)) ! (i - ?n) = drop ?n (c # cs) ! (i - ?n) \<or>
          mask_regions (drop ?n (c # cs)) ! (i - ?n) = blank"
        using 2(2)[of ?n "i - ?n"] 2(3) True le by simp
      moreover have "drop ?n (c # cs) ! (i - ?n) = (c # cs) ! i"
        using False 2(3) le by (subst nth_drop) auto
      moreover have "mask_regions (c # cs) ! i = mask_regions (drop ?n (c # cs)) ! (i - ?n)"
        using False unfolding eq by (simp add: nth_append)
      ultimately show ?thesis by simp
    qed
  qed
qed simp

text \<open>What a matched name gives is an agent of the table.\<close>

lemma name_matches_agent:
  "m \<in> set (name_matches content aliases name) \<Longrightarrow>
   trim_space (get_or [] aliases name) \<noteq> [] \<and> mm_agent m = trim_space (get_or [] aliases name)"
  by (auto simp: name_matches_def Let_def split: if_splits)

lemma resolve_mentions_agents:
  "a \<in> set (resolve_mentions content aliases) \<Longrightarrow> a \<noteq> [] \<and> a \<in> trim_space ` snd ` set aliases"
proof -
  assume a: "a \<in> set (resolve_mentions content aliases)"
  then obtain name m where "m \<in> set (name_matches (mask_code content) aliases name)" "a = mm_agent m"
    by (auto simp: resolve_mentions_def Let_def split: if_splits)
  then have "a \<noteq> [] \<and> a = trim_space (get_or [] aliases name)"
    using name_matches_agent[of m "mask_code content" aliases name] by simp
  moreover from this obtain v where "map_of aliases name = Some v" "a = trim_space v"
    by (auto simp: get_or_def split: option.splits)
  then have "v \<in> snd ` set aliases" "a = trim_space v"
    by (auto intro: rev_image_eqI dest: map_of_SomeD)
  ultimately show ?thesis by blast
qed

lemma match_here_at: "match_here (CHR ''@'' # name) (c # cs) = Some n \<Longrightarrow> c = CHR ''@'' \<and> 0 < n"
  by (auto simp: match_here_def Let_def split: if_splits option.splits)

lemma scan_at:
  "pat = CHR ''@'' # name \<Longrightarrow> i \<in> set (scan pat pos s) \<Longrightarrow>
   pos \<le> i \<and> i - pos < length s \<and> s ! (i - pos) = CHR ''@''"
proof (induction pat pos s arbitrary: i rule: scan.induct)
  case (1 pat pos)
  then show ?case by simp
next
  case (2 pat pos c cs)
  consider (none) "i \<in> set (scan pat (Suc pos) cs)" "match_here pat (c # cs) \<in> {None, Some 0}"
    | (here) "c = CHR ''@''" "i = pos"
    | (later) n where "match_here pat (c # cs) = Some (Suc n)" "i \<in> set (scan pat (pos + Suc n) (drop n cs))"
    using 2(4,5) match_here_at[of name c cs] by (auto split: option.splits nat.splits)
  then show ?case
  proof cases
    case none
    then have "Suc pos \<le> i \<and> i - Suc pos < length cs \<and> cs ! (i - Suc pos) = CHR ''@''"
      using 2(1)[OF _ 2(4)] 2(2)[OF _ refl 2(4)] by auto
    moreover from this have "i - pos = Suc (i - Suc pos)" by linarith
    ultimately show ?thesis by simp
  next
    case (later n)
    then have b: "pos + Suc n \<le> i" "i - (pos + Suc n) < length cs - n" "drop n cs ! (i - (pos + Suc n)) = CHR ''@''"
      using 2(3)[OF later(1) refl 2(4) later(2)] by auto
    then have "cs ! (i - Suc pos) = CHR ''@''" by (simp add: nth_drop)
    moreover have "i - pos = Suc (i - Suc pos)" using b(1) by linarith
    ultimately show ?thesis using b by auto
  qed simp
qed

section \<open>Properties\<close>



end
