(* ===== verification/RoomRound.thy ===== *)
theory RoomRound
  imports RuntimeManager Events InputQueue
begin

text \<open>
  Rounds of a room, \<open>internal/service/room/{round_state,interrupt,active_slot_delivery,execution}.go\<close>
  and \<open>internal/chat/room/no_reply.go\<close>: a round runs one slot per addressed agent. The
  theory models the state of a slot and its status machine, the gate that holds back a reply
  which may turn out to be the no-reply marker, the registry of active rounds with its
  queries, the interrupt of slots and rounds, and the tools a room adds to an agent. The
  steps of \<open>runSlot\<close> that call other services are their results.
\<close>

section \<open>Slots\<close>

record queued_input =
  qi_round :: string
  qi_content :: string

text \<open>Why a slot was woken, \<open>Trigger\<close> of \<open>chat/room/visible_context.go\<close>.\<close>

record trigger =
  tg_type :: string
  tg_content :: string
  tg_message :: string
  tg_source :: string
  tg_target :: string
  tg_route :: reply_route

record slot =
  sl_session :: string
  sl_agent :: string
  sl_agent_round :: string
  sl_msg :: string
  sl_runtime_key :: string
  sl_workspace :: string
  sl_status :: string
  sl_index :: int
  sl_time :: int
  sl_sdk_session :: string
  sl_trigger :: trigger
  sl_attachments :: "attachment list"
  sl_public_id :: string
  sl_public_time :: int
  sl_directed_id :: string
  sl_directed_time :: int
  sl_route :: reply_route
  sl_reply_message :: string
  sl_reply_agent :: string
  sl_reason :: string
  sl_queued :: "queued_input list"
  sl_guided :: "queued_input list"
  sl_suppress :: bool
  sl_candidate :: bool
  sl_pending :: "event_message list"
  sl_done :: bool

definition terminal_status :: "string \<Rightarrow> bool" where
  "terminal_status status \<longleftrightarrow> status \<in> set [''finished'', ''error'', ''cancelled'']"

definition is_terminal :: "slot \<Rightarrow> bool" where
  "is_terminal s \<longleftrightarrow> terminal_status (sl_status s)"

definition set_status :: "string \<Rightarrow> slot \<Rightarrow> slot" where
  "set_status status s = s\<lparr>sl_status := status\<rparr>"

definition finish_slot :: "slot \<Rightarrow> slot" where
  "finish_slot s = s\<lparr>sl_done := True\<rparr>"

definition mark_cancelled :: "slot \<Rightarrow> bool \<times> slot" where
  "mark_cancelled s =
     (if sl_status s = ''cancelled'' then (False, s) else (True, s\<lparr>sl_status := ''cancelled''\<rparr>))"

definition set_sdk_session :: "string \<Rightarrow> slot \<Rightarrow> bool \<times> slot" where
  "set_sdk_session session_id s =
     (let i = trim_space session_id in
      if i = [] \<or> i = trim_space (sl_sdk_session s) then (False, s)
      else (True, s\<lparr>sl_sdk_session := i\<rparr>))"

definition normalize_interrupt_reason :: "string \<Rightarrow> string" where
  "normalize_interrupt_reason reason =
     (if trim_space reason \<noteq> [] then trim_space reason else ''Request stopped'')"

definition mark_interrupted :: "string \<Rightarrow> slot \<Rightarrow> slot" where
  "mark_interrupted reason s = s\<lparr>sl_reason := normalize_interrupt_reason reason\<rparr>"

definition slot_interrupt_reason :: "slot \<Rightarrow> string" where
  "slot_interrupt_reason s = trim_space (sl_reason s)"

definition enqueue_queued_input :: "string \<Rightarrow> string \<Rightarrow> slot \<Rightarrow> slot" where
  "enqueue_queued_input round_id content s =
     (if trim_space content = [] then s
      else s\<lparr>sl_queued := sl_queued s @ [\<lparr>qi_round = trim_space round_id, qi_content = trim_space content\<rparr>]\<rparr>)"

definition drain_queued_inputs :: "slot \<Rightarrow> queued_input list \<times> slot" where
  "drain_queued_inputs s = (sl_queued s, s\<lparr>sl_queued := []\<rparr>)"

definition enqueue_guided_input :: "string \<Rightarrow> string \<Rightarrow> slot \<Rightarrow> slot" where
  "enqueue_guided_input round_id content s =
     (if trim_space content = [] then s
      else s\<lparr>sl_guided := sl_guided s @ [\<lparr>qi_round = trim_space round_id, qi_content = trim_space content\<rparr>]\<rparr>)"

definition drain_guided_inputs :: "slot \<Rightarrow> queued_input list \<times> slot" where
  "drain_guided_inputs s = (sl_guided s, s\<lparr>sl_guided := []\<rparr>)"

section \<open>The no-reply gate\<close>

definition no_reply_marker :: string where
  "no_reply_marker = ''<nexus_room_no_reply/>''"

text \<open>The text of a message: its string content, or the texts of its content blocks.\<close>

fun content_blocks :: "any \<Rightarrow> any list" where
  "content_blocks (AList xs) = filter is_map xs"
| "content_blocks _ = []"

definition extract_history_text :: "any \<Rightarrow> string" where
  "extract_history_text message =
     (case field message ''content'' of
        AStr raw \<Rightarrow> trim_space raw
      | content \<Rightarrow>
          trim_space (join [CHR 0x0A]
            (filter (\<lambda>t. t \<noteq> []) (map (\<lambda>b. string_from_any (field b ''text'')) (content_blocks content)))))"

definition is_no_reply_message :: "any \<Rightarrow> bool" where
  "is_no_reply_message message \<longleftrightarrow>
     string_from_any (field message ''role'') = ''assistant''
     \<and> extract_history_text message = no_reply_marker"

definition is_no_reply_candidate :: "event_message \<Rightarrow> bool" where
  "is_no_reply_candidate ev =
     (let event_type = string_from_any (field (ev_data ev) ''type'') in
      if event_type \<in> set [''message_start'', ''message_delta'', ''message_stop''] then True
      else if event_type = ''content_block_stop'' then True
      else if event_type \<in> set [''content_block_start'', ''content_block_delta''] then
        let block = field (ev_data ev) ''content_block'' in
        if string_from_any (field block ''type'') \<noteq> ''text'' then False
        else
          let text = string_from_any (field block ''text'')
          in text = [] \<or> prefix text no_reply_marker
      else False)"

definition is_final_public_message :: "any \<Rightarrow> bool" where
  "is_final_public_message message \<longleftrightarrow>
     string_from_any (field message ''role'') = ''assistant''
     \<and> (field message ''is_complete'' = ABool True \<or> map_of (entries message) ''result_summary'' \<noteq> None)"

definition begin_candidate :: "slot \<Rightarrow> slot" where
  "begin_candidate s = s\<lparr>sl_candidate := True\<rparr>"

definition suppress_output :: "slot \<Rightarrow> slot" where
  "suppress_output s = s\<lparr>sl_suppress := True\<rparr>"

definition events_ready :: "slot \<Rightarrow> event_message \<Rightarrow> event_message list \<times> slot" where
  "events_ready s ev =
     (if sl_suppress s then ([], s\<lparr>sl_pending := []\<rparr>)
      else if sl_candidate s \<and> ev_type ev = ''stream'' \<and> is_no_reply_candidate ev then
        ([], s\<lparr>sl_pending := sl_pending s @ [ev]\<rparr>)
      else
        let s = s\<lparr>sl_candidate := False\<rparr> in
        if sl_pending s = [] then ([ev], s)
        else (sl_pending s @ [ev], s\<lparr>sl_pending := []\<rparr>))"

section \<open>Where a slot's output goes\<close>

definition slot_reply_route :: "slot \<Rightarrow> reply_route" where
  "slot_reply_route s =
     (if rr_mode (sl_route s) = [] then ReplyRoute ''public'' [] [] None else sl_route s)"

definition publishes_public :: "slot \<Rightarrow> bool" where
  "publishes_public s \<longleftrightarrow> rr_mode (slot_reply_route s) = ''public''"

definition drops_event :: "slot \<Rightarrow> event_message \<Rightarrow> bool" where
  "drops_event s ev \<longleftrightarrow> \<not> publishes_public s \<and> ev_type ev \<in> set [''stream'', ''message'']"

definition can_commit_memory :: "slot \<Rightarrow> bool" where
  "can_commit_memory s \<longleftrightarrow> sl_status s = ''finished'' \<and> \<not> sl_suppress s \<and> publishes_public s"

definition transcript_native :: "any \<Rightarrow> bool" where
  "transcript_native message \<longleftrightarrow> string_from_any (field message ''role'') = ''assistant''"

section \<open>Running a slot\<close>

definition result_status :: "any \<Rightarrow> string" where
  "result_status subtype =
     (let t = string_from_any subtype in
      if t = ''interrupted'' then ''cancelled'' else if t = ''error'' then ''error'' else ''finished'')"

text \<open>
  While a slot runs, \<open>ExecuteRound\<close> calls back with durable messages and with events. The
  output is what reaches the shared history of the room, the private overlay of the slot, and
  the subscribers, each in order; writing the two histories succeeds (a failure ends the
  execution as \<open>Failed\<close>).
\<close>

record slot_output =
  so_shared :: "any list"
  so_private :: "any list"
  so_events :: "event_message list"

definition no_output :: slot_output where
  "no_output = \<lparr>so_shared = [], so_private = [], so_events = []\<rparr>"

definition join_output :: "slot_output \<Rightarrow> slot_output \<Rightarrow> slot_output" where
  "join_output a b =
     \<lparr>so_shared = so_shared a @ so_shared b, so_private = so_private a @ so_private b,
      so_events = so_events a @ so_events b\<rparr>"

definition handle_durable :: "slot \<Rightarrow> any \<Rightarrow> slot_output \<times> slot" where
  "handle_durable s message =
     (let role = string_from_any (field message ''role'');
          s = (if role = ''result'' then s\<lparr>sl_status := result_status (field message ''subtype'')\<rparr> else s)
      in if role = ''assistant'' \<and> is_no_reply_message message then (no_output, suppress_output s)
         else if sl_suppress s then (no_output, s)
         else
           let overlay = (if transcript_native message then [] else [message])
           in (no_output\<lparr>so_shared := (if publishes_public s then [message] else []),
                         so_private := overlay\<rparr>, s))"

definition emit_event :: "slot \<Rightarrow> event_message \<Rightarrow> slot_output \<times> slot" where
  "emit_event s ev =
     (if drops_event s ev then (no_output, s)
      else let (evs, s') = events_ready s ev in (no_output\<lparr>so_events := evs\<rparr>, s'))"

datatype callback = Durable any | Emitted event_message

fun run_callbacks :: "slot \<Rightarrow> callback list \<Rightarrow> slot_output \<times> slot" where
  "run_callbacks s [] = (no_output, s)"
| "run_callbacks s (c # cs) =
     (let (out, s') = (case c of Durable m \<Rightarrow> handle_durable s m | Emitted ev \<Rightarrow> emit_event s ev);
          (outs, s'') = run_callbacks s' cs
      in (join_output out outs, s''))"

text \<open>
  What \<open>runSlot\<close> gets from the services it calls: whether the preparation fails, what the
  execution calls back with, how it ends, and whether a step after it fails. The first
  argument says whether the agent has a configuration.
\<close>

datatype execution_end = Interrupted | Failed | Completed any

definition handle_slot_failure :: "slot \<Rightarrow> slot" where
  "handle_slot_failure s = set_status ''error'' s"

definition handle_slot_cancelled :: "slot \<Rightarrow> slot" where
  "handle_slot_cancelled s = snd (mark_cancelled s)"

definition run_slot ::
  "bool \<Rightarrow> bool \<Rightarrow> callback list \<Rightarrow> execution_end \<Rightarrow> bool \<Rightarrow> slot \<Rightarrow> slot_output \<times> slot" where
  "run_slot configured prepared callbacks outcome recorded s =
     (if \<not> configured then (no_output, set_status ''error'' s)
      else
        let s = set_status ''running'' s in
        if \<not> prepared then (no_output, finish_slot (handle_slot_failure s))
        else
          let (out, s) = run_callbacks (begin_candidate s) callbacks in
          (out, finish_slot
             (case outcome of
                Interrupted \<Rightarrow> handle_slot_cancelled s
              | Failed \<Rightarrow> handle_slot_failure s
              | Completed subtype \<Rightarrow>
                  let s = (if sl_status s = ''running'' then set_status (result_status subtype) s else s)
                  in if \<not> recorded then handle_slot_failure s else s)))"

section \<open>Rounds\<close>

text \<open>A request to wake an agent, \<open>publicMentionWake\<close>.\<close>

record mention_wake =
  mw_trigger :: string
  mw_source :: string
  mw_source_agent :: string
  mw_target :: string
  mw_content :: string
  mw_message :: string
  mw_route :: reply_route

record room_round =
  rr_session :: string
  rr_room :: string
  rr_conversation :: string
  rr_round :: string
  rr_root :: string
  rr_hop :: int
  rr_owner :: string
  rr_slots :: "(string \<times> slot) list"
  rr_wakes :: "mention_wake list"

record 'c room_service =
  active_rounds :: "(string \<times> room_round) list"
  runtime :: "'c manager"

definition root_round_id :: "room_round \<Rightarrow> string" where
  "root_round_id r = (if trim_space (rr_root r) \<noteq> [] then trim_space (rr_root r) else trim_space (rr_round r))"

definition active_round_key :: "string \<Rightarrow> string \<Rightarrow> string" where
  "active_round_key key round_id = trim_space key @ ''::'' @ trim_space round_id"

definition register_round :: "'c room_service \<Rightarrow> room_round \<Rightarrow> 'c room_service" where
  "register_round svc r =
     svc\<lparr>active_rounds := AList.update (active_round_key (rr_session r) (rr_round r)) r (active_rounds svc)\<rparr>"

definition finish_round :: "'c room_service \<Rightarrow> room_round \<Rightarrow> 'c room_service" where
  "finish_round svc r =
     svc\<lparr>runtime := mark_round_finished (runtime svc) (rr_session r) (rr_round r),
         active_rounds := AList.delete (active_round_key (rr_session r) (rr_round r)) (active_rounds svc)\<rparr>"

abbreviation rounds :: "'c room_service \<Rightarrow> room_round list" where
  "rounds svc \<equiv> map snd (active_rounds svc)"

abbreviation slots_of :: "room_round \<Rightarrow> slot list" where
  "slots_of r \<equiv> map snd (rr_slots r)"

definition count_running_tasks :: "'c room_service \<Rightarrow> string \<Rightarrow> nat" where
  "count_running_tasks svc agent_id =
     sum_list (map (\<lambda>r. length (filter (\<lambda>s. sl_agent s = agent_id \<and> \<not> is_terminal s) (slots_of r))) (rounds svc))"

definition all_slots_cancelled :: "room_round \<Rightarrow> bool" where
  "all_slots_cancelled r \<longleftrightarrow>
     rr_slots r \<noteq> [] \<and> list_all (\<lambda>s. sl_status s = ''cancelled'') (slots_of r)"

definition has_slot_error :: "room_round \<Rightarrow> bool" where
  "has_slot_error r \<longleftrightarrow> list_ex (\<lambda>s. sl_status s = ''error'') (slots_of r)"

definition final_status :: "room_round \<Rightarrow> string" where
  "final_status r =
     (if all_slots_cancelled r then ''interrupted''
      else if has_slot_error r then ''error'' else ''finished'')"

definition map_terminal_subtype :: "string \<Rightarrow> string" where
  "map_terminal_subtype status =
     (if status = ''finished'' then ''success''
      else if status = ''interrupted'' then ''interrupted''
      else if status = ''error'' then ''error'' else [])"

text \<open>\<open>GetActiveRoundSnapshot\<close>: the first round with a session key gives the header.\<close>

record pending_slot =
  ps_agent :: string
  ps_msg :: string
  ps_round :: string
  ps_status :: string
  ps_time :: int
  ps_index :: int

record round_snapshot =
  rs_session :: string
  rs_room :: string
  rs_conversation :: string
  rs_round :: string
  rs_pending :: "pending_slot list"

definition pending_of_slot :: "slot \<Rightarrow> pending_slot" where
  "pending_of_slot s =
     \<lparr>ps_agent = sl_agent s, ps_msg = sl_msg s, ps_round = sl_agent_round s,
      ps_status = (if sl_status s = ''running'' then ''streaming'' else sl_status s),
      ps_time = sl_time s, ps_index = sl_index s\<rparr>"

definition active_snapshot :: "'c room_service \<Rightarrow> string \<Rightarrow> round_snapshot option" where
  "active_snapshot svc conversation_id =
     (let found = filter (\<lambda>r. rr_conversation r = conversation_id) (rounds svc);
          pending = concat (map (\<lambda>r. map pending_of_slot (filter (\<lambda>s. \<not> is_terminal s) (slots_of r))) found)
      in if pending = [] then None
         else
           let r = (case filter (\<lambda>r. rr_session r \<noteq> []) found of r # _ \<Rightarrow> r | [] \<Rightarrow> last found)
           in Some \<lparr>rs_session = rr_session r, rs_room = rr_room r,
                        rs_conversation = rr_conversation r, rs_round = rr_round r,
                        rs_pending = sort_key ps_time (sort_key ps_index pending)\<rparr>)"

subsection \<open>Slots that can take input\<close>

fun newest_slots :: "string list \<Rightarrow> (string \<times> slot) list \<Rightarrow> slot list \<Rightarrow> (string \<times> slot) list" where
  "newest_slots targets result [] = result"
| "newest_slots targets result (s # ss) =
     newest_slots targets
       (if is_terminal s \<or> sl_agent s \<notin> set targets then result
        else case map_of result (sl_agent s) of
          Some current \<Rightarrow>
            if sl_time current < sl_time s then AList.update (sl_agent s) s result else result
        | None \<Rightarrow> AList.update (sl_agent s) s result) ss"

definition find_active_delivery_slots ::
  "'c room_service \<Rightarrow> string \<Rightarrow> string \<Rightarrow> string list \<Rightarrow> (string \<times> slot) list" where
  "find_active_delivery_slots svc key conversation_id target_ids =
     (let targets = filter (\<lambda>t. t \<noteq> []) (map trim_space target_ids) in
      if targets = [] then []
      else newest_slots targets []
        (concat (map slots_of
          (filter (\<lambda>r. rr_session r = key \<and> rr_conversation r = conversation_id) (rounds svc)))))"

definition filter_handled :: "string list \<Rightarrow> string list \<Rightarrow> string list" where
  "filter_handled agent_ids handled = filter (\<lambda>a. a \<notin> set handled) agent_ids"

section \<open>Interrupting\<close>

definition collect_round_targets :: "(room_round \<Rightarrow> bool) \<Rightarrow> 'c room_service \<Rightarrow> (string \<times> string) list" where
  "collect_round_targets matches svc =
     map (\<lambda>key. (key, [])) (uniq (map rr_session (filter matches (rounds svc))))"

fun uniq_by :: "('a \<Rightarrow> 'k) \<Rightarrow> 'k list \<Rightarrow> 'a list \<Rightarrow> 'a list" where
  "uniq_by f seen [] = []"
| "uniq_by f seen (x # xs) = (if f x \<in> set seen then uniq_by f seen xs else x # uniq_by f (f x # seen) xs)"

definition collect_slot_targets :: "(room_round \<Rightarrow> slot \<Rightarrow> bool) \<Rightarrow> 'c room_service \<Rightarrow> (string \<times> string) list" where
  "collect_slot_targets matches svc =
     uniq_by (\<lambda>(key, msg). key @ ''::'' @ msg) []
       (concat (map (\<lambda>r. map (\<lambda>s. (rr_session r, sl_msg s)) (filter (matches r) (slots_of r))) (rounds svc)))"

definition find_active_slot :: "'c room_service \<Rightarrow> string \<Rightarrow> string \<Rightarrow> (room_round \<times> slot) option" where
  "find_active_slot svc key msg_id =
     (let msg = trim_space msg_id in
      if msg = [] then None
      else
        case List.map_filter
               (\<lambda>r. if rr_session r \<noteq> key then None else map_option (\<lambda>s. (r, s)) (map_of (rr_slots r) msg))
               (rounds svc) of
          [] \<Rightarrow> None
        | found # _ \<Rightarrow> Some found)"

definition active_rounds_for_session :: "'c room_service \<Rightarrow> string \<Rightarrow> room_round list" where
  "active_rounds_for_session svc key = filter (\<lambda>r. rr_session r = key) (rounds svc)"

text \<open>
  \<open>interruptActiveSlot\<close> marks the slot, interrupts its client and cancels its permission
  requests, and then waits like \<open>wait_signals\<close> for the one done channel. The result is the marked
  slot, the outcome of the wait, and whether the slot's context was cancelled.
\<close>

definition interrupt_active_slot :: "wake list \<Rightarrow> string \<Rightarrow> slot \<Rightarrow> slot \<times> wait_result \<times> bool" where
  "interrupt_active_slot wakes message s =
     (let (result, calls) = wait_signals 1 False wakes
      in (mark_interrupted message s, result, 0 < calls))"

definition interrupt_active_round :: "wake list \<Rightarrow> string \<Rightarrow> room_round \<Rightarrow> room_round \<times> wait_result \<times> bool" where
  "interrupt_active_round wakes message r =
     (let (result, calls) = wait_signals 1 False wakes
      in (r\<lparr>rr_slots := map (\<lambda>(k, s). (k, mark_interrupted (normalize_interrupt_reason message) s)) (rr_slots r)\<rparr>,
          result, 0 < calls))"

section \<open>Tools of a room agent\<close>

definition is_room_tool :: "string \<Rightarrow> bool" where
  "is_room_tool tool \<longleftrightarrow>
     (let t = trim_space tool in
      t = ''nexus_room'' \<or> prefix ''mcp__nexus_room__'' t \<or> prefix ''nexus_room__'' t
      \<or> prefix ''nexus_room.'' t)"

definition allowed_tools :: "string list \<Rightarrow> string list" where
  "allowed_tools values = uniq (filter (\<lambda>t. t \<noteq> []) (map trim_space (values @ [''nexus_room''])))"

definition disallowed_tools :: "string list \<Rightarrow> string list" where
  "disallowed_tools values = filter (\<lambda>t. \<not> is_room_tool t) values"

definition append_prompt_section :: "string \<Rightarrow> string \<Rightarrow> string" where
  "append_prompt_section base part =
     (let b = trim_space base; p = trim_space part in
      if b = [] then p else if p = [] then b
      else b @ [CHR 0x0A, CHR 0x0A] @ ''---'' @ [CHR 0x0A, CHR 0x0A] @ p)"

section \<open>What the gate lets through\<close>

datatype gate_event = GEmit event_message | GSuppress | GBegin

fun gate_step :: "slot \<Rightarrow> gate_event \<Rightarrow> event_message list \<times> slot" where
  "gate_step s (GEmit ev) = events_ready s ev"
| "gate_step s GSuppress = ([], suppress_output s)"
| "gate_step s GBegin = ([], begin_candidate s)"

fun gate_run :: "slot \<Rightarrow> gate_event list \<Rightarrow> event_message list \<times> slot" where
  "gate_run s [] = ([], s)"
| "gate_run s (e # es) =
     (let (out, s') = gate_step s e; (outs, s'') = gate_run s' es in (out @ outs, s''))"

fun emitted :: "gate_event list \<Rightarrow> event_message list" where
  "emitted [] = []"
| "emitted (GEmit ev # es) = ev # emitted es"
| "emitted (_ # es) = emitted es"

lemma gate_step_suppressed:
  "sl_suppress s \<Longrightarrow> fst (gate_step s e) = [] \<and> sl_suppress (snd (gate_step s e))"
  by (cases e) (auto simp: events_ready_def suppress_output_def begin_candidate_def)

lemma gate_run_suppressed: "sl_suppress s \<Longrightarrow> fst (gate_run s es) = [] \<and> sl_suppress (snd (gate_run s es))"
proof (induction es arbitrary: s)
  case (Cons e es)
  then show ?case
    using gate_step_suppressed[of s e] by (cases "gate_step s e") (auto simp: case_prod_unfold Let_def)
qed simp

lemma gate_step_open:
  "\<not> sl_suppress s \<Longrightarrow>
   fst (gate_step s e) @ sl_pending (snd (gate_step s e)) = sl_pending s @ emitted [e]"
  by (cases e) (auto simp: events_ready_def suppress_output_def begin_candidate_def Let_def)

lemma gate_run_order:
  "prefix (fst (gate_run s es)) (sl_pending s @ emitted es) \<and>
   (sl_suppress (snd (gate_run s es)) \<or>
    fst (gate_run s es) @ sl_pending (snd (gate_run s es)) = sl_pending s @ emitted es)"
proof (induction es arbitrary: s)
  case (Cons e es)
  obtain out s1 where step: "gate_step s e = (out, s1)" by fastforce
  obtain outs s2 where run: "gate_run s1 es = (outs, s2)" by fastforce
  have em: "emitted (e # es) = emitted [e] @ emitted es" by (cases e) auto
  show ?case
  proof (cases "sl_suppress s")
    case True
    then show ?thesis using gate_run_suppressed[OF True, of "e # es"] by simp
  next
    case False
    then have o: "out @ sl_pending s1 = sl_pending s @ emitted [e]"
      using gate_step_open[of s e] step by simp
    have "prefix outs (sl_pending s1 @ emitted es)"
      "sl_suppress s2 \<or> outs @ sl_pending s2 = sl_pending s1 @ emitted es"
      using Cons[of s1] run by auto
    moreover have "sl_pending s @ emitted (e # es) = out @ sl_pending s1 @ emitted es"
      unfolding em using o by (metis append.assoc)
    ultimately show ?thesis by (auto simp: step run)
  qed
qed simp

definition pending_ok :: "slot \<Rightarrow> bool" where
  "pending_ok s \<longleftrightarrow> list_all (\<lambda>ev. ev_type ev = ''stream'' \<and> is_no_reply_candidate ev) (sl_pending s)"

interpretation gate: stable "\<lambda>s e. snd (gate_step s e)" pending_ok
proof
  fix s e
  assume "pending_ok s"
  then show "pending_ok (snd (gate_step s e))"
    by (cases e) (auto simp: pending_ok_def events_ready_def suppress_output_def begin_candidate_def Let_def)
qed

lemma gate_run_state: "snd (gate_run s es) = run (\<lambda>s e. snd (gate_step s e)) s es"
  by (induction es arbitrary: s) (auto simp: case_prod_unfold Let_def)

lemma gate_run_append:
  "fst (gate_run s (es @ fs)) = fst (gate_run s es) @ fst (gate_run (snd (gate_run s es)) fs)"
  by (induction es arbitrary: s) (auto simp: case_prod_unfold Let_def)

lemma gate_run_candidates:
  "sl_candidate s \<Longrightarrow> list_all (\<lambda>ev. ev_type ev = ''stream'' \<and> is_no_reply_candidate ev) evs \<Longrightarrow>
   fst (gate_run s (map GEmit evs)) = []"
proof (induction evs arbitrary: s)
  case (Cons ev evs)
  then have "fst (events_ready s ev) = []"
    "sl_candidate (snd (events_ready s ev))"
    by (auto simp: events_ready_def)
  with Cons show ?case by (cases "events_ready s ev") (auto simp: case_prod_unfold Let_def)
qed simp

section \<open>What the callbacks do to a slot\<close>

fun reported :: "callback list \<Rightarrow> any list" where
  "reported [] = []"
| "reported (Durable m # cs) =
     (if string_from_any (field m ''role'') = ''result'' then [field m ''subtype''] else []) @ reported cs"
| "reported (Emitted ev # cs) = reported cs"

lemma result_status_terminal: "terminal_status (result_status v)"
  by (auto simp: result_status_def Let_def terminal_status_def)

lemma result_status_not_running: "result_status v \<noteq> ''running''"
  by (auto simp: result_status_def Let_def)

lemma set_status_fields [simp]:
  "sl_status (set_status status s) = status" "sl_done (set_status status s) = sl_done s"
  by (simp_all add: set_status_def)

lemma events_ready_frame [simp]:
  "sl_status (snd (events_ready s ev)) = sl_status s"
  "sl_done (snd (events_ready s ev)) = sl_done s"
  "sl_route (snd (events_ready s ev)) = sl_route s"
  "sl_suppress (snd (events_ready s ev)) = sl_suppress s"
  by (auto simp: events_ready_def Let_def)

lemma callback_status:
  "sl_status (snd (run_callbacks s [c])) =
     (if reported [c] = [] then sl_status s else result_status (last (reported [c])))"
  "sl_done (snd (run_callbacks s [c])) = sl_done s"
  "sl_route (snd (run_callbacks s [c])) = sl_route s"
  by (cases c; auto simp: handle_durable_def emit_event_def Let_def case_prod_unfold suppress_output_def)+

lemma run_callbacks_append:
  "fst (run_callbacks s (xs @ ys)) =
     join_output (fst (run_callbacks s xs)) (fst (run_callbacks (snd (run_callbacks s xs)) ys))"
  "snd (run_callbacks s (xs @ ys)) = snd (run_callbacks (snd (run_callbacks s xs)) ys)"
  by (induction xs arbitrary: s) (auto simp: case_prod_unfold Let_def join_output_def no_output_def)

lemma reported_append: "reported (xs @ ys) = reported xs @ reported ys"
  by (induction xs rule: reported.induct) auto

lemma run_callbacks_status:
  "sl_status (snd (run_callbacks s cs)) =
     (if reported cs = [] then sl_status s else result_status (last (reported cs))) \<and>
   sl_done (snd (run_callbacks s cs)) = sl_done s \<and> sl_route (snd (run_callbacks s cs)) = sl_route s"
proof (induction cs rule: rev_induct)
  case (snoc c cs)
  then show ?case
    using callback_status[of "snd (run_callbacks s cs)" c] unfolding run_callbacks_append reported_append
    by auto
qed simp

lemma private_callbacks:
  "\<not> publishes_public s \<and> sl_pending s = [] \<Longrightarrow>
   so_shared (fst (run_callbacks s cs)) = [] \<and>
   (\<forall>ev \<in> set (so_events (fst (run_callbacks s cs))). ev_type ev \<notin> {''stream'', ''message''})"
proof (induction cs arbitrary: s)
  case (Cons c cs)
  let ?r = "case c of Durable m \<Rightarrow> handle_durable s m | Emitted ev \<Rightarrow> emit_event s ev"
  have "\<not> publishes_public (snd ?r) \<and> sl_pending (snd ?r) = []"
    using Cons.prems
    by (cases c) (auto simp: handle_durable_def emit_event_def drops_event_def events_ready_def Let_def
        case_prod_unfold suppress_output_def publishes_public_def slot_reply_route_def)
  note rest = Cons.IH[OF this]
  have "so_shared (fst ?r) = [] \<and> (\<forall>ev \<in> set (so_events (fst ?r)). ev_type ev \<notin> {''stream'', ''message''})"
    using Cons.prems
    by (cases c) (auto simp: handle_durable_def emit_event_def drops_event_def events_ready_def Let_def
        case_prod_unfold no_output_def suppress_output_def publishes_public_def slot_reply_route_def)
  with rest show ?case by (auto simp: case_prod_unfold Let_def join_output_def)
qed (simp add: no_output_def)

lemma suppressed_callbacks:
  "sl_suppress s \<Longrightarrow> fst (run_callbacks s cs) = no_output \<and> sl_suppress (snd (run_callbacks s cs))"
proof (induction cs arbitrary: s)
  case (Cons c cs)
  let ?r = "case c of Durable m \<Rightarrow> handle_durable s m | Emitted ev \<Rightarrow> emit_event s ev"
  have "sl_suppress (snd ?r) \<and> fst ?r = no_output"
    using Cons.prems
    by (cases c) (auto simp: handle_durable_def emit_event_def drops_event_def events_ready_def Let_def
        case_prod_unfold suppress_output_def no_output_def)
  with Cons.IH[of "snd ?r"] show ?case
    by (auto simp: case_prod_unfold Let_def join_output_def no_output_def)
qed simp

section \<open>Active slots\<close>

definition delivery_slots :: "'c room_service \<Rightarrow> string \<Rightarrow> string \<Rightarrow> slot list" where
  "delivery_slots svc key conversation_id =
     concat (map slots_of
       (filter (\<lambda>r. rr_session r = key \<and> rr_conversation r = conversation_id) (rounds svc)))"

definition newest_of :: "slot list \<Rightarrow> string \<Rightarrow> slot option \<Rightarrow> bool" where
  "newest_of ss agent found \<longleftrightarrow>
     (case found of
        None \<Rightarrow> \<forall>s \<in> set ss. sl_agent s = agent \<longrightarrow> is_terminal s
      | Some s \<Rightarrow> s \<in> set ss \<and> sl_agent s = agent \<and> \<not> is_terminal s
          \<and> (\<forall>t \<in> set ss. sl_agent t = agent \<longrightarrow> \<not> is_terminal t \<longrightarrow> sl_time t \<le> sl_time s))"

lemma newest_slots_spec:
  assumes "agent \<in> set targets" "newest_of seen agent (map_of result agent)"
  shows "newest_of (seen @ ss) agent (map_of (newest_slots targets result ss) agent)"
  using assms(2)
proof (induction ss arbitrary: seen result)
  case (Cons s ss)
  let ?r = "if is_terminal s \<or> sl_agent s \<notin> set targets then result
        else case map_of result (sl_agent s) of
          Some current \<Rightarrow>
            if sl_time current < sl_time s then AList.update (sl_agent s) s result else result
        | None \<Rightarrow> AList.update (sl_agent s) s result"
  have "newest_of (seen @ [s]) agent (map_of ?r agent)"
    using Cons.prems assms(1)
    by (fastforce simp: newest_of_def split: option.splits if_splits)
  from Cons.IH[OF this] show ?case by simp
qed simp

lemma newest_slots_other:
  "agent \<notin> set targets \<Longrightarrow> map_of (newest_slots targets result ss) agent = map_of result agent"
  by (induction ss arbitrary: result) (auto split: option.splits)

lemma find_active_newest:
  assumes "agent \<in> trim_space ` set targets" "agent \<noteq> []"
  shows "newest_of (delivery_slots svc key conv) agent
    (map_of (find_active_delivery_slots svc key conv targets) agent)"
proof -
  have "newest_of [] agent (map_of [] agent)" by (simp add: newest_of_def)
  from newest_slots_spec[OF _ this, of "filter (\<lambda>t. t \<noteq> []) (map trim_space targets)" "delivery_slots svc key conv"]
  show ?thesis
    using assms by (auto simp: find_active_delivery_slots_def delivery_slots_def Let_def filter_empty_conv)
qed

lemma find_active_other:
  assumes "agent \<notin> trim_space ` set targets \<or> agent = []"
  shows "map_of (find_active_delivery_slots svc key conv targets) agent = None"
  using assms by (auto simp: find_active_delivery_slots_def Let_def newest_slots_other)

text \<open>An agent is busy if it has a slot of the conversation that is not terminal.\<close>

definition busy_agent :: "'c room_service \<Rightarrow> string \<Rightarrow> string \<Rightarrow> string \<Rightarrow> bool" where
  "busy_agent svc key conv agent \<longleftrightarrow>
     list_ex (\<lambda>s. sl_agent s = agent \<and> \<not> is_terminal s) (delivery_slots svc key conv)"

lemma find_active_busy:
  "agent \<in> fst ` set (find_active_delivery_slots svc key conv targets) \<longleftrightarrow>
   agent \<in> trim_space ` set targets \<and> agent \<noteq> [] \<and> busy_agent svc key conv agent"
proof (cases "agent \<in> trim_space ` set targets \<and> agent \<noteq> []")
  case True
  with find_active_newest[of agent targets svc key conv] show ?thesis
    by (cases "map_of (find_active_delivery_slots svc key conv targets) agent")
      (auto simp: newest_of_def busy_agent_def list_ex_iff map_of_eq_None_iff dest: map_of_SomeD intro: rev_image_eqI)
next
  case False
  with find_active_other[of agent targets svc key conv] show ?thesis
    by (auto simp: map_of_eq_None_iff)
qed

section \<open>A sample round\<close>

definition sample_slot :: "string \<Rightarrow> string \<Rightarrow> int \<Rightarrow> slot" where
  "sample_slot agent status t =
     \<lparr>sl_session = ''rs'', sl_agent = agent, sl_agent_round = ''r1'', sl_msg = ''m'' @ agent, sl_runtime_key = ''k'',
      sl_workspace = ''/w'', sl_status = status, sl_index = 0, sl_time = t, sl_sdk_session = [],
      sl_trigger = \<lparr>tg_type = ''public_chat'', tg_content = ''Hi'', tg_message = ''r1'', tg_source = [],
        tg_target = agent, tg_route = no_route\<rparr>,
      sl_attachments = [], sl_public_id = [], sl_public_time = 0, sl_directed_id = [], sl_directed_time = 0,
      sl_route = no_route, sl_reply_message = [], sl_reply_agent = [],
      sl_reason = [], sl_queued = [], sl_guided = [], sl_suppress = False, sl_candidate = False,
      sl_pending = [], sl_done = False\<rparr>"

definition sample_round :: room_round where
  "sample_round =
     \<lparr>rr_session = ''s'', rr_room = ''room'', rr_conversation = ''c'', rr_round = ''r'', rr_root = [],
      rr_hop = 0, rr_owner = [],
      rr_slots = [(''ma'', sample_slot ''a'' ''running'' 5), (''mb'', sample_slot ''b'' ''finished'' 4),
                  (''mc'', sample_slot ''a'' ''pending'' 3)],
      rr_wakes = []\<rparr>"

definition sample_service :: "nat room_service" where
  "sample_service = register_round \<lparr>active_rounds = [], runtime = new_manager\<rparr> sample_round"

definition delta_event :: "string \<Rightarrow> event_message" where
  "delta_event text = new_event 0 ''stream'' (AMap [(''type'', AStr ''content_block_delta''),
     (''content_block'', AMap [(''type'', AStr ''text''), (''text'', AStr text)])])"

section \<open>Properties\<close>

text \<open>The no-reply gate neither reorders, duplicates nor invents events: what a slot has emitted is
  always a prefix of what it produced; unless its output is suppressed, the emitted events
  followed by the held ones are exactly what it produced; and it holds back only stream
  events that may still be the no-reply marker.\<close>

lemma gate_keeps_order:
  assumes "sl_pending s = []"
  shows "prefix (fst (gate_run s es)) (emitted es) \<and>
    (sl_suppress (snd (gate_run s es)) \<or>
     fst (gate_run s es) @ sl_pending (snd (gate_run s es)) = emitted es) \<and>
    list_all (\<lambda>ev. ev_type ev = ''stream'' \<and> is_no_reply_candidate ev) (sl_pending (snd (gate_run s es)))"
proof -
  have "pending_ok (snd (gate_run s es))"
    unfolding gate_run_state by (rule gate.inv_run) (simp add: pending_ok_def assms)
  then show ?thesis
    using gate_run_order[of s es] assms by (simp add: pending_ok_def)
qed

lemma gate_keeps_order_witness:
  "fst (gate_run (sample_slot ''a'' ''running'' 0) [GBegin, GEmit (delta_event ''<nexus''), GEmit (delta_event ''Hi'')]) =
     [delta_event ''<nexus'', delta_event ''Hi'']"
proof -
  let ?s = "sample_slot ''a'' ''running'' 0"
  let ?es = "[GBegin, GEmit (delta_event ''<nexus''), GEmit (delta_event ''Hi'')]"
  have "\<not> sl_suppress (snd (gate_run ?s ?es))" "sl_pending (snd (gate_run ?s ?es)) = []"
    "emitted ?es = [delta_event ''<nexus'', delta_event ''Hi'']" "sl_pending ?s = []"
    by code_simp+
  then show ?thesis using gate_keeps_order[of ?s ?es] by simp
qed

text \<open>A reply that is only the no-reply marker stays invisible: if every streamed event since the
  start could still be the marker and the output is then suppressed, no event ever gets
  through, whatever follows.\<close>

lemma marker_stays_hidden:
  assumes "list_all (\<lambda>ev. ev_type ev = ''stream'' \<and> is_no_reply_candidate ev) evs"
  shows "fst (gate_run s (GBegin # map GEmit evs @ GSuppress # es)) = []"
proof -
  let ?s = "begin_candidate s"
  have "fst (gate_run ?s (map GEmit evs)) = []"
    by (rule gate_run_candidates) (use assms in \<open>simp_all add: begin_candidate_def\<close>)
  moreover have "fst (gate_run t (GSuppress # es)) = []" for t
    using gate_run_suppressed[of "suppress_output t" es]
    by (simp add: suppress_output_def case_prod_unfold Let_def)
  ultimately have "fst (gate_run ?s (map GEmit evs @ GSuppress # es)) = []"
    by (simp add: gate_run_append)
  then show ?thesis by (simp add: case_prod_unfold Let_def)
qed

lemma marker_stays_hidden_witness:
  "fst (gate_run (sample_slot ''a'' ''running'' 0)
     [GBegin, GEmit (delta_event ''<nexus_room''), GSuppress, GEmit (delta_event ''Hi'')]) = []"
proof -
  have "list_all (\<lambda>ev. ev_type ev = ''stream'' \<and> is_no_reply_candidate ev) [delta_event ''<nexus_room'']"
    by code_simp
  from marker_stays_hidden[OF this, of "sample_slot ''a'' ''running'' 0" "[GEmit (delta_event ''Hi'')]"]
  show ?thesis by simp
qed

text \<open>C29. Every slot that runs ends in a terminal status: it is cancelled when the execution was
  interrupted and an error when a step failed, and otherwise has the status of the last result
  that was reported; and its done channel is closed, except for an agent without configuration:
  there the run returns before the deferred close, and whoever waits for the slot waits for
  ever.\<close>
theorem run_slot_ends_terminal:
  "is_terminal (snd (run_slot configured prepared callbacks outcome recorded s)) \<and>
   sl_done (snd (run_slot configured prepared callbacks outcome recorded s)) = (configured \<or> sl_done s) \<and>
   sl_status (snd (run_slot configured prepared callbacks outcome recorded s)) =
     (if configured \<and> prepared then
        case outcome of
          Interrupted \<Rightarrow> ''cancelled''
        | Failed \<Rightarrow> ''error''
        | Completed subtype \<Rightarrow>
            if recorded then result_status (last (subtype # reported callbacks)) else ''error''
      else ''error'')"
proof -
  obtain out t where run: "run_callbacks (begin_candidate (set_status ''running'' s)) callbacks = (out, t)"
    by fastforce
  have t: "sl_status t = (if reported callbacks = [] then ''running'' else result_status (last (reported callbacks)))"
    "sl_done t = sl_done s"
    using run_callbacks_status[of "begin_candidate (set_status ''running'' s)" callbacks] run
    by (auto simp: begin_candidate_def set_status_def)
  show ?thesis
    using result_status_terminal result_status_not_running t
    by (cases outcome)
      (auto simp: run_slot_def run Let_def finish_slot_def handle_slot_failure_def handle_slot_cancelled_def
        mark_cancelled_def is_terminal_def terminal_status_def)
qed



text \<open>The marker as the final message ends a slot's output: once the agent has answered with the
  no-reply marker, nothing more is written to the shared history or the private overlay, no
  event is sent, and the slot cannot commit the turn to memory.\<close>

lemma no_reply_ends_output:
  assumes "is_no_reply_message message"
  shows "fst (run_callbacks s (before @ Durable message # after)) = fst (run_callbacks s before) \<and>
    \<not> can_commit_memory (snd (run_callbacks s (before @ Durable message # after)))"
proof -
  let ?t = "snd (run_callbacks s before)"
  have durable: "fst (handle_durable ?t message) = no_output" "sl_suppress (snd (handle_durable ?t message))"
    using assms by (auto simp: handle_durable_def Let_def is_no_reply_message_def suppress_output_def)
  have "fst (run_callbacks ?t (Durable message # after)) = no_output"
    "sl_suppress (snd (run_callbacks ?t (Durable message # after)))"
    using durable suppressed_callbacks[OF durable(2), of "after"]
    by (auto simp: case_prod_unfold Let_def join_output_def no_output_def)
  then show ?thesis
    by (simp add: run_callbacks_append can_commit_memory_def join_output_def no_output_def)
qed

lemma no_reply_ends_output_witness:
  "fst (run_callbacks (sample_slot ''a'' ''running'' 0)
     [Durable (AMap [(''role'', AStr ''assistant''), (''content'', AStr no_reply_marker)]),
      Durable (AMap [(''role'', AStr ''assistant''), (''content'', AStr ''Hi'')])]) = no_output"
proof -
  have m: "is_no_reply_message (AMap [(''role'', AStr ''assistant''), (''content'', AStr no_reply_marker)])"
    by code_simp
  from no_reply_ends_output[OF m, of "sample_slot ''a'' ''running'' 0" "[]"
      "[Durable (AMap [(''role'', AStr ''assistant''), (''content'', AStr ''Hi'')])]"]
  show ?thesis by (metis append_Nil fst_conv run_callbacks.simps(1))
qed

text \<open>Input for a running agent goes to its newest active slot of the conversation: for every
  requested agent the search returns a slot of that agent which is not terminal and than
  which no other active one is newer, and it returns none only if the agent has no active slot.\<close>

lemma newest_active_slot_found:
  assumes "agent \<in> trim_space ` set targets" "agent \<noteq> []"
  shows "newest_of (delivery_slots svc key conv) agent
    (map_of (find_active_delivery_slots svc key conv targets) agent)"
  using assms by (rule find_active_newest)

lemma newest_active_slot_found_witness:
  "map_of (find_active_delivery_slots sample_service ''s'' ''c'' ['' a'', ''b'']) ''a'' =
     Some (sample_slot ''a'' ''running'' 5) \<and>
   newest_of (delivery_slots sample_service ''s'' ''c'') ''a'' (Some (sample_slot ''a'' ''running'' 5))"
proof -
  have f: "map_of (find_active_delivery_slots sample_service ''s'' ''c'' ['' a'', ''b'']) ''a'' =
      Some (sample_slot ''a'' ''running'' 5)"
    by code_simp
  have "trim_space '' a'' = ''a''" by code_simp
  then have "''a'' \<in> trim_space ` set ['' a'', ''b'']" by (metis image_eqI list.set_intros(1))
  from newest_active_slot_found[OF this, of sample_service "''s''" "''c''"] f show ?thesis by simp
qed

text \<open>The snapshot of a conversation lists exactly its slots that are not terminal, by time and
  then by index, a running one as streaming; there is no snapshot only if there is no such
  slot.\<close>

lemma snapshot_lists_active:
  "(case active_snapshot svc conv of
      None \<Rightarrow> []
    | Some snap \<Rightarrow> rs_pending snap) =
   sort_key ps_time (sort_key ps_index
     (concat (map (\<lambda>r. map pending_of_slot (filter (\<lambda>s. \<not> is_terminal s) (slots_of r)))
       (filter (\<lambda>r. rr_conversation r = conv) (rounds svc))))) \<and>
   sorted (map ps_time (case active_snapshot svc conv of None \<Rightarrow> [] | Some snap \<Rightarrow> rs_pending snap)) \<and>
   (\<forall>snap. active_snapshot svc conv = Some snap \<longrightarrow> rs_pending snap \<noteq> [] \<and> rs_conversation snap = conv)"
proof -
  let ?found = "filter (\<lambda>r. rr_conversation r = conv) (rounds svc)"
  have "rr_conversation (case filter (\<lambda>r. rr_session r \<noteq> []) ?found of r # _ \<Rightarrow> r | [] \<Rightarrow> last ?found) = conv"
    if "?found \<noteq> []"
  proof (cases "filter (\<lambda>r. rr_session r \<noteq> []) ?found")
    case Nil
    then show ?thesis using last_in_set[OF that] by auto
  next
    case (Cons r rs)
    have "r \<in> set (filter (\<lambda>r. rr_session r \<noteq> []) ?found)" unfolding Cons by simp
    then have "rr_conversation r = conv" by simp
    then show ?thesis unfolding Cons by simp
  qed
  then have chosen: "rr_conversation (case filter (\<lambda>r. rr_session r \<noteq> []) ?found of r # _ \<Rightarrow> r | [] \<Rightarrow> last ?found) = conv"
    if "concat (map (\<lambda>r. map pending_of_slot (filter (\<lambda>s. \<not> is_terminal s) (slots_of r))) ?found) \<noteq> []"
    using that by (cases "?found = []") simp_all
  have sorted_empty: "sort_key f xs = [] \<longleftrightarrow> xs = []" for f :: "pending_slot \<Rightarrow> int" and xs
    by (metis length_0_conv length_sort)
  let ?pending = "concat (map (\<lambda>r. map pending_of_slot (filter (\<lambda>s. \<not> is_terminal s) (slots_of r))) ?found)"
  show ?thesis
  proof (cases "?pending = []")
    case True
    then have "active_snapshot svc conv = None" unfolding active_snapshot_def Let_def by (rule if_P)
    then show ?thesis unfolding True by simp
  next
    case False
    obtain r where r: "active_snapshot svc conv = Some r" "rs_conversation r = conv"
        "rs_pending r = sort_key ps_time (sort_key ps_index ?pending)"
      using chosen[OF False] False unfolding active_snapshot_def Let_def by (simp only: if_False) (simp del: concat_eq_Nil_conv)
    have "rs_pending r \<noteq> []" unfolding r(3) sorted_empty by (rule False)
    then show ?thesis using r by simp
  qed
qed

lemma snapshot_lists_active_witness:
  "map ps_status (case active_snapshot sample_service ''c'' of None \<Rightarrow> [] | Some snap \<Rightarrow> rs_pending snap) =
     [''pending'', ''streaming'']"
proof -
  have "map ps_status (sort_key ps_time (sort_key ps_index
     (concat (map (\<lambda>r. map pending_of_slot (filter (\<lambda>s. \<not> is_terminal s) (slots_of r)))
       (filter (\<lambda>r. rr_conversation r = ''c'') (rounds sample_service)))))) = [''pending'', ''streaming'']"
    by code_simp
  then show ?thesis using snapshot_lists_active[of sample_service "''c''"] by simp
qed

end
