(* ===== verification/RoomDomain.thy ===== *)
theory RoomDomain
  imports Mention RoomRound QueueStore
begin

text \<open>
  What the room service knows of a conversation, and what it derives from it: the directory of
  its agents (\<open>buildAgentDirectory\<close> of \<open>service/room/chat.go\<close>), the queue location
  of every agent and the queued items of the conversation in dispatch order
  (\<open>service/room/input_queue.go\<close>). The agent service's \<open>GetAgent\<close> is a parameter.
\<close>

section \<open>The context of a conversation\<close>

record session_record =
  se_id :: string
  se_agent :: string
  se_sdk_session :: string

record room_context =
  rc_room :: string
  rc_type :: string
  rc_host :: string
  rc_host_reply :: bool
  rc_conversation :: string
  rc_members :: "member_record list"
  rc_agents :: "member_agent list"
  rc_sessions :: "session_record list"

type_synonym agent_lookup = "string \<Rightarrow> string + member_agent"

definition list_agent_ids :: "member_record list \<Rightarrow> string list" where
  "list_agent_ids members =
     map mr_agent (filter (\<lambda>m. mr_type m = ''agent'' \<and> mr_agent m \<noteq> []) members)"

definition member_ids :: "room_context \<Rightarrow> string list" where
  "member_ids ctx =
     uniq (map (\<lambda>m. trim_space (mr_agent m))
       (filter (\<lambda>m. mr_type m = ''agent'' \<and> trim_space (mr_agent m) \<noteq> []) (rc_members ctx)))"

text \<open>The agents of the list of ids that are not yet known are looked up one after the other.\<close>

fun look_up_agents ::
  "agent_lookup \<Rightarrow> (string \<Rightarrow> member_agent \<Rightarrow> string) \<Rightarrow> (string \<times> member_agent) list \<Rightarrow> string list \<Rightarrow>
   string + (string \<times> member_agent) list" where
  "look_up_agents get key known [] = Inr known"
| "look_up_agents get key known (i # is) =
     (if map_of known i \<noteq> None then look_up_agents get key known is
      else case get i of
        Inl e \<Rightarrow> Inl e
      | Inr a \<Rightarrow> look_up_agents get key (AList.update (key i a) a known) is)"

definition build_agent_directory ::
  "agent_lookup \<Rightarrow> room_context \<Rightarrow> string + (string \<times> member_agent) list" where
  "build_agent_directory get ctx =
     (let ids = member_ids ctx;
          known = foldl (\<lambda>d a. AList.update (ma_id a) a d) []
            (filter (\<lambda>a. ma_id a \<in> set ids) (rc_agents ctx))
      in look_up_agents get (\<lambda>_. ma_id) known ids)"

section \<open>Queue locations\<close>

definition agent_location :: "room_context \<Rightarrow> string \<Rightarrow> string \<Rightarrow> queue_location" where
  "agent_location ctx agent_id workspace_path =
     \<lparr>loc_scope = ''room'', loc_workspace = workspace_path,
      loc_session = build_room_agent_key (rc_conversation ctx) agent_id (rc_type ctx),
      loc_room = rc_room ctx, loc_conversation = rc_conversation ctx\<rparr>"

definition locations_by_agent ::
  "agent_lookup \<Rightarrow> room_context \<Rightarrow> string + (string \<times> queue_location) list" where
  "locations_by_agent get ctx =
     (let known = foldl (\<lambda>d a. AList.update (trim_space (ma_id a)) a d) []
            (filter (\<lambda>a. trim_space (ma_id a) \<noteq> []) (rc_agents ctx))
      in case look_up_agents get (\<lambda>i _. i) known (member_ids ctx) of
           Inl e \<Rightarrow> Inl e
         | Inr agents \<Rightarrow>
             Inr (map (\<lambda>(i, a). (i, agent_location ctx i (trim_space (ma_workspace a))))
               (filter (\<lambda>(i, a). trim_space (ma_workspace a) \<noteq> []) agents)))"

definition queue_locations ::
  "agent_lookup \<Rightarrow> room_context \<Rightarrow> string + queue_location list" where
  "queue_locations get ctx =
     (case locations_by_agent get ctx of
        Inl e \<Rightarrow> Inl e
      | Inr by_agent \<Rightarrow>
          Inr (map snd (sort_key fst
            (List.map_filter
              (\<lambda>m. if mr_type m \<noteq> ''agent'' then None
                   else map_option (Pair (trim_space (mr_agent m))) (map_of by_agent (trim_space (mr_agent m))))
              (rc_members ctx)))))"

definition location_agent :: "queue_location \<Rightarrow> string" where
  "location_agent loc = trim_space (sk_agent (parse_session_key (loc_session loc)))"

definition location_key :: "queue_location \<Rightarrow> string" where
  "location_key loc = trim_space (loc_workspace loc) @ ''::'' @ trim_space (loc_session loc)"

section \<open>The queued items of a conversation\<close>

type_synonym queue_entry = "queue_item \<times> queue_location"

fun entries_at ::
  "files \<Rightarrow> int \<Rightarrow> queue_location list \<Rightarrow> string + queue_entry list" where
  "entries_at fs now [] = Inr []"
| "entries_at fs now (loc # locs) =
     (case snapshot fs loc now of
        Inl e \<Rightarrow> Inl e
      | Inr items \<Rightarrow>
          (case entries_at fs now locs of
             Inl e \<Rightarrow> Inl e
           | Inr rest \<Rightarrow> Inr (map (\<lambda>i. (i, loc)) items @ rest)))"

text \<open>By order, then by time of creation, then by identifier.\<close>

definition sort_entries :: "queue_entry list \<Rightarrow> queue_entry list" where
  "sort_entries es =
     sort_key (\<lambda>e. iq_order (fst e)) (sort_key (\<lambda>e. iq_created (fst e)) (sort_key (\<lambda>e. iq_id (fst e)) es))"

definition queue_entries ::
  "agent_lookup \<Rightarrow> files \<Rightarrow> room_context \<Rightarrow> int \<Rightarrow> string + queue_entry list" where
  "queue_entries get fs ctx now =
     (case queue_locations get ctx of
        Inl e \<Rightarrow> Inl e
      | Inr locs \<Rightarrow> map_sum id sort_entries (entries_at fs now locs))"

definition find_entry ::
  "agent_lookup \<Rightarrow> files \<Rightarrow> room_context \<Rightarrow> int \<Rightarrow> string \<Rightarrow> string + queue_entry option" where
  "find_entry get fs ctx now item_id =
     (let i = trim_space item_id in
      if i = [] then Inr None
      else map_sum id (find (\<lambda>e. iq_id (fst e) = i)) (queue_entries get fs ctx now))"

definition target_agents :: "queue_item \<Rightarrow> string list" where
  "target_agents item = filter (\<lambda>t. t \<noteq> []) (uniq (map trim_space (iq_agent item # iq_targets item)))"

lemma set_target_agents: "set (target_agents item) = trim_space ` set (iq_agent item # iq_targets item) - {[]}"
  by (auto simp: target_agents_def)

lemma distinct_target_agents [simp]: "distinct (target_agents item)"
  by (simp add: target_agents_def)

end
