(* ===== verification/DirectedMessages.thy ===== *)
theory DirectedMessages
  imports RoomDomain
begin

text \<open>
  Private messages between the agents of a room,
  \<open>internal/service/room/{directed_message,directed_message_projection,directed_message_wake}.go\<close>:
  the checks a request passes before it is stored, the reply route it carries, the reply of the
  woken agent that goes back as a directed message, and whom a message wakes. The errors are
  constructors for the error texts of the source.
\<close>

section \<open>Requests and records\<close>

record directed_request =
  dq_source :: string
  dq_recipients :: "string list"
  dq_content :: string
  dq_wake :: string
  dq_route :: reply_route
  dq_delay :: int
  dq_correlation :: string

record directed_message =
  dm_id :: string
  dm_room :: string
  dm_conversation :: string
  dm_source :: string
  dm_recipients :: "string list"
  dm_content :: string
  dm_wake :: string
  dm_route :: reply_route
  dm_delay :: int
  dm_correlation :: string
  dm_time :: int

datatype directed_error =
  ContentRequired | SourceRequired | MemberNotFound | RecipientsRequired | WakeUnknown
| DelayRequired | DelayTooLong | DelayNotAllowed
| RouteTooDeep | NextNotAllowed | RouteRecipientsRequired | RouteWakeInvalid | NextNeedsImmediate
| RouteModeUnknown

definition max_delay :: int where "max_delay = 86400"
definition max_route_depth :: nat where "max_route_depth = 4"

section \<open>Checking a request\<close>

definition normalize_recipients :: "string list \<Rightarrow> string list" where
  "normalize_recipients values = uniq (filter (\<lambda>v. v \<noteq> []) (map trim_space values))"

definition validate_recipients :: "string list \<Rightarrow> string list \<Rightarrow> directed_error option" where
  "validate_recipients recipients members =
     (if list_all (\<lambda>a. a \<in> set members) recipients then None else Some MemberNotFound)"

definition validate_wake_policy :: "string \<Rightarrow> directed_error option" where
  "validate_wake_policy wake =
     (if wake \<in> set [''none'', ''immediate'', ''delayed''] then None else Some WakeUnknown)"

definition validate_delay :: "string \<Rightarrow> int \<Rightarrow> directed_error option" where
  "validate_delay wake delay =
     (if wake = ''delayed'' then
        if delay \<le> 0 then Some DelayRequired
        else if max_delay < delay then Some DelayTooLong else None
      else if delay \<noteq> 0 then Some DelayNotAllowed else None)"

definition default_to :: "string \<Rightarrow> string \<Rightarrow> string" where
  "default_to d v = (if v = [] then d else v)"

function normalize_route_depth ::
  "string list \<Rightarrow> nat \<Rightarrow> reply_route \<Rightarrow> directed_error + reply_route" where
  "normalize_route_depth members depth (ReplyRoute mode recipients wake nxt) =
     (if max_route_depth < depth then Inl RouteTooDeep
      else if default_to ''none'' mode = ''public'' then
        if nxt \<noteq> None then Inl NextNotAllowed else Inr (ReplyRoute ''public'' [] [] None)
      else if default_to ''none'' mode = ''none'' then
        if nxt \<noteq> None then Inl NextNotAllowed else Inr (ReplyRoute ''none'' [] [] None)
      else if default_to ''none'' mode = ''private'' then
        if normalize_recipients recipients = [] then Inl RouteRecipientsRequired
        else case validate_recipients (normalize_recipients recipients) members of
          Some e \<Rightarrow> Inl e
        | None \<Rightarrow>
            if default_to ''none'' wake \<notin> set [''none'', ''immediate''] then Inl RouteWakeInvalid
            else case nxt of
              None \<Rightarrow> Inr (ReplyRoute ''private'' (normalize_recipients recipients) (default_to ''none'' wake) None)
            | Some r \<Rightarrow>
                if default_to ''none'' wake \<noteq> ''immediate'' then Inl NextNeedsImmediate
                else case normalize_route_depth members (Suc depth) r of
                  Inl e \<Rightarrow> Inl e
                | Inr r' \<Rightarrow>
                    Inr (ReplyRoute ''private'' (normalize_recipients recipients) ''immediate'' (Some r'))
      else Inl RouteModeUnknown)"
  by pat_completeness auto
termination
  by (relation "measure (\<lambda>(members, depth, r). size r)") auto

definition normalize_room_route :: "reply_route \<Rightarrow> string list \<Rightarrow> directed_error + reply_route" where
  "normalize_room_route route members = normalize_route_depth members 0 route"

definition build_directed_record ::
  "room_context \<Rightarrow> directed_request \<Rightarrow> string \<Rightarrow> int \<Rightarrow> directed_error + directed_message" where
  "build_directed_record ctx rq new_id now =
     (let content = trim_space (dq_content rq);
          source = trim_space (dq_source rq);
          members = list_agent_ids (rc_members ctx);
          recipients = normalize_recipients (dq_recipients rq);
          wake = default_to ''none'' (dq_wake rq)
      in if content = [] then Inl ContentRequired
         else if source = [] then Inl SourceRequired
         else if source \<notin> set members then Inl MemberNotFound
         else if recipients = [] then Inl RecipientsRequired
         else case validate_recipients recipients members of
           Some e \<Rightarrow> Inl e
         | None \<Rightarrow>
             (case validate_wake_policy wake of
                Some e \<Rightarrow> Inl e
              | None \<Rightarrow>
                  (case validate_delay wake (dq_delay rq) of
                     Some e \<Rightarrow> Inl e
                   | None \<Rightarrow>
                       (case normalize_room_route (dq_route rq) members of
                          Inl e \<Rightarrow> Inl e
                        | Inr route \<Rightarrow>
                            Inr \<lparr>dm_id = new_id, dm_room = rc_room ctx, dm_conversation = rc_conversation ctx,
                                 dm_source = source, dm_recipients = recipients, dm_content = content,
                                 dm_wake = wake, dm_route = route, dm_delay = dq_delay rq,
                                 dm_correlation = trim_space (dq_correlation rq), dm_time = now\<rparr>))))"

section \<open>The reply of a woken agent\<close>

definition extract_result_text :: "any \<Rightarrow> string" where
  "extract_result_text message =
     (if is_map (field message ''result_summary'') then
        if extract_history_text message \<noteq> [] then extract_history_text message
        else trim_space (string_from_any (field (field message ''result_summary'') ''result''))
      else if field message ''is_complete'' = ABool True then extract_history_text message
      else [])"

definition route_after_handback :: "reply_route \<Rightarrow> reply_route" where
  "route_after_handback route =
     (case rr_next route of None \<Rightarrow> ReplyRoute ''none'' [] [] None | Some r \<Rightarrow> r)"

text \<open>
  The record a reply becomes, and whether it wakes its recipients at once. The stored record
  has the wake policy \<open>none\<close>.
\<close>

definition directed_reply ::
  "room_round \<Rightarrow> slot \<Rightarrow> any \<Rightarrow> string \<Rightarrow> int \<Rightarrow> (directed_message \<times> bool) option" where
  "directed_reply r s message new_id now =
     (let route = slot_reply_route s;
          recipients = normalize_recipients (rr_recipients route);
          content = trim_space (extract_result_text message)
      in if trim_space (sl_reply_message s) = [] \<or> rr_mode route \<noteq> ''private'' \<or> recipients = [] \<or> content = []
         then None
         else Some
           (\<lparr>dm_id = new_id, dm_room = rr_room r, dm_conversation = rr_conversation r,
             dm_source = trim_space (sl_agent s), dm_recipients = recipients, dm_content = content,
             dm_wake = ''none'', dm_route = route_after_handback route, dm_delay = 0,
             dm_correlation = [], dm_time = now\<rparr>,
            rr_wake route = ''immediate''))"

section \<open>Whom a message wakes\<close>

definition wake_text :: string where
  "wake_text = ''A Room directed message was delivered to you. Read the content projected in <room_directed_messages> and answer according to reply_route.''"

definition wake_content :: "directed_message \<Rightarrow> string option" where
  "wake_content m = (if dm_wake m \<in> set [''immediate'', ''delayed''] then Some wake_text else None)"

definition wake_targets :: "directed_message \<Rightarrow> string list" where
  "wake_targets m = uniq (filter (\<lambda>a. a \<noteq> []) (map trim_space (dm_recipients m)))"

text \<open>\<open>runRoomDirectedMessageWake\<close> up to the start of the round: the parent round and the wakes.\<close>

definition directed_wakes ::
  "room_context \<Rightarrow> string \<Rightarrow> directed_message \<Rightarrow> (room_round \<times> mention_wake list) option" where
  "directed_wakes ctx owner m =
     (case wake_content m of
        None \<Rightarrow> None
      | Some content \<Rightarrow>
          if wake_targets m = [] then None
          else Some
            (\<lparr>rr_session = build_room_key (dm_conversation m), rr_room = dm_room m,
              rr_conversation = dm_conversation m, rr_round = dm_id m, rr_root = dm_id m, rr_hop = 0,
              rr_owner = owner, rr_slots = [], rr_wakes = []\<rparr>,
             map (\<lambda>target. \<lparr>mw_trigger = ''room_directed_message'', mw_source = ''agent_room_directed_message'',
                  mw_source_agent = trim_space (dm_source m), mw_target = target, mw_content = content,
                  mw_message = trim_space (dm_id m), mw_route = dm_route m\<rparr>) (wake_targets m)))"

datatype wake_plan = NoWake | WakeAfter int | WakeNow

definition plan_wake :: "directed_message \<Rightarrow> wake_plan" where
  "plan_wake m =
     (if dm_wake m = ''none'' then NoWake
      else if dm_wake m = ''delayed'' then (if dm_delay m \<le> 0 then NoWake else WakeAfter (dm_delay m))
      else WakeNow)"

section \<open>Reply routes\<close>

fun route_depth :: "reply_route \<Rightarrow> nat" where
  "route_depth (ReplyRoute mode recipients wake nxt) =
     Suc (case nxt of None \<Rightarrow> 0 | Some r \<Rightarrow> route_depth r)"

fun route_ok :: "string list \<Rightarrow> reply_route \<Rightarrow> bool" where
  "route_ok members (ReplyRoute mode recipients wake nxt) \<longleftrightarrow>
     mode \<in> set [''public'', ''none'', ''private''] \<and> list_all (\<lambda>a. a \<in> set members) recipients \<and>
     (mode = ''private'' \<longleftrightarrow> recipients \<noteq> []) \<and> distinct recipients \<and>
     (nxt \<noteq> None \<longrightarrow> mode = ''private'' \<and> wake = ''immediate'') \<and>
     (case nxt of None \<Rightarrow> True | Some r \<Rightarrow> route_ok members r)"

lemma normalize_route_depth_spec:
  "normalize_route_depth members depth r = Inr r' \<Longrightarrow>
   route_ok members r' \<and> depth + route_depth r' \<le> Suc max_route_depth"
proof (induction members depth r arbitrary: r' rule: normalize_route_depth.induct)
  case (1 members depth mode recipients wake nxt)
  then show ?case
    by (auto simp: validate_recipients_def normalize_recipients_def split: if_splits option.splits sum.splits)
qed

lemma route_after_handback_depth:
  "route_depth (route_after_handback r) = (if rr_next r = None then 1 else route_depth r - 1)"
  by (cases r) (auto simp: route_after_handback_def split: option.splits)

lemma handbacks_end: "route_depth r \<le> n \<Longrightarrow> rr_mode ((route_after_handback ^^ n) r) = ''none''"
proof (induction n arbitrary: r)
  case (Suc n)
  show ?case
  proof (cases "rr_next r")
    case None
    have "(route_after_handback ^^ n) (ReplyRoute ''none'' [] [] None) = ReplyRoute ''none'' [] [] None" for n
      by (induction n) (simp_all add: route_after_handback_def)
    then show ?thesis unfolding funpow_Suc_right comp_apply using None by (simp add: route_after_handback_def)
  next
    case (Some r')
    then have "route_depth r' \<le> n" using Suc.prems by (cases r) auto
    moreover have "route_after_handback r = r'" using Some by (simp add: route_after_handback_def)
    ultimately show ?thesis unfolding funpow_Suc_right comp_apply by (simp add: Suc.IH)
  qed
next
  case 0
  then show ?case by (cases r) simp
qed

lemma route_ok_handback: "route_ok members r \<Longrightarrow> route_ok members (route_after_handback r)"
  by (cases r) (auto simp: route_after_handback_def split: option.splits)

interpretation handback: stable "\<lambda>r (_ :: unit). route_after_handback r" "route_ok members"
  by unfold_locales (rule route_ok_handback)

lemma handback_run: "run (\<lambda>r (_ :: unit). route_after_handback r) r (replicate n ()) = (route_after_handback ^^ n) r"
  by (induction n arbitrary: r) (simp_all add: funpow_swap1)

lemma route_ok_recipients: "route_ok members r \<Longrightarrow> set (rr_recipients r) \<subseteq> set members"
  by (cases r) (auto simp: list_all_iff)

lemma build_directed_recordE:
  assumes "build_directed_record ctx rq new_id now = Inr m"
  obtains "trim_space (dq_content rq) \<noteq> []" "dm_content m = trim_space (dq_content rq)"
    and "dm_source m \<in> set (list_agent_ids (rc_members ctx))"
    and "dm_recipients m = normalize_recipients (dq_recipients rq)" "dm_recipients m \<noteq> []"
    and "validate_recipients (dm_recipients m) (list_agent_ids (rc_members ctx)) = None"
    and "validate_wake_policy (dm_wake m) = None" "validate_delay (dm_wake m) (dm_delay m) = None"
    and "normalize_room_route (dq_route rq) (list_agent_ids (rc_members ctx)) = Inr (dm_route m)"
  using assms unfolding build_directed_record_def Let_def
  by (simp split: if_split_asm option.split_asm sum.split_asm) (hypsubst, simp)

lemma accepted_route:
  assumes "build_directed_record ctx rq new_id now = Inr m"
  shows "route_ok (list_agent_ids (rc_members ctx)) (dm_route m) \<and> route_depth (dm_route m) \<le> 5"
  using assms
proof (rule build_directed_recordE)
  assume "normalize_room_route (dq_route rq) (list_agent_ids (rc_members ctx)) = Inr (dm_route m)"
  from normalize_route_depth_spec[OF this[unfolded normalize_room_route_def]]
  show ?thesis by (simp add: max_route_depth_def)
qed

lemma wake_targets_normalized:
  assumes "dm_recipients m = normalize_recipients xs"
  shows "wake_targets m = dm_recipients m"
proof -
  have "map trim_space (dm_recipients m) = dm_recipients m"
    unfolding assms by (rule map_idI) (auto simp: normalize_recipients_def)
  moreover have "filter (\<lambda>v. v \<noteq> []) (dm_recipients m) = dm_recipients m"
    unfolding assms by (rule filter_True) (auto simp: normalize_recipients_def)
  moreover have "distinct (dm_recipients m)" unfolding assms by (simp add: normalize_recipients_def)
  ultimately show ?thesis by (simp add: wake_targets_def uniq_id)
qed

lemma delay_checked:
  "validate_delay wake delay = None \<longleftrightarrow>
   (if wake = ''delayed'' then 1 \<le> delay \<and> delay \<le> 86400 else delay = 0)"
  by (auto simp: validate_delay_def max_delay_def)

definition sample_context :: room_context where
  "sample_context =
     \<lparr>rc_room = ''r1'', rc_type = ''room'', rc_host = ''a'', rc_host_reply = True, rc_conversation = ''c1'',
      rc_members = [\<lparr>mr_type = ''agent'', mr_agent = ''a''\<rparr>, \<lparr>mr_type = ''agent'', mr_agent = ''b''\<rparr>,
                    \<lparr>mr_type = ''user'', mr_agent = []\<rparr>],
      rc_agents = [\<lparr>ma_id = ''a'', ma_name = ''Amy'', ma_display = [], ma_workspace = ''/wa''\<rparr>,
                   \<lparr>ma_id = ''b'', ma_name = ''Bob'', ma_display = [], ma_workspace = ''/wb''\<rparr>],
      rc_sessions = [\<lparr>se_id = ''sa'', se_agent = ''a'', se_sdk_session = []\<rparr>,
                     \<lparr>se_id = ''sb'', se_agent = ''b'', se_sdk_session = ''x''\<rparr>]\<rparr>"

definition sample_request :: directed_request where
  "sample_request =
     \<lparr>dq_source = ''a'', dq_recipients = ['' b'', ''b''], dq_content = ''psst'', dq_wake = ''immediate'',
      dq_route = ReplyRoute ''private'' [''a''] ''immediate'' (Some (ReplyRoute ''private'' [''b''] [] None)),
      dq_delay = 0, dq_correlation = []\<rparr>"

definition sample_message :: directed_message where
  "sample_message =
     \<lparr>dm_id = ''m1'', dm_room = ''r1'', dm_conversation = ''c1'', dm_source = ''a'', dm_recipients = [''b''],
      dm_content = ''psst'', dm_wake = ''immediate'',
      dm_route = ReplyRoute ''private'' [''a''] ''immediate'' (Some (ReplyRoute ''private'' [''b''] ''none'' None)),
      dm_delay = 0, dm_correlation = [], dm_time = 7\<rparr>"

lemma sample_accepted: "build_directed_record sample_context sample_request ''m1'' 7 = Inr sample_message"
  by code_simp

section \<open>Properties\<close>

text \<open>A directed message that is accepted comes from a member of the room and goes to members, each
  once and at least one; it has content; its wake policy is one of the three, with a delay of
  one second to one day exactly when it is delayed.\<close>

lemma accepted_message_checked:
  assumes "build_directed_record ctx rq new_id now = Inr m"
  shows "dm_source m \<in> set (list_agent_ids (rc_members ctx)) \<and>
    dm_recipients m \<noteq> [] \<and> distinct (dm_recipients m) \<and>
    set (dm_recipients m) \<subseteq> set (list_agent_ids (rc_members ctx)) \<and>
    dm_content m = trim_space (dq_content rq) \<and> dm_content m \<noteq> [] \<and>
    dm_wake m \<in> {''none'', ''immediate'', ''delayed''} \<and>
    (if dm_wake m = ''delayed'' then 1 \<le> dm_delay m \<and> dm_delay m \<le> 86400 else dm_delay m = 0) \<and>
    wake_targets m = dm_recipients m"
  using assms
proof (rule build_directed_recordE)
  assume "trim_space (dq_content rq) \<noteq> []" "dm_content m = trim_space (dq_content rq)"
    and "dm_source m \<in> set (list_agent_ids (rc_members ctx))"
    and r: "dm_recipients m = normalize_recipients (dq_recipients rq)" "dm_recipients m \<noteq> []"
    and v: "validate_recipients (dm_recipients m) (list_agent_ids (rc_members ctx)) = None"
    and w: "validate_wake_policy (dm_wake m) = None" "validate_delay (dm_wake m) (dm_delay m) = None"
  moreover have "distinct (dm_recipients m)" unfolding r(1) by (simp add: normalize_recipients_def)
  moreover have "set (dm_recipients m) \<subseteq> set (list_agent_ids (rc_members ctx))"
    using v by (auto simp: validate_recipients_def list_all_iff split: if_splits)
  moreover have "dm_wake m \<in> {''none'', ''immediate'', ''delayed''}"
    using w(1) by (auto simp: validate_wake_policy_def split: if_splits)
  ultimately show ?thesis using w(2) unfolding delay_checked wake_targets_normalized[OF r(1)] by metis
qed

lemma accepted_message_checked_witness:
  "wake_targets sample_message = [''b''] \<and> dm_delay sample_message = 0"
proof -
  have "dm_recipients sample_message = [''b'']" "dm_wake sample_message = ''immediate''" by code_simp+
  with accepted_message_checked[OF sample_accepted] show ?thesis by simp
qed

text \<open>Private replies of an accepted message stay among the members and come to an end: at every
  hand-back the route names members only, and after five hand-backs the reply goes nowhere,
  so a chain of immediate wakes cannot go on for ever.\<close>

lemma reply_chain_ends:
  assumes "build_directed_record ctx rq new_id now = Inr m"
  shows "set (rr_recipients ((route_after_handback ^^ n) (dm_route m))) \<subseteq> set (list_agent_ids (rc_members ctx)) \<and>
    rr_mode ((route_after_handback ^^ 5) (dm_route m)) = ''none''"
proof -
  let ?members = "list_agent_ids (rc_members ctx)"
  have ok: "route_ok ?members (dm_route m)" "route_depth (dm_route m) \<le> 5"
    using accepted_route[OF assms] by auto
  have "route_ok ?members ((route_after_handback ^^ n) (dm_route m))"
    using handback.inv_run[OF ok(1)] by (simp only: handback_run[symmetric])
  then show ?thesis using route_ok_recipients handbacks_end[OF ok(2)] by blast
qed

lemma reply_chain_ends_witness:
  "set (rr_recipients ((route_after_handback ^^ 1) (dm_route sample_message))) \<subseteq> {''a'', ''b''} \<and>
   rr_mode ((route_after_handback ^^ 5) (dm_route sample_message)) = ''none''"
proof -
  have "list_agent_ids (rc_members sample_context) = [''a'', ''b'']" by code_simp
  with reply_chain_ends[OF sample_accepted, of 1] show ?thesis by simp
qed

end
