(* ===== verification/RoomWake.thy ===== *)
theory RoomWake
  imports DirectedMessages
begin

text \<open>
  Waking agents of a room, \<open>internal/service/room/public_mentions.go\<close>: the final public
  message of a slot wakes the agents it mentions. A wake of an idle agent becomes a slot of a
  new round, one of a busy agent an item of its queue. The theory also has the messages an agent
  publishes through a tool (\<open>public_message.go\<close>) and the start of directed wakes. The
  environment holds what the room asks of other services: agents, conversations and whether their
  history can be read, the text rendered for the runtime, the error of waiting for an interrupt,
  fresh identifiers and the clock. The state has the rounds, the queues and the messages written
  to the shared history of every conversation; broadcasts are left out.
\<close>

section \<open>State and environment\<close>

record room_env =
  env_agent :: agent_lookup
  env_context :: "string \<Rightarrow> string + room_context"
  env_history :: "string + any list"
  env_render :: "string \<Rightarrow> attachment list \<Rightarrow> string + string"
  env_guide_text :: "string \<Rightarrow> string \<Rightarrow> string"
  env_interrupt_error :: "string option"
  env_id :: "nat \<Rightarrow> string"
  env_item_id :: "nat \<Rightarrow> string"
  env_now :: int

record 'c room_state =
  service :: "'c room_service"
  queues :: files
  shared :: "string \<Rightarrow> any list"

section \<open>Collecting wakes\<close>

definition max_wake_hops :: int where "max_wake_hops = 16"

definition same_wake :: "mention_wake \<Rightarrow> mention_wake \<Rightarrow> bool" where
  "same_wake w v \<longleftrightarrow>
     mw_target v = mw_target w \<and> trim_space (mw_message v) = trim_space (mw_message w)
     \<and> trim_space (mw_content v) = trim_space (mw_content w)"

definition enqueue_wake :: "mention_wake \<Rightarrow> room_round \<Rightarrow> room_round" where
  "enqueue_wake w r =
     (if trim_space (mw_target w) = [] \<or> list_ex (same_wake w) (rr_wakes r) then r
      else r\<lparr>rr_wakes := rr_wakes r @ [w]\<rparr>)"

definition mention_of :: "string \<Rightarrow> string \<Rightarrow> string \<Rightarrow> string \<Rightarrow> mention_wake" where
  "mention_of source target content message =
     \<lparr>mw_trigger = [], mw_source = [], mw_source_agent = source, mw_target = target,
      mw_content = content, mw_message = message, mw_route = no_route\<rparr>"

definition collect_wakes :: "room_context \<Rightarrow> slot \<Rightarrow> any \<Rightarrow> room_round \<Rightarrow> room_round" where
  "collect_wakes ctx s message r =
     (let content = trim_space (extract_result_text message);
          targets = filter (\<lambda>t. t \<noteq> [] \<and> t \<noteq> sl_agent s \<and> is_member_agent (rc_members ctx) t)
            (map trim_space (resolve_mentions content (build_mention_aliases (rc_agents ctx) (rc_members ctx))))
      in if \<not> is_final_public_message message \<or> content = [] then r
         else foldl (\<lambda>r t. enqueue_wake
                (mention_of (sl_agent s) t content (string_from_any (field message ''message_id''))) r) r targets)"

definition take_wakes :: "room_round \<Rightarrow> mention_wake list \<times> room_round" where
  "take_wakes r = (rr_wakes r, r\<lparr>rr_wakes := []\<rparr>)"

section \<open>Queueing the wakes of busy agents\<close>

definition wake_queue_source :: "mention_wake \<Rightarrow> string" where
  "wake_queue_source w =
     (if mw_source w = ''agent_room_directed_message'' then ''agent_room_directed_message'' else ''agent_public_mention'')"

definition wake_item :: "queue_location \<Rightarrow> room_round \<Rightarrow> mention_wake \<Rightarrow> queue_item" where
  "wake_item loc r w =
     \<lparr>iq_id = [], iq_scope = ''room'', iq_session = loc_session loc, iq_room = rr_room r,
      iq_conversation = rr_conversation r, iq_agent = trim_space (mw_target w),
      iq_source_agent = trim_space (mw_source_agent w), iq_source_message = trim_space (mw_message w),
      iq_targets = [trim_space (mw_target w)], iq_source = wake_queue_source w,
      iq_content = trim_space (mw_content w), iq_attachments = [], iq_policy = ''queue'',
      iq_route = mw_route w, iq_owner = rr_owner r, iq_root_round = root_round_id r,
      iq_hop = rr_hop r, iq_order = 0, iq_created = 0, iq_updated = 0\<rparr>"

text \<open>
  The loop of \<open>queueBusyPublicMentionWakes\<close>. The result is the error or the wakes that are
  ready, whether an item was queued, and the queues; \<open>n\<close> counts the items for their
  identifiers.
\<close>

fun queue_wakes ::
  "room_env \<Rightarrow> (string \<times> queue_location) list \<Rightarrow> string list \<Rightarrow> room_round \<Rightarrow> nat \<Rightarrow> mention_wake list \<Rightarrow> files \<Rightarrow>
   (string + mention_wake list) \<times> bool \<times> files" where
  "queue_wakes env locs busy r n [] fs = (Inr [], False, fs)"
| "queue_wakes env locs busy r n (w # ws) fs =
     (let target = trim_space (mw_target w) in
      if target = [] then queue_wakes env locs busy r n ws fs
      else if target \<notin> set busy then
        (case queue_wakes env locs busy r n ws fs of
           (res, queued, fs') \<Rightarrow> (map_sum id (Cons w) res, queued, fs'))
      else case map_of locs target of
        None \<Rightarrow> queue_wakes env locs busy r n ws fs
      | Some loc \<Rightarrow>
          (case enqueue fs loc (wake_item loc r w) (env_now env) (env_item_id env n) of
             Inl e \<Rightarrow> (Inl e, True, fs)
           | Inr (_, fs') \<Rightarrow>
               (case queue_wakes env locs busy r (Suc n) ws fs' of (res, _, fs'') \<Rightarrow> (res, True, fs''))))"

definition queue_busy_wakes ::
  "room_env \<Rightarrow> room_context \<Rightarrow> string \<Rightarrow> room_round \<Rightarrow> mention_wake list \<Rightarrow> 'c room_state \<Rightarrow>
   (string + mention_wake list) \<times> 'c room_state" where
  "queue_busy_wakes env ctx key r ws st =
     (let busy = map fst (find_active_delivery_slots (service st) key (rr_conversation r)
            (map (\<lambda>w. trim_space (mw_target w)) ws))
      in if ws = [] \<or> busy = [] then (Inr ws, st)
         else case locations_by_agent (env_agent env) ctx of
           Inl e \<Rightarrow> (Inl e, st)
         | Inr locs \<Rightarrow>
             (case queue_wakes env locs busy r 0 ws (queues st) of
                (Inl e, _, fs) \<Rightarrow> (Inl e, st\<lparr>queues := fs\<rparr>)
              | (Inr ready, queued, fs) \<Rightarrow>
                  (if queued then
                     (case queue_entries (env_agent env) fs ctx (env_now env) of
                        Inl e \<Rightarrow> (Inl e, st\<lparr>queues := fs\<rparr>)
                      | Inr _ \<Rightarrow> (Inr ready, st\<lparr>queues := fs\<rparr>))
                   else (Inr ready, st\<lparr>queues := fs\<rparr>))))"

section \<open>Starting a round for the wakes\<close>

definition find_room_session :: "session_record list \<Rightarrow> string \<Rightarrow> session_record option" where
  "find_room_session records agent_id =
     (let a = trim_space agent_id in
      if a = [] then None else find (\<lambda>s. trim_space (se_agent s) = a) records)"

definition build_wake_slot ::
  "room_context \<Rightarrow> session_record \<Rightarrow> member_agent \<Rightarrow> mention_wake \<Rightarrow> string \<Rightarrow> string \<Rightarrow> int \<Rightarrow> int \<Rightarrow> slot" where
  "build_wake_slot ctx session agent w agent_round msg_id index now =
     \<lparr>sl_session = se_id session, sl_agent = trim_space (mw_target w), sl_agent_round = agent_round,
      sl_msg = msg_id,
      sl_runtime_key = build_room_agent_key (rc_conversation ctx) (mw_target w) (rc_type ctx),
      sl_workspace = ma_workspace agent, sl_status = ''pending'', sl_index = index, sl_time = now,
      sl_sdk_session = trim_space (se_sdk_session session),
      sl_trigger =
        \<lparr>tg_type = (if trim_space (mw_trigger w) = [] then ''public_mention'' else trim_space (mw_trigger w)),
         tg_content = trim_space (mw_content w), tg_message = trim_space (mw_message w),
         tg_source = trim_space (mw_source_agent w), tg_target = trim_space (mw_target w),
         tg_route = mw_route w\<rparr>,
      sl_attachments = [], sl_public_id = [], sl_public_time = 0, sl_directed_id = [], sl_directed_time = 0,
      sl_route = mw_route w, sl_reply_message = trim_space (mw_message w),
      sl_reply_agent = trim_space (mw_source_agent w), sl_reason = [], sl_queued = [], sl_guided = [],
      sl_suppress = False, sl_candidate = False, sl_pending = [], sl_done = False\<rparr>"

text \<open>The wakes that get a slot: the first for every target that has a session and an agent.\<close>

definition pending_wake ::
  "room_context \<Rightarrow> (string \<times> member_agent) list \<Rightarrow> mention_wake \<Rightarrow>
   (mention_wake \<times> session_record \<times> member_agent) option" where
  "pending_wake ctx directory w =
     (case find_room_session (rc_sessions ctx) (trim_space (mw_target w)) of
        None \<Rightarrow> None
      | Some session \<Rightarrow> map_option (\<lambda>a. (w, session, a)) (map_of directory (trim_space (mw_target w))))"

definition pending_wakes ::
  "room_context \<Rightarrow> (string \<times> member_agent) list \<Rightarrow> mention_wake list \<Rightarrow>
   (mention_wake \<times> session_record \<times> member_agent) list" where
  "pending_wakes ctx directory ws =
     List.map_filter (pending_wake ctx directory)
       (uniq_by (\<lambda>w. trim_space (mw_target w)) [] (filter (\<lambda>w. trim_space (mw_target w) \<noteq> []) ws))"

definition wake_round_id :: "room_env \<Rightarrow> mention_wake list \<Rightarrow> string" where
  "wake_round_id env ws =
     (case ws of
        w # _ \<Rightarrow> if wake_queue_source w = ''agent_room_directed_message'' then ''room_directed_message_'' @ env_id env 0
                 else ''room_mention_'' @ env_id env 0
      | [] \<Rightarrow> ''room_mention_'' @ env_id env 0)"

definition wake_slot_at ::
  "room_env \<Rightarrow> room_context \<Rightarrow> string \<Rightarrow> nat \<Rightarrow> nat \<times> mention_wake \<times> session_record \<times> member_agent \<Rightarrow> slot" where
  "wake_slot_at env ctx round_id n e =
     (case e of (i, w, session, agent) \<Rightarrow>
        build_wake_slot ctx session agent w
          (if 1 < n then round_id @ '':'' @ trim_space (mw_target w) else round_id)
          (env_id env (Suc i)) (int i) (env_now env))"

definition wake_slots ::
  "room_env \<Rightarrow> room_context \<Rightarrow> string \<Rightarrow> (mention_wake \<times> session_record \<times> member_agent) list \<Rightarrow>
   (string \<times> slot) list" where
  "wake_slots env ctx round_id chosen =
     foldl (\<lambda>slots e. AList.update (env_id env (Suc (fst e))) (wake_slot_at env ctx round_id (length chosen) e) slots)
       [] (enumerate 0 chosen)"

text \<open>
  \<open>startPublicMentionRound\<close>: the new round, if one is started, is registered here and in the
  runtime manager; \<open>cancel\<close> is the handle of its context. The parent is a round or a value
  made only to start one.
\<close>

definition start_mention_round ::
  "room_env \<Rightarrow> room_context \<Rightarrow> nat \<Rightarrow> room_round \<Rightarrow> mention_wake list \<Rightarrow> 'c room_state \<Rightarrow>
   (string + room_round option) \<times> 'c room_state" where
  "start_mention_round env ctx cancel parent ws st =
     (if ws = [] then (Inr None, st)
      else
        let key = build_room_key (rr_conversation parent) in
        case queue_busy_wakes env ctx key parent ws st of
          (Inl e, st) \<Rightarrow> (Inl e, st)
        | (Inr ws, st) \<Rightarrow>
            if ws = [] then (Inr None, st)
            else case build_agent_directory (env_agent env) ctx of
              Inl e \<Rightarrow> (Inl e, st)
            | Inr directory \<Rightarrow>
                (case env_history env of
                   Inl e \<Rightarrow> (Inl e, st)
                 | Inr _ \<Rightarrow>
                     let round_id = wake_round_id env ws;
                         pending = pending_wakes ctx directory ws
                     in if pending = [] then (Inr None, st)
                        else
                          let r = \<lparr>rr_session = key, rr_room = rc_room ctx, rr_conversation = rc_conversation ctx,
                                   rr_round = round_id,
                                   rr_root = (if root_round_id parent \<noteq> [] then root_round_id parent else round_id),
                                   rr_hop = rr_hop parent + 1, rr_owner = rr_owner parent,
                                   rr_slots = wake_slots env ctx round_id pending, rr_wakes = []\<rparr>;
                              svc = register_round (service st) r;
                              svc = svc\<lparr>runtime := start_round (runtime svc) key round_id (Some cancel)\<rparr>
                          in (Inr (Some r), st\<lparr>service := svc\<rparr>)))"

text \<open>A failed start is logged and the wakes are gone.\<close>

definition start_queued_wakes ::
  "room_env \<Rightarrow> room_context \<Rightarrow> nat \<Rightarrow> room_round \<Rightarrow> 'c room_state \<Rightarrow> bool \<times> 'c room_state" where
  "start_queued_wakes env ctx cancel r st =
     (let (ws, r) = take_wakes r in
      if ws = [] \<or> max_wake_hops \<le> rr_hop r then (False, st)
      else case start_mention_round env ctx cancel r ws st of
        (Inl _, st) \<Rightarrow> (False, st)
      | (Inr _, st) \<Rightarrow> (True, st))"

section \<open>Messages that agents publish themselves\<close>

definition public_message_wakes ::
  "room_context \<Rightarrow> string \<Rightarrow> string \<Rightarrow> string \<Rightarrow> mention_wake list" where
  "public_message_wakes ctx source message_id content =
     map (\<lambda>t. mention_of (trim_space source) t (trim_space content) (trim_space message_id))
       (filter (\<lambda>t. t \<noteq> [] \<and> t \<noteq> source \<and> is_member_agent (rc_members ctx) t)
         (map trim_space (resolve_mentions content (build_mention_aliases (rc_agents ctx) (rc_members ctx)))))"

definition start_public_message_wakes ::
  "room_env \<Rightarrow> room_context \<Rightarrow> nat \<Rightarrow> string \<Rightarrow> string \<Rightarrow> string \<Rightarrow> string \<Rightarrow> 'c room_state \<Rightarrow>
   (string + room_round option) \<times> 'c room_state" where
  "start_public_message_wakes env ctx cancel owner source message_id content st =
     (if resolve_mentions content (build_mention_aliases (rc_agents ctx) (rc_members ctx)) = [] then (Inr None, st)
      else start_mention_round env ctx cancel
        \<lparr>rr_session = build_room_key (rc_conversation ctx), rr_room = rc_room ctx,
         rr_conversation = rc_conversation ctx, rr_round = message_id, rr_root = message_id, rr_hop = 0,
         rr_owner = owner, rr_slots = [], rr_wakes = []\<rparr>
        (public_message_wakes ctx source message_id content) st)"

definition run_directed_wake ::
  "room_env \<Rightarrow> room_context \<Rightarrow> nat \<Rightarrow> string \<Rightarrow> directed_message \<Rightarrow> 'c room_state \<Rightarrow>
   (string + room_round option) \<times> 'c room_state" where
  "run_directed_wake env ctx cancel owner m st =
     (case directed_wakes ctx owner m of
        None \<Rightarrow> (Inr None, st)
      | Some (parent, ws) \<Rightarrow> start_mention_round env ctx cancel parent ws st)"

section \<open>Queue locations of a room\<close>

lemma room_agent_key_ne: "trim_space (build_room_agent_key conversation agent room_type) \<noteq> []"
  by (rule trim_space_ne[of "CHR ''a''"])
    (auto simp: build_room_agent_key_def build_agent_key_def Let_def space_runes_def)

lemma agent_location_path:
  "trim_space workspace_path \<noteq> [] \<Longrightarrow> \<exists>path. path_for_location (agent_location ctx agent workspace_path) = Inr path"
  by (simp add: path_for_location_def agent_location_def room_agent_key_ne Let_def)

lemma locations_valid:
  assumes "locations_by_agent get ctx = Inr locs" "(a, loc) \<in> set locs"
  shows "\<exists>path. path_for_location loc = Inr path"
  using assms agent_location_path
  by (auto simp: locations_by_agent_def Let_def split: sum.splits)

lemma queue_locations_subset:
  assumes "locations_by_agent get ctx = Inr by_agent" "queue_locations get ctx = Inr locs"
  shows "set locs \<subseteq> snd ` set by_agent"
proof -
  let ?f = "\<lambda>m. if mr_type m \<noteq> ''agent'' then None
    else map_option (Pair (trim_space (mr_agent m))) (map_of by_agent (trim_space (mr_agent m)))"
  have "locs = map snd (sort_key fst (List.map_filter ?f (rc_members ctx)))"
    using assms by (simp add: queue_locations_def)
  then have "set locs = snd ` set (List.map_filter ?f (rc_members ctx))"
    by (simp only: set_map set_sort)
  moreover have "set (List.map_filter ?f (rc_members ctx)) \<subseteq> set by_agent"
    by (auto simp: mem_map_filter dest: map_of_SomeD split: if_splits)
  ultimately show ?thesis by auto
qed

lemma entries_total:
  "\<forall>loc \<in> set locs. \<exists>path. path_for_location loc = Inr path \<Longrightarrow> \<exists>es. entries_at fs now locs = Inr es"
proof (induction locs)
  case (Cons loc locs)
  then show ?case by (auto simp: snapshot_eq)
qed simp

lemma queue_entries_total:
  assumes "locations_by_agent get ctx = Inr locs"
  shows "\<exists>es. queue_entries get fs ctx now = Inr es"
proof -
  obtain ls where ls: "queue_locations get ctx = Inr ls" using assms by (simp add: queue_locations_def)
  have "\<forall>loc \<in> set ls. \<exists>path. path_for_location loc = Inr path"
    using queue_locations_subset[OF assms ls] locations_valid[OF assms] by fastforce
  then obtain es where "entries_at fs now ls = Inr es" using entries_total by blast
  then show ?thesis using ls by (simp add: queue_entries_def)
qed

section \<open>What a start does\<close>

lemma queue_wakes_ready:
  "fst (queue_wakes env locs busy r n ws fs) = Inr ready \<Longrightarrow>
   ready = filter (\<lambda>w. trim_space (mw_target w) \<noteq> [] \<and> trim_space (mw_target w) \<notin> set busy) ws"
proof (induction env locs busy r n ws fs arbitrary: ready rule: queue_wakes.induct)
  case (2 env locs busy r n w ws fs)
  then show ?case
    by (auto simp: Let_def split: if_splits option.splits sum.splits prod.splits)
      (metis (no_types, lifting) fst_conv obj_sumE map_sum.simps(1,2) Inl_Inr_False Inr_inject)
qed simp

lemma queue_busy_wakes_ready:
  assumes "queue_busy_wakes env ctx key r ws st = (Inr ready, st')"
  shows "service st' = service st" "shared st' = shared st" "set ready \<subseteq> set ws"
    "w \<in> set ready \<Longrightarrow> trim_space (mw_target w) \<noteq> [] \<Longrightarrow>
     \<not> busy_agent (service st) key (rr_conversation r) (trim_space (mw_target w))"
proof -
  let ?busy = "map fst (find_active_delivery_slots (service st) key (rr_conversation r)
            (map (\<lambda>w. trim_space (mw_target w)) ws))"
  have idle: "\<not> busy_agent (service st) key (rr_conversation r) (trim_space (mw_target w))"
    if "w \<in> set ws" "trim_space (mw_target w) \<noteq> []" "trim_space (mw_target w) \<notin> set ?busy" for w
  proof -
    have "trim_space (mw_target w) \<in> trim_space ` set (map (\<lambda>w. trim_space (mw_target w)) ws)"
      using that(1) by (auto simp: image_image)
    then show ?thesis using that(2,3) unfolding set_map find_active_busy by blast
  qed
  show "service st' = service st" "shared st' = shared st"
    using assms by (auto simp: queue_busy_wakes_def Let_def split: if_splits sum.splits prod.splits)
  have "set ready \<subseteq> {w \<in> set ws. trim_space (mw_target w) \<noteq> [] \<longrightarrow> trim_space (mw_target w) \<notin> set ?busy}"
  proof (cases "ws = [] \<or> ?busy = []")
    case True
    then show ?thesis using assms by (auto simp: queue_busy_wakes_def Let_def)
  next
    case False
    then obtain locs where locs: "locations_by_agent (env_agent env) ctx = Inr locs"
      using assms by (cases "locations_by_agent (env_agent env) ctx") (auto simp: queue_busy_wakes_def Let_def)
    obtain res queued fs where q: "queue_wakes env locs ?busy r 0 ws (queues st) = (res, queued, fs)"
      by (cases "queue_wakes env locs ?busy r 0 ws (queues st)") auto
    have "res = Inr ready"
      using assms False locs q
      by (cases res) (auto simp: queue_busy_wakes_def Let_def split: if_splits sum.splits)
    then show ?thesis using queue_wakes_ready[of env locs ?busy r 0 ws "queues st" ready] q by auto
  qed
  then show "set ready \<subseteq> set ws" "w \<in> set ready \<Longrightarrow> trim_space (mw_target w) \<noteq> [] \<Longrightarrow>
     \<not> busy_agent (service st) key (rr_conversation r) (trim_space (mw_target w))"
    using idle by auto
qed

lemma distinct_uniq_by: "distinct (map f (uniq_by f seen xs)) \<and> set (map f (uniq_by f seen xs)) \<inter> set seen = {}"
  by (induction f seen xs rule: uniq_by.induct) auto

lemma set_uniq_by: "set (uniq_by f seen xs) \<subseteq> set xs"
  by (induction f seen xs rule: uniq_by.induct) auto

lemma map_filter_fst_distinct:
  assumes "distinct (map f xs)" "\<And>x y. g x = Some y \<Longrightarrow> f' y = f x"
  shows "distinct (map f' (List.map_filter g xs))"
  using assms(1)
proof (induction xs)
  case (Cons x xs)
  then have "f' y \<noteq> f x" if "y \<in> set (List.map_filter g xs)" for y
  proof -
    obtain z where "z \<in> set xs" "g z = Some y" using \<open>y \<in> _\<close> by (auto simp: mem_map_filter)
    moreover have "f z \<noteq> f x" using \<open>z \<in> set xs\<close> Cons.prems by (auto simp: image_iff)
    ultimately show ?thesis using assms(2) by metis
  qed
  note other = this
  show ?case
  proof (cases "g x")
    case None
    with Cons show ?thesis by (simp add: List.map_filter_simps)
  next
    case (Some y)
    have "f' y = f x" using assms(2)[OF Some] .
    with other have "f' y \<notin> f' ` set (List.map_filter g xs)" by (metis imageE)
    with Cons Some show ?thesis by (simp add: List.map_filter_simps)
  qed
qed (simp add: List.map_filter_simps)

lemma pending_wakes_targets:
  "distinct (map (\<lambda>(w, _). trim_space (mw_target w)) (pending_wakes ctx directory ws))"
  "(w, session, a) \<in> set (pending_wakes ctx directory ws) \<Longrightarrow> w \<in> set ws \<and> trim_space (mw_target w) \<noteq> []"
proof -
  have g: "pending_wake ctx directory w = Some y \<Longrightarrow>
      (case y of (w, _) \<Rightarrow> trim_space (mw_target w)) = trim_space (mw_target w)" for w y
    by (auto simp: pending_wake_def split: option.splits)
  show "distinct (map (\<lambda>(w, _). trim_space (mw_target w)) (pending_wakes ctx directory ws))"
    unfolding pending_wakes_def by (rule map_filter_fst_distinct[OF _ g]) (simp_all add: distinct_uniq_by)
  assume "(w, session, a) \<in> set (pending_wakes ctx directory ws)"
  then show "w \<in> set ws \<and> trim_space (mw_target w) \<noteq> []"
    using set_uniq_by by (fastforce simp: pending_wakes_def pending_wake_def mem_map_filter split: option.splits)
qed

lemma wake_slots_mem:
  assumes "s \<in> snd ` set (wake_slots env ctx round_id chosen)"
  shows "\<exists>w session a i agent_round msg_id. (w, session, a) \<in> set chosen \<and>
    s = build_wake_slot ctx session a w agent_round msg_id i (env_now env)"
proof -
  obtain m where "(m, s) \<in> set (wake_slots env ctx round_id chosen)" using assms by auto
  then obtain e where e: "e \<in> set (enumerate 0 chosen)" "s = wake_slot_at env ctx round_id (length chosen) e"
    using foldl_update_mem[of "(m, s)" "\<lambda>e. env_id env (Suc (fst e))"] unfolding wake_slots_def by blast
  obtain i w session a where "e = (i, w, session, a)" by (cases e) auto
  with e have "(w, session, a) \<in> set chosen" "s = build_wake_slot ctx session a w
      (if 1 < length chosen then round_id @ '':'' @ trim_space (mw_target w) else round_id) (env_id env (Suc i)) (int i) (env_now env)"
    by (auto simp: in_set_enumerate_eq wake_slot_at_def dest: nth_mem)
  then show ?thesis by blast
qed

lemma wake_slots_agents:
  assumes "distinct (map (\<lambda>(w, _). trim_space (mw_target w)) chosen)"
  shows "distinct (map (\<lambda>e. sl_agent (snd e)) (wake_slots env ctx round_id chosen))"
proof -
  have "map (\<lambda>e. sl_agent (wake_slot_at env ctx round_id (length chosen) e)) (enumerate k chosen) =
      map (\<lambda>(w, _). trim_space (mw_target w)) chosen" for k
    by (rule nth_equalityI) (auto simp: wake_slot_at_def build_wake_slot_def nth_enumerate_eq split: prod.splits)
  then show ?thesis
    unfolding wake_slots_def using assms by (intro distinct_foldl_update_values) simp
qed

lemma start_mention_roundE:
  assumes "start_mention_round env ctx cancel parent ws st = (Inr (Some r), st')"
  obtains ready st1 directory where
    "queue_busy_wakes env ctx (build_room_key (rr_conversation parent)) parent ws st = (Inr ready, st1)"
    "pending_wakes ctx directory ready \<noteq> []"
    "r = \<lparr>rr_session = build_room_key (rr_conversation parent), rr_room = rc_room ctx,
          rr_conversation = rc_conversation ctx, rr_round = wake_round_id env ready,
          rr_root = (if root_round_id parent \<noteq> [] then root_round_id parent else wake_round_id env ready),
          rr_hop = rr_hop parent + 1, rr_owner = rr_owner parent,
          rr_slots = wake_slots env ctx (wake_round_id env ready) (pending_wakes ctx directory ready), rr_wakes = []\<rparr>"
    "st' = st1\<lparr>service := (register_round (service st1) r)
              \<lparr>runtime := start_round (runtime (service st1)) (rr_session r) (rr_round r) (Some cancel)\<rparr>\<rparr>"
  using assms
  by (auto simp: start_mention_round_def Let_def register_round_def split: if_splits sum.splits prod.splits)

section \<open>Sample\<close>

definition sample_env :: room_env where
  "sample_env =
     \<lparr>env_agent = (\<lambda>i. Inl ''agent not found''), env_context = (\<lambda>c. Inr sample_context),
      env_history = Inr [], env_render = (\<lambda>t as. Inr t), env_guide_text = (\<lambda>a t. t),
      env_interrupt_error = None, env_id = (\<lambda>n. ''id'' @ decimal n), env_item_id = (\<lambda>n. ''q'' @ decimal n),
      env_now = 9\<rparr>"

definition sample_state :: "nat room_state" where
  "sample_state = \<lparr>service = \<lparr>active_rounds = [], runtime = new_manager\<rparr>, queues = Map.empty, shared = (\<lambda>_. [])\<rparr>"

definition sample_parent :: room_round where
  "sample_parent =
     \<lparr>rr_session = ''room:group:c1'', rr_room = ''r1'', rr_conversation = ''c1'', rr_round = ''r'', rr_root = [],
      rr_hop = 3, rr_owner = ''u'', rr_slots = [], rr_wakes = []\<rparr>"

definition sample_wake :: mention_wake where
  "sample_wake = mention_of ''a'' ''b'' ''please'' ''m1''"

definition busy_state :: "nat room_state" where
  "busy_state = sample_state
     \<lparr>service := register_round (service sample_state)
        (sample_parent\<lparr>rr_slots := [(''m'', (sample_slot ''b'' ''running'' 5))]\<rparr>)\<rparr>"

section \<open>Properties\<close>

text \<open>C25. A wake never runs an agent twice: every slot of a round that is started for wakes is of an
  agent that had no active slot in the conversation and that one of the wakes names, no agent
  gets two slots, all are pending, and the reply goes where the wake said. The round is one
  hop further than its parent, is registered, and runs in the runtime manager.\<close>
theorem wake_starts_idle_agents:
  assumes "start_mention_round env ctx cancel parent ws st = (Inr (Some r), st')"
  shows "rr_hop r = rr_hop parent + 1 \<and> rr_slots r \<noteq> [] \<and> distinct (map sl_agent (slots_of r)) \<and>
    (\<forall>s \<in> set (slots_of r). sl_status s = ''pending'' \<and>
       \<not> busy_agent (service st) (build_room_key (rr_conversation parent)) (rr_conversation parent) (sl_agent s) \<and>
       (\<exists>w \<in> set ws. sl_agent s = trim_space (mw_target w) \<and> sl_route s = mw_route w)) \<and>
    map_of (active_rounds (service st')) (active_round_key (rr_session r) (rr_round r)) = Some r \<and>
    rr_round r \<in> set (running_round_ids (runtime (service st')) (rr_session r))"
  using assms
proof (rule start_mention_roundE)
  fix ready st1 directory
  let ?key = "build_room_key (rr_conversation parent)"
  assume busy: "queue_busy_wakes env ctx ?key parent ws st = (Inr ready, st1)"
    and pending: "pending_wakes ctx directory ready \<noteq> []"
    and r: "r = \<lparr>rr_session = ?key, rr_room = rc_room ctx, rr_conversation = rc_conversation ctx,
        rr_round = wake_round_id env ready,
        rr_root = (if root_round_id parent \<noteq> [] then root_round_id parent else wake_round_id env ready),
        rr_hop = rr_hop parent + 1, rr_owner = rr_owner parent,
        rr_slots = wake_slots env ctx (wake_round_id env ready) (pending_wakes ctx directory ready), rr_wakes = []\<rparr>"
    and st': "st' = st1\<lparr>service := (register_round (service st1) r)
        \<lparr>runtime := start_round (runtime (service st1)) (rr_session r) (rr_round r) (Some cancel)\<rparr>\<rparr>"
  have slot: "sl_status s = ''pending'' \<and> \<not> busy_agent (service st) ?key (rr_conversation parent) (sl_agent s) \<and>
      (\<exists>w \<in> set ws. sl_agent s = trim_space (mw_target w) \<and> sl_route s = mw_route w)"
    if "s \<in> set (slots_of r)" for s
  proof -
    have "s \<in> snd ` set (wake_slots env ctx (wake_round_id env ready) (pending_wakes ctx directory ready))"
      using that unfolding r by simp
    then obtain w session a i agent_round msg_id where w: "(w, session, a) \<in> set (pending_wakes ctx directory ready)"
      "s = build_wake_slot ctx session a w agent_round msg_id i (env_now env)"
      using wake_slots_mem by blast
    from pending_wakes_targets(2)[OF w(1)] queue_busy_wakes_ready(3,4)[OF busy] show ?thesis
      unfolding w(2) by (auto simp: build_wake_slot_def)
  qed
  have "distinct (map sl_agent (slots_of r))"
    using wake_slots_agents[OF pending_wakes_targets(1)] by (simp add: r comp_def)
  moreover have "rr_slots r \<noteq> []"
    using pending unfolding r wake_slots_def by (auto intro!: foldl_update_ne dest: arg_cong[of _ _ length])
  moreover have "rr_session r \<noteq> []" "rr_round r \<noteq> []"
    by (simp_all add: r build_room_key_def wake_round_id_def split: list.split)
  ultimately show ?thesis
    using slot by (simp add: r[THEN arg_cong, of rr_hop] st' register_round_def running_start_round)
qed

theorem wake_starts_idle_agents_witness:
  "case start_mention_round sample_env sample_context 7 sample_parent [sample_wake] sample_state of
     (res, st') \<Rightarrow> (case res of Inr (Some r) \<Rightarrow> rr_hop r = 4 \<and> rr_slots r \<noteq> [] | _ \<Rightarrow> False)"
proof -
  have "case fst (start_mention_round sample_env sample_context 7 sample_parent [sample_wake] sample_state) of
      Inr (Some r) \<Rightarrow> True | _ \<Rightarrow> False"
    by code_simp
  then obtain r st' where e:
    "start_mention_round sample_env sample_context 7 sample_parent [sample_wake] sample_state = (Inr (Some r), st')"
    by (cases "start_mention_round sample_env sample_context 7 sample_parent [sample_wake] sample_state")
      (auto split: sum.splits option.splits)
  have "rr_hop sample_parent = 3" by (simp add: sample_parent_def)
  with wake_starts_idle_agents[OF e] show ?thesis by (simp add: e)
qed

text \<open>A wake of a busy agent is not lost: it goes to the end of the agent's queue, with the content,
  the route and the hops of the round it came from, and no round is started; the queue can be
  read back.\<close>

lemma busy_wake_is_queued:
  assumes "busy_agent (service st) (build_room_key (rr_conversation parent)) (rr_conversation parent) (trim_space (mw_target w))"
    "locations_by_agent (env_agent env) ctx = Inr locs" "map_of locs (trim_space (mw_target w)) = Some loc"
    "snapshot (queues st) loc (env_now env) = Inr q" "0 < env_now env"
    "trimmed (env_item_id env 0)" "env_item_id env 0 \<noteq> []" "env_item_id env 0 \<notin> iq_id ` set q"
    "trim_space (mw_target w) \<noteq> []" "trim_space (mw_content w) \<noteq> []" "wf_route (normalize_reply_route (mw_route w))"
  shows "\<exists>fs item. start_mention_round env ctx cancel parent [w] st = (Inr None, st\<lparr>queues := fs\<rparr>) \<and>
    snapshot fs loc (env_now env) = Inr (q @ [item]) \<and> iq_content item = trim_space (mw_content w) \<and>
    iq_agent item = trim_space (mw_target w) \<and> iq_policy item = ''queue'' \<and>
    iq_route item = normalize_reply_route (mw_route w) \<and> iq_hop item = max 0 (rr_hop parent)"
proof -
  let ?target = "trim_space (mw_target w)" and ?key = "build_room_key (rr_conversation parent)"
  let ?item = "prepare_item loc (wake_item loc parent w) (env_now env) (env_item_id env 0)"
  have busy: "?target \<in> set (map fst (find_active_delivery_slots (service st) ?key (rr_conversation parent) [?target]))"
    unfolding set_map find_active_busy using assms(1,9) by simp
  have "has_chat_input (iq_content (wake_item loc parent w)) (iq_attachments (wake_item loc parent w))"
    using assms(10) by (simp add: wake_item_def has_chat_input_def)
  with enqueue_spec[OF assms(4-7), of "wake_item loc parent w"] assms(11) obtain fs where fs:
    "enqueue (queues st) loc (wake_item loc parent w) (env_now env) (env_item_id env 0) = Inr (q_put ?item q, fs)"
    "snapshot fs loc (env_now env) = Inr (q_put ?item q)"
    by (auto simp: wake_item_def)
  have id: "iq_id ?item = env_item_id env 0" using assms(6) by (simp add: prepare_item_id wake_item_def)
  have put: "q_put ?item q = q @ [?item]" using assms(8) by (simp add: q_put_def id)
  obtain es where es: "queue_entries (env_agent env) fs ctx (env_now env) = Inr es"
    using queue_entries_total[OF assms(2)] by blast
  have queued: "queue_busy_wakes env ctx ?key parent [w] st = (Inr [], st\<lparr>queues := fs\<rparr>)"
    using busy assms(2,3,9) fs(1) es by (auto simp: queue_busy_wakes_def Let_def)
  have "start_mention_round env ctx cancel parent [w] st = (Inr None, st\<lparr>queues := fs\<rparr>)"
    by (simp add: start_mention_round_def Let_def queued)
  moreover have "iq_content ?item = trim_space (mw_content w)" "iq_agent ?item = ?target"
    "iq_policy ?item = ''queue''" "iq_route ?item = normalize_reply_route (mw_route w)"
    "iq_hop ?item = max 0 (rr_hop parent)"
    by (simp_all add: prepare_item_def normalize_item_def wake_item_def Let_def)
      code_simp
  ultimately show ?thesis using fs(2) put by metis
qed

lemma busy_wake_is_queued_witness:
  "\<exists>fs item. start_mention_round sample_env sample_context 7 sample_parent [sample_wake] busy_state =
       (Inr None, busy_state\<lparr>queues := fs\<rparr>) \<and>
     snapshot fs (agent_location sample_context ''b'' ''/wb'') 9 = Inr [item] \<and> iq_content item = ''please''"
proof -
  have busy: "busy_agent (service busy_state) (build_room_key (rr_conversation sample_parent))
      (rr_conversation sample_parent) (trim_space (mw_target sample_wake))"
    by code_simp
  have locs: "locations_by_agent (env_agent sample_env) sample_context =
      Inr [(''a'', agent_location sample_context ''a'' ''/wa''), (''b'', agent_location sample_context ''b'' ''/wb'')]"
    by code_simp
  have here: "map_of [(''a'', agent_location sample_context ''a'' ''/wa''), (''b'', agent_location sample_context ''b'' ''/wb'')]
      (trim_space (mw_target sample_wake)) = Some (agent_location sample_context ''b'' ''/wb'')"
    by code_simp
  have now: "env_now sample_env = 9" by (simp add: sample_env_def)
  have id: "trimmed (env_item_id sample_env 0)" "env_item_id sample_env 0 \<noteq> []"
    "trim_space (mw_target sample_wake) \<noteq> []" "trim_space (mw_content sample_wake) = ''please''"
    "wf_route (normalize_reply_route (mw_route sample_wake))"
    by code_simp+
  have empty: "snapshot (queues busy_state) (agent_location sample_context ''b'' ''/wb'') (env_now sample_env) = Inr []"
    by code_simp
  from busy_wake_is_queued[OF busy locs here empty, of 7] show ?thesis by (simp add: id now) blast
qed

end
