(* ===== verification/RoomChat.thy ===== *)
theory RoomChat
  imports RoomWake
begin

text \<open>
  A user's message to a room, \<open>HandleChat\<close> of \<open>internal/service/room/chat.go\<close> with
  \<open>active_slot_delivery.go\<close> and \<open>interrupt.go\<close>: the targets of the message, its
  delivery to agents that are already running (queue, guide or interrupt), and the round that
  is started for the others.
\<close>

section \<open>Requests and their targets\<close>

record chat_request =
  cq_session :: string
  cq_room :: string
  cq_conversation :: string
  cq_attach_agent :: string
  cq_content :: string
  cq_attachments :: "attachment list"
  cq_targets :: "string list"
  cq_round :: string
  cq_req :: string
  cq_policy :: string

definition validate_chat :: "chat_request \<Rightarrow> string + (string \<times> string)" where
  "validate_chat rq =
     (case require_structured_key (cq_session rq) of
        Inl e \<Rightarrow> Inl e
      | Inr key \<Rightarrow>
          let conversation = (if trim_space (cq_conversation rq) \<noteq> [] then trim_space (cq_conversation rq)
                              else parse_room_conversation key)
          in if \<not> is_room_shared_key key then Inl ''session_key must be room shared key''
             else if trim_space (cq_round rq) = [] then Inl ''round_id is required''
             else if \<not> has_chat_input (cq_content rq) (cq_attachments rq) then Inl ''content is required''
             else if conversation = [] then Inl ''conversation_id is required''
             else Inr (key, conversation))"

definition normalize_room_attachments ::
  "attachment list \<Rightarrow> string \<Rightarrow> string \<Rightarrow> string \<Rightarrow> attachment list" where
  "normalize_room_attachments attachments agent room conversation =
     map (\<lambda>a. if at_scope a \<noteq> ''room_conversation'' then a
              else a\<lparr>at_room := (if trim_space (at_room a) = [] then trim_space room else at_room a),
                     at_conversation :=
                       (if trim_space (at_conversation a) = [] then trim_space conversation else at_conversation a),
                     at_workspace_agent := []\<rparr>)
       (normalize_attachments attachments (trim_space agent))"

definition reverse_names :: "(string \<times> member_agent) list \<Rightarrow> (string \<times> string) list" where
  "reverse_names directory =
     foldl (\<lambda>names (i, a).
         let n = trim_space (ma_name a) in
         if n = [] then names else AList.update (to_lower n) i (AList.update n i names)) [] directory"

definition explicit_targets :: "string list \<Rightarrow> string list" where
  "explicit_targets values = uniq (filter (\<lambda>a. a \<noteq> []) (map trim_space values))"

definition resolve_targets ::
  "chat_request \<Rightarrow> room_context \<Rightarrow> (string \<times> member_agent) list \<Rightarrow> string + (string list \<times> string)" where
  "resolve_targets rq ctx directory =
     (if cq_targets rq \<noteq> [] then
        let targets = explicit_targets (cq_targets rq) in
        if targets = [] then Inl ''target_agent_ids must not be empty''
        else case find (\<lambda>a. \<not> is_member_agent (rc_members ctx) a) targets of
          Some a \<Rightarrow> Inl (''target_agent_id is not a room member: '' @ a)
        | None \<Rightarrow> Inr (targets, ''explicit_target'')
      else
        let targets = resolve_mentions (cq_content rq) (reverse_names directory)
        in Inr (targets, if targets = [] then ''none'' else ''mention''))"

definition host_target :: "room_context \<Rightarrow> string list \<Rightarrow> string option" where
  "host_target ctx agents =
     (let host = trim_space (rc_host ctx) in
      if \<not> rc_host_reply ctx \<or> host = [] \<or> host \<notin> set agents then None else Some host)"

text \<open>A message that addresses nobody goes to the only member, or to the host of the room.\<close>

definition default_targets ::
  "room_context \<Rightarrow> (string \<times> member_agent) list \<Rightarrow> string list \<times> string \<Rightarrow> string list \<times> string" where
  "default_targets ctx directory resolved =
     (if fst resolved \<noteq> [] then resolved
      else if length directory = 1 then (map fst directory, ''single_member_default'')
      else case host_target ctx (map fst directory) of
        Some host \<Rightarrow> ([host], ''room_host_default'')
      | None \<Rightarrow> resolved)"

section \<open>Messages of the shared history\<close>

definition user_message :: "chat_request \<Rightarrow> string \<Rightarrow> string \<Rightarrow> string \<Rightarrow> string \<Rightarrow> attachment list \<Rightarrow> int \<Rightarrow> any" where
  "user_message rq key room conversation policy attachments now =
     AMap ([(''message_id'', AStr (cq_round rq)), (''session_key'', AStr key), (''room_id'', AStr room),
            (''conversation_id'', AStr conversation), (''agent_id'', AStr []), (''round_id'', AStr (cq_round rq)),
            (''role'', AStr ''user''), (''content'', AStr (trim_space (cq_content rq))), (''timestamp'', AInt now),
            (''delivery_policy'', AStr policy)]
           @ (if attachments = [] then [] else [(''attachments'', AList (map encode_attachment attachments))]))"

definition hint_text :: string where
  "hint_text =
     [CHR 0xE8, CHR 0xAF, CHR 0xB7, CHR 0xE4, CHR 0xBD, CHR 0xBF, CHR 0xE7, CHR 0x94, CHR 0xA8, CHR
      0x20, CHR 0x40, CHR 0x41, CHR 0x67, CHR 0x65, CHR 0x6E, CHR 0x74, CHR 0x4E, CHR 0x61, CHR 0x6D,
      CHR 0x65, CHR 0x20, CHR 0xE6, CHR 0x8C, CHR 0x87, CHR 0xE5, CHR 0xAE, CHR 0x9A, CHR 0xE8, CHR
      0xA6, CHR 0x81, CHR 0xE5, CHR 0xAF, CHR 0xB9, CHR 0xE8, CHR 0xAF, CHR 0x9D, CHR 0xE7, CHR 0x9A,
      CHR 0x84, CHR 0xE6, CHR 0x88, CHR 0x90, CHR 0xE5, CHR 0x91, CHR 0x98]"

definition hint_message :: "chat_request \<Rightarrow> string \<Rightarrow> string \<Rightarrow> string \<Rightarrow> int \<Rightarrow> any" where
  "hint_message rq key room conversation now =
     AMap [(''message_id'', AStr (''result_'' @ cq_round rq)), (''session_key'', AStr key), (''room_id'', AStr room),
           (''conversation_id'', AStr conversation), (''agent_id'', AStr []), (''round_id'', AStr (cq_round rq)),
           (''role'', AStr ''result''), (''subtype'', AStr ''success''), (''duration_ms'', AInt 0),
           (''duration_api_ms'', AInt 0), (''num_turns'', AInt 0), (''result'', AStr hint_text),
           (''is_error'', ABool False), (''timestamp'', AInt now)]"

definition persist_shared :: "string \<Rightarrow> any \<Rightarrow> 'c room_state \<Rightarrow> 'c room_state" where
  "persist_shared conversation message st =
     st\<lparr>shared := (shared st)(conversation := shared st conversation @ [message])\<rparr>"

section \<open>Delivery to running agents\<close>

definition update_slot :: "string \<Rightarrow> string \<Rightarrow> (slot \<Rightarrow> slot) \<Rightarrow> 'c room_service \<Rightarrow> 'c room_service" where
  "update_slot key msg_id f svc =
     svc\<lparr>active_rounds :=
       map (\<lambda>(k, r). (k, if rr_session r = key
                         then r\<lparr>rr_slots := map (\<lambda>(m, s). (m, if m = msg_id then f s else s)) (rr_slots r)\<rparr>
                         else r)) (active_rounds svc)\<rparr>"

definition chat_item ::
  "chat_request \<Rightarrow> string \<Rightarrow> string \<Rightarrow> string \<Rightarrow> attachment list \<Rightarrow> string \<Rightarrow> slot \<Rightarrow> queue_item" where
  "chat_item rq room conversation owner attachments agent s =
     \<lparr>iq_id = [], iq_scope = ''room'', iq_session = sl_runtime_key s, iq_room = room,
      iq_conversation = conversation, iq_agent = agent, iq_source_agent = [],
      iq_source_message = trim_space (cq_round rq), iq_targets = [agent], iq_source = ''user'',
      iq_content = trim_space (cq_content rq), iq_attachments = normalize_attachments attachments agent,
      iq_policy = ''queue'', iq_route = no_route, iq_owner = trim_space owner,
      iq_root_round = trim_space (cq_round rq), iq_hop = 0, iq_order = 0, iq_created = 0, iq_updated = 0\<rparr>"

definition slot_location :: "slot \<Rightarrow> string \<Rightarrow> string \<Rightarrow> queue_location" where
  "slot_location s room conversation =
     \<lparr>loc_scope = ''room'', loc_workspace = sl_workspace s, loc_session = sl_runtime_key s,
      loc_room = room, loc_conversation = conversation\<rparr>"

fun enqueue_for_slots ::
  "room_env \<Rightarrow> chat_request \<Rightarrow> string \<Rightarrow> string \<Rightarrow> string \<Rightarrow> attachment list \<Rightarrow> nat \<Rightarrow> (string \<times> slot) list \<Rightarrow> files \<Rightarrow>
   (string + string list) \<times> files" where
  "enqueue_for_slots env rq room conversation owner attachments n [] fs = (Inr [], fs)"
| "enqueue_for_slots env rq room conversation owner attachments n ((agent, s) # rest) fs =
     (case enqueue fs (slot_location s room conversation) (chat_item rq room conversation owner attachments agent s)
             (env_now env) (env_item_id env n) of
        Inl e \<Rightarrow> (Inl e, fs)
      | Inr (_, fs') \<Rightarrow>
          (case enqueue_for_slots env rq room conversation owner attachments (Suc n) rest fs' of
             (res, fs'') \<Rightarrow> (map_sum id (Cons agent) res, fs'')))"

fun guide_slots ::
  "room_env \<Rightarrow> string \<Rightarrow> string \<Rightarrow> string \<Rightarrow> (string \<times> slot) list \<Rightarrow> 'c room_service \<Rightarrow>
   (string + string list) \<times> 'c room_service" where
  "guide_slots env key text round_id [] svc = (Inr [], svc)"
| "guide_slots env key text round_id ((agent, s) # rest) svc =
     (case env_agent env agent of
        Inl e \<Rightarrow> (Inl e, svc)
      | Inr _ \<Rightarrow>
          (case guide_slots env key text round_id rest
                  (update_slot key (sl_msg s) (enqueue_guided_input round_id (env_guide_text env agent text)) svc) of
             (res, svc') \<Rightarrow> (map_sum id (Cons agent) res, svc')))"

text \<open>
  \<open>interruptTargets\<close> marks the slots that it finds and waits for each; what the slots do in
  the meantime are steps of their own, and the error of the wait is part of the environment.
\<close>

definition interrupt_target :: "string \<Rightarrow> string \<times> string \<Rightarrow> 'c room_service \<Rightarrow> 'c room_service" where
  "interrupt_target message target svc =
     (case target of (key, msg) \<Rightarrow>
        if trim_space msg \<noteq> [] then
          (case find_active_slot svc key msg of
             None \<Rightarrow> svc
           | Some _ \<Rightarrow> update_slot key (trim_space msg) (mark_interrupted message) svc)
        else foldl (\<lambda>svc r. foldl (\<lambda>svc m. update_slot key m (mark_interrupted message) svc) svc
                      (map fst (rr_slots r))) svc (active_rounds_for_session svc key))"

definition waits_for :: "'c room_service \<Rightarrow> string \<times> string \<Rightarrow> bool" where
  "waits_for svc target \<longleftrightarrow>
     (if trim_space (snd target) \<noteq> [] then find_active_slot svc (fst target) (snd target) \<noteq> None
      else active_rounds_for_session svc (fst target) \<noteq> [])"

definition interrupt_targets ::
  "room_env \<Rightarrow> string \<Rightarrow> (string \<times> string) list \<Rightarrow> 'c room_service \<Rightarrow> string option \<times> 'c room_service" where
  "interrupt_targets env message targets svc =
     (if list_ex (waits_for svc) targets then env_interrupt_error env else None,
      foldl (\<lambda>svc t. interrupt_target message t svc) svc targets)"

definition interrupt_agent_slots ::
  "room_env \<Rightarrow> string \<Rightarrow> string list \<Rightarrow> string \<Rightarrow> 'c room_service \<Rightarrow> string option \<times> 'c room_service" where
  "interrupt_agent_slots env key agent_ids message svc =
     (let agents = filter (\<lambda>a. a \<noteq> []) (map trim_space agent_ids) in
      if agents = [] then (None, svc)
      else interrupt_targets env message
        (collect_slot_targets (\<lambda>r s. rr_session r = key \<and> trim_space (sl_agent s) \<in> set agents) svc) svc)"

definition new_message_reason :: string where
  "new_message_reason =
     [CHR 0xE6, CHR 0x94, CHR 0xB6, CHR 0xE5, CHR 0x88, CHR 0xB0, CHR 0xE6, CHR 0x96, CHR 0xB0, CHR
      0xE7, CHR 0x9A, CHR 0x84, CHR 0xE7, CHR 0x94, CHR 0xA8, CHR 0xE6, CHR 0x88, CHR 0xB7, CHR 0xE6,
      CHR 0xB6, CHR 0x88, CHR 0xE6, CHR 0x81, CHR 0xAF, CHR 0xEF, CHR 0xBC, CHR 0x8C, CHR 0xE4, CHR
      0xB8, CHR 0x8A, CHR 0xE4, CHR 0xB8, CHR 0x80, CHR 0xE8, CHR 0xBD, CHR 0xAE, CHR 0xE5, CHR 0xB7,
      CHR 0xB2, CHR 0xE5, CHR 0x81, CHR 0x9C, CHR 0xE6, CHR 0xAD, CHR 0xA2]"

section \<open>The round of a message\<close>

definition chat_slot ::
  "room_env \<Rightarrow> chat_request \<Rightarrow> room_context \<Rightarrow> string \<Rightarrow> string \<Rightarrow> attachment list \<Rightarrow> nat \<Rightarrow> string \<Rightarrow> nat \<Rightarrow>
   session_record \<Rightarrow> member_agent \<Rightarrow> slot" where
  "chat_slot env rq ctx conversation resolution attachments targets agent i session a =
     \<lparr>sl_session = se_id session, sl_agent = agent,
      sl_agent_round = (if 1 < targets then cq_round rq @ '':'' @ agent else cq_round rq),
      sl_msg = env_id env i, sl_runtime_key = build_room_agent_key conversation agent (rc_type ctx),
      sl_workspace = ma_workspace a, sl_status = ''pending'', sl_index = int i, sl_time = env_now env,
      sl_sdk_session = trim_space (se_sdk_session session),
      sl_trigger = \<lparr>tg_type = (if resolution = ''room_host_default'' then ''room_host_default'' else ''public_chat''),
        tg_content = trim_space (cq_content rq), tg_message = cq_round rq, tg_source = [], tg_target = agent,
        tg_route = no_route\<rparr>,
      sl_attachments = attachments, sl_public_id = [], sl_public_time = 0, sl_directed_id = [],
      sl_directed_time = 0, sl_route = no_route, sl_reply_message = [], sl_reply_agent = [],
      sl_reason = [], sl_queued = [], sl_guided = [], sl_suppress = False, sl_candidate = False,
      sl_pending = [], sl_done = False\<rparr>"

definition chat_slots ::
  "room_env \<Rightarrow> chat_request \<Rightarrow> room_context \<Rightarrow> (string \<times> member_agent) list \<Rightarrow> string \<Rightarrow> string \<Rightarrow>
   attachment list \<Rightarrow> string list \<Rightarrow> (string \<times> slot) list" where
  "chat_slots env rq ctx directory conversation resolution attachments targets =
     foldl (\<lambda>slots (i, agent).
         case map_of (rev (map (\<lambda>s. (se_agent s, s)) (rc_sessions ctx))) agent of
           None \<Rightarrow> slots
         | Some session \<Rightarrow>
             (case map_of directory agent of
                None \<Rightarrow> slots
              | Some a \<Rightarrow>
                  AList.update (env_id env i)
                    (chat_slot env rq ctx conversation resolution attachments (length targets) agent i session a)
                    slots))
       [] (enumerate 0 targets)"

definition start_chat_round ::
  "room_env \<Rightarrow> chat_request \<Rightarrow> room_context \<Rightarrow> (string \<times> member_agent) list \<Rightarrow> nat \<Rightarrow> string \<Rightarrow> string \<Rightarrow> string \<Rightarrow>
   string \<Rightarrow> string \<Rightarrow> attachment list \<Rightarrow> string list \<Rightarrow> 'c room_state \<Rightarrow> room_round option \<times> 'c room_state" where
  "start_chat_round env rq ctx directory cancel owner key room conversation resolution attachments targets st =
     (let slots = chat_slots env rq ctx directory conversation resolution attachments targets;
          r = \<lparr>rr_session = key, rr_room = room, rr_conversation = conversation, rr_round = cq_round rq,
               rr_root = cq_round rq, rr_hop = 0, rr_owner = owner, rr_slots = slots, rr_wakes = []\<rparr>;
          svc = register_round (service st) r
      in if slots = [] then (None, st)
         else (Some r, st\<lparr>service := svc\<lparr>runtime := start_round (runtime svc) key (cq_round rq) (Some cancel)\<rparr>\<rparr>))"

text \<open>
  Delivery by policy: with \<open>queue\<close> or \<open>auto\<close> the targets that run get the message in
  their queue, with \<open>guide\<close> as guidance; the result is the targets left to start.
\<close>

definition deliver_running ::
  "room_env \<Rightarrow> chat_request \<Rightarrow> room_context \<Rightarrow> string \<Rightarrow> string \<Rightarrow> string \<Rightarrow> string \<Rightarrow> string \<Rightarrow> string \<Rightarrow>
   attachment list \<Rightarrow> string list \<Rightarrow> 'c room_state \<Rightarrow> (string + string list) \<times> 'c room_state" where
  "deliver_running env rq ctx policy owner key room conversation text attachments targets st =
     (let running = find_active_delivery_slots (service st) key conversation targets in
      if should_queue_running_round policy then
        (case enqueue_for_slots env rq room conversation owner attachments 0 running (queues st) of
           (Inl e, fs) \<Rightarrow> (Inl e, st\<lparr>queues := fs\<rparr>)
         | (Inr handled, fs) \<Rightarrow>
             (if handled \<noteq> [] then
                (case queue_entries (env_agent env) fs ctx (env_now env) of
                   Inl e \<Rightarrow> (Inl e, st\<lparr>queues := fs\<rparr>)
                 | Inr _ \<Rightarrow> (Inr (filter_handled targets handled), st\<lparr>queues := fs\<rparr>))
              else (Inr targets, st\<lparr>queues := fs\<rparr>)))
      else if should_guide_running_round policy then
        (case guide_slots env key text (cq_round rq) running (service st) of
           (Inl e, svc) \<Rightarrow> (Inl e, st\<lparr>service := svc\<rparr>)
         | (Inr handled, svc) \<Rightarrow> (Inr (filter_handled targets handled), st\<lparr>service := svc\<rparr>))
      else if policy = ''interrupt'' then
        (case interrupt_agent_slots env key targets new_message_reason (service st) of
           (Some e, svc) \<Rightarrow> (Inl e, st\<lparr>service := svc\<rparr>)
         | (None, svc) \<Rightarrow> (Inr targets, st\<lparr>service := svc\<rparr>))
      else (Inr targets, st))"

text \<open>Up to here nothing has been written: what \<open>HandleChat\<close> has found out about a request.\<close>

record chat_plan =
  cp_key :: string
  cp_conversation :: string
  cp_context :: room_context
  cp_room :: string
  cp_attachments :: "attachment list"
  cp_text :: string
  cp_directory :: "(string \<times> member_agent) list"
  cp_policy :: string
  cp_targets :: "string list"
  cp_resolution :: string

definition prepare_chat :: "room_env \<Rightarrow> chat_request \<Rightarrow> string + chat_plan" where
  "prepare_chat env rq =
     (case validate_chat rq of
        Inl e \<Rightarrow> Inl e
      | Inr (key, conversation) \<Rightarrow>
     (case env_context env (trim_space conversation) of
        Inl e \<Rightarrow> Inl e
      | Inr ctx \<Rightarrow>
          let room = (if trim_space (cq_room rq) \<noteq> [] then trim_space (cq_room rq) else rc_room ctx);
              attachments = normalize_room_attachments (cq_attachments rq) (cq_attach_agent rq) room conversation
          in
     (case env_render env (cq_content rq) attachments of
        Inl e \<Rightarrow> Inl e
      | Inr content \<Rightarrow>
     (case build_agent_directory (env_agent env) ctx of
        Inl e \<Rightarrow> Inl e
      | Inr directory \<Rightarrow>
     (case resolve_targets rq ctx directory of
        Inl e \<Rightarrow> Inl e
      | Inr resolved \<Rightarrow>
     (case env_history env of
        Inl e \<Rightarrow> Inl e
      | Inr _ \<Rightarrow>
          Inr \<lparr>cp_key = key, cp_conversation = conversation, cp_context = ctx, cp_room = room,
               cp_attachments = attachments, cp_text = content, cp_directory = directory,
               cp_policy = normalize_delivery_policy (cq_policy rq),
               cp_targets = fst (default_targets ctx directory resolved),
               cp_resolution = snd (default_targets ctx directory resolved)\<rparr>))))))"

definition run_chat ::
  "room_env \<Rightarrow> nat \<Rightarrow> string \<Rightarrow> chat_request \<Rightarrow> chat_plan \<Rightarrow> 'c room_state \<Rightarrow>
   (string + room_round option) \<times> 'c room_state" where
  "run_chat env cancel owner rq p st =
     (let st = persist_shared (cp_conversation p)
            (user_message rq (cp_key p) (cp_room p) (cp_conversation p) (cp_policy p) (cp_attachments p) (env_now env)) st
      in if cp_targets p = [] then
           (Inr None, persist_shared (cp_conversation p)
              (hint_message rq (cp_key p) (cp_room p) (cp_conversation p) (env_now env)) st)
         else case deliver_running env rq (cp_context p) (cp_policy p) owner (cp_key p) (cp_room p)
                  (cp_conversation p) (cp_text p) (cp_attachments p) (cp_targets p) st of
           (Inl e, st) \<Rightarrow> (Inl e, st)
         | (Inr targets, st) \<Rightarrow>
             if targets = [] then (Inr None, st)
             else
               let (r, st) = start_chat_round env rq (cp_context p) (cp_directory p) cancel owner (cp_key p)
                     (cp_room p) (cp_conversation p) (cp_resolution p) (cp_attachments p) targets st
               in (Inr r, st))"

definition handle_chat ::
  "room_env \<Rightarrow> nat \<Rightarrow> string \<Rightarrow> chat_request \<Rightarrow> 'c room_state \<Rightarrow> (string + room_round option) \<times> 'c room_state" where
  "handle_chat env cancel owner rq st =
     (case prepare_chat env rq of
        Inl e \<Rightarrow> (Inl e, st)
      | Inr p \<Rightarrow> run_chat env cancel owner rq p st)"

text \<open>\<open>HandleInterrupt\<close>: a slot by its message, or every round of the session.\<close>

definition handle_interrupt ::
  "room_env \<Rightarrow> string \<Rightarrow> string \<Rightarrow> 'c room_service \<Rightarrow> string option \<times> 'c room_service" where
  "handle_interrupt env raw_key msg svc =
     (case require_structured_key raw_key of
        Inl e \<Rightarrow> (Some e, svc)
      | Inr key \<Rightarrow>
          if trim_space msg \<noteq> [] \<and> find_active_slot svc key (trim_space msg) = None
          then (Some ''target room slot not found'', svc)
          else interrupt_targets env [] [(key, trim_space msg)] svc)"

end
