(* ===== verification/RoomQueue.thy ===== *)
theory RoomQueue
  imports RoomChat
begin

text \<open>
  The queue of a room conversation, \<open>internal/service/room/input_queue.go\<close>: the requests of
  the front end (enqueue, delete, reorder, guide), the choice of the next item, its dispatch
  and what happens when the dispatch fails. The background call of the next dispatch is a step
  of its own.
\<close>

section \<open>Choosing the next item\<close>

definition can_dispatch :: "'c room_service \<Rightarrow> string \<Rightarrow> string \<Rightarrow> queue_item \<Rightarrow> bool" where
  "can_dispatch svc key conversation item \<longleftrightarrow>
     \<not> should_guide_running_round (iq_policy item) \<and>
     (if target_agents item \<noteq> [] then find_active_delivery_slots svc key conversation (target_agents item) = []
      else running_round_ids (runtime svc) key = [])"

definition find_dispatchable ::
  "'c room_service \<Rightarrow> string \<Rightarrow> string \<Rightarrow> queue_entry list \<Rightarrow> queue_entry option" where
  "find_dispatchable svc key conversation es =
     find (\<lambda>e. \<not> should_guide_running_round (iq_policy (fst e)) \<and> can_dispatch svc key conversation (fst e)) es"

definition can_dispatch_more :: "room_env \<Rightarrow> string \<Rightarrow> string \<Rightarrow> 'c room_state \<Rightarrow> bool" where
  "can_dispatch_more env key conversation st \<longleftrightarrow>
     (case env_context env (trim_space conversation) of
        Inl _ \<Rightarrow> False
      | Inr ctx \<Rightarrow>
          (case queue_entries (env_agent env) (queues st) ctx (env_now env) of
             Inl _ \<Rightarrow> False
           | Inr es \<Rightarrow> find_dispatchable (service st) key conversation es \<noteq> None))"

definition guidance_target_slot :: "'c room_service \<Rightarrow> string \<Rightarrow> string \<Rightarrow> queue_entry \<Rightarrow> slot option" where
  "guidance_target_slot svc key conversation entry =
     (let running = find_active_delivery_slots svc key conversation (target_agents (fst entry)) in
      case map_of running (location_agent (snd entry)) of
        Some s \<Rightarrow> Some s
      | None \<Rightarrow> (case running of [] \<Rightarrow> None | (_, s) # _ \<Rightarrow> Some s))"

section \<open>Dispatching an item\<close>

definition wake_trigger_type :: "queue_item \<Rightarrow> string" where
  "wake_trigger_type item =
     (if iq_source item = ''agent_room_directed_message'' then ''room_directed_message'' else ''public_mention'')"

definition queue_round :: "string \<Rightarrow> room_context \<Rightarrow> string \<Rightarrow> string \<Rightarrow> string \<Rightarrow> string \<Rightarrow> queue_item \<Rightarrow> room_round" where
  "queue_round key ctx room conversation round_id root_id item =
     \<lparr>rr_session = key, rr_room = (if trim_space room \<noteq> [] then trim_space room else rc_room ctx),
      rr_conversation = conversation, rr_round = round_id, rr_root = root_id, rr_hop = iq_hop item,
      rr_owner = trim_space (iq_owner item), rr_slots = [], rr_wakes = []\<rparr>"

definition dispatch_public_trigger ::
  "room_env \<Rightarrow> nat \<Rightarrow> string \<Rightarrow> string \<Rightarrow> string \<Rightarrow> queue_item \<Rightarrow> 'c room_state \<Rightarrow>
   (string + room_round option) \<times> 'c room_state" where
  "dispatch_public_trigger env cancel key room conversation item st =
     (let targets = target_agents item;
          content = trim_space (iq_content item);
          source = trim_space (iq_source_message item);
          root = (if trim_space (iq_root_round item) \<noteq> [] then trim_space (iq_root_round item) else source)
      in if targets = [] then (Inl ''target_agent_ids is required'', st)
         else if content = [] then (Inl ''content is required'', st)
         else case env_context env (trim_space conversation) of
           Inl e \<Rightarrow> (Inl e, st)
         | Inr ctx \<Rightarrow>
             start_mention_round env ctx cancel (queue_round key ctx room conversation source root item)
               (map (\<lambda>t. mention_of (trim_space (iq_source_agent item)) t content source) targets) st)"

definition queue_id :: "queue_item \<Rightarrow> string" where
  "queue_id item = ''queue_'' @ iq_id item"

definition agent_wake :: "queue_item \<Rightarrow> string \<Rightarrow> string \<Rightarrow> string \<Rightarrow> mention_wake" where
  "agent_wake item content message target =
     \<lparr>mw_trigger = wake_trigger_type item, mw_source = normalize_queue_source (iq_source item),
      mw_source_agent = trim_space (iq_source_agent item), mw_target = target, mw_content = content,
      mw_message = message, mw_route = iq_route item\<rparr>"

definition dispatch_agent_wake ::
  "room_env \<Rightarrow> nat \<Rightarrow> string \<Rightarrow> string \<Rightarrow> string \<Rightarrow> queue_item \<Rightarrow> string \<Rightarrow> 'c room_state \<Rightarrow>
   (string + room_round option) \<times> 'c room_state" where
  "dispatch_agent_wake env cancel key room conversation item policy st =
     (let targets = target_agents item;
          content = trim_space (iq_content item);
          message = (if trim_space (iq_source_message item) \<noteq> [] then trim_space (iq_source_message item)
                     else queue_id item);
          start = (\<lambda>st. case env_context env (trim_space conversation) of
             Inl e \<Rightarrow> (Inl e, st)
           | Inr ctx \<Rightarrow>
               start_mention_round env ctx cancel
                 (queue_round key ctx room conversation message (trim_space (iq_root_round item)) item)
                 (map (agent_wake item content message) targets) st)
      in if targets = [] then (Inl ''target_agent_ids is required'', st)
         else if content = [] then (Inl ''content is required'', st)
         else if should_guide_running_round policy then
           (case env_render env content (iq_attachments item) of
              Inl e \<Rightarrow> (Inl e, st)
            | Inr text \<Rightarrow>
                (case guide_slots env key text (queue_id item)
                        (find_active_delivery_slots (service st) key conversation targets) (service st) of
                   (Inl e, svc) \<Rightarrow> (Inl e, st\<lparr>service := svc\<rparr>)
                 | (Inr guided, svc) \<Rightarrow>
                     if guided \<noteq> [] then (Inr None, st\<lparr>service := svc\<rparr>) else start (st\<lparr>service := svc\<rparr>)))
         else start st)"

definition queue_chat_request :: "string \<Rightarrow> string \<Rightarrow> string \<Rightarrow> queue_item \<Rightarrow> chat_request" where
  "queue_chat_request key room conversation item =
     \<lparr>cq_session = key, cq_room = room, cq_conversation = conversation, cq_attach_agent = [],
      cq_content = iq_content item, cq_attachments = iq_attachments item, cq_targets = [],
      cq_round = queue_id item, cq_req = queue_id item,
      cq_policy = normalize_delivery_policy (iq_policy item)\<rparr>"

definition run_queue_item ::
  "room_env \<Rightarrow> nat \<Rightarrow> string \<Rightarrow> string \<Rightarrow> string \<Rightarrow> queue_item \<Rightarrow> 'c room_state \<Rightarrow>
   (string + room_round option) \<times> 'c room_state" where
  "run_queue_item env cancel key room conversation item st =
     (if iq_source item \<in> set [''agent_public_mention'', ''agent_room_directed_message''] then
        dispatch_agent_wake env cancel key room conversation item (normalize_delivery_policy (iq_policy item)) st
      else if trim_space (iq_source_message item) \<noteq> [] \<and> target_agents item \<noteq> [] then
        dispatch_public_trigger env cancel key room conversation item st
      else handle_chat env cancel (trim_space (iq_owner item)) (queue_chat_request key room conversation item) st)"

text \<open>
  \<open>dispatchNextInputQueueItem\<close>: the result is the item that was taken out of its queue and
  whether it was run; an item that could not be run is put back. Errors before that are logged.
\<close>

definition dispatch_next_entry ::
  "room_env \<Rightarrow> nat \<Rightarrow> string \<Rightarrow> string \<Rightarrow> string \<Rightarrow> 'c room_state \<Rightarrow>
   (queue_entry \<times> bool) option \<times> 'c room_state" where
  "dispatch_next_entry env cancel key room conversation st =
     (if trim_space key = [] then (None, st)
      else case env_context env (trim_space conversation) of
        Inl _ \<Rightarrow> (None, st)
      | Inr ctx \<Rightarrow>
     (case queue_entries (env_agent env) (queues st) ctx (env_now env) of
        Inl _ \<Rightarrow> (None, st)
      | Inr es \<Rightarrow>
     (case find_dispatchable (service st) key conversation es of
        None \<Rightarrow> (None, st)
      | Some (item, loc) \<Rightarrow>
     (case dispatch_item (queues st) loc (iq_id item) (env_now env) of
        Inl _ \<Rightarrow> (None, st)
      | Inr (_, fs) \<Rightarrow>
     (case run_queue_item env cancel key room conversation item (st\<lparr>queues := fs\<rparr>) of
        (Inr _, st) \<Rightarrow> (Some ((item, loc), True), st)
      | (Inl _, st) \<Rightarrow>
          (case enqueue (queues st) loc item (env_now env) (env_item_id env 0) of
             Inl _ \<Rightarrow> (Some ((item, loc), False), st)
           | Inr (_, fs) \<Rightarrow> (Some ((item, loc), False), st\<lparr>queues := fs\<rparr>)))))))"

section \<open>Requests of the front end\<close>

record queue_request =
  qr_session :: string
  qr_room :: string
  qr_conversation :: string
  qr_action :: string
  qr_item :: string
  qr_content :: string
  qr_attachments :: "attachment list"
  qr_ordered :: "string list"
  qr_policy :: string

definition resolve_queue_context :: "room_env \<Rightarrow> queue_request \<Rightarrow> string + (string \<times> room_context)" where
  "resolve_queue_context env rq =
     (case require_structured_key (qr_session rq) of
        Inl e \<Rightarrow> Inl e
      | Inr key \<Rightarrow>
          let conversation = (if trim_space (qr_conversation rq) \<noteq> [] then trim_space (qr_conversation rq)
                              else parse_room_conversation key)
          in if \<not> is_room_shared_key key then Inl ''session_key must be room shared key''
             else if conversation = [] then Inl ''conversation_id is required''
             else map_sum id (Pair key) (env_context env (trim_space conversation)))"

text \<open>The queue an item goes to is that of its first target; the item names all targets.\<close>

definition resolve_primary_location ::
  "room_env \<Rightarrow> room_context \<Rightarrow> string \<Rightarrow> string + (queue_location \<times> string list)" where
  "resolve_primary_location env ctx content =
     (case locations_by_agent (env_agent env) ctx of
        Inl e \<Rightarrow> Inl e
      | Inr locs \<Rightarrow>
          let mentioned = resolve_mentions content (build_mention_aliases (rc_agents ctx) (rc_members ctx));
              targets = (if mentioned = [] \<and> length locs = 1 then map fst locs else mentioned);
              targets = (if targets = [] then
                           (case host_target ctx (filter (\<lambda>a. a \<noteq> []) (map (\<lambda>l. trim_space (fst l)) locs)) of
                              Some host \<Rightarrow> [host] | None \<Rightarrow> [])
                         else targets);
              clean = filter (\<lambda>a. a \<noteq> [] \<and> map_of locs a \<noteq> None) (map trim_space targets)
          in if targets = [] then Inl ''room input_queue content must mention target agent''
             else case clean of
               [] \<Rightarrow> Inl ''room input_queue target agent not found''
             | a # _ \<Rightarrow> Inr (the (map_of locs a), clean))"

definition request_item ::
  "queue_request \<Rightarrow> room_context \<Rightarrow> string \<Rightarrow> queue_location \<Rightarrow> string list \<Rightarrow> attachment list \<Rightarrow> queue_item" where
  "request_item rq ctx owner loc targets attachments =
     \<lparr>iq_id = [], iq_scope = ''room'', iq_session = loc_session loc, iq_room = rc_room ctx,
      iq_conversation = rc_conversation ctx, iq_agent = location_agent loc, iq_source_agent = [],
      iq_source_message = [], iq_targets = targets, iq_source = ''user'',
      iq_content = trim_space (qr_content rq), iq_attachments = attachments,
      iq_policy = normalize_delivery_policy (qr_policy rq), iq_route = no_route, iq_owner = owner,
      iq_root_round = [], iq_hop = 0, iq_order = 0, iq_created = 0, iq_updated = 0\<rparr>"

text \<open>After a change the snapshot of the whole conversation is sent; only its error matters here.\<close>

definition after_snapshot ::
  "room_env \<Rightarrow> room_context \<Rightarrow> 'c room_state \<Rightarrow> string option \<times> 'c room_state" where
  "after_snapshot env ctx st =
     ((case queue_entries (env_agent env) (queues st) ctx (env_now env) of Inl e \<Rightarrow> Some e | Inr _ \<Rightarrow> None), st)"

definition queue_enqueue ::
  "room_env \<Rightarrow> string \<Rightarrow> queue_request \<Rightarrow> room_context \<Rightarrow> 'c room_state \<Rightarrow> string option \<times> 'c room_state" where
  "queue_enqueue env owner rq ctx st =
     (let content = trim_space (qr_content rq);
          attachments = normalize_room_attachments (qr_attachments rq) [] (rc_room ctx) (rc_conversation ctx)
      in if \<not> has_chat_input content attachments then (Some ''content is required'', st)
         else case resolve_primary_location env ctx content of
           Inl e \<Rightarrow> (Some e, st)
         | Inr (loc, targets) \<Rightarrow>
             (case enqueue (queues st) loc (request_item rq ctx owner loc targets attachments)
                     (env_now env) (env_item_id env 0) of
                Inl e \<Rightarrow> (Some e, st)
              | Inr (_, fs) \<Rightarrow> after_snapshot env ctx (st\<lparr>queues := fs\<rparr>)))"

definition queue_delete ::
  "room_env \<Rightarrow> string \<Rightarrow> room_context \<Rightarrow> 'c room_state \<Rightarrow> string option \<times> 'c room_state" where
  "queue_delete env item_id ctx st =
     (case find_entry (env_agent env) (queues st) ctx (env_now env) item_id of
        Inl e \<Rightarrow> (Some e, st)
      | Inr None \<Rightarrow> after_snapshot env ctx st
      | Inr (Some (_, loc)) \<Rightarrow>
          (case delete_item (queues st) loc item_id (env_now env) of
             Inl e \<Rightarrow> (Some e, st)
           | Inr (_, fs) \<Rightarrow> after_snapshot env ctx (st\<lparr>queues := fs\<rparr>)))"

text \<open>Every queue that has one of the items is reordered, each with a time of its own.\<close>

definition reorder_locations :: "queue_entry list \<Rightarrow> string list \<Rightarrow> queue_location list" where
  "reorder_locations es ordered =
     map snd (foldl (\<lambda>locs e.
         if iq_id (fst e) \<in> set (map trim_space ordered)
         then AList.update (location_key (snd e)) (snd e) locs else locs) [] es)"

fun reorder_all ::
  "string list \<Rightarrow> (nat \<Rightarrow> int) \<Rightarrow> nat \<Rightarrow> queue_location list \<Rightarrow> files \<Rightarrow> string option \<times> files" where
  "reorder_all ordered clock n [] fs = (None, fs)"
| "reorder_all ordered clock n (loc # locs) fs =
     (case reorder_queue fs loc ordered (clock n) of
        Inl e \<Rightarrow> (Some e, fs)
      | Inr (_, fs') \<Rightarrow> reorder_all ordered clock (Suc n) locs fs')"

definition queue_reorder ::
  "room_env \<Rightarrow> (nat \<Rightarrow> int) \<Rightarrow> string list \<Rightarrow> room_context \<Rightarrow> 'c room_state \<Rightarrow> string option \<times> 'c room_state" where
  "queue_reorder env clock ordered ctx st =
     (case queue_entries (env_agent env) (queues st) ctx (env_now env) of
        Inl e \<Rightarrow> (Some e, st)
      | Inr es \<Rightarrow>
          (case reorder_all ordered clock 0 (reorder_locations es ordered) (queues st) of
             (Some e, fs) \<Rightarrow> (Some e, st\<lparr>queues := fs\<rparr>)
           | (None, fs) \<Rightarrow> after_snapshot env ctx (st\<lparr>queues := fs\<rparr>)))"

text \<open>\<open>guide\<close> switches an item between waiting for the agent and guiding its running slot.\<close>

definition queue_guide ::
  "room_env \<Rightarrow> string \<Rightarrow> string \<Rightarrow> room_context \<Rightarrow> 'c room_state \<Rightarrow> string option \<times> 'c room_state" where
  "queue_guide env key item_id ctx st =
     (case find_entry (env_agent env) (queues st) ctx (env_now env) item_id of
        Inl e \<Rightarrow> (Some e, st)
      | Inr None \<Rightarrow> after_snapshot env ctx st
      | Inr (Some (item, loc)) \<Rightarrow>
          let set_policy = (\<lambda>policy.
            case update_delivery_policy (queues st) loc (iq_id item) policy [] (env_now env) of
              Inl e \<Rightarrow> (Some e, st)
            | Inr (_, fs) \<Rightarrow> after_snapshot env ctx (st\<lparr>queues := fs\<rparr>))
          in if should_guide_running_round (iq_policy item) then set_policy ''queue''
             else if guidance_target_slot (service st) key (rc_conversation ctx) (item, loc) = None
             then after_snapshot env ctx st
             else set_policy ''guide'')"

definition handle_input_queue ::
  "room_env \<Rightarrow> (nat \<Rightarrow> int) \<Rightarrow> string \<Rightarrow> queue_request \<Rightarrow> 'c room_state \<Rightarrow> string option \<times> 'c room_state" where
  "handle_input_queue env clock owner rq st =
     (case resolve_queue_context env rq of
        Inl e \<Rightarrow> (Some e, st)
      | Inr (key, ctx) \<Rightarrow>
          let action = trim_space (qr_action rq) in
          if action \<in> set [''enqueue'', []] then queue_enqueue env owner rq ctx st
          else if action = ''delete'' then queue_delete env (qr_item rq) ctx st
          else if action = ''reorder'' then queue_reorder env clock (qr_ordered rq) ctx st
          else if action = ''guide'' then queue_guide env key (qr_item rq) ctx st
          else (Some ''unsupported input_queue action'', st))"

end
