(* ===== verification/RoomSystem.thy ===== *)
theory RoomSystem
  imports RoomQueue
begin

text \<open>
  The rooms as one system: the requests of users, the end of a slot and of a round
  (\<open>runSlot\<close> and \<open>runRound\<close> of \<open>service/room/execution.go\<close>), the messages
  that agents send, and the dispatch of queued items, in any order. The invariant ties the
  registry of rounds to the runtime manager and bounds the hops of wakes.
\<close>

section \<open>Completing a slot and a round\<close>

text \<open>
  What \<open>runSlot\<close> does after a completed execution: the reply that goes back as a directed
  message, with its immediate wake, and the wakes of a public reply. The result says whether
  the steps succeeded; the stored directed message is part of it.
\<close>

definition complete_slot ::
  "room_env \<Rightarrow> room_context \<Rightarrow> nat \<Rightarrow> slot \<Rightarrow> any \<Rightarrow> room_round \<Rightarrow> 'c room_state \<Rightarrow>
   (bool \<times> directed_message option) \<times> room_round \<times> 'c room_state" where
  "complete_slot env ctx cancel s message r st =
     (if sl_suppress s then ((True, None), r, st)
      else
        let reply = directed_reply r s message (env_id env 0) (env_now env);
            (ok, st) = (case reply of
               Some (m, True) \<Rightarrow>
                 (case run_directed_wake env ctx cancel (rr_owner r) (m\<lparr>dm_wake := ''immediate''\<rparr>) st of
                    (Inl _, st) \<Rightarrow> (False, st) | (Inr _, st) \<Rightarrow> (True, st))
             | _ \<Rightarrow> (True, st))
        in ((ok, map_option fst reply),
            if ok \<and> publishes_public s then collect_wakes ctx s message r else r, st))"

text \<open>What the execution of a slot reports, and whether the cursors are stored after it.\<close>

record slot_run =
  run_configured :: bool
  run_prepared :: bool
  run_calls :: "callback list"
  run_end :: execution_end
  run_message :: any
  run_recorded :: bool

definition put_round :: "string \<Rightarrow> room_round \<Rightarrow> 'c room_state \<Rightarrow> 'c room_state" where
  "put_round k r st =
     st\<lparr>service := (service st)\<lparr>active_rounds :=
       map (\<lambda>(j, q). (j, if j = k then r else q)) (active_rounds (service st))\<rparr>\<rparr>"

definition run_round_slot ::
  "room_env \<Rightarrow> room_context \<Rightarrow> nat \<Rightarrow> string \<Rightarrow> string \<Rightarrow> slot_run \<Rightarrow> 'c room_state \<Rightarrow> 'c room_state" where
  "run_round_slot env ctx cancel k msg rn st =
     (case map_of (active_rounds (service st)) k of
        None \<Rightarrow> st
      | Some r \<Rightarrow>
          (case map_of (rr_slots r) msg of
             None \<Rightarrow> st
           | Some s \<Rightarrow>
               let run = run_slot (run_configured rn) (run_prepared rn) (run_calls rn) (run_end rn);
                   after = snd (run True s);
                   completed = (run_configured rn \<and> run_prepared rn
                                \<and> (case run_end rn of Completed _ \<Rightarrow> True | _ \<Rightarrow> False));
                   ((ok, _), r, st) = (if completed then complete_slot env ctx cancel after (run_message rn) r st
                                       else ((True, None), r, st));
                   final = snd (run (ok \<and> run_recorded rn) s)
               in put_round k (r\<lparr>rr_slots := AList.update msg final (rr_slots r)\<rparr>) st))"

text \<open>The end of \<open>runRound\<close>, when every slot has ended.\<close>

definition complete_round ::
  "room_env \<Rightarrow> room_context \<Rightarrow> nat \<Rightarrow> string \<Rightarrow> 'c room_state \<Rightarrow> 'c room_state" where
  "complete_round env ctx cancel k st =
     (case map_of (active_rounds (service st)) k of
        None \<Rightarrow> st
      | Some r \<Rightarrow>
          let st = st\<lparr>service := finish_round (service st) r\<rparr> in
          if final_status r = ''finished'' then snd (start_queued_wakes env ctx cancel r st) else st)"

section \<open>The system\<close>

datatype room_event =
  UserChat nat string chat_request
| UserInterrupt string string
| QueueRequest "nat \<Rightarrow> int" string queue_request
| DispatchNext nat string string string
| SlotEnds room_context nat string string slot_run
| RoundEnds room_context nat string
| AgentPublishes room_context nat string string string string
| AgentSends room_context nat string directed_message

definition room_step :: "'c room_state \<Rightarrow> room_env \<times> room_event \<Rightarrow> 'c room_state" where
  "room_step st ev =
     (case ev of (env, e) \<Rightarrow>
       (case e of
          UserChat cancel owner rq \<Rightarrow> snd (handle_chat env cancel owner rq st)
        | UserInterrupt key msg \<Rightarrow> st\<lparr>service := snd (handle_interrupt env key msg (service st))\<rparr>
        | QueueRequest clock owner rq \<Rightarrow> snd (handle_input_queue env clock owner rq st)
        | DispatchNext cancel key room conversation \<Rightarrow> snd (dispatch_next_entry env cancel key room conversation st)
        | SlotEnds ctx cancel k msg rn \<Rightarrow> run_round_slot env ctx cancel k msg rn st
        | RoundEnds ctx cancel k \<Rightarrow> complete_round env ctx cancel k st
        | AgentPublishes ctx cancel owner source message content \<Rightarrow>
            snd (start_public_message_wakes env ctx cancel owner source message content st)
        | AgentSends ctx cancel owner m \<Rightarrow>
            (if plan_wake m = NoWake then st else snd (run_directed_wake env ctx cancel owner m st))))"

definition empty_room :: "'c room_state" where
  "empty_room = \<lparr>service = \<lparr>active_rounds = [], runtime = new_manager\<rparr>, queues = Map.empty, shared = (\<lambda>_. [])\<rparr>"

section \<open>Hops of queued items\<close>

lemma find_mem: "find P xs = Some x \<Longrightarrow> x \<in> set xs \<and> P x"
  by (induction xs) (auto split: if_splits)

definition hop_ok :: "any \<Rightarrow> bool" where
  "hop_ok row \<longleftrightarrow> (case item_from_any (field row ''item'') of None \<Rightarrow> True | Some i \<Rightarrow> iq_hop i < max_wake_hops)"

definition hops_ok :: "files \<Rightarrow> bool" where
  "hops_ok fs \<longleftrightarrow> (\<forall>path. \<forall>row \<in> set (log_rows fs path). hop_ok row)"

lemma item_from_any_hop: "item_from_any v = Some j \<Longrightarrow> iq_hop j = int64_from_any (field v ''hop_index'')"
  by (simp add: item_from_any_def split: if_split_asm) (hypsubst, simp)

lemma decoded_hop:
  assumes "item_from_any (encode_item i) = Some j"
  shows "iq_hop j = iq_hop i"
  unfolding item_from_any_hop[OF assms] encode_item_def field_present[OF distinct_item_fields] item_fields_lookup
  by (simp add: some_int_def)

lemma hop_ok_item_row: "iq_hop i < max_wake_hops \<Longrightarrow> hop_ok (item_row a i now)"
proof -
  have "field (item_row a i now) ''item'' = encode_item i" by (simp add: item_row_def field_AMap)
  then show "iq_hop i < max_wake_hops \<Longrightarrow> ?thesis"
    unfolding hop_ok_def by (cases "item_from_any (encode_item i)") (simp_all add: decoded_hop)
qed

lemma hop_ok_other_rows: "hop_ok (id_row a k now)" "hop_ok (reorder_row ks now)"
proof -
  have "item_from_any ANil = None" by (simp add: item_from_any_def)
  moreover have "field (id_row a k now) ''item'' = ANil" "field (reorder_row ks now) ''item'' = ANil"
    by (simp_all add: id_row_def reorder_row_def field_AMap)
  ultimately show "hop_ok (id_row a k now)" "hop_ok (reorder_row ks now)" by (simp_all add: hop_ok_def)
qed

lemmas hop_ok_rows = hop_ok_item_row hop_ok_other_rows

lemma hops_append:
  assumes "hops_ok fs" "good_row row" "hop_ok row"
  shows "hops_ok (append_jsonl fs path row)"
  unfolding hops_ok_def
proof (intro allI ballI)
  fix p r
  assume r: "r \<in> set (log_rows (append_jsonl fs path row) p)"
  show "hop_ok r"
    using r assms jsonl.rows_append[OF assms(2), of fs path] jsonl.rows_append_other[of p path fs row]
    by (cases "p = path") (auto simp: hops_ok_def)
qed

lemma hops_append_action:
  "hops_ok fs \<Longrightarrow> good_row row \<Longrightarrow> hop_ok row \<Longrightarrow> append_action fs loc row = Inr fs' \<Longrightarrow> hops_ok fs'"
  by (auto simp: append_action_def hops_append split: sum.splits)

lemma hops_append_snapshot:
  "hops_ok fs \<Longrightarrow> good_row row \<Longrightarrow> hop_ok row \<Longrightarrow> append_then_snapshot fs loc row now = Inr (q, fs') \<Longrightarrow> hops_ok fs'"
  by (auto simp: append_then_snapshot_def hops_append_action split: sum.splits)

definition items_hop_ok :: "replay_state \<Rightarrow> bool" where
  "items_hop_ok st \<longleftrightarrow> (\<forall>k i. rs_items st k = Some i \<longrightarrow> iq_hop i < max_wake_hops)"

lemma normalize_hop: "iq_hop i < max_wake_hops \<Longrightarrow> iq_hop (normalize_item loc i t) < max_wake_hops"
  by (simp add: normalize_item_def Let_def max_wake_hops_def)

lemma apply_order_hop:
  "(\<forall>k i. items k = Some i \<longrightarrow> iq_hop i < n) \<Longrightarrow> (\<forall>k i. apply_order items is stamp k = Some i \<longrightarrow> iq_hop i < n)"
proof (induction items "is" stamp rule: apply_order.induct)
  case (2 items i "is" stamp)
  have "\<forall>k j. (case items (trim_space i) of None \<Rightarrow> items
      | Some item \<Rightarrow> if trim_space i = [] then items
          else items(trim_space i \<mapsto> item\<lparr>iq_order := stamp, iq_updated := stamp\<rparr>)) k = Some j \<longrightarrow> iq_hop j < n"
    using "2.prems" by (auto split: option.split)
  with 2 show ?case by (simp add: Let_def)
qed simp

lemma items_hop_row:
  assumes "items_hop_ok st" "hop_ok row"
  shows "items_hop_ok (replay_row loc now st row)"
proof -
  have "items_hop_ok (replay_reorder ts st ks)" for ts ks
    using assms(1) apply_order_hop[of "rs_items st" max_wake_hops ks ts]
    by (simp add: items_hop_ok_def replay_reorder_def)
  moreover have "items_hop_ok (replay_enqueue loc ts st (field row ''item''))" for ts
    using assms normalize_hop
    by (auto simp: items_hop_ok_def replay_enqueue_def hop_ok_def Let_def split: option.splits)
  moreover have "items_hop_ok (replay_update loc ts st (field row ''item''))" for ts
    using assms normalize_hop
    by (auto simp: items_hop_ok_def replay_update_def hop_ok_def Let_def split: option.splits)
  moreover have "items_hop_ok (replay_remove st k)" for k
    using assms(1) by (auto simp: items_hop_ok_def replay_remove_def)
  ultimately show ?thesis using assms(1) by (simp add: replay_row_def Let_def)
qed

lemma items_hop_log:
  "\<forall>row \<in> set rows. hop_ok row \<Longrightarrow> items_hop_ok (foldl (replay_row loc now) empty_replay rows)"
proof (induction rows rule: rev_induct)
  case (snoc row rows)
  then show ?case by (simp add: items_hop_row)
qed (simp add: items_hop_ok_def empty_replay_def)

lemma snapshot_hops:
  assumes "hops_ok fs" "snapshot fs loc now = Inr q" "i \<in> set q"
  shows "iq_hop i < max_wake_hops"
proof -
  obtain path where p: "path_for_location loc = Inr path"
    using assms(2) by (cases "path_for_location loc") (auto simp: snapshot_def)
  have "items_hop_ok (store_state fs loc now path)"
    unfolding store_state_def using assms(1) by (auto simp: hops_ok_def intro: items_hop_log)
  moreover have "q = view (store_state fs loc now path)" using snapshot_eq[OF p] assms(2) by simp
  ultimately show ?thesis using assms(3) by (auto simp: view_def mem_map_filter items_hop_ok_def)
qed

lemma hops_enqueue:
  assumes "hops_ok fs" "iq_hop item < max_wake_hops" "enqueue fs loc item now new_id = Inr (q, fs')"
  shows "hops_ok fs'"
proof (rule hops_append_snapshot[OF assms(1) _ _ assms(3)[unfolded enqueue_def]])
  show "hop_ok (item_row ''enqueue'' (prepare_item loc item now new_id) now)"
    using normalize_hop[OF assms(2)] by (simp add: hop_ok_rows prepare_item_def Let_def)
qed simp

lemma hops_remove:
  assumes "hops_ok fs" "remove_item fs loc k act now = Inr (q, fs')"
  shows "hops_ok fs'"
proof (cases "trim_space k = []")
  case True
  with assms show ?thesis by (auto simp: remove_item_def split: sum.splits)
next
  case False
  then have "append_then_snapshot fs loc (id_row act (trim_space k) now) now = Inr (q, fs')"
    using assms(2) by (simp add: remove_item_def Let_def)
  from hops_append_snapshot[OF assms(1) _ _ this] show ?thesis by (simp add: hop_ok_rows)
qed

lemma hops_reorder:
  assumes "hops_ok fs" "reorder_queue fs loc ks now = Inr (q, fs')"
  shows "hops_ok fs'"
  using hops_append_snapshot[OF assms(1) _ _ assms(2)[unfolded reorder_queue_def]] by (simp add: hop_ok_rows)

lemma hops_update:
  assumes "hops_ok fs" "update_delivery_policy fs loc k policy rs now = Inr (q, fs')"
  shows "hops_ok fs'"
proof (cases "fs' = fs")
  case False
  then obtain items i r where i: "snapshot fs loc now = Inr items" "find (\<lambda>i. iq_id i = trim_space k) items = Some i"
    "append_then_snapshot fs loc (item_row ''update''
       (i\<lparr>iq_policy := normalize_delivery_policy policy, iq_root_round := r, iq_updated := now\<rparr>) now) now = Inr (q, fs')"
    using assms(2) by (auto simp: update_delivery_policy_def Let_def split: sum.splits if_splits option.splits)
  have "iq_hop i < max_wake_hops"
    using snapshot_hops[OF assms(1) i(1)] i(2) by (meson find_mem)
  then show ?thesis using hops_append_snapshot[OF assms(1) _ _ i(3)] by (simp add: hop_ok_rows)
qed (use assms in simp)

section \<open>The registry of rounds\<close>

text \<open>What the registry depends on: the keys of the rounds, not their slots.\<close>

definition skeleton :: "'c room_service \<Rightarrow> (string \<times> string \<times> string \<times> int) list \<times> 'c manager" where
  "skeleton svc = (map (\<lambda>(k, r). (k, rr_session r, rr_round r, rr_hop r)) (active_rounds svc), runtime svc)"

definition round_ok :: "'c manager \<Rightarrow> string \<times> string \<times> string \<times> int \<Rightarrow> bool" where
  "round_ok m e \<longleftrightarrow>
     (case e of (k, session, i, hop) \<Rightarrow>
        k = active_round_key session i \<and> session \<noteq> [] \<and> i \<noteq> [] \<and> hop \<le> max_wake_hops
        \<and> i \<in> set (running_round_ids m session))"

definition registry_ok :: "'c room_service \<Rightarrow> bool" where
  "registry_ok svc \<longleftrightarrow>
     distinct (map fst (fst (skeleton svc))) \<and> list_all (round_ok (runtime svc)) (fst (skeleton svc))"

definition room_inv :: "'c room_state \<Rightarrow> bool" where
  "room_inv st \<longleftrightarrow> registry_ok (service st) \<and> hops_ok (queues st)"

lemma registry_skeleton: "skeleton svc' = skeleton svc \<Longrightarrow> registry_ok svc' \<longleftrightarrow> registry_ok svc"
  by (simp add: registry_ok_def skeleton_def)

lemma registry_iff:
  "registry_ok svc \<longleftrightarrow> distinct (map fst (active_rounds svc)) \<and>
     (\<forall>(k, r) \<in> set (active_rounds svc). round_ok (runtime svc) (k, rr_session r, rr_round r, rr_hop r))"
proof -
  have "fst \<circ> (\<lambda>(k :: string, r :: room_round). (k, rr_session r, rr_round r, rr_hop r)) = fst" by (auto simp: fun_eq_iff)
  then show ?thesis by (simp add: registry_ok_def skeleton_def list_all_iff case_prod_unfold)
qed

lemma round_ok_start:
  "round_ok m e \<Longrightarrow> round_ok (start_round m key r c) e"
  by (auto simp: round_ok_def running_start_round split: prod.splits)

lemma registry_start:
  assumes "registry_ok svc" "rr_session r \<noteq> []" "rr_round r \<noteq> []" "rr_hop r \<le> max_wake_hops"
  shows "registry_ok ((register_round svc r)\<lparr>runtime := start_round (runtime svc) (rr_session r) (rr_round r) c\<rparr>)"
  using assms
  by (auto simp: registry_iff register_round_def distinct_update dest!: update_mem intro: round_ok_start)
    (auto simp: round_ok_def running_start_round)

lemma registry_finish:
  assumes "registry_ok svc" "(k, r) \<in> set (active_rounds svc)"
  shows "registry_ok (finish_round svc r)"
proof -
  have r: "k = active_round_key (rr_session r) (rr_round r)" "rr_session r \<noteq> []" "rr_round r \<noteq> []"
    using assms by (auto simp: registry_iff round_ok_def)
  have keep: "round_ok (mark_round_finished (runtime svc) (rr_session r) (rr_round r)) (j, rr_session q, rr_round q, rr_hop q)"
    if "(j, q) \<in> set (AList.delete k (active_rounds svc))" for j q
  proof -
    have q: "(j, q) \<in> set (active_rounds svc)" "j \<noteq> k"
      using that by (auto simp: AList.delete_eq)
    then have "round_ok (runtime svc) (j, rr_session q, rr_round q, rr_hop q)"
      using assms(1) by (auto simp: registry_iff)
    moreover have "rr_session q \<noteq> rr_session r \<or> rr_round q \<noteq> rr_round r"
      using q assms(1) r(1) by (auto simp: registry_iff round_ok_def)
    ultimately show ?thesis using r by (auto simp: round_ok_def running_finish)
  qed
  then show ?thesis
    using assms(1) r(1) by (auto simp: registry_iff finish_round_def distinct_delete)
qed

lemma registry_put:
  assumes "registry_ok (service st)" "round_ok (runtime (service st)) (k, rr_session r, rr_round r, rr_hop r)"
  shows "registry_ok (service (put_round k r st))"
proof -
  have "fst \<circ> (\<lambda>(j, q). (j, if j = k then r else q)) = (fst :: string \<times> room_round \<Rightarrow> string)" by (auto simp: fun_eq_iff)
  then show ?thesis using assms by (auto simp: registry_iff put_round_def)
qed

section \<open>Steps that change slots only\<close>

lemma skeleton_update_slot [simp]: "skeleton (update_slot key msg f svc) = skeleton svc"
  by (auto simp: skeleton_def update_slot_def)

lemma skeleton_interrupt_target: "skeleton (interrupt_target message t svc) = skeleton svc"
proof -
  have inner: "skeleton (foldl (\<lambda>svc m. update_slot key m f svc) svc ms) = skeleton svc" for svc :: "'a room_service" and key f ms
    by (induction ms arbitrary: svc) auto
  have "skeleton (foldl (\<lambda>svc r. foldl (\<lambda>svc m. update_slot key m f svc) svc (g r)) svc rs) = skeleton svc"
    for g :: "room_round \<Rightarrow> string list" and svc :: "'a room_service" and key f rs
    by (induction rs arbitrary: svc) (auto simp: inner)
  then show ?thesis by (auto simp: interrupt_target_def split: prod.split option.split)
qed

lemma skeleton_interrupts: "skeleton (snd (interrupt_targets env message ts svc)) = skeleton svc"
proof -
  have "skeleton (foldl (\<lambda>svc t. interrupt_target message t svc) svc ts) = skeleton svc" for svc :: "'a room_service"
    by (induction ts arbitrary: svc) (auto simp: skeleton_interrupt_target)
  then show ?thesis by (simp add: interrupt_targets_def)
qed

lemma skeleton_interrupt_agents: "skeleton (snd (interrupt_agent_slots env key agents message svc)) = skeleton svc"
  by (simp add: interrupt_agent_slots_def Let_def skeleton_interrupts)

lemma skeleton_guide: "skeleton (snd (guide_slots env key content r busy svc)) = skeleton svc"
  by (induction env key content r busy svc rule: guide_slots.induct) (auto split: sum.splits prod.splits)

section \<open>The operations keep the invariant\<close>

lemma entries_hops:
  "hops_ok fs \<Longrightarrow> entries_at fs now locs = Inr es \<Longrightarrow> e \<in> set es \<Longrightarrow> iq_hop (fst e) < max_wake_hops"
proof (induction locs arbitrary: es)
  case (Cons loc locs)
  then obtain q rest where "snapshot fs loc now = Inr q" "entries_at fs now locs = Inr rest"
    "es = map (\<lambda>i. (i, loc)) q @ rest"
    by (auto split: sum.splits)
  with Cons show ?case using snapshot_hops[of fs loc now q] by auto
qed simp

lemma set_sort_entries: "set (sort_entries es) = set es"
  by (simp add: sort_entries_def)

lemma queue_entries_hops:
  assumes "hops_ok fs" "queue_entries get fs ctx now = Inr es" "e \<in> set es"
  shows "iq_hop (fst e) < max_wake_hops"
proof -
  obtain locs where l: "queue_locations get ctx = Inr locs"
    using assms(2) by (auto simp: queue_entries_def split: sum.splits)
  then obtain es' where "entries_at fs now locs = Inr es'" "es = sort_entries es'"
    using assms(2) by (cases "entries_at fs now locs") (auto simp: queue_entries_def)
  then show ?thesis using entries_hops[OF assms(1)] assms(3) by (simp add: set_sort_entries)
qed

lemma hops_queue_wakes:
  "hops_ok fs \<Longrightarrow> rr_hop r < max_wake_hops \<Longrightarrow> hops_ok (snd (snd (queue_wakes env locs busy r n ws fs)))"
proof (induction env locs busy r n ws fs rule: queue_wakes.induct)
  case (2 env locs busy r n w ws fs)
  have "hops_ok fs'" if "enqueue fs loc (wake_item loc r w) (env_now env) (env_item_id env n) = Inr (q, fs')" for loc q fs'
    by (rule hops_enqueue[OF 2(5) _ that]) (use 2(6) in \<open>simp add: wake_item_def\<close>)
  note enq = this
  show ?case
  proof (cases "map_of locs (trim_space (mw_target w))")
    case None
    with 2 show ?thesis by (auto simp: Let_def case_prod_unfold)
  next
    case (Some loc)
    show ?thesis
    proof (cases "enqueue fs loc (wake_item loc r w) (env_now env) (env_item_id env n)")
      case (Inl e)
      with Some 2 show ?thesis by (auto simp: Let_def case_prod_unfold)
    next
      case (Inr p)
      obtain q fs' where p: "p = (q, fs')" by (cases p)
      with Inr Some 2 enq[of loc q fs'] show ?thesis by (auto simp: Let_def case_prod_unfold)
    qed
  qed
qed simp

lemma queue_busy_wakes_inv:
  assumes "room_inv st" "rr_hop r < max_wake_hops"
  shows "room_inv (snd (queue_busy_wakes env ctx key r ws st)) \<and>
    service (snd (queue_busy_wakes env ctx key r ws st)) = service st"
proof -
  have "hops_ok fs" if "queue_wakes env locs busy r 0 ws (queues st) = (x, y, fs)" for locs busy x y fs
    using hops_queue_wakes[of "queues st" r env locs busy 0 ws] assms that by (simp add: room_inv_def)
  then show ?thesis
    using assms by (auto simp: queue_busy_wakes_def Let_def room_inv_def split: sum.split prod.split)
qed

lemma start_mention_inv:
  assumes "room_inv st" "rr_hop parent < max_wake_hops"
  shows "room_inv (snd (start_mention_round env ctx cancel parent ws st))"
proof (cases "\<exists>r st'. start_mention_round env ctx cancel parent ws st = (Inr (Some r), st')")
  case True
  then obtain r st' where e: "start_mention_round env ctx cancel parent ws st = (Inr (Some r), st')" by blast
  then show ?thesis
  proof (rule start_mention_roundE)
    fix ready st1 directory
    assume busy: "queue_busy_wakes env ctx (build_room_key (rr_conversation parent)) parent ws st = (Inr ready, st1)"
      and r: "r = \<lparr>rr_session = build_room_key (rr_conversation parent), rr_room = rc_room ctx,
          rr_conversation = rc_conversation ctx, rr_round = wake_round_id env ready,
          rr_root = (if root_round_id parent \<noteq> [] then root_round_id parent else wake_round_id env ready),
          rr_hop = rr_hop parent + 1, rr_owner = rr_owner parent,
          rr_slots = wake_slots env ctx (wake_round_id env ready) (pending_wakes ctx directory ready), rr_wakes = []\<rparr>"
      and st': "st' = st1\<lparr>service := (register_round (service st1) r)
          \<lparr>runtime := start_round (runtime (service st1)) (rr_session r) (rr_round r) (Some cancel)\<rparr>\<rparr>"
    have "room_inv st1" using queue_busy_wakes_inv[OF assms, of env ctx "build_room_key (rr_conversation parent)" ws] busy by simp
    moreover have "rr_session r \<noteq> []" "rr_round r \<noteq> []" "rr_hop r \<le> max_wake_hops"
      using assms(2) by (simp_all add: r build_room_key_def wake_round_id_def split: list.split)
    ultimately show ?thesis
      by (simp add: e st' room_inv_def registry_start)
  qed
next
  case False
  obtain res t where "queue_busy_wakes env ctx (build_room_key (rr_conversation parent)) parent ws st = (res, t)"
    by fastforce
  then have "snd (start_mention_round env ctx cancel parent ws st) \<in>
      {st, snd (queue_busy_wakes env ctx (build_room_key (rr_conversation parent)) parent ws st)}"
    using False by (cases res) (auto simp: start_mention_round_def Let_def split: sum.split)
  then show ?thesis using assms queue_busy_wakes_inv[OF assms] by auto
qed

lemma running_start_mention:
  "set (running_round_ids (runtime (service st)) key) \<subseteq>
   set (running_round_ids (runtime (service (snd (start_mention_round env ctx cancel parent ws st)))) key)"
proof -
  have "service (snd (queue_busy_wakes env ctx k parent ws st)) = service st" for k
    by (auto simp: queue_busy_wakes_def Let_def split: sum.split prod.split)
  note same = this[of "build_room_key (rr_conversation parent)"]
  show ?thesis
    using same
    by (auto simp: start_mention_round_def Let_def register_round_def running_start_round split: sum.split prod.split)
qed

lemma start_queued_inv:
  assumes "room_inv st"
  shows "room_inv (snd (start_queued_wakes env ctx cancel r st))"
proof (cases "rr_wakes r = [] \<or> max_wake_hops \<le> rr_hop r")
  case True
  with assms show ?thesis by (auto simp: start_queued_wakes_def take_wakes_def)
next
  case False
  then have "room_inv (snd (start_mention_round env ctx cancel (r\<lparr>rr_wakes := []\<rparr>) (rr_wakes r) st))"
    by (intro start_mention_inv[OF assms]) simp
  with False show ?thesis
    by (cases "start_mention_round env ctx cancel (r\<lparr>rr_wakes := []\<rparr>) (rr_wakes r) st")
      (auto simp: start_queued_wakes_def take_wakes_def split: sum.split)
qed

lemma max_wake_hops_pos [simp]: "0 < max_wake_hops"
  by (simp add: max_wake_hops_def)

lemma public_wakes_inv: "room_inv st \<Longrightarrow> room_inv (snd (start_public_message_wakes env ctx cancel owner source m content st))"
  by (simp add: start_public_message_wakes_def start_mention_inv)

lemma directed_wakes_hop: "directed_wakes ctx owner m = Some (parent, ws) \<Longrightarrow> rr_hop parent = 0"
  by (auto simp: directed_wakes_def split: option.splits if_splits)

lemma directed_wake_inv: "room_inv st \<Longrightarrow> room_inv (snd (run_directed_wake env ctx cancel owner m st))"
  by (auto simp: run_directed_wake_def start_mention_inv directed_wakes_hop split: option.split)

lemma running_directed:
  "set (running_round_ids (runtime (service st)) key) \<subseteq>
   set (running_round_ids (runtime (service (snd (run_directed_wake env ctx cancel owner m st)))) key)"
  using running_start_mention by (fastforce simp: run_directed_wake_def split: option.split)

lemma hops_enqueue_slots:
  "hops_ok fs \<Longrightarrow> hops_ok (snd (enqueue_for_slots env rq room conversation owner attachments n running fs))"
proof (induction env rq room conversation owner attachments n running fs rule: enqueue_for_slots.induct)
  case (2 env rq room conversation owner attachments n agent s rest fs)
  let ?e = "enqueue fs (slot_location s room conversation) (chat_item rq room conversation owner attachments agent s)
             (env_now env) (env_item_id env n)"
  have "hops_ok fs'" if "?e = Inr (q, fs')" for q fs'
    by (rule hops_enqueue[OF 2(2) _ that]) (simp add: chat_item_def)
  with 2 show ?case by (cases ?e) (auto simp: case_prod_unfold)
qed simp

lemma registry_of_skeleton:
  "room_inv st \<Longrightarrow> skeleton svc = skeleton (service st) \<Longrightarrow> room_inv (st\<lparr>service := svc\<rparr>)"
  using registry_skeleton[of svc "service st"] by (simp add: room_inv_def)

lemma room_inv_queues: "room_inv st \<Longrightarrow> hops_ok fs \<Longrightarrow> room_inv (st\<lparr>queues := fs\<rparr>)"
  by (simp add: room_inv_def)

lemma deliver_running_inv:
  assumes "room_inv st"
  shows "room_inv (snd (deliver_running env rq ctx policy owner key room conversation content attachments targets st))"
proof -
  let ?running = "find_active_delivery_slots (service st) key conversation targets"
  obtain r1 fs where q: "enqueue_for_slots env rq room conversation owner attachments 0 ?running (queues st) = (r1, fs)"
    by fastforce
  obtain r2 svc where g: "guide_slots env key content (cq_round rq) ?running (service st) = (r2, svc)" by fastforce
  obtain r3 svc' where i: "interrupt_agent_slots env key targets new_message_reason (service st) = (r3, svc')" by fastforce
  have "room_inv (st\<lparr>queues := fs\<rparr>)"
    using hops_enqueue_slots[of "queues st" env rq room conversation owner attachments 0 ?running] assms q
    by (simp add: room_inv_def)
  moreover have "room_inv (st\<lparr>service := svc\<rparr>)" "room_inv (st\<lparr>service := svc'\<rparr>)"
    using registry_of_skeleton[OF assms] skeleton_guide[of env key content "cq_round rq" ?running "service st"]
      skeleton_interrupt_agents[of env key targets new_message_reason "service st"] g i by simp_all
  ultimately show ?thesis
    using assms by (auto simp: deliver_running_def Let_def q g i split: sum.split option.split)
qed

lemma persist_shared_inv [simp]: "room_inv (persist_shared c m st) = room_inv st"
  by (simp add: room_inv_def persist_shared_def)

lemma runtime_register [simp]: "runtime (register_round svc r) = runtime svc"
  by (simp add: register_round_def)

lemma start_chat_inv:
  assumes "room_inv st" "key \<noteq> []" "cq_round rq \<noteq> []"
  shows "room_inv (snd (start_chat_round env rq ctx directory cancel owner key room conversation resolution attachments targets st))"
proof -
  let ?r = "\<lparr>rr_session = key, rr_room = room, rr_conversation = conversation, rr_round = cq_round rq,
    rr_root = cq_round rq, rr_hop = 0, rr_owner = owner,
    rr_slots = chat_slots env rq ctx directory conversation resolution attachments targets, rr_wakes = []\<rparr>"
  have "registry_ok ((register_round (service st) ?r)\<lparr>runtime := start_round (runtime (service st)) key (cq_round rq) (Some cancel)\<rparr>)"
    using registry_start[of "service st" ?r] assms less_imp_le[OF max_wake_hops_pos] by (simp add: room_inv_def)
  then show ?thesis using assms(1) by (simp add: start_chat_round_def Let_def room_inv_def)
qed

lemma room_shared_ne: "is_room_shared_key k \<Longrightarrow> k \<noteq> []"
  by (auto simp: is_room_shared_key_def parse_session_key_def)

lemma validate_chat_ne:
  assumes "validate_chat rq = Inr (key, conversation)"
  shows "key \<noteq> []" "cq_round rq \<noteq> []"
proof -
  have "is_room_shared_key key \<and> trim_space (cq_round rq) \<noteq> []"
    using assms by (auto simp: validate_chat_def Let_def split: sum.splits if_splits)
  then show "key \<noteq> []" "cq_round rq \<noteq> []" using room_shared_ne by auto
qed

lemma prepare_chat_valid: "prepare_chat env rq = Inr p \<Longrightarrow> validate_chat rq = Inr (cp_key p, cp_conversation p)"
  by (auto simp: prepare_chat_def Let_def split: sum.splits prod.splits)

lemma prepare_chat_ne:
  assumes "prepare_chat env rq = Inr p"
  shows "cp_key p \<noteq> []" "cq_round rq \<noteq> []"
  using validate_chat_ne[OF prepare_chat_valid[OF assms]] .

lemma run_chat_inv:
  assumes "room_inv st" "cp_key p \<noteq> []" "cq_round rq \<noteq> []"
  shows "room_inv (snd (run_chat env cancel owner rq p st))"
proof -
  let ?st = "persist_shared (cp_conversation p)
    (user_message rq (cp_key p) (cp_room p) (cp_conversation p) (cp_policy p) (cp_attachments p) (env_now env)) st"
  obtain res t where d: "deliver_running env rq (cp_context p) (cp_policy p) owner (cp_key p) (cp_room p)
      (cp_conversation p) (cp_text p) (cp_attachments p) (cp_targets p) ?st = (res, t)"
    by fastforce
  have "room_inv t"
    using deliver_running_inv[of ?st env rq "cp_context p" "cp_policy p" owner "cp_key p" "cp_room p"
        "cp_conversation p" "cp_text p" "cp_attachments p" "cp_targets p"] d assms(1) by simp
  then show ?thesis
    using assms start_chat_inv[of t, OF _ assms(2,3)]
    by (cases res) (auto simp: run_chat_def Let_def d case_prod_unfold)
qed

lemma handle_chat_inv: "room_inv st \<Longrightarrow> room_inv (snd (handle_chat env cancel owner rq st))"
  by (auto simp: handle_chat_def prepare_chat_ne run_chat_inv split: sum.split)

end
