(* ===== verification/RoomInvariant.thy ===== *)
theory RoomInvariant
  imports RoomSystem
begin

text \<open>
  The remaining operations of a room keep the invariant of \<open>RoomSystem\<close>, and what follows for
  every reachable state: the rounds of the registry are those the runtime manager runs, and no
  wake goes beyond the limit of hops. Then what the composed operations promise: the choice of
  the next item, the item of a failed dispatch, and the delivery to busy agents.
\<close>

section \<open>Interrupts and dispatched items\<close>

lemma skeleton_handle_interrupt: "skeleton (snd (handle_interrupt env key msg svc)) = skeleton svc"
  by (auto simp: handle_interrupt_def Let_def skeleton_interrupts split: sum.splits option.splits)

lemma guide_inv:
  assumes "room_inv st" "guide_slots env key content r busy (service st) = (res, svc)"
  shows "room_inv (st\<lparr>service := svc\<rparr>)"
  using registry_of_skeleton[OF assms(1)] skeleton_guide[of env key content r busy "service st"] assms(2) by simp

lemma start_queue_round_inv:
  assumes "room_inv st" "iq_hop item < max_wake_hops"
  shows "room_inv (snd (start_mention_round env ctx cancel (queue_round key c room conversation m i item) ws st))"
  using start_mention_inv[OF assms(1)] assms(2) by (simp add: queue_round_def)

lemma agent_wake_inv:
  assumes "room_inv st" "iq_hop item < max_wake_hops"
  shows "room_inv (snd (dispatch_agent_wake env cancel key room conversation item policy st))"
  using assms
  by (auto simp: dispatch_agent_wake_def Let_def start_queue_round_inv guide_inv split: sum.split prod.split)

lemma public_trigger_inv:
  "room_inv st \<Longrightarrow> iq_hop item < max_wake_hops \<Longrightarrow>
   room_inv (snd (dispatch_public_trigger env cancel key room conversation item st))"
  by (auto simp: dispatch_public_trigger_def Let_def start_queue_round_inv split: sum.split)

lemma run_queue_item_inv:
  "room_inv st \<Longrightarrow> iq_hop item < max_wake_hops \<Longrightarrow>
   room_inv (snd (run_queue_item env cancel key room conversation item st))"
  by (simp add: run_queue_item_def agent_wake_inv public_trigger_inv handle_chat_inv)

lemma find_dispatchable_mem: "find_dispatchable svc key conversation es = Some e \<Longrightarrow> e \<in> set es"
  by (auto simp: find_dispatchable_def dest: find_mem)

lemma dispatch_next_inv:
  assumes "room_inv st"
  shows "room_inv (snd (dispatch_next_entry env cancel key room conversation st))"
proof (cases "\<exists>ctx es item loc q fs. trim_space key \<noteq> [] \<and> env_context env (trim_space conversation) = Inr ctx \<and>
    queue_entries (env_agent env) (queues st) ctx (env_now env) = Inr es \<and>
    find_dispatchable (service st) key conversation es = Some (item, loc) \<and>
    dispatch_item (queues st) loc (iq_id item) (env_now env) = Inr (q, fs)")
  case False
  then have "snd (dispatch_next_entry env cancel key room conversation st) = st"
    by (auto simp: dispatch_next_entry_def split: sum.split option.split)
  with assms show ?thesis by simp
next
  case True
  then obtain ctx es item loc q fs where d: "trim_space key \<noteq> []" "env_context env (trim_space conversation) = Inr ctx"
    "queue_entries (env_agent env) (queues st) ctx (env_now env) = Inr es"
    "find_dispatchable (service st) key conversation es = Some (item, loc)"
    "dispatch_item (queues st) loc (iq_id item) (env_now env) = Inr (q, fs)"
    by blast
  have hops: "hops_ok (queues st)" using assms by (simp add: room_inv_def)
  have item: "iq_hop item < max_wake_hops"
    using queue_entries_hops[OF hops d(3) find_dispatchable_mem[OF d(4)]] by simp
  have "hops_ok fs" using hops_remove[OF hops d(5)[unfolded dispatch_item_def]] .
  then have "room_inv (snd (run_queue_item env cancel key room conversation item (st\<lparr>queues := fs\<rparr>)))"
    using assms item by (intro run_queue_item_inv room_inv_queues)
  then obtain res t where t: "run_queue_item env cancel key room conversation item (st\<lparr>queues := fs\<rparr>) = (res, t)" "room_inv t"
    by (metis prod.collapse)
  then have "room_inv (t\<lparr>queues := fs'\<rparr>)"
    if "enqueue (queues t) loc item (env_now env) i = Inr (q, fs')" for q fs' i
    using hops_enqueue[OF _ item that] by (auto simp: room_inv_def)
  with d t show ?thesis by (auto simp: dispatch_next_entry_def split: sum.split)
qed

section \<open>Requests to the queue\<close>

lemma after_snapshot_state [simp]: "snd (after_snapshot env ctx st) = st"
  by (simp add: after_snapshot_def)

lemma queue_enqueue_inv: "room_inv st \<Longrightarrow> room_inv (snd (queue_enqueue env owner rq ctx st))"
proof -
  assume inv: "room_inv st"
  have "room_inv (st\<lparr>queues := fs\<rparr>)"
    if "enqueue (queues st) loc (request_item rq ctx owner loc targets attachments) now i = Inr (q, fs)"
    for loc targets attachments now i q fs
    using inv hops_enqueue[OF _ _ that] by (simp add: room_inv_def request_item_def)
  then show ?thesis using inv
    by (auto simp: queue_enqueue_def Let_def split: sum.split)
qed

lemma queue_delete_inv: "room_inv st \<Longrightarrow> room_inv (snd (queue_delete env item_id ctx st))"
proof -
  assume inv: "room_inv st"
  have "room_inv (st\<lparr>queues := fs\<rparr>)" if "delete_item (queues st) loc item_id now = Inr (q, fs)" for loc now q fs
    using inv hops_remove[OF _ that[unfolded delete_item_def]] by (simp add: room_inv_def)
  then show ?thesis using inv
    by (auto simp: queue_delete_def split: sum.split option.split)
qed

lemma hops_reorder_all: "hops_ok fs \<Longrightarrow> hops_ok (snd (reorder_all ordered clock n locs fs))"
  by (induction ordered clock n locs fs rule: reorder_all.induct) (auto dest: hops_reorder split: sum.splits)

lemma queue_reorder_inv: "room_inv st \<Longrightarrow> room_inv (snd (queue_reorder env clock ordered ctx st))"
proof -
  assume inv: "room_inv st"
  have "room_inv (st\<lparr>queues := fs\<rparr>)" if "reorder_all ordered clock 0 locs (queues st) = (e, fs)" for locs e fs
    using inv hops_reorder_all[of "queues st" ordered clock 0 locs] that by (simp add: room_inv_def)
  then show ?thesis using inv
    by (auto simp: queue_reorder_def split: sum.split prod.split option.split)
qed

lemma queue_guide_inv: "room_inv st \<Longrightarrow> room_inv (snd (queue_guide env key item_id ctx st))"
proof -
  assume inv: "room_inv st"
  have "room_inv (st\<lparr>queues := fs\<rparr>)"
    if "update_delivery_policy (queues st) loc k policy rs now = Inr (q, fs)" for loc k policy rs now q fs
    using inv hops_update[OF _ that] by (simp add: room_inv_def)
  then show ?thesis using inv
    by (auto simp: queue_guide_def Let_def split: sum.split option.split)
qed

lemma handle_input_queue_inv: "room_inv st \<Longrightarrow> room_inv (snd (handle_input_queue env clock owner rq st))"
  by (auto simp: handle_input_queue_def Let_def queue_enqueue_inv queue_delete_inv queue_reorder_inv queue_guide_inv
      split: sum.split)

section \<open>The end of a slot and of a round\<close>

lemma round_ok_mono:
  assumes "round_ok m e" "\<And>key. set (running_round_ids m key) \<subseteq> set (running_round_ids m' key)"
  shows "round_ok m' e"
  using assms by (auto simp: round_ok_def split: prod.splits)

lemma enqueue_wakes_keep:
  "rr_session (foldl (\<lambda>r t. enqueue_wake (f t) r) r ts) = rr_session r"
  "rr_round (foldl (\<lambda>r t. enqueue_wake (f t) r) r ts) = rr_round r"
  "rr_hop (foldl (\<lambda>r t. enqueue_wake (f t) r) r ts) = rr_hop r"
  by (induction ts arbitrary: r) (auto simp: enqueue_wake_def Let_def)

lemma complete_slot_inv:
  assumes "room_inv st" "complete_slot env ctx cancel s message r st = (res, r', st')"
  shows "room_inv st'" "rr_session r' = rr_session r" "rr_round r' = rr_round r" "rr_hop r' = rr_hop r"
    "set (running_round_ids (runtime (service st)) key) \<subseteq> set (running_round_ids (runtime (service st')) key)"
proof -
  have wake: "room_inv t"
      "set (running_round_ids (runtime (service st)) key) \<subseteq> set (running_round_ids (runtime (service t)) key)"
    if "run_directed_wake env ctx cancel owner m st = (x, t)" for owner m x t key
    using directed_wake_inv[OF assms(1), of env ctx cancel owner m]
      running_directed[of st key env ctx cancel owner m] that by simp_all
  have same: "rr_session (collect_wakes ctx s message r) = rr_session r"
    "rr_round (collect_wakes ctx s message r) = rr_round r" "rr_hop (collect_wakes ctx s message r) = rr_hop r"
    by (simp_all add: collect_wakes_def Let_def enqueue_wakes_keep)
  show "rr_session r' = rr_session r" "rr_round r' = rr_round r" "rr_hop r' = rr_hop r"
    using assms(2) same by (auto simp: complete_slot_def Let_def split: if_splits option.splits prod.splits sum.splits bool.splits)
  show "room_inv st'"
    using assms wake(1) by (auto simp: complete_slot_def Let_def split: if_splits option.splits prod.splits sum.splits bool.splits)
  show "set (running_round_ids (runtime (service st)) key) \<subseteq> set (running_round_ids (runtime (service st')) key)"
    using assms(2) wake(2)[of _ _ _ _ key]
    by (auto simp: complete_slot_def Let_def split: if_splits option.splits prod.splits sum.splits bool.splits)
qed

lemma put_round_inv:
  "room_inv st \<Longrightarrow> round_ok (runtime (service st)) (k, rr_session r, rr_round r, rr_hop r) \<Longrightarrow> room_inv (put_round k r st)"
  using registry_put[of st k r] by (simp add: room_inv_def) (simp add: put_round_def)

lemma complete_round_inv:
  assumes "room_inv st"
  shows "room_inv (complete_round env ctx cancel k st)"
proof (cases "map_of (active_rounds (service st)) k")
  case (Some r)
  then have "(k, r) \<in> set (active_rounds (service st))" by (rule map_of_SomeD)
  then have "room_inv (st\<lparr>service := finish_round (service st) r\<rparr>)"
    using assms registry_finish[of "service st" k r] by (simp add: room_inv_def)
  then show ?thesis using Some by (simp add: complete_round_def Let_def start_queued_inv)
qed (use assms in \<open>simp add: complete_round_def\<close>)

lemma run_round_slot_inv:
  assumes "room_inv st"
  shows "room_inv (run_round_slot env ctx cancel k msg rn st)"
proof (cases "\<exists>r s. map_of (active_rounds (service st)) k = Some r \<and> map_of (rr_slots r) msg = Some s")
  case False
  then have "run_round_slot env ctx cancel k msg rn st = st"
    by (auto simp: run_round_slot_def split: option.split)
  with assms show ?thesis by simp
next
  case True
  then obtain r s where r: "map_of (active_rounds (service st)) k = Some r" and s: "map_of (rr_slots r) msg = Some s" by blast
  have ok: "round_ok (runtime (service st)) (k, rr_session r, rr_round r, rr_hop r)"
    using assms map_of_SomeD[OF r] by (auto simp: room_inv_def registry_iff)
  obtain after completed where e: "run_round_slot env ctx cancel k msg rn st =
      (let ((b, _), r', st') = (if completed then complete_slot env ctx cancel after (run_message rn) r st else ((True, None), r, st));
           final = snd (run_slot (run_configured rn) (run_prepared rn) (run_calls rn) (run_end rn) (b \<and> run_recorded rn) s)
       in put_round k (r'\<lparr>rr_slots := AList.update msg final (rr_slots r')\<rparr>) st')"
    by (simp add: run_round_slot_def r s Let_def)
  obtain b m r' st' where c: "(if completed then complete_slot env ctx cancel after (run_message rn) r st
      else ((True, None), r, st)) = ((b, m), r', st')"
    by (metis prod.collapse)
  have "room_inv st' \<and> round_ok (runtime (service st')) (k, rr_session r', rr_round r', rr_hop r')"
  proof (cases completed)
    case True
    with c have c: "complete_slot env ctx cancel after (run_message rn) r st = ((b, m), r', st')" by simp
    show ?thesis using complete_slot_inv(1-4)[OF assms c] round_ok_mono[OF ok complete_slot_inv(5)[OF assms c]] by simp
  qed (use c assms ok in auto)
  then show ?thesis by (simp add: e c put_round_inv)
qed

section \<open>Every reachable state\<close>

lemma log_rows_empty [simp]: "log_rows Map.empty path = []"
  by (simp add: log_rows_def read_jsonl_def)

lemma room_step_inv: "room_inv st \<Longrightarrow> room_inv (room_step st ev)"
  using registry_of_skeleton[OF _ skeleton_handle_interrupt]
  by (cases ev; cases "snd ev")
    (auto simp: room_step_def handle_chat_inv handle_input_queue_inv dispatch_next_inv run_round_slot_inv
      complete_round_inv public_wakes_inv directed_wake_inv)

lemma room_inv_empty: "room_inv empty_room"
  by (simp add: room_inv_def empty_room_def registry_iff hops_ok_def log_rows_empty)

interpretation rooms: machine room_step room_inv empty_room
  by unfold_locales (simp_all add: room_step_inv room_inv_empty)

section \<open>Sample requests\<close>

definition sample_chat :: "string \<Rightarrow> string \<Rightarrow> chat_request" where
  "sample_chat round_id content =
     \<lparr>cq_session = ''room:group:c1'', cq_room = [], cq_conversation = [], cq_attach_agent = [],
      cq_content = content, cq_attachments = [], cq_targets = [''b''], cq_round = round_id, cq_req = round_id,
      cq_policy = ''queue''\<rparr>"

definition sample_events :: "(room_env \<times> room_event) list" where
  "sample_events = [(sample_env, UserChat 7 ''u'' (sample_chat ''m1'' ''hi'')),
                    (sample_env, UserChat 8 ''u'' (sample_chat ''m2'' ''more''))]"

text \<open>After the first message agent b runs; the second waits in the queue of b.\<close>

definition running_room :: "nat room_state" where
  "running_room = snd (handle_chat sample_env 7 ''u'' (sample_chat ''m1'' ''hi'') empty_room)"

definition queued_room :: "nat room_state" where
  "queued_room = snd (handle_chat sample_env 8 ''u'' (sample_chat ''m2'' ''more'') running_room)"

lemma queued_room_reached: "run room_step empty_room sample_events = queued_room"
  by (simp add: sample_events_def room_step_def running_room_def queued_room_def)

abbreviation b_location :: queue_location where
  "b_location \<equiv> agent_location sample_context ''b'' ''/wb''"

lemma queued_room_item:
  "\<exists>i. snapshot (queues queued_room) b_location 9 = Inr [i] \<and> iq_content i = ''more''"
proof -
  have "case snapshot (queues queued_room) b_location 9 of Inr [i] \<Rightarrow> iq_content i = ''more'' | _ \<Rightarrow> False"
    by code_simp
  then show ?thesis by (auto split: sum.splits list.splits)
qed

section \<open>Properties\<close>

text \<open>C20. Whatever requests, replies, dispatches and ends of rounds arrive, in whatever order: the registry
  has no key twice, every round is stored under the key of its session and its round id, has gone
  through at most \<open>roomMaxWakeHops\<close> wakes, and is one of the rounds that the
  runtime manager runs for the session, so that it can be interrupted.\<close>
theorem rooms_consistent:
  "let st = run room_step empty_room evs in
     distinct (map fst (active_rounds (service st))) \<and>
     list_all (\<lambda>(k, r). k = active_round_key (rr_session r) (rr_round r) \<and> rr_hop r \<le> max_wake_hops \<and>
         rr_round r \<in> set (running_round_ids (runtime (service st)) (rr_session r)))
       (active_rounds (service st))"
  using rooms.inv_reachable[of evs] by (auto simp: room_inv_def registry_iff round_ok_def list_all_iff Let_def)

theorem rooms_consistent_witness:
  "let st = run room_step (empty_room :: nat room_state) sample_events in
     active_rounds (service st) \<noteq> [] \<and>
     list_all (\<lambda>(k, r). rr_round r \<in> set (running_round_ids (runtime (service st)) (rr_session r)))
       (active_rounds (service st))"
proof -
  have "active_rounds (service queued_room) \<noteq> []" by code_simp
  then show ?thesis
    using rooms_consistent[of sample_events, where 'a = nat]
    by (auto simp: queued_room_reached Let_def list_all_iff)
qed

text \<open>C21. In a reachable state every item that waits in a queue can still wake an agent: whatever is read
  back from a queue file has gone through fewer than \<open>roomMaxWakeHops\<close> wakes,
  since the hops of an item survive the encoding, the replay and every update of the log.\<close>
theorem queued_hops_bounded:
  assumes "snapshot (queues (run room_step empty_room evs)) loc now = Inr q" "i \<in> set q"
  shows "iq_hop i < max_wake_hops"
  using rooms.inv_reachable[of evs] snapshot_hops[OF _ assms] by (auto simp: room_inv_def)

theorem queued_hops_bounded_witness:
  "\<exists>i. snapshot (queues (run room_step (empty_room :: nat room_state) sample_events)) b_location 9 = Inr [i] \<and>
     iq_hop i < 16"
proof -
  obtain i where "snapshot (queues queued_room) b_location 9 = Inr [i]" using queued_room_item by blast
  then have i: "snapshot (queues (run room_step (empty_room :: nat room_state) sample_events)) b_location 9 = Inr [i]"
    by (simp add: queued_room_reached)
  with queued_hops_bounded[OF i] show ?thesis by (simp add: max_wake_hops_def)
qed

section \<open>Dispatching\<close>

lemma find_first: "find P xs = Some x \<Longrightarrow> \<exists>ys zs. xs = ys @ x # zs \<and> P x \<and> (\<forall>y \<in> set ys. \<not> P y)"
proof (induction xs)
  case (Cons a xs)
  show ?case
  proof (cases "P a")
    case True
    with Cons.prems have "a # xs = [] @ x # xs \<and> P x \<and> (\<forall>y \<in> set []. \<not> P y)" by simp
    then show ?thesis by blast
  next
    case False
    then obtain ys zs where "xs = ys @ x # zs" "P x" "\<forall>y \<in> set ys. \<not> P y" using Cons by auto
    then have "a # xs = (a # ys) @ x # zs \<and> P x \<and> (\<forall>y \<in> set (a # ys). \<not> P y)" using False by simp
    then show ?thesis by blast
  qed
qed simp

lemma queue_entriesE:
  assumes "queue_entries get fs ctx now = Inr es"
  obtains locs es' where "entries_at fs now locs = Inr es'" "es = sort_entries es'"
proof -
  obtain locs where l: "queue_locations get ctx = Inr locs"
    using assms by (auto simp: queue_entries_def split: sum.splits)
  then show ?thesis using that assms by (cases "entries_at fs now locs") (auto simp: queue_entries_def)
qed

lemma sort_entries_sorted: "sorted (map (\<lambda>e. iq_order (fst e)) (sort_entries es))"
  by (simp add: sort_entries_def)

lemma dispatch_nextE:
  assumes "dispatch_next_entry env cancel key room conversation st = (Some ((item, loc), ok), st')"
  obtains ctx es q fs res t where "env_context env (trim_space conversation) = Inr ctx"
    and "queue_entries (env_agent env) (queues st) ctx (env_now env) = Inr es"
    and "find_dispatchable (service st) key conversation es = Some (item, loc)"
    and "dispatch_item (queues st) loc (iq_id item) (env_now env) = Inr (q, fs)"
    and "run_queue_item env cancel key room conversation item (st\<lparr>queues := fs\<rparr>) = (res, t)"
    and "ok = (case res of Inl _ \<Rightarrow> False | Inr _ \<Rightarrow> True)"
    and "st' = (if ok then t else
           (case enqueue (queues t) loc item (env_now env) (env_item_id env 0) of
              Inl _ \<Rightarrow> t | Inr (_, fs') \<Rightarrow> t\<lparr>queues := fs'\<rparr>))"
proof -
  note d = assms[unfolded dispatch_next_entry_def]
  from d have key: "trim_space key \<noteq> []" by (auto split: if_splits)
  from d obtain ctx where ctx: "env_context env (trim_space conversation) = Inr ctx"
    by (cases "env_context env (trim_space conversation)") (auto split: if_splits)
  note d = d[simplified key ctx, simplified]
  from d obtain es where es: "queue_entries (env_agent env) (queues st) ctx (env_now env) = Inr es"
    by (cases "queue_entries (env_agent env) (queues st) ctx (env_now env)") auto
  note d = d[simplified es, simplified]
  from d obtain i l where found: "find_dispatchable (service st) key conversation es = Some (i, l)"
    by (cases "find_dispatchable (service st) key conversation es") auto
  note d = d[simplified found, simplified]
  from d obtain q fs where taken: "dispatch_item (queues st) l (iq_id i) (env_now env) = Inr (q, fs)"
    by (cases "dispatch_item (queues st) l (iq_id i) (env_now env)") auto
  note d = d[simplified taken, simplified]
  obtain res t where ran: "run_queue_item env cancel key room conversation i (st\<lparr>queues := fs\<rparr>) = (res, t)"
    by fastforce
  note d = d[simplified ran, simplified]
  have same: "i = item" "l = loc" using d by (auto split: sum.splits prod.splits)
  have "ok = (case res of Inl _ \<Rightarrow> False | Inr _ \<Rightarrow> True)" using d by (cases res) (auto split: sum.splits)
  moreover have "st' = (if ok then t else
           (case enqueue (queues t) loc item (env_now env) (env_item_id env 0) of
              Inl _ \<Rightarrow> t | Inr (_, fs') \<Rightarrow> t\<lparr>queues := fs'\<rparr>))"
    using d by (cases res) (auto split: sum.splits)
  ultimately show ?thesis
    using that[OF ctx es found[unfolded same] taken[unfolded same] ran[unfolded same]] by blast
qed

lemma busy_targets:
  assumes "find_active_delivery_slots svc key conv (target_agents i) \<noteq> []"
  shows "\<exists>a \<in> set (target_agents i). busy_agent svc key conv a"
proof -
  obtain a s where "(a, s) \<in> set (find_active_delivery_slots svc key conv (target_agents i))"
    using assms by (cases "find_active_delivery_slots svc key conv (target_agents i)") auto
  then have "a \<in> trim_space ` set (target_agents i)" "busy_agent svc key conv a"
    using find_active_busy[of a svc key conv "target_agents i"] by force+
  then show ?thesis by (auto simp: set_target_agents)
qed

text \<open>C22. The next item is the first in the order of the conversation that can run now: every item before
  it either waits as guidance of a running agent or has a target that is busy (an item without a
  target waits for all rounds of the session). The order is that of the items' positions over the
  queues of all agents.\<close>
theorem dispatch_takes_first_ready:
  assumes "dispatch_next_entry env cancel key room conversation st = (Some ((item, loc), ok), st')"
  shows "\<exists>ctx before after. env_context env (trim_space conversation) = Inr ctx \<and>
    queue_entries (env_agent env) (queues st) ctx (env_now env) = Inr (before @ (item, loc) # after) \<and>
    sorted (map (\<lambda>e. iq_order (fst e)) (before @ (item, loc) # after)) \<and>
    can_dispatch (service st) key conversation item \<and>
    (\<forall>(i, l) \<in> set before. should_guide_running_round (iq_policy i) \<or>
       (if target_agents i = [] then running_round_ids (runtime (service st)) key \<noteq> []
        else \<exists>a \<in> set (target_agents i). busy_agent (service st) key conversation a))"
  using assms
proof (rule dispatch_nextE)
  fix ctx es
  assume ctx: "env_context env (trim_space conversation) = Inr ctx"
    and es: "queue_entries (env_agent env) (queues st) ctx (env_now env) = Inr es"
    and found: "find_dispatchable (service st) key conversation es = Some (item, loc)"
  obtain before after where s: "es = before @ (item, loc) # after" "can_dispatch (service st) key conversation item"
    "\<forall>e \<in> set before. should_guide_running_round (iq_policy (fst e)) \<or> \<not> can_dispatch (service st) key conversation (fst e)"
    using find_first[OF found[unfolded find_dispatchable_def]] by auto
  have "\<forall>(i, l) \<in> set before. should_guide_running_round (iq_policy i) \<or>
       (if target_agents i = [] then running_round_ids (runtime (service st)) key \<noteq> []
        else \<exists>a \<in> set (target_agents i). busy_agent (service st) key conversation a)"
    using s(3) busy_targets[of "service st" key conversation] by (fastforce simp: can_dispatch_def split: if_splits)
  moreover have "sorted (map (\<lambda>e. iq_order (fst e)) es)"
  proof -
    obtain locs es' where "entries_at (queues st) (env_now env) locs = Inr es'" "es = sort_entries es'"
      using es by (rule queue_entriesE)
    then show ?thesis by (simp add: sort_entries_sorted)
  qed
  ultimately show ?thesis using ctx es s by blast
qed

lemma queue_entries_item:
  assumes "queue_entries get fs ctx now = Inr es" "(i, loc) \<in> set es"
  shows "\<exists>q. snapshot fs loc now = Inr q \<and> i \<in> set q"
proof -
  have "\<exists>q. snapshot fs loc now = Inr q \<and> i \<in> set q"
    if "entries_at fs now locs = Inr es'" "(i, loc) \<in> set es'" for locs es'
    using that by (induction locs arbitrary: es') (auto split: sum.splits)
  moreover obtain locs es' where "entries_at fs now locs = Inr es'" "es = sort_entries es'"
    using assms(1) by (rule queue_entriesE)
  ultimately show ?thesis using assms(2) by (auto simp: set_sort_entries)
qed

lemma prepare_normal:
  assumes "normal_item loc i" "iq_id i \<noteq> []"
  shows "prepare_item loc i now new_id = i\<lparr>iq_updated := now\<rparr>"
  using assms normal_item_created[OF assms(1)] by (simp add: prepare_item_def normal_item_def)

lemma q_put_mem: "i \<in> set (q_put i q)"
  by (auto simp: q_put_def)

text \<open>C23. An item whose dispatch fails is not lost: it is taken out of its queue, and when it cannot be run it
  is put back with its identifier, content, targets, position and hops; only the time of the last
  update changes.\<close>
theorem failed_dispatch_restores:
  assumes "dispatch_next_entry env cancel key room conversation st = (Some ((item, loc), False), st')"
    "0 < env_now env" "trimmed (env_item_id env 0)" "env_item_id env 0 \<noteq> []"
    "has_chat_input (iq_content item) (iq_attachments item)" "wf_route (iq_route item)"
  shows "\<exists>q. snapshot (queues st') loc (env_now env) = Inr q \<and> item\<lparr>iq_updated := env_now env\<rparr> \<in> set q"
  using assms(1)
proof (rule dispatch_nextE)
  fix ctx es q fs res t
  assume es: "queue_entries (env_agent env) (queues st) ctx (env_now env) = Inr es"
    and found: "find_dispatchable (service st) key conversation es = Some (item, loc)"
    and st': "st' = (if False then t else
           (case enqueue (queues t) loc item (env_now env) (env_item_id env 0) of
              Inl _ \<Rightarrow> t | Inr (_, fs') \<Rightarrow> t\<lparr>queues := fs'\<rparr>))"
  obtain q0 where q0: "snapshot (queues st) loc (env_now env) = Inr q0" "item \<in> set q0"
    using queue_entries_item[OF es find_dispatchable_mem[OF found]] by blast
  obtain path where p: "path_for_location loc = Inr path"
    "replay_inv loc (store_state (queues st) loc (env_now env) path)"
    "view (store_state (queues st) loc (env_now env) path) = q0"
    using q0(1) assms(2) by (rule snapshotE)
  have normal: "normal_item loc item" "iq_id item \<noteq> []"
    using view_item[OF p(2)] q0(2) p(3) by simp_all
  have "wf_route (normalize_reply_route (iq_route item))"
    using assms(6) iq_route_normalize[of loc item 1] normal(1) by (simp add: normal_item_def)
  then have "\<exists>fs' q. enqueue (queues t) loc item (env_now env) (env_item_id env 0) = Inr (q, fs') \<and>
      snapshot fs' loc (env_now env) = Inr q \<and> item\<lparr>iq_updated := env_now env\<rparr> \<in> set q"
    using enqueue_spec[OF snapshot_eq[OF p(1), of "queues t"] assms(2-5)]
    by (auto simp: prepare_normal[OF normal] q_put_mem)
  then show ?thesis using st' by auto
qed

section \<open>Sample dispatches\<close>

definition enqueue_request :: "string \<Rightarrow> queue_request" where
  "enqueue_request content =
     \<lparr>qr_session = ''room:group:c1'', qr_room = [], qr_conversation = [], qr_action = ''enqueue'', qr_item = [],
      qr_content = content, qr_attachments = [], qr_ordered = [], qr_policy = ''queue''\<rparr>"

definition waiting_room :: "nat room_state" where
  "waiting_room = snd (queue_enqueue sample_env ''u'' (enqueue_request ''@Bob hi'') sample_context empty_room)"

abbreviation dispatch_sample :: "room_env \<Rightarrow> (queue_entry \<times> bool) option \<times> nat room_state" where
  "dispatch_sample env \<equiv> dispatch_next_entry env 7 ''room:group:c1'' ''r1'' ''c1'' waiting_room"

definition failing_env :: room_env where
  "failing_env = sample_env\<lparr>env_history := Inl ''io''\<rparr>"

theorem dispatch_takes_first_ready_witness:
  "\<exists>item loc st'. dispatch_sample sample_env = (Some ((item, loc), True), st') \<and>
     can_dispatch (service waiting_room) ''room:group:c1'' ''c1'' item"
proof -
  have "case fst (dispatch_sample sample_env) of Some ((i, l), True) \<Rightarrow> True | _ \<Rightarrow> False" by code_simp
  then obtain item loc st' where e: "dispatch_sample sample_env = (Some ((item, loc), True), st')"
    by (cases "dispatch_sample sample_env") (auto split: option.splits prod.splits bool.splits)
  from dispatch_takes_first_ready[OF e] e show ?thesis by blast
qed

theorem failed_dispatch_restores_witness:
  "\<exists>item loc st' q. dispatch_sample failing_env = (Some ((item, loc), False), st') \<and>
     snapshot (queues st') loc 9 = Inr q \<and> item\<lparr>iq_updated := 9\<rparr> \<in> set q"
proof -
  have "case fst (dispatch_sample failing_env) of
      Some ((i, l), False) \<Rightarrow> has_chat_input (iq_content i) (iq_attachments i) \<and> wf_route (iq_route i) | _ \<Rightarrow> False"
    by code_simp
  then obtain item loc st' where e: "dispatch_sample failing_env = (Some ((item, loc), False), st')"
    "has_chat_input (iq_content item) (iq_attachments item)" "wf_route (iq_route item)"
    by (cases "dispatch_sample failing_env") (auto split: option.splits prod.splits bool.splits)
  have "env_now failing_env = 9" "0 < env_now failing_env" "trimmed (env_item_id failing_env 0)" "env_item_id failing_env 0 \<noteq> []"
    by code_simp+
  with failed_dispatch_restores[OF e(1) _ _ _ e(2,3)] e(1) show ?thesis by auto
qed

section \<open>Two requests the queue does not keep\<close>

definition display_context :: room_context where
  "display_context = sample_context
     \<lparr>rc_host_reply := False,
      rc_agents := [\<lparr>ma_id = ''a'', ma_name = ''Amy'', ma_display = [], ma_workspace = ''/wa''\<rparr>,
                    \<lparr>ma_id = ''b'', ma_name = ''Bob'', ma_display = ''Bobby'', ma_workspace = ''/wb''\<rparr>]\<rparr>"

definition display_env :: room_env where
  "display_env = sample_env\<lparr>env_context := (\<lambda>c. Inr display_context)\<rparr>"

definition addressed_room :: "nat room_state" where
  "addressed_room = snd (queue_enqueue display_env ''u'' (enqueue_request ''@Bobby hi'') display_context empty_room)"

definition dispatched_room :: "(queue_entry \<times> bool) option \<times> nat room_state" where
  "dispatched_room = dispatch_next_entry display_env 7 ''room:group:c1'' ''r1'' ''c1'' addressed_room"

text \<open>A queued message can be lost on the way to its agent: the queue resolves mentions with the display
  names of the agents, the later dispatch with their names only. A message to the display name of
  an agent is accepted for that agent, is dispatched when the agent is idle, and then reaches
  nobody: no round starts, the queue is empty, and the room shows the hint for messages that
  address no member.\<close>

lemma queued_display_name_lost:
  "fst (queue_enqueue display_env ''u'' (enqueue_request ''@Bobby hi'') display_context (empty_room :: nat room_state)) = None \<and>
   (case fst dispatched_room of Some ((i, l), ok) \<Rightarrow> ok \<and> target_agents i = [''b''] | None \<Rightarrow> False) \<and>
   active_rounds (service (snd dispatched_room)) = [] \<and>
   (case queue_entries (env_agent display_env) (queues (snd dispatched_room)) display_context 9 of
      Inr es \<Rightarrow> es = [] | Inl e \<Rightarrow> False) \<and>
   map (\<lambda>m. field m ''role'') (shared (snd dispatched_room) ''c1'') = [AStr ''user'', AStr ''result'']"
proof (intro conjI)
  show "fst (queue_enqueue display_env ''u'' (enqueue_request ''@Bobby hi'') display_context (empty_room :: nat room_state)) = None"
    by code_simp
  show "case fst dispatched_room of Some ((i, l), ok) \<Rightarrow> ok \<and> target_agents i = [''b''] | None \<Rightarrow> False"
    by code_simp
  show "active_rounds (service (snd dispatched_room)) = []"
    by code_simp
  show "case queue_entries (env_agent display_env) (queues (snd dispatched_room)) display_context 9 of
      Inr es \<Rightarrow> es = [] | Inl e \<Rightarrow> False"
    by code_simp
  show "map (\<lambda>m. field m ''role'') (shared (snd dispatched_room) ''c1'') = [AStr ''user'', AStr ''result'']"
    by code_simp
qed

section \<open>Reordering over several queues\<close>

lemma apply_order_other: "k \<notin> trim_space ` set ks \<Longrightarrow> apply_order items ks stamp k = items k"
  by (induction items ks stamp rule: apply_order.induct) (auto simp: Let_def split: option.splits)

lemma apply_order_position:
  "distinct ks \<Longrightarrow> \<forall>k \<in> set ks. trimmed k \<and> k \<noteq> [] \<Longrightarrow> j < length ks \<Longrightarrow> items (ks ! j) = Some i \<Longrightarrow>
   map_option iq_order (apply_order items ks stamp (ks ! j)) = Some (stamp + int j)"
proof (induction items ks stamp arbitrary: j i rule: apply_order.induct)
  case (2 items k ks stamp)
  have t: "trim_space k = k" and rest: "\<forall>k \<in> set ks. trimmed k \<and> k \<noteq> []" "distinct ks"
    using 2(2,3) by (auto simp: trimmed_def)
  have notin: "k \<notin> trim_space ` set ks" using 2(2) rest by (auto simp: trimmed_def)
  let ?items = "case items (trim_space k) of None \<Rightarrow> items
      | Some item \<Rightarrow> if trim_space k = [] then items else items(trim_space k \<mapsto> item\<lparr>iq_order := stamp, iq_updated := stamp\<rparr>)"
  have step: "apply_order items (k # ks) stamp = apply_order ?items ks (stamp + 1)" by (simp add: Let_def)
  show ?case
  proof (cases j)
    case 0
    then have "?items k = Some (i\<lparr>iq_order := stamp, iq_updated := stamp\<rparr>)"
      using 2(3,5) t by simp
    then show ?thesis unfolding step using 0 apply_order_other[OF notin] by simp
  next
    case (Suc m)
    then have m: "m < length ks" "items (ks ! m) = Some i" using 2(4,5) by auto
    have "ks ! m \<noteq> k" using m(1) 2(2) nth_mem[OF m(1)] by auto
    then have "?items (ks ! m) = Some i" using m(2) t by (auto split: option.split)
    from "2.IH"[OF refl rest(2,1) m(1)] this t show ?thesis unfolding step by (simp add: Suc add.assoc)
  qed
qed simp

lemma reorder_position:
  assumes "reorder_queue fs loc ordered now = Inr (q, fs')" "0 < now" "i \<in> set q"
    "j < length (trim_unique ordered)" "iq_id i = trim_unique ordered ! j"
  shows "iq_order i = now + int j"
proof -
  obtain path where p: "path_for_location loc = Inr path"
    using assms(1) by (auto simp: reorder_queue_def append_then_snapshot_def append_action_def split: sum.splits)
  let ?st = "store_state fs loc now path" and ?ks = "trim_unique ordered"
  have inv: "replay_inv loc ?st" using replay_inv_log[OF assms(2)] by (simp add: store_state_def)
  have "q = view (replay_reorder now ?st ?ks)"
    using assms(1) append_then_snapshot_eq[OF p good_rows(3)[of ?ks now], of fs now] assms(2)
    by (simp add: reorder_queue_def replay_reorder_row trim_unique_wf)
  then have i: "apply_order (rs_items ?st) ?ks now (iq_id i) = Some i"
    using assms(3) view_mem[OF replay_inv_reorder[OF inv assms(2)]] by (simp add: replay_reorder_def)
  then have "iq_id i \<in> dom (rs_items ?st)" by (metis dom_apply_order domI)
  then obtain i' where "rs_items ?st (?ks ! j) = Some i'" using assms(5) by auto
  from apply_order_position[of ?ks j "rs_items ?st" i' now, OF distinct_trim_unique trim_unique_wf assms(4) this] i assms(5)
  show ?thesis by simp
qed

text \<open>A requested order may not be the order that results: each queue of the conversation is reordered with
  the time at which it is its turn, and an item gets that time plus its place in the request. Over
  two queues the item that was asked for first comes after the other one as soon as the clock moves
  on by more than the distance of their places between the two queues.\<close>

lemma reorder_compares_clocks:
  assumes "reorder_queue fs loc ordered t = Inr (q, fs')" "reorder_queue fs' loc' ordered t' = Inr (q', fs'')"
    "0 < t" "0 < t'" "i \<in> set q" "i' \<in> set q'"
    "j < length (trim_unique ordered)" "iq_id i = trim_unique ordered ! j"
    "j' < length (trim_unique ordered)" "iq_id i' = trim_unique ordered ! j'"
  shows "iq_order i < iq_order i' \<longleftrightarrow> t + int j < t' + int j'"
  using reorder_position[OF assms(1,3,5,7,8)] reorder_position[OF assms(2,4,6,9,10)] by simp

text \<open>The queue of \<open>QueueStore\<close> in two workspaces.\<close>

definition other_location :: queue_location where
  "other_location = sample_location\<lparr>loc_workspace := ''/w2''\<rparr>"

definition two_files :: files where
  "two_files = sample_files(session_input_queue_path ''/w2'' ''room:group:c1'' := Some sample_rows)"

lemma two_paths:
  "path_for_location other_location = Inr (session_input_queue_path ''/w2'' ''room:group:c1'')"
  "session_input_queue_path ''/w2'' ''room:group:c1'' \<noteq> session_input_queue_path ''/w'' ''room:group:c1''"
proof -
  have "trimmed ''/w2''" "trimmed ''room:group:c1''" by code_simp+
  then show "path_for_location other_location = Inr (session_input_queue_path ''/w2'' ''room:group:c1'')"
    by (simp add: path_for_location_def other_location_def sample_location_def)
  show "session_input_queue_path ''/w2'' ''room:group:c1'' \<noteq> session_input_queue_path ''/w'' ''room:group:c1''"
    by code_simp
qed

lemma two_snapshots:
  "snapshot two_files sample_location 9 = Inr sample_queue" "snapshot two_files other_location 11 = Inr sample_queue"
proof -
  have rows: "filter is_map (map (\<lambda>r. normalize_decoded (decoded r)) sample_rows) = sample_rows"
    using good_rows(1) by (simp add: sample_rows_def good_row_def normalize_decoded_canonical)
  have "replay_rows other_location 11 sample_rows = sample_queue" by code_simp
  then show "snapshot two_files other_location 11 = Inr sample_queue"
    using rows by (simp add: snapshot_def two_paths read_jsonl_def two_files_def)
  show "snapshot two_files sample_location 9 = Inr sample_queue"
    using sample_snapshot two_paths(2) by (simp add: snapshot_def sample_path read_jsonl_def two_files_def)
qed

lemma reorder_compares_clocks_witness:
  "\<exists>q q' fs' fs'' i i'. reorder_queue two_files sample_location [''c'', ''a''] 9 = Inr (q, fs') \<and>
     reorder_queue fs' other_location [''c'', ''a''] 11 = Inr (q', fs'') \<and>
     i \<in> set q \<and> iq_id i = ''a'' \<and> i' \<in> set q' \<and> iq_id i' = ''c'' \<and> iq_order i < iq_order i'"
proof -
  have ks: "trim_unique [''c'', ''a''] = [''c'', ''a'']" by code_simp
  have ids: "iq_id ` set sample_queue = {''a'', ''b'', ''c''}" by (simp add: sample_queue_def sample_item_def)
  obtain q fs' where q: "reorder_queue two_files sample_location [''c'', ''a''] 9 = Inr (q, fs')"
    "map iq_id q = filter (\<lambda>k. k \<in> iq_id ` set sample_queue) [''c'', ''a''] @
       filter (\<lambda>k. k \<notin> set [''c'', ''a'']) (map iq_id sample_queue)"
    using reorder_spec[OF two_snapshots(1), of "[''c'', ''a'']"] unfolding ks by auto
  have "snapshot fs' other_location 11 = Inr sample_queue"
    using append_then_snapshot_isolated[OF q(1)[unfolded reorder_queue_def] sample_path two_paths(1) two_paths(2)[symmetric], of 11]
      two_snapshots(2) by simp
  then obtain q' fs'' where q': "reorder_queue fs' other_location [''c'', ''a''] 11 = Inr (q', fs'')"
    "map iq_id q' = filter (\<lambda>k. k \<in> iq_id ` set sample_queue) [''c'', ''a''] @
       filter (\<lambda>k. k \<notin> set [''c'', ''a'']) (map iq_id sample_queue)"
    using reorder_spec[of fs' other_location 11 sample_queue "[''c'', ''a'']"] unfolding ks by auto
  have "''a'' \<in> set (map iq_id q)" "''c'' \<in> set (map iq_id q')" unfolding q(2) q'(2) ids by simp_all
  then obtain i i' where i: "i \<in> set q" "iq_id i = ''a''" "i' \<in> set q'" "iq_id i' = ''c''" by auto
  have "iq_order i < iq_order i'"
    using reorder_compares_clocks[OF q(1) q'(1) _ _ i(1,3), of 1 0] i(2,4) unfolding ks by simp
  with q(1) q'(1) i show ?thesis by blast
qed

end
