(* ===== verification/RoomPolicy.thy ===== *)
theory RoomPolicy
  imports RoomInvariant
begin

text \<open>
  What the delivery policies of a message promise (\<open>HandleChat\<close> of
  \<open>service/room/chat.go\<close>): with \<open>queue\<close>, \<open>auto\<close> and \<open>guide\<close> an agent
  that runs is never started a second time; with \<open>interrupt\<close> the slots of the targets are
  stopped first. Every accepted message is in the shared history once.
\<close>

section \<open>Whom a message starts\<close>

lemma enqueue_for_slots_handled:
  "fst (enqueue_for_slots env rq room conv owner atts n running fs) = Inr handled \<Longrightarrow> handled = map fst running"
proof (induction env rq room conv owner atts n running fs arbitrary: handled rule: enqueue_for_slots.induct)
  case (2 env rq room conv owner atts n agent s rest fs)
  let ?e = "enqueue fs (slot_location s room conv) (chat_item rq room conv owner atts agent s) (env_now env) (env_item_id env n)"
  obtain q fs' where e: "?e = Inr (q, fs')" using "2.prems" by (cases ?e) (auto split: prod.splits)
  obtain res t where r: "enqueue_for_slots env rq room conv owner atts (Suc n) rest fs' = (res, t)" by fastforce
  obtain hs where "res = Inr hs" "handled = agent # hs"
    using "2.prems" e r by (cases res) auto
  with 2(1)[OF e refl, of hs] r show ?case by simp
qed simp

lemma guide_slots_handled:
  "fst (guide_slots env key content r running svc) = Inr handled \<Longrightarrow> handled = map fst running"
proof (induction env key content r running svc arbitrary: handled rule: guide_slots.induct)
  case (2 env key content r agent s rest svc)
  let ?svc = "update_slot key (sl_msg s) (enqueue_guided_input r (env_guide_text env agent content)) svc"
  obtain a where a: "env_agent env agent = Inr a" using "2.prems" by (cases "env_agent env agent") auto
  obtain res t where g: "guide_slots env key content r rest ?svc = (res, t)" by fastforce
  obtain hs where "res = Inr hs" "handled = agent # hs"
    using "2.prems" a g by (cases res) auto
  with 2(1)[OF a, of hs] g show ?case by simp
qed simp

lemma deliver_running_left:
  assumes "deliver_running env rq ctx policy owner key room conv content atts targets st = (Inr left, st')"
    "should_queue_running_round policy \<or> should_guide_running_round policy"
  shows "left = filter_handled targets (map fst (find_active_delivery_slots (service st) key conv targets))"
proof -
  let ?running = "find_active_delivery_slots (service st) key conv targets"
  show ?thesis
  proof (cases "should_queue_running_round policy")
    case True
    obtain res fs where e: "enqueue_for_slots env rq room conv owner atts 0 ?running (queues st) = (res, fs)" by fastforce
    show ?thesis
      using assms(1) True e enqueue_for_slots_handled[of env rq room conv owner atts 0 ?running "queues st"]
      by (auto simp: deliver_running_def Let_def filter_handled_def split: sum.splits if_splits)
  next
    case False
    then have g: "should_guide_running_round policy" using assms(2) by auto
    obtain res svc where e: "guide_slots env key content (cq_round rq) ?running (service st) = (res, svc)" by fastforce
    show ?thesis
      using assms(1) False g e guide_slots_handled[of env key content "cq_round rq" ?running "service st"]
      by (auto simp: deliver_running_def Let_def split: sum.splits)
  qed
qed

lemma filter_handled_idle:
  assumes "a \<in> set (filter_handled targets (map fst (find_active_delivery_slots svc key conv targets)))" "trimmed a" "a \<noteq> []"
  shows "\<not> busy_agent svc key conv a"
  using find_active_busy[of a svc key conv targets] assms by (auto simp: trimmed_def image_iff filter_handled_def)

lemma foldl_keeps:
  "(\<And>acc x. x \<in> set xs \<Longrightarrow> P acc \<Longrightarrow> P (f acc x)) \<Longrightarrow> P acc \<Longrightarrow> P (foldl f acc xs)"
  by (induction xs arbitrary: acc) auto

lemma chat_slots_targets:
  assumes "s \<in> snd ` set (chat_slots env rq ctx directory conv resolution atts targets)"
  shows "sl_agent s \<in> set targets \<and> sl_status s = ''pending''"
proof -
  let ?P = "\<lambda>slots. \<forall>s \<in> snd ` set slots. sl_agent s \<in> set targets \<and> sl_status s = ''pending''"
  have "?P (chat_slots env rq ctx directory conv resolution atts targets)"
    unfolding chat_slots_def
  proof (rule foldl_keeps)
    fix acc :: "(string \<times> slot) list" and x
    assume x: "x \<in> set (enumerate 0 targets)" and acc: "?P acc"
    obtain i agent where x': "x = (i, agent)" by (cases x)
    with x have "agent \<in> set targets" by (auto dest: in_set_zipE simp: enumerate_eq_zip)
    with acc show "?P (case x of (i, agent) \<Rightarrow>
        case map_of (rev (map (\<lambda>s. (se_agent s, s)) (rc_sessions ctx))) agent of
          None \<Rightarrow> acc
        | Some session \<Rightarrow>
            (case map_of directory agent of
               None \<Rightarrow> acc
             | Some a \<Rightarrow> AList.update (env_id env i)
                 (chat_slot env rq ctx conv resolution atts (length targets) agent i session a) acc))"
      by (auto simp: x' chat_slot_def dest!: update_mem split: option.split)
  qed simp
  with assms show ?thesis by blast
qed

text \<open>The identifiers of the directory, when the agents' identifiers have no space around them.\<close>

lemma look_up_agents_keys:
  assumes "look_up_agents get key known is = Inr d" "\<forall>a \<in> fst ` set known. P a"
    "\<And>i a. get i = Inr a \<Longrightarrow> P (key i a)"
  shows "\<forall>a \<in> fst ` set d. P a"
  using assms
proof (induction get key known "is" rule: look_up_agents.induct)
  case (2 get key known i "is")
  show ?case
  proof (cases "map_of known i \<noteq> None")
    case True
    then show ?thesis using 2(1)[OF True _ 2(4,5)] 2(3) by simp
  next
    case False
    then obtain a where a: "get i = Inr a" "look_up_agents get key (AList.update (key i a) a known) is = Inr d"
      using 2(3) by (auto split: sum.splits)
    have "\<forall>a \<in> fst ` set (AList.update (key i a) a known). P a"
      using 2(4) 2(5)[OF a(1)] by (auto dest: update_mem)
    then show ?thesis using 2(2)[OF False a(1,2)] 2(5) by blast
  qed
qed simp

lemma directory_trimmed:
  assumes "build_agent_directory get ctx = Inr d" "\<And>i a. get i = Inr a \<Longrightarrow> trimmed (ma_id a)"
  shows "\<forall>a \<in> fst ` set d. trimmed a"
proof -
  let ?known = "foldl (\<lambda>d a. AList.update (ma_id a) a d) [] (filter (\<lambda>a. ma_id a \<in> set (member_ids ctx)) (rc_agents ctx))"
  have "trimmed i" if "i \<in> set (member_ids ctx)" for i
    using that by (auto simp: member_ids_def)
  then have "\<forall>a \<in> fst ` set ?known. trimmed a" by (auto dest!: foldl_update_mem)
  with look_up_agents_keys[of get "\<lambda>_. ma_id" ?known "member_ids ctx" d trimmed] assms show ?thesis
    by (auto simp: build_agent_directory_def Let_def)
qed

lemma chat_targets_trimmed:
  assumes "resolve_targets rq ctx directory = Inr res" "\<forall>a \<in> fst ` set directory. trimmed a"
    "a \<in> set (fst (default_targets ctx directory res))"
  shows "trimmed a"
proof (cases "fst res = []")
  case True
  then show ?thesis using assms(2,3)
    by (auto simp: default_targets_def host_target_def Let_def split: if_splits option.splits)
next
  case False
  then have "a \<in> set (fst res)" using assms(3) by (simp add: default_targets_def)
  then show ?thesis
    using assms(1) resolve_mentions_agents[of a "cq_content rq" "reverse_names directory"]
    by (auto simp: resolve_targets_def explicit_targets_def Let_def split: if_splits option.splits)
qed

lemma prepare_chatE:
  assumes "prepare_chat env rq = Inr p"
  obtains res where "validate_chat rq = Inr (cp_key p, cp_conversation p)"
    and "build_agent_directory (env_agent env) (cp_context p) = Inr (cp_directory p)"
    and "resolve_targets rq (cp_context p) (cp_directory p) = Inr res"
    and "cp_targets p = fst (default_targets (cp_context p) (cp_directory p) res)"
    and "cp_policy p = normalize_delivery_policy (cq_policy rq)"
  using assms by (auto simp: prepare_chat_def Let_def split: sum.splits prod.splits)

lemma handle_chat_startE:
  assumes "handle_chat env cancel owner rq st = (Inr (Some r), st')"
  obtains p res targets t t0 where "prepare_chat env rq = Inr p"
    and "service t0 = service st"
    and "deliver_running env rq (cp_context p) (cp_policy p) owner (cp_key p) (cp_room p)
      (cp_conversation p) (cp_text p) (cp_attachments p) (cp_targets p) t0 = (Inr targets, t)"
    and "rr_session r = cp_key p" "rr_conversation r = cp_conversation p"
    and "rr_slots r = chat_slots env rq (cp_context p) (cp_directory p) (cp_conversation p) (cp_resolution p)
      (cp_attachments p) targets"
proof -
  obtain p where p: "prepare_chat env rq = Inr p"
    using assms(1) by (cases "prepare_chat env rq") (auto simp: handle_chat_def)
  let ?st = "persist_shared (cp_conversation p)
    (user_message rq (cp_key p) (cp_room p) (cp_conversation p) (cp_policy p) (cp_attachments p) (env_now env)) st"
  obtain left t where l: "deliver_running env rq (cp_context p) (cp_policy p) owner (cp_key p) (cp_room p)
      (cp_conversation p) (cp_text p) (cp_attachments p) (cp_targets p) ?st = (left, t)" by fastforce
  have "run_chat env cancel owner rq p st = (Inr (Some r), st')"
    using assms(1) p by (simp add: handle_chat_def)
  then obtain targets where left: "left = Inr targets"
    "start_chat_round env rq (cp_context p) (cp_directory p) cancel owner (cp_key p) (cp_room p) (cp_conversation p)
       (cp_resolution p) (cp_attachments p) targets t = (Some r, st')"
    using l by (cases left) (auto simp: run_chat_def Let_def split: if_splits prod.splits)
  have "service ?st = service st" by (simp add: persist_shared_def)
  then show ?thesis
    using that[OF p _ l[unfolded left(1)]] left(2) by (auto simp: start_chat_round_def Let_def split: if_splits)
qed



lemma shared_deliver [simp]:
  "shared (snd (deliver_running env rq ctx policy owner key room conv content atts targets st)) = shared st"
  by (auto simp: deliver_running_def Let_def split: sum.splits prod.splits option.splits)

lemma shared_start [simp]:
  "shared (snd (start_chat_round env rq ctx d cancel owner key room conv resolution atts targets st)) = shared st"
  by (simp add: start_chat_round_def Let_def)

lemma shared_persist [simp]: "shared (persist_shared c m st) = (shared st)(c := shared st c @ [m])"
  by (simp add: persist_shared_def)

text \<open>C26. A request that is rejected while it is checked leaves the room as it was, with the reason; a request
  that passes is in the shared history of its conversation once, whatever becomes of its delivery,
  followed by the hint when it addresses nobody, and no other conversation changes.\<close>
theorem chat_recorded_once:
  "case prepare_chat env rq of
     Inl e \<Rightarrow> handle_chat env cancel owner rq st = (Inl e, st)
   | Inr p \<Rightarrow>
       shared (snd (handle_chat env cancel owner rq st)) =
         (shared st)(cp_conversation p := shared st (cp_conversation p) @
            user_message rq (cp_key p) (cp_room p) (cp_conversation p) (cp_policy p) (cp_attachments p) (env_now env) #
            (if cp_targets p = [] then [hint_message rq (cp_key p) (cp_room p) (cp_conversation p) (env_now env)] else []))"
proof (cases "prepare_chat env rq")
  case (Inr p)
  let ?st = "persist_shared (cp_conversation p)
    (user_message rq (cp_key p) (cp_room p) (cp_conversation p) (cp_policy p) (cp_attachments p) (env_now env)) st"
  let ?d = "deliver_running env rq (cp_context p) (cp_policy p) owner (cp_key p) (cp_room p)
      (cp_conversation p) (cp_text p) (cp_attachments p) (cp_targets p) ?st"
  obtain res t where d: "?d = (res, t)" by fastforce
  have "shared t = shared ?st" using arg_cong[OF d, of "\<lambda>x. shared (snd x)"] by simp
  then show ?thesis
    using Inr by (cases res) (auto simp: handle_chat_def run_chat_def Let_def d case_prod_unfold)
qed (simp add: handle_chat_def)

end
