(* ===== verification/VisibleContext.thy ===== *)
theory VisibleContext
  imports DirectedMessages
begin

text \<open>
  What a woken agent of a room gets to read, \<open>internal/chat/room/visible_context.go\<close>: the
  batch of public messages after the agent's cursor, cut to the newest messages that fit, the
  lines they become, the trigger, and the directed messages. Texts are bytes and the limits
  count bytes. Names of agents are an association list in which the first entry counts.
\<close>

section \<open>Runes\<close>

text \<open>
  \<open>for index, r := range value\<close> decodes UTF-8: \<open>rune_bytes\<close> is the number of bytes
  the loop advances by, 1 for an invalid sequence, and \<open>rune_len\<close> what
  \<open>utf8.RuneLen\<close> says of the rune it yields, 3 for the replacement rune of an invalid
  sequence.
\<close>

definition byte_in :: "nat \<Rightarrow> nat \<Rightarrow> char \<Rightarrow> bool" where
  "byte_in lo hi c \<longleftrightarrow> lo \<le> of_char c \<and> of_char c \<le> hi"

definition valid_rune :: "string \<Rightarrow> nat option" where
  "valid_rune s =
     (case s of
        [] \<Rightarrow> None
      | c # s1 \<Rightarrow>
          let tail = (\<lambda>n. n \<le> length (tl s1) \<and> list_all (byte_in 0x80 0xBF) (take n (tl s1)));
              second = (\<lambda>lo hi. s1 \<noteq> [] \<and> byte_in lo hi (hd s1))
          in if byte_in 0 0x7F c then Some 1
             else if byte_in 0xC2 0xDF c then (if second 0x80 0xBF then Some 2 else None)
             else if byte_in 0xE0 0xEF c then
               (if second (if c = CHR 0xE0 then 0xA0 else 0x80) (if c = CHR 0xED then 0x9F else 0xBF) \<and> tail 1
                then Some 3 else None)
             else if byte_in 0xF0 0xF4 c then
               (if second (if c = CHR 0xF0 then 0x90 else 0x80) (if c = CHR 0xF4 then 0x8F else 0xBF) \<and> tail 2
                then Some 4 else None)
             else None)"

definition rune_bytes :: "string \<Rightarrow> nat" where
  "rune_bytes s = (case valid_rune s of None \<Rightarrow> 1 | Some n \<Rightarrow> n)"

definition rune_len :: "string \<Rightarrow> nat" where
  "rune_len s = (case valid_rune s of None \<Rightarrow> 3 | Some n \<Rightarrow> n)"

lemma rune_bytes_pos: "0 < rune_bytes s"
  by (auto simp: rune_bytes_def valid_rune_def Let_def split: list.splits)

section \<open>Cutting a text\<close>

text \<open>The loop of \<open>trimStringByBytes\<close>: \<open>value\<close> is what is left from \<open>index\<close> on.\<close>

function cut_end :: "nat \<Rightarrow> nat \<Rightarrow> nat \<Rightarrow> string \<Rightarrow> nat" where
  "cut_end budget end index value =
     (if value = [] then end
      else if budget < index + rune_len value then end
      else cut_end budget (index + rune_len value) (index + rune_bytes value) (drop (rune_bytes value) value))"
  by pat_completeness auto
termination
  by (relation "measure (\<lambda>(budget, end, index, value). length value)") (auto simp: rune_bytes_pos)

declare cut_end.simps [simp del]

definition trim_string_by_bytes :: "string \<Rightarrow> nat \<Rightarrow> string" where
  "trim_string_by_bytes value budget =
     (if budget = 0 then []
      else if length value \<le> budget then trim_space value
      else trim_space (take (cut_end budget 0 0 value) value))"

definition truncated_suffix :: string where
  "truncated_suffix = CHR 0x0A # ''...(truncated)''"

definition truncate_history_text :: "string \<Rightarrow> nat \<Rightarrow> string" where
  "truncate_history_text value budget =
     (let trimmed = trim_space value in
      if budget = 0 \<or> length trimmed \<le> budget then trimmed
      else if budget \<le> length truncated_suffix then trim_string_by_bytes trimmed budget
      else
        let body = trim_string_by_bytes trimmed (budget - length truncated_suffix) in
        if body = [] then trim_string_by_bytes trimmed budget
        else trim_space body @ truncated_suffix)"

section \<open>Lines of the public feed\<close>

type_synonym agent_names = "(string \<times> string) list"

definition name_of :: "agent_names \<Rightarrow> string \<Rightarrow> string" where
  "name_of names a = (case map_of names a of None \<Rightarrow> [] | Some n \<Rightarrow> n)"

definition max_history_messages :: nat where "max_history_messages = 80"
definition max_history_chars :: nat where "max_history_chars = 12000"

definition format_history_line :: "any \<Rightarrow> agent_names \<Rightarrow> string" where
  "format_history_line message names =
     (let role = trim_space (string_from_any (field message ''role'')) in
      if role = ''user'' then
        let content = extract_history_text message
        in if content = [] then [] else ''User: '' @ content
      else if role = ''assistant'' then
        if field message ''is_complete'' = ABool False then []
        else
          let content = extract_result_text message;
              agent = string_from_any (field message ''agent_id'')
          in if content = [] then []
             else ''Assistant('' @ first_non_empty [name_of names agent, agent, ''Assistant''] @ ''): '' @ content
      else [])"

definition is_visible_public_input :: "any \<Rightarrow> string \<Rightarrow> bool" where
  "is_visible_public_input message target \<longleftrightarrow>
     (let role = trim_space (string_from_any (field message ''role'')) in
      if role = ''user'' then extract_history_text message \<noteq> []
      else if role = ''assistant'' then
        trim_space (string_from_any (field message ''agent_id'')) \<noteq> trim_space target
        \<and> format_history_line message [] \<noteq> []
      else False)"

text \<open>The formatted lines from the newest on, until the limit; \<open>first\<close> as long as none is kept.\<close>

fun recent_lines :: "nat \<Rightarrow> bool \<Rightarrow> string list \<Rightarrow> string list" where
  "recent_lines used first [] = []"
| "recent_lines used first (line # lines) =
     (let next = used + length line + (if 0 < used then 1 else 0) in
      if max_history_chars < next then
        (if first \<and> truncate_history_text line max_history_chars \<noteq> []
         then [truncate_history_text line max_history_chars] else [])
      else line # recent_lines next False lines)"

definition build_history_lines :: "any list \<Rightarrow> agent_names \<Rightarrow> string list" where
  "build_history_lines history names =
     (let newest = drop (length history - max_history_messages) history;
          formatted = filter (\<lambda>l. l \<noteq> []) (map (\<lambda>m. format_history_line m names) newest)
      in rev (recent_lines 0 True (rev formatted)))"

section \<open>The batch of public messages\<close>

record public_cursor =
  pc_message :: string
  pc_time :: int

record public_batch =
  pb_messages :: "any list"
  pb_message :: string
  pb_time :: int

definition message_id :: "any \<Rightarrow> string" where
  "message_id message = string_from_any (field message ''message_id'')"

definition message_time :: "any \<Rightarrow> int" where
  "message_time message = int64_from_any (field message ''timestamp'')"

text \<open>What follows the first element with the property.\<close>

fun after_first :: "('a \<Rightarrow> bool) \<Rightarrow> 'a list \<Rightarrow> 'a list option" where
  "after_first P [] = None"
| "after_first P (x # xs) = (if P x then Some xs else after_first P xs)"

definition public_messages_after_cursor :: "any list \<Rightarrow> public_cursor \<Rightarrow> any list" where
  "public_messages_after_cursor history c =
     (let last = trim_space (pc_message c) in
      case (if last = [] then None else after_first (\<lambda>m. trim_space (message_id m) = last) history) of
        Some rest \<Rightarrow> rest
      | None \<Rightarrow>
          if 0 < pc_time c then dropWhile (\<lambda>m. message_time m \<le> pc_time c) history
          else history)"

text \<open>From the newest message on: what \<open>trimPublicBatchByChars\<close> keeps, newest first.\<close>

fun keep_recent :: "agent_names \<Rightarrow> nat \<Rightarrow> bool \<Rightarrow> any list \<Rightarrow> any list" where
  "keep_recent names used first [] = []"
| "keep_recent names used first (m # ms) =
     (let n = length (format_history_line m names);
          next = (if 0 < n then used + n + (if 0 < used then 1 else 0) else used)
      in if max_history_chars < next then (if first then [m] else [])
         else m # keep_recent names next False ms)"

definition trim_public_batch :: "any list \<Rightarrow> agent_names \<Rightarrow> any list" where
  "trim_public_batch messages names = rev (keep_recent names 0 True (rev messages))"

definition public_candidates :: "any list \<Rightarrow> public_cursor \<Rightarrow> agent_names \<Rightarrow> any list" where
  "public_candidates history c names =
     (let unread = public_messages_after_cursor history c
      in trim_public_batch (drop (length unread - max_history_messages) unread) names)"

definition build_public_batch ::
  "any list \<Rightarrow> public_cursor \<Rightarrow> agent_names \<Rightarrow> string \<Rightarrow> public_batch" where
  "build_public_batch history c names target =
     (let candidates = public_candidates history c names
      in \<lparr>pb_messages = filter (\<lambda>m. is_visible_public_input m target) candidates,
          pb_message = (if candidates = [] then [] else message_id (last candidates)),
          pb_time = (if candidates = [] then 0 else message_time (last candidates))\<rparr>)"

section \<open>Names and routes in prompts\<close>

definition display_agent_name :: "string \<Rightarrow> agent_names \<Rightarrow> string" where
  "display_agent_name agent names =
     (let a = trim_space agent in
      if a = [] then ''unknown''
      else if trim_space (name_of names a) \<noteq> [] then trim_space (name_of names a)
      else a)"

definition format_reply_recipients :: "string list \<Rightarrow> agent_names \<Rightarrow> string" where
  "format_reply_recipients agents names =
     join '','' (map (\<lambda>a. display_agent_name a names @ ''('' @ a @ '')'')
       (filter (\<lambda>a. a \<noteq> []) (map trim_space agents)))"

definition recipients_or_default :: "string list \<Rightarrow> agent_names \<Rightarrow> string" where
  "recipients_or_default agents names =
     (let r = format_reply_recipients agents names in if r = [] then ''specified recipients'' else r)"

definition format_reply_route_compact :: "reply_route \<Rightarrow> agent_names \<Rightarrow> string" where
  "format_reply_route_compact route names =
     (if rr_mode route = ''public'' then ''public''
      else if rr_mode route = ''private'' then
        ''private recipients='' @ recipients_or_default (rr_recipients route) names
        @ '' wake='' @ default_to ''none'' (rr_wake route)
      else if rr_mode route = ''none'' then ''none'' else [])"

definition format_reply_route :: "reply_route \<Rightarrow> agent_names \<Rightarrow> string" where
  "format_reply_route route names =
     (if rr_mode route = ''public'' then
        ''public (this turn'' @ CHR 0x27 # ''s final reply will enter public_feed)''
      else if rr_mode route = ''private'' then
        ''private recipients='' @ recipients_or_default (rr_recipients route) names
        @ '' wake='' @ default_to ''none'' (rr_wake route)
        @ (case rr_next route of None \<Rightarrow> []
           | Some r \<Rightarrow> '' next_reply_route='' @ format_reply_route_compact r names)
        @ '' (this turn'' @ CHR 0x27 # ''s final reply will not enter public_feed)''
      else if rr_mode route = ''none'' then
        ''none (this turn'' @ CHR 0x27 # ''s final reply only ends this run; it is not projected to any member and will not enter public_feed)''
      else [])"

definition format_reply_projection :: "trigger \<Rightarrow> agent_names \<Rightarrow> string" where
  "format_reply_projection t names =
     (if rr_mode (tg_route t) = [] then []
      else ''reply_route='' @ format_reply_route (tg_route t) names)"

definition takeover_text :: string where
  "takeover_text = CHR 0x0A # ''room host default takeover: the user did not @ any member, and Room settings require you as host to handle this turn. You may answer directly or @ exactly one member to delegate.''"

definition format_room_trigger :: "trigger \<Rightarrow> agent_names \<Rightarrow> string" where
  "format_room_trigger t names =
     (if trim_space (tg_type t) = [] \<and> trim_space (tg_content t) = [] then ''(No trigger message.)''
      else
        let known = first_non_empty [name_of names (tg_source t), tg_source t];
            source = (if known = [] then ''User'' else known);
            content = trim_space (tg_content t);
            line = (if content \<noteq> [] then source @ '': '' @ content else source @ '': (No content.)'');
            line = (if trim_space (tg_type t) = ''room_host_default'' then line @ takeover_text else line);
            projection = format_reply_projection t names
        in if projection \<noteq> [] then line @ CHR 0x0A # projection else line)"

text \<open>The members by name, then by identifier.\<close>

definition format_member_directory :: "agent_names \<Rightarrow> string" where
  "format_member_directory names =
     (if names = [] then ''(No room members listed.)''
      else
        let members = map (\<lambda>(a, n). (first_non_empty [trim_space n, trim_space a], trim_space a))
              (filter (\<lambda>(a, n). trim_space a \<noteq> []) (AList.clearjunk names))
        in join [CHR 0x0A] (map (\<lambda>(n, a). ''- name='' @ n @ '' agent_id='' @ a)
             (sort_key fst (sort_key snd members))))"

definition build_member_directory_prompt :: "agent_names \<Rightarrow> string" where
  "build_member_directory_prompt names =
     ''# Nexus Room Member Directory'' @ [CHR 0x0A, CHR 0x0A] @ ''<room_member_directory>'' @ [CHR 0x0A]
     @ format_member_directory names @ [CHR 0x0A] @ ''</room_member_directory>''"

section \<open>The input of a turn\<close>

definition context_public_messages :: "any list \<Rightarrow> trigger \<Rightarrow> any list" where
  "context_public_messages messages t =
     (let i = trim_space (tg_message t) in
      if i = [] then messages else filter (\<lambda>m. trim_space (message_id m) \<noteq> i) messages)"

definition no_new_messages :: string where
  "no_new_messages = ''(No new public messages this turn.)''"

definition feed_and_trigger :: "string list \<Rightarrow> trigger \<Rightarrow> agent_names \<Rightarrow> string" where
  "feed_and_trigger lines t names =
     ''<public_feed>'' @ [CHR 0x0A] @ join [CHR 0x0A] lines @ [CHR 0x0A] @ ''</public_feed>'' @ [CHR 0x0A, CHR 0x0A]
     @ ''<latest_trigger>'' @ [CHR 0x0A] @ format_room_trigger t names @ [CHR 0x0A] @ ''</latest_trigger>''"

definition directed_line :: "agent_names \<Rightarrow> directed_message \<Rightarrow> string" where
  "directed_line names m =
     ''[directed_message recipients='' @ recipients_or_default (dm_recipients m) names
     @ '' reply_route='' @ format_reply_route (dm_route m) names @ ''] ''
     @ display_agent_name (dm_source m) names @ '': '' @ trim_space (dm_content m)"

definition build_directed_context :: "directed_message list \<Rightarrow> agent_names \<Rightarrow> string \<Rightarrow> string" where
  "build_directed_context messages names target =
     (let lines = map (directed_line names) (filter (\<lambda>m. trim_space (dm_content m) \<noteq> []) messages);
          reader = (if trim_space target = [] then ''you'' else display_agent_name target names)
      in if lines = [] then []
         else ''These Room directed messages are projected to '' @ reader
              @ '' and are not part of public_feed. Reveal them only when the task explicitly requires it.''
              @ [CHR 0x0A, CHR 0x0A] @ ''<room_directed_messages>'' @ [CHR 0x0A]
              @ join [CHR 0x0A] lines @ [CHR 0x0A] @ ''</room_directed_messages>'')"

definition build_visible_context ::
  "any list \<Rightarrow> directed_message list \<Rightarrow> trigger \<Rightarrow> agent_names \<Rightarrow> string \<Rightarrow> string" where
  "build_visible_context messages directed t names target =
     (let lines = build_history_lines (context_public_messages messages t) names;
          feed = feed_and_trigger (if lines = [] then [no_new_messages] else lines) t names;
          private = build_directed_context directed names target
      in if private \<noteq> [] then feed @ [CHR 0x0A, CHR 0x0A] @ private else feed)"

definition guided_intro :: string where
  "guided_intro = ''New public Room messages arrived while you were running. Treat them as public facts already in the Room. If they affect your current work, incorporate them and continue.'' @ [CHR 0x0A, CHR 0x0A]"

definition build_guided_context :: "any list \<Rightarrow> trigger \<Rightarrow> agent_names \<Rightarrow> string" where
  "build_guided_context messages t names =
     (let lines = build_history_lines (context_public_messages messages t) names in
      if lines = [] then
        if trim_space (tg_type t) = [] \<and> trim_space (tg_content t) = [] then []
        else guided_intro @ feed_and_trigger [no_new_messages] t names
      else guided_intro @ feed_and_trigger lines t names)"

section \<open>Lemmas\<close>

lemma cut_end_le: "end \<le> budget \<Longrightarrow> cut_end budget end index value \<le> budget"
proof (induction budget "end" index "value" rule: cut_end.induct)
  case (1 budget "end" index "value")
  then show ?case by (subst cut_end.simps) simp
qed

lemma length_trim_string_by_bytes: "length (trim_string_by_bytes value budget) \<le> budget"
proof -
  have "length (take (cut_end budget 0 0 value) value) \<le> budget"
    using cut_end_le[of 0 budget 0 "value"] by simp
  then show ?thesis
    using length_trim_space[of "value"] length_trim_space[of "take (cut_end budget 0 0 value) value"]
    by (auto simp: trim_string_by_bytes_def intro: order_trans)
qed

lemma length_truncate_history_text:
  assumes "0 < budget"
  shows "length (truncate_history_text value budget) \<le> budget"
  using assms length_trim_string_by_bytes[of "trim_space value" budget]
    order_trans[OF length_trim_space length_trim_string_by_bytes[of "trim_space value" "budget - length truncated_suffix"]]
  by (auto simp: truncate_history_text_def Let_def)

lemma length_join1: "length (join [c] ls) = sum_list (map length ls) + (length ls - 1)"
proof (induction ls)
  case (Cons l ls)
  then show ?case by (cases ls) auto
qed simp

lemma recent_lines_room:
  "list_all (\<lambda>l. l \<noteq> []) ls \<Longrightarrow> recent_lines used (used = 0) ls \<noteq> [] \<Longrightarrow>
   used + (if 0 < used then 1 else 0) + length (join [c] (recent_lines used (used = 0) ls)) \<le> max_history_chars"
proof (induction ls arbitrary: used)
  case (Cons l ls)
  let ?next = "used + length l + (if 0 < used then 1 else 0)"
  have pos: "0 < ?next" using Cons.prems(1) by simp
  show ?case
  proof (cases "max_history_chars < ?next")
    case True
    then show ?thesis
      using Cons.prems(2) length_truncate_history_text[of max_history_chars l]
      by (auto simp: Let_def max_history_chars_def split: if_splits)
  next
    case False
    have "(?next = 0) = False" using pos by simp
    note IH = Cons.IH[of ?next, unfolded this]
    have "?next + 1 + length (join [c] (recent_lines ?next False ls)) \<le> max_history_chars"
      if "recent_lines ?next False ls \<noteq> []"
      using IH that Cons.prems(1) pos by simp
    then show ?thesis
      using False pos
      by (cases "recent_lines ?next False ls") (auto simp: Let_def length_join1)
  qed
qed simp

lemma length_recent_lines: "length (recent_lines used first ls) \<le> length ls"
  by (induction ls arbitrary: used first) (auto simp: Let_def)

lemma length_join_rev: "length (join [c] (rev ls)) = length (join [c] ls)"
  by (simp add: length_join1 rev_map[symmetric])

lemma history_lines_bound:
  "length (join [c] (build_history_lines history names)) \<le> max_history_chars"
  "length (build_history_lines history names) \<le> max_history_messages"
proof -
  let ?ls = "rev (filter (\<lambda>l. l \<noteq> [])
    (map (\<lambda>m. format_history_line m names) (drop (length history - max_history_messages) history)))"
  have "list_all (\<lambda>l. l \<noteq> []) ?ls" by (simp add: list_all_iff)
  then have "recent_lines 0 True ?ls = [] \<or> length (join [c] (recent_lines 0 True ?ls)) \<le> max_history_chars"
    using recent_lines_room[of ?ls 0 c] by auto
  then show "length (join [c] (build_history_lines history names)) \<le> max_history_chars"
    by (auto simp: build_history_lines_def Let_def length_join_rev)
  have "length ?ls \<le> max_history_messages"
    using length_filter_le[of "\<lambda>l. l \<noteq> []" "map (\<lambda>m. format_history_line m names) (drop (length history - max_history_messages) history)"]
    by simp
  then show "length (build_history_lines history names) \<le> max_history_messages"
    using length_recent_lines[of 0 True ?ls] by (simp add: build_history_lines_def Let_def)
qed

lemma keep_recent_prefix: "prefix (keep_recent names used first ms) ms"
  by (induction ms arbitrary: used first) (auto simp: Let_def)

lemma keep_recent_first: "keep_recent names 0 True ms = [] \<longleftrightarrow> ms = []"
  by (cases ms) (auto simp: Let_def)

lemma trim_public_batch_suffix: "suffix (trim_public_batch ms names) ms"
  using keep_recent_prefix[of names 0 True "rev ms"]
  by (simp add: trim_public_batch_def suffix_to_prefix)

lemma trim_public_batch_Nil: "trim_public_batch ms names = [] \<longleftrightarrow> ms = []"
  by (simp add: trim_public_batch_def keep_recent_first)

lemma max_history_messages_pos: "0 < max_history_messages"
  by (simp add: max_history_messages_def)

lemma candidates_suffix: "suffix (public_candidates history c names) (public_messages_after_cursor history c)"
  unfolding public_candidates_def Let_def
  by (rule suffix_order.trans[OF trim_public_batch_suffix suffix_drop])

lemma candidates_Nil: "public_candidates history c names = [] \<longleftrightarrow> public_messages_after_cursor history c = []"
  using max_history_messages_pos
  by (cases "public_messages_after_cursor history c") (simp_all add: public_candidates_def Let_def trim_public_batch_Nil)

lemma after_first_suffix: "after_first P xs = Some ys \<Longrightarrow> suffix ys xs"
  by (induction xs) (auto split: if_splits simp: suffix_ConsI)

lemma unread_suffix: "suffix (public_messages_after_cursor history c) history"
  by (auto simp: public_messages_after_cursor_def Let_def suffix_dropWhile split: option.splits if_splits
      dest: after_first_suffix)

lemma last_suffix: "suffix ys xs \<Longrightarrow> ys \<noteq> [] \<Longrightarrow> last ys = last xs"
  by (auto simp: suffix_def)

lemma last_candidate:
  "public_messages_after_cursor history c \<noteq> [] \<Longrightarrow> last (public_candidates history c names) = last history"
  using last_suffix[OF suffix_order.trans[OF candidates_suffix unread_suffix]] candidates_Nil by metis

lemma after_first_append:
  "list_all (\<lambda>x. \<not> P x) xs \<Longrightarrow> P x \<Longrightarrow> after_first P (xs @ x # ys) = Some ys"
  by (induction xs) auto

lemma after_last:
  assumes "h \<noteq> []" "distinct (map message_id h)" "pc_message c = message_id (last h)" "message_id (last h) \<noteq> []"
  shows "public_messages_after_cursor (h @ news) c = news"
proof -
  have e: "h @ news = butlast h @ last h # news" using assms(1) by simp
  have ne: "message_id x \<noteq> message_id (last h)" if "x \<in> set (butlast h)" for x
  proof -
    have "map message_id h = map message_id (butlast h) @ [message_id (last h)]"
      using assms(1) by (metis append_butlast_last_id list.simps(8,9) map_append)
    then show ?thesis using assms(2) that by (metis distinct_append disjoint_iff imageI list.set_intros(1) list.set_map)
  qed
  have t: "trim_space (message_id m) = message_id m" for m by (simp add: message_id_def)
  have "after_first (\<lambda>m. message_id m = message_id (last h)) (h @ news) = Some news"
    unfolding e using ne by (intro after_first_append) (auto simp: list_all_iff)
  then show ?thesis
    using assms(3,4) by (simp add: public_messages_after_cursor_def Let_def t)
qed

text \<open>What the batch counts fits the prompt, also after further messages are left out.\<close>

lemma keep_recent_fits:
  assumes "first \<Longrightarrow> used = 0" "u \<le> used"
    "list_all (\<lambda>m. length (format_history_line m names) \<le> max_history_chars) ms"
  shows "recent_lines u f (filter (\<lambda>l. l \<noteq> [])
      (map (\<lambda>m. format_history_line m names) (filter V (keep_recent names used first ms)))) =
    filter (\<lambda>l. l \<noteq> []) (map (\<lambda>m. format_history_line m names) (filter V (keep_recent names used first ms)))"
  using assms
proof (induction ms arbitrary: used first u f)
  case (Cons m ms)
  let ?n = "length (format_history_line m names)"
  let ?next = "if 0 < ?n then used + ?n + (if 0 < used then 1 else 0) else used"
  show ?case
  proof (cases "max_history_chars < ?next")
    case True
    then have "\<not> first" using Cons.prems(1,3) by (auto split: if_splits)
    then show ?thesis using True by (simp add: Let_def)
  next
    case False
    have IH: "recent_lines v g (filter (\<lambda>l. l \<noteq> [])
        (map (\<lambda>m. format_history_line m names) (filter V (keep_recent names ?next False ms)))) =
      filter (\<lambda>l. l \<noteq> []) (map (\<lambda>m. format_history_line m names) (filter V (keep_recent names ?next False ms)))"
      if "v \<le> ?next" for v g
      using Cons.IH[of False ?next v g] Cons.prems(3) that by simp
    have keep: "keep_recent names used first (m # ms) = m # keep_recent names ?next False ms"
      using False by (simp add: Let_def)
    show ?thesis
    proof (cases "V m \<and> 0 < ?n")
      case True
      let ?v = "u + ?n + (if 0 < u then 1 else 0)"
      let ?rest = "filter (\<lambda>l. l \<noteq> [])
        (map (\<lambda>m. format_history_line m names) (filter V (keep_recent names ?next False ms)))"
      have v: "?v \<le> ?next" using True Cons.prems(2) by auto
      then have "\<not> max_history_chars < ?v" using False by linarith
      then have "recent_lines u f (format_history_line m names # ?rest) = format_history_line m names # ?rest"
        using IH[OF v, of False] by (simp only: recent_lines.simps Let_def if_False)
      moreover have "filter (\<lambda>l. l \<noteq> [])
          (map (\<lambda>m. format_history_line m names) (filter V (keep_recent names used first (m # ms)))) =
          format_history_line m names # ?rest"
        unfolding keep using True by simp
      ultimately show ?thesis by simp
    next
      case False
      have "filter (\<lambda>l. l \<noteq> [])
          (map (\<lambda>m. format_history_line m names) (filter V (m # keep_recent names ?next False ms))) =
        filter (\<lambda>l. l \<noteq> [])
          (map (\<lambda>m. format_history_line m names) (filter V (keep_recent names ?next False ms)))"
        using False by auto
      note skip = this[folded keep]
      have "u \<le> ?next" using Cons.prems(2) by auto
      then show ?thesis
        using IH[of u f] skip by simp
    qed
  qed
qed simp

lemma suffix_list_all: "suffix xs ys \<Longrightarrow> list_all P ys \<Longrightarrow> list_all P xs"
  by (auto simp: suffix_def)

lemma length_candidates: "length (public_candidates history c names) \<le> max_history_messages"
  using suffix_length_le[OF trim_public_batch_suffix[of "drop (length (public_messages_after_cursor history c) -
      max_history_messages) (public_messages_after_cursor history c)" names]]
  by (simp add: public_candidates_def Let_def)

lemma filtered_batch_fits:
  assumes "list_all (\<lambda>m. length (format_history_line m names) \<le> max_history_chars) history"
  shows "build_history_lines (filter V (public_candidates history c names)) names =
    filter (\<lambda>l. l \<noteq> []) (map (\<lambda>m. format_history_line m names) (filter V (public_candidates history c names)))"
proof -
  let ?unread = "public_messages_after_cursor history c"
  let ?new = "drop (length ?unread - max_history_messages) ?unread"
  have "list_all (\<lambda>m. length (format_history_line m names) \<le> max_history_chars) (rev ?new)"
    using suffix_list_all[OF suffix_order.trans[OF suffix_drop unread_suffix] assms] by simp
  from keep_recent_fits[of True 0 0, OF _ _ this, where V = V and f = True]
  have fits: "recent_lines 0 True (rev (filter (\<lambda>l. l \<noteq> [])
      (map (\<lambda>m. format_history_line m names) (filter V (public_candidates history c names))))) =
    rev (filter (\<lambda>l. l \<noteq> [])
      (map (\<lambda>m. format_history_line m names) (filter V (public_candidates history c names))))"
    by (simp add: public_candidates_def Let_def trim_public_batch_def rev_map rev_filter)
  have "length (filter V (public_candidates history c names)) \<le> max_history_messages"
    by (rule order_trans[OF length_filter_le length_candidates])
  then show ?thesis using fits by (simp add: build_history_lines_def Let_def)
qed

section \<open>Properties\<close>

text \<open>The public feed of a prompt stays within its limits: at most 80 lines and, joined, at most
  12000 bytes, whatever the history and the names of the agents.\<close>

lemma public_feed_bounded:
  "length (build_history_lines history names) \<le> 80 \<and>
   length (join [c] (build_history_lines history names)) \<le> 12000"
  using history_lines_bound(1)[of c history names] history_lines_bound(2)[of history names]
  by (simp add: max_history_messages_def max_history_chars_def)

text \<open>What a batch counts as read is shown: the cursor of a batch moves to the newest message, and
  no line of the batch is cut from the prompt, as long as no single line exceeds the limit.\<close>

lemma read_messages_are_shown:
  fixes target :: string and t :: trigger
  assumes "list_all (\<lambda>m. length (format_history_line m names) \<le> max_history_chars) history"
    and "public_messages_after_cursor history c \<noteq> []"
  defines "batch \<equiv> build_public_batch history c names target"
  defines "shown \<equiv> context_public_messages (pb_messages batch) t"
  shows "pb_message batch = message_id (last history) \<and>
    build_history_lines shown names = filter (\<lambda>l. l \<noteq> []) (map (\<lambda>m. format_history_line m names) shown)"
proof -
  have "\<exists>V. shown = filter V (public_candidates history c names)"
    unfolding shown_def batch_def context_public_messages_def build_public_batch_def Let_def
    by (auto simp: filter_filter)
  then show ?thesis
    using filtered_batch_fits[OF assms(1)] last_candidate[OF assms(2)] assms(2) candidates_Nil[of history c names]
    by (auto simp: batch_def build_public_batch_def Let_def)
qed

lemma read_messages_are_shown_witness:
  "build_history_lines [AMap [(''message_id'', AStr ''p''), (''role'', AStr ''user''), (''content'', AStr ''hello'')]] [] =
   [''User: hello'']"
proof -
  let ?m = "AMap [(''message_id'', AStr ''p''), (''role'', AStr ''user''), (''content'', AStr ''hello'')]"
  let ?c = "\<lparr>pc_message = [], pc_time = 0\<rparr>" and ?t = "\<lparr>tg_type = [], tg_content = [], tg_message = [],
    tg_source = [], tg_target = [], tg_route = no_route\<rparr>"
  have line: "format_history_line ?m [] = ''User: hello''" "is_visible_public_input ?m ''a''" by code_simp+
  have "context_public_messages (pb_messages (build_public_batch [?m] ?c [] ''a'')) ?t = [?m]"
    by (simp add: build_public_batch_def public_candidates_def public_messages_after_cursor_def
        trim_public_batch_def max_history_messages_def max_history_chars_def context_public_messages_def line Let_def)
  then show ?thesis
    using read_messages_are_shown[of "[]" "[?m]" ?c "''a''" ?t]
    by (simp add: line max_history_chars_def public_messages_after_cursor_def Let_def)
qed

end
