(* ===== verification/DirectedStore.thy ===== *)
theory DirectedStore
  imports DirectedMessages
begin

text \<open>
  The log of directed messages of a room conversation,
  \<open>internal/storage/workspace/store_room_directed_message.go\<close>: messages and the cursors of
  their readers are rows of two append-only files, a reader sees the messages that are addressed
  to it or whose private reply is, and reads at most the newest twenty after its cursor. The
  decoder of a reply route, \<open>roomReplyRouteFromAny\<close>, is the one of the input queue.
\<close>

section \<open>Files\<close>

definition room_conversation_dir :: "string \<Rightarrow> string \<Rightarrow> string" where
  "room_conversation_dir home conversation =
     file_join [home, ''rooms'', encode_conversation_dir_name conversation]"

definition room_messages_path :: "string \<Rightarrow> string \<Rightarrow> string" where
  "room_messages_path home conversation =
     file_join [room_conversation_dir home conversation, ''directed_messages.jsonl'']"

definition room_cursors_path :: "string \<Rightarrow> string \<Rightarrow> string" where
  "room_cursors_path home conversation =
     file_join [room_conversation_dir home conversation, ''directed_message_cursors.jsonl'']"

section \<open>Rows\<close>

definition some_if :: "bool \<Rightarrow> any \<Rightarrow> any option" where
  "some_if b v = (if b then Some v else None)"

definition directed_fields :: "directed_message \<Rightarrow> (string \<times> any option) list" where
  "directed_fields m =
     [(''message_id'', Some (AStr (trim_space (dm_id m)))),
      (''room_id'', Some (AStr (trim_space (dm_room m)))),
      (''conversation_id'', Some (AStr (trim_space (dm_conversation m)))),
      (''source_agent_id'', Some (AStr (trim_space (dm_source m)))),
      (''recipients'', Some (if dm_recipients m = [] then ANil else AList (map AStr (dm_recipients m)))),
      (''reply_route'', Some (encode_reply_route (dm_route m))),
      (''timestamp'', Some (AInt (dm_time m))),
      (''wake_policy'', some_str (dm_wake m)),
      (''delay_seconds'', some_if (0 < dm_delay m) (AInt (dm_delay m))),
      (''correlation_id'', some_str (trim_space (dm_correlation m))),
      (''content'', some_if (trim_space (dm_content m) \<noteq> []) (AStr (dm_content m)))]"

definition directed_message_to_row :: "directed_message \<Rightarrow> any" where
  "directed_message_to_row m = AMap (present (directed_fields m))"

definition directed_message_from_row :: "any \<Rightarrow> directed_message" where
  "directed_message_from_row row =
     \<lparr>dm_id = string_from_any (field row ''message_id''),
      dm_room = string_from_any (field row ''room_id''),
      dm_conversation = string_from_any (field row ''conversation_id''),
      dm_source = string_from_any (field row ''source_agent_id''),
      dm_recipients = string_slice_from_any (field row ''recipients''),
      dm_content = string_from_any (field row ''content''),
      dm_wake = string_from_any (field row ''wake_policy''),
      dm_route = reply_route_from_any (field row ''reply_route''),
      dm_delay = int64_from_any (field row ''delay_seconds''),
      dm_correlation = string_from_any (field row ''correlation_id''),
      dm_time = int64_from_any (field row ''timestamp'')\<rparr>"

record directed_cursor =
  dc_room :: string
  dc_conversation :: string
  dc_agent :: string
  dc_round :: string
  dc_message :: string
  dc_message_time :: int
  dc_time :: int

definition no_directed_cursor :: directed_cursor where
  "no_directed_cursor = \<lparr>dc_room = [], dc_conversation = [], dc_agent = [], dc_round = [], dc_message = [],
     dc_message_time = 0, dc_time = 0\<rparr>"

definition cursor_to_row :: "directed_cursor \<Rightarrow> any" where
  "cursor_to_row c =
     AMap [(''room_id'', AStr (trim_space (dc_room c))),
           (''conversation_id'', AStr (trim_space (dc_conversation c))),
           (''agent_id'', AStr (trim_space (dc_agent c))),
           (''round_id'', AStr (trim_space (dc_round c))),
           (''last_message_id'', AStr (trim_space (dc_message c))),
           (''last_message_timestamp'', AInt (dc_message_time c)),
           (''timestamp'', AInt (dc_time c))]"

definition cursor_from_row :: "any \<Rightarrow> directed_cursor" where
  "cursor_from_row row =
     \<lparr>dc_room = string_from_any (field row ''room_id''),
      dc_conversation = string_from_any (field row ''conversation_id''),
      dc_agent = string_from_any (field row ''agent_id''),
      dc_round = string_from_any (field row ''round_id''),
      dc_message = string_from_any (field row ''last_message_id''),
      dc_message_time = int64_from_any (field row ''last_message_timestamp''),
      dc_time = int64_from_any (field row ''timestamp'')\<rparr>"

section \<open>Messages\<close>

definition append_directed_message :: "string \<Rightarrow> files \<Rightarrow> directed_message \<Rightarrow> files" where
  "append_directed_message home fs m =
     append_jsonl fs (room_messages_path home (dm_conversation m)) (directed_message_to_row m)"

definition read_directed_messages :: "string \<Rightarrow> files \<Rightarrow> string \<Rightarrow> directed_message list" where
  "read_directed_messages home fs conversation =
     filter (\<lambda>m. trim_space (dm_id m) \<noteq> [])
       (map directed_message_from_row (log_rows fs (room_messages_path home conversation)))"

definition contains_agent :: "string list \<Rightarrow> string \<Rightarrow> bool" where
  "contains_agent items agent \<longleftrightarrow> list_ex (\<lambda>i. trim_space i = agent) items"

definition visible_to_agent :: "directed_message \<Rightarrow> string \<Rightarrow> bool" where
  "visible_to_agent m agent \<longleftrightarrow>
     trim_space agent \<noteq> [] \<and>
     (contains_agent (dm_recipients m) agent
      \<or> rr_mode (dm_route m) = ''private'' \<and> contains_agent (rr_recipients (dm_route m)) agent)"

definition read_visible_messages :: "string \<Rightarrow> files \<Rightarrow> string \<Rightarrow> string \<Rightarrow> directed_message list" where
  "read_visible_messages home fs conversation agent =
     filter (\<lambda>m. visible_to_agent m (trim_space agent)) (read_directed_messages home fs conversation)"

fun messages_after_id :: "string \<Rightarrow> directed_message list \<Rightarrow> directed_message list option" where
  "messages_after_id i [] = None"
| "messages_after_id i (m # ms) = (if trim_space (dm_id m) = i then Some ms else messages_after_id i ms)"

definition directed_messages_after_cursor ::
  "directed_message list \<Rightarrow> directed_cursor \<Rightarrow> directed_message list" where
  "directed_messages_after_cursor ms c =
     (let i = trim_space (dc_message c) in
      case (if i = [] then None else messages_after_id i ms) of
        Some rest \<Rightarrow> rest
      | None \<Rightarrow>
          if dc_message_time c \<le> 0 then ms else filter (\<lambda>m. dc_message_time c < dm_time m) ms)"

definition directed_context_limit :: nat where "directed_context_limit = 20"

definition read_context_messages_after_cursor ::
  "string \<Rightarrow> files \<Rightarrow> string \<Rightarrow> string \<Rightarrow> directed_cursor \<Rightarrow> directed_message list" where
  "read_context_messages_after_cursor home fs conversation agent c =
     (let unread = directed_messages_after_cursor (read_visible_messages home fs conversation agent) c
      in drop (length unread - directed_context_limit) unread)"

definition read_context_messages :: "string \<Rightarrow> files \<Rightarrow> string \<Rightarrow> string \<Rightarrow> directed_message list" where
  "read_context_messages home fs conversation agent =
     read_context_messages_after_cursor home fs conversation agent no_directed_cursor"

section \<open>Cursors\<close>

definition append_message_cursor :: "string \<Rightarrow> files \<Rightarrow> directed_cursor \<Rightarrow> files" where
  "append_message_cursor home fs c =
     append_jsonl fs (room_cursors_path home (dc_conversation c)) (cursor_to_row c)"

definition read_message_cursors :: "string \<Rightarrow> files \<Rightarrow> string \<Rightarrow> string \<Rightarrow> directed_cursor list" where
  "read_message_cursors home fs conversation agent =
     (let target = trim_space agent;
          counts = (\<lambda>c. trim_space (dc_agent c) \<noteq> []
            \<and> trim_space (dc_conversation c) = trim_space conversation
            \<and> trim_space (dc_message c) \<noteq> []
            \<and> (target = [] \<or> trim_space (dc_agent c) = target));
          latest = foldl (\<lambda>d c. AList.update (trim_space (dc_agent c)) c d) []
            (filter counts (map cursor_from_row (log_rows fs (room_cursors_path home conversation))))
      in map snd (sort_key fst latest))"

definition read_message_cursor :: "string \<Rightarrow> files \<Rightarrow> string \<Rightarrow> string \<Rightarrow> directed_cursor option" where
  "read_message_cursor home fs conversation agent =
     (if trim_space agent = [] then None
      else case read_message_cursors home fs conversation agent of [] \<Rightarrow> None | c # _ \<Rightarrow> Some c)"

section \<open>Lemmas\<close>

lemma canonical_directed_row [simp]: "canonical (directed_message_to_row m)"
  unfolding directed_message_to_row_def directed_fields_def some_if_def
  by (intro canonical_present) simp

lemma good_directed_row [simp]: "good_row (directed_message_to_row m)"
  by (simp add: good_row_def) (simp add: directed_message_to_row_def)

lemma good_cursor_row [simp]: "good_row (cursor_to_row c)"
  by (simp add: good_row_def cursor_to_row_def)

text \<open>A message that a row gives back as it is.\<close>

definition wf_directed :: "directed_message \<Rightarrow> bool" where
  "wf_directed m \<longleftrightarrow>
     trimmed (dm_id m) \<and> dm_id m \<noteq> [] \<and> trimmed (dm_room m) \<and> trimmed (dm_conversation m)
     \<and> trimmed (dm_source m) \<and> list_all (\<lambda>r. trimmed r \<and> r \<noteq> []) (dm_recipients m)
     \<and> trimmed (dm_content m) \<and> trimmed (dm_wake m) \<and> wf_route (dm_route m) \<and> 0 \<le> dm_delay m
     \<and> trimmed (dm_correlation m)"

lemma directed_row_field:
  "field (directed_message_to_row m) k =
     (case map_of (directed_fields m) k of None \<Rightarrow> ANil | Some v \<Rightarrow> value_of v)"
  unfolding directed_message_to_row_def
  by (rule field_present) (simp add: directed_fields_def)

lemma directed_row_roundtrip:
  assumes "wf_directed m"
  shows "directed_message_from_row (directed_message_to_row m) = m"
proof -
  have r: "string_slice_from_any (AList (map AStr (dm_recipients m))) = dm_recipients m"
    using assms by (intro string_slice_map_AStr) (simp add: wf_directed_def list_all_iff)
  show ?thesis
    using assms r
    by (cases m) (auto simp: directed_message_from_row_def directed_row_field directed_fields_def some_if_def
        wf_directed_def decode_encode_route)
qed

lemma read_after_append:
  assumes "wf_directed m"
  shows "read_directed_messages home (append_directed_message home fs m) (dm_conversation m) =
    read_directed_messages home fs (dm_conversation m) @ [m]"
  using assms
  by (simp add: read_directed_messages_def append_directed_message_def jsonl.rows_append
      directed_row_roundtrip) (simp add: wf_directed_def)

text \<open>Every message that passes the checks of a request is stored as it is.\<close>

lemma normalized_recipients_ok: "list_all (\<lambda>r. trimmed r \<and> r \<noteq> []) (normalize_recipients rs)"
  by (auto simp: normalize_recipients_def list_all_iff)

lemma plain_modes [simp]:
  "trimmed ''public''" "trimmed ''none''" "trimmed ''private''" "trimmed ''immediate''" "trimmed ''delayed''"
  by (rule plain_word_trimmed, simp add: plain_simps)+

lemma normalized_route_wf: "normalize_route_depth members depth r = Inr r' \<Longrightarrow> wf_route r' \<and> rr_mode r' \<noteq> []"
proof (induction members depth r arbitrary: r' rule: normalize_route_depth.induct)
  case (1 members depth mode recipients wake nxt)
  have "\<forall>r \<in> set (normalize_recipients rs). trimmed r \<and> r \<noteq> []" for rs
    using normalized_recipients_ok[of rs] by (simp add: list_all_iff)
  with 1 show ?case
    by (auto split: if_split_asm option.splits sum.splits)
qed

lemma built_record_fields:
  assumes "build_directed_record ctx rq new_id now = Inr m"
  shows "dm_id m = new_id" "dm_room m = rc_room ctx" "dm_conversation m = rc_conversation ctx"
    "dm_source m = trim_space (dq_source rq)" "dm_correlation m = trim_space (dq_correlation rq)" "dm_time m = now"
  using assms unfolding build_directed_record_def Let_def
  by (simp_all split: if_split_asm option.split_asm sum.split_asm) (hypsubst, simp)+

lemma wake_policy_trimmed: "validate_wake_policy w = None \<Longrightarrow> trimmed w"
  by (auto simp: validate_wake_policy_def split: if_splits)

lemma built_record_wf:
  assumes b: "build_directed_record ctx rq new_id now = Inr m"
    and ids: "trimmed new_id" "new_id \<noteq> []" "trimmed (rc_room ctx)" "trimmed (rc_conversation ctx)"
  shows "wf_directed m"
  using b
proof (rule build_directed_recordE)
  assume "dm_content m = trim_space (dq_content rq)" "dm_recipients m = normalize_recipients (dq_recipients rq)"
    and "validate_wake_policy (dm_wake m) = None" "validate_delay (dm_wake m) (dm_delay m) = None"
    and r: "normalize_room_route (dq_route rq) (list_agent_ids (rc_members ctx)) = Inr (dm_route m)"
  moreover have "0 \<le> dm_delay m"
    using calculation(4) by (auto simp: validate_delay_def split: if_splits)
  moreover have "wf_route (dm_route m)"
    using normalized_route_wf[OF r[unfolded normalize_room_route_def]] by simp
  ultimately show ?thesis
    using ids built_record_fields[OF b] normalized_recipients_ok[of "dq_recipients rq"]
    by (simp add: wf_directed_def wake_policy_trimmed)
qed

text \<open>Where a stored message is read.\<close>

lemma file_join_ends:
  assumes "plain_segment n"
  shows "suffix n (file_join [w, n])"
proof (cases "w = []")
  case True
  have "split_on (CHR ''/'') n = [n]" "\<not> prefix ''/'' n" "n \<noteq> []" "n \<noteq> ''.''" "n \<noteq> ''..''"
    using assms by (auto simp: plain_segment_def split_on_notin prefix_def)
  with True show ?thesis by (simp add: file_join_def clean_path_def Let_def)
next
  case False
  have "suffix n (join ''/'' (xs @ [n]))" for xs
    by (cases "xs = []") (simp_all add: join_snoc suffix_def)
  then show ?thesis
    using assms False by (simp add: file_join_plain suffix_appendI)
qed

lemma file_names_differ:
  assumes "plain_segment m" "plain_segment n" "\<not> suffix m n" "\<not> suffix n m"
  shows "file_join [v, m] \<noteq> file_join [w, n]"
  using suffix_same_cases[of m "file_join [v, m]" n] file_join_ends[OF assms(1), of v]
    file_join_ends[OF assms(2), of w] assms(3,4) by auto

section \<open>Properties\<close>

lemma contains_trimmed:
  "list_all (\<lambda>r. trimmed r \<and> r \<noteq> []) rs \<Longrightarrow> contains_agent rs a \<longleftrightarrow> a \<in> set rs"
  by (induction rs) (auto simp: contains_agent_def)

lemma wf_route_recipients: "wf_route r \<Longrightarrow> list_all (\<lambda>r. trimmed r \<and> r \<noteq> []) (rr_recipients r)"
  by (cases r) (auto simp: list_all_iff)

lemma read_visible_after_append:
  assumes "wf_directed m"
  shows "read_visible_messages home (append_directed_message home fs m) (dm_conversation m) agent =
    read_visible_messages home fs (dm_conversation m) agent @
      (if trim_space agent \<in> set (dm_recipients m)
          \<union> (if rr_mode (dm_route m) = ''private'' then set (rr_recipients (dm_route m)) else {})
       then [m] else [])"
proof -
  have r: "list_all (\<lambda>r. trimmed r \<and> r \<noteq> []) (dm_recipients m)" "list_all (\<lambda>r. trimmed r \<and> r \<noteq> []) (rr_recipients (dm_route m))"
    using assms by (simp_all add: wf_directed_def wf_route_recipients)
  then have "trim_space agent = [] \<Longrightarrow> trim_space agent \<notin> set (dm_recipients m) \<union> set (rr_recipients (dm_route m))"
    by (auto simp: list_all_iff)
  then show ?thesis
    using r by (auto simp: read_visible_messages_def read_after_append[OF assms] visible_to_agent_def contains_trimmed)
qed

text \<open>C28. A directed message that was accepted is stored exactly and privately: the log then reads as
  before with the message at its end, the same in every field, and an agent sees it exactly when
  it is a recipient, or a recipient of the message's private reply.\<close>
theorem accepted_message_stored:
  fixes home :: string and fs :: files
  assumes "build_directed_record ctx rq new_id now = Inr m"
    "trimmed new_id" "new_id \<noteq> []" "trimmed (rc_room ctx)" "trimmed (rc_conversation ctx)"
  defines "fs' \<equiv> append_directed_message home fs m"
  shows "read_directed_messages home fs' (rc_conversation ctx) = read_directed_messages home fs (rc_conversation ctx) @ [m] \<and>
    read_visible_messages home fs' (rc_conversation ctx) agent =
      read_visible_messages home fs (rc_conversation ctx) agent @
        (if trim_space agent \<in> set (dm_recipients m)
            \<union> (if rr_mode (dm_route m) = ''private'' then set (rr_recipients (dm_route m)) else {})
         then [m] else [])"
  using read_after_append[OF built_record_wf[OF assms(1-5)], of home fs]
    read_visible_after_append[OF built_record_wf[OF assms(1-5)], of home fs agent]
  by (simp add: fs'_def built_record_fields[OF assms(1)])

theorem accepted_message_stored_witness:
  "read_visible_messages ''/h'' (append_directed_message ''/h'' Map.empty sample_message) ''c1'' ''b'' = [sample_message] \<and>
   read_visible_messages ''/h'' (append_directed_message ''/h'' Map.empty sample_message) ''c1'' ''d'' = []"
proof -
  have e: "read_visible_messages ''/h'' Map.empty c a = []" for c a
    by (simp add: read_visible_messages_def read_directed_messages_def log_rows_def read_jsonl_def)
  have "trimmed ''m1''" "trimmed (rc_room sample_context)" "trimmed (rc_conversation sample_context)"
    "rc_conversation sample_context = ''c1''"
    "trim_space ''b'' \<in> set (dm_recipients sample_message)"
    "trim_space ''d'' \<notin> set (dm_recipients sample_message) \<union> set (rr_recipients (dm_route sample_message))"
    by code_simp+
  then show ?thesis
    using accepted_message_stored[OF sample_accepted, of "''/h''" Map.empty "''b''"]
      accepted_message_stored[OF sample_accepted, of "''/h''" Map.empty "''d''"] by (simp add: e)
qed

end
