(* ===== verification/RoomContext.thy ===== *)
theory RoomContext
  imports VisibleContext DirectedStore RoomWake
begin

text \<open>
  What a slot has read, \<open>internal/service/room/{public_context,guidance_input}.go\<close> and the room
  cursors of \<open>internal/storage/workspace/store_agent_history.go\<close>: a starting slot gets the
  public messages after the agent's stored cursor and its unread directed messages; guidance to a
  running slot carries the public messages that came since; the cursors are stored when the slot
  has finished. The memory and the user context that other services add to a prompt are the
  parameters \<open>memory\<close> and \<open>user_context\<close>; the broadcast of the queue has no result.
\<close>

section \<open>The stored cursor of the public feed\<close>

record room_public_cursor =
  rpc_room :: string
  rpc_conversation :: string
  rpc_agent :: string
  rpc_round :: string
  rpc_message :: string
  rpc_message_time :: int
  rpc_time :: int

definition append_room_public_cursor ::
  "files \<Rightarrow> string \<Rightarrow> string \<Rightarrow> room_public_cursor \<Rightarrow> int \<Rightarrow> files" where
  "append_room_public_cursor fs workspace key c now =
     append_jsonl fs (session_overlay_path workspace key)
       (AMap [(''nexus_overlay_kind'', AStr ''room_public_cursor''),
              (''room_id'', AStr (trim_space (rpc_room c))),
              (''conversation_id'', AStr (trim_space (rpc_conversation c))),
              (''agent_id'', AStr (trim_space (rpc_agent c))),
              (''round_id'', AStr (trim_space (rpc_round c))),
              (''last_public_message_id'', AStr (trim_space (rpc_message c))),
              (''last_public_timestamp'', AInt (rpc_message_time c)),
              (''timestamp'', AInt (if rpc_time c = 0 then now else rpc_time c))])"

definition public_cursor_of_row :: "any \<Rightarrow> room_public_cursor" where
  "public_cursor_of_row row =
     \<lparr>rpc_room = string_from_any (field row ''room_id''),
      rpc_conversation = string_from_any (field row ''conversation_id''),
      rpc_agent = string_from_any (field row ''agent_id''),
      rpc_round = string_from_any (field row ''round_id''),
      rpc_message = string_from_any (field row ''last_public_message_id''),
      rpc_message_time =
        (let stamp = int64_from_any (field row ''last_public_timestamp'')
         in if 0 < stamp then stamp else int64_from_any (field row ''timestamp'')),
      rpc_time = int64_from_any (field row ''timestamp'')\<rparr>"

definition is_cursor_row :: "string \<Rightarrow> string \<Rightarrow> any \<Rightarrow> bool" where
  "is_cursor_row conversation agent row \<longleftrightarrow>
     string_from_any (field row ''nexus_overlay_kind'') = ''room_public_cursor''
     \<and> (conversation = [] \<or> string_from_any (field row ''conversation_id'') = conversation)
     \<and> (agent = [] \<or> string_from_any (field row ''agent_id'') = agent)"

fun latest_cursor :: "room_public_cursor option \<Rightarrow> room_public_cursor list \<Rightarrow> room_public_cursor option" where
  "latest_cursor latest [] = latest"
| "latest_cursor latest (c # cs) =
     latest_cursor
       (case latest of
          None \<Rightarrow> Some c
        | Some l \<Rightarrow> if rpc_time l \<le> rpc_time c then Some c else Some l) cs"

definition read_room_public_cursor ::
  "files \<Rightarrow> string \<Rightarrow> string \<Rightarrow> string \<Rightarrow> string \<Rightarrow> room_public_cursor option" where
  "read_room_public_cursor fs workspace key conversation agent =
     latest_cursor None
       (map public_cursor_of_row
         (filter (is_cursor_row (trim_space conversation) (trim_space agent))
           (log_rows fs (session_overlay_path workspace key))))"

section \<open>The input of a slot\<close>

fun render_attachment_messages :: "room_env \<Rightarrow> any list \<Rightarrow> string + any list" where
  "render_attachment_messages env [] = Inr []"
| "render_attachment_messages env (m # ms) =
     (let attachments = attachments_from_any (field m ''attachments'') in
      case (if attachments = [] then Inr m
            else map_sum id (\<lambda>t. AMap (AList.update ''content'' (AStr t) (entries m)))
              (env_render env (case field m ''content'' of AStr t \<Rightarrow> t | _ \<Rightarrow> []) attachments)) of
        Inl e \<Rightarrow> Inl e
      | Inr m' \<Rightarrow> map_sum id (Cons m') (render_attachment_messages env ms))"

definition no_public_cursor :: public_cursor where
  "no_public_cursor = \<lparr>pc_message = [], pc_time = 0\<rparr>"

definition public_batch_for_slot ::
  "files \<Rightarrow> room_round \<Rightarrow> slot \<Rightarrow> any list \<Rightarrow> agent_names \<Rightarrow> public_cursor \<Rightarrow> public_batch" where
  "public_batch_for_slot fs r s history names override =
     (let cursor =
        (if trim_space (pc_message override) = [] \<and> pc_time override = 0 then
           case read_room_public_cursor fs (sl_workspace s) (sl_runtime_key s) (rr_conversation r) (sl_agent s) of
             Some stored \<Rightarrow> \<lparr>pc_message = rpc_message stored, pc_time = rpc_message_time stored\<rparr>
           | None \<Rightarrow> override
         else override)
      in build_public_batch history cursor names (sl_agent s))"

definition directed_messages_for_slot ::
  "string \<Rightarrow> files \<Rightarrow> room_round \<Rightarrow> slot \<Rightarrow> directed_message list \<times> slot" where
  "directed_messages_for_slot home fs r s =
     (let cursor = (case read_message_cursor home fs (rr_conversation r) (sl_agent s) of
            None \<Rightarrow> no_directed_cursor | Some c \<Rightarrow> c);
          ms = read_context_messages_after_cursor home fs (rr_conversation r) (sl_agent s) cursor
      in (ms, if ms = [] then s
              else s\<lparr>sl_directed_id := dm_id (last ms), sl_directed_time := dm_time (last ms)\<rparr>))"

definition build_slot_visible_context ::
  "room_env \<Rightarrow> (room_round \<Rightarrow> slot \<Rightarrow> string \<Rightarrow> string) \<Rightarrow> string \<Rightarrow> files \<Rightarrow> room_round \<Rightarrow> slot \<Rightarrow>
   any list \<Rightarrow> agent_names \<Rightarrow> string + (string \<times> slot)" where
  "build_slot_visible_context env memory home fs r s history names =
     (let batch = public_batch_for_slot fs r s history names no_public_cursor in
      case render_attachment_messages env (pb_messages batch) of
        Inl e \<Rightarrow> Inl e
      | Inr messages \<Rightarrow>
          let s = s\<lparr>sl_public_id := pb_message batch, sl_public_time := pb_time batch\<rparr>;
              (directed, s) = directed_messages_for_slot home fs r s
          in Inr (memory r s (build_visible_context messages directed (sl_trigger s) names (sl_agent s)), s))"

section \<open>Recording what was read\<close>

definition record_room_public_cursor ::
  "files \<Rightarrow> room_round \<Rightarrow> slot \<Rightarrow> string \<Rightarrow> int \<Rightarrow> int \<Rightarrow> files" where
  "record_room_public_cursor fs r s message stamp now =
     (let i = trim_space message in
      if i = [] \<and> stamp = 0 then fs
      else append_room_public_cursor fs (sl_workspace s) (sl_runtime_key s)
        \<lparr>rpc_room = rr_room r, rpc_conversation = rr_conversation r, rpc_agent = sl_agent s,
         rpc_round = sl_agent_round s, rpc_message = i, rpc_message_time = stamp, rpc_time = now\<rparr> now)"

definition record_directed_cursor ::
  "string \<Rightarrow> files \<Rightarrow> room_round \<Rightarrow> slot \<Rightarrow> int \<Rightarrow> directed_cursor option \<times> files" where
  "record_directed_cursor home fs r s now =
     (let i = trim_space (sl_directed_id s) in
      if i = [] \<and> sl_directed_time s = 0 then (None, fs)
      else
        let c = \<lparr>dc_room = rr_room r, dc_conversation = rr_conversation r, dc_agent = sl_agent s,
                 dc_round = sl_agent_round s, dc_message = i, dc_message_time = sl_directed_time s,
                 dc_time = now\<rparr>
        in (Some c, append_message_cursor home fs c))"

definition directed_consumed_event :: "int \<Rightarrow> directed_cursor \<Rightarrow> event_message" where
  "directed_consumed_event now c =
     (new_event now ''room_directed_message_consumed''
        (AMap [(''room_id'', AStr (dc_room c)), (''conversation_id'', AStr (dc_conversation c)),
               (''agent_id'', AStr (dc_agent c)), (''round_id'', AStr (dc_round c)),
               (''last_message_id'', AStr (dc_message c)),
               (''last_message_timestamp'', AInt (dc_message_time c))]))
       \<lparr>ev_session := build_room_key (dc_conversation c), ev_room := dc_room c,
        ev_conversation := dc_conversation c, ev_agent := dc_agent c, ev_caused_by := dc_round c\<rparr>"

text \<open>The end of \<open>runSlot\<close>: the cursors of a slot that has finished.\<close>

definition record_slot_cursors ::
  "string \<Rightarrow> files \<Rightarrow> room_round \<Rightarrow> slot \<Rightarrow> int \<Rightarrow> event_message list \<times> files" where
  "record_slot_cursors home fs r s now =
     (if sl_status s \<noteq> ''finished'' then ([], fs)
      else
        let fs = record_room_public_cursor fs r s (sl_public_id s) (sl_public_time s) now;
            (recorded, fs) = record_directed_cursor home fs r s now
        in (case recorded of None \<Rightarrow> [] | Some c \<Rightarrow> [directed_consumed_event now c], fs))"

section \<open>Guidance to a running slot\<close>

definition build_slot_guided_context ::
  "room_env \<Rightarrow> files \<Rightarrow> room_round \<Rightarrow> slot \<Rightarrow> any list \<Rightarrow> agent_names \<Rightarrow> trigger \<Rightarrow>
   (string + string) \<times> slot \<times> files" where
  "build_slot_guided_context env fs r s history names t =
     (let base = \<lparr>pc_message = trim_space (sl_public_id s), pc_time = sl_public_time s\<rparr>;
          batch = public_batch_for_slot fs r s history names base
      in case render_attachment_messages env (pb_messages batch) of
           Inl e \<Rightarrow> (Inl e, s, fs)
         | Inr messages \<Rightarrow>
             let (s, fs) =
               (if trim_space (pb_message batch) \<noteq> [] \<or> 0 < pb_time batch then
                  (s\<lparr>sl_public_id := pb_message batch, sl_public_time := pb_time batch\<rparr>,
                   record_room_public_cursor fs r s (pb_message batch) (pb_time batch) (env_now env))
                else (s, fs))
             in (Inr (build_guided_context messages t names), s, fs))"

definition latest_guidance_trigger :: "queued_input list \<Rightarrow> queue_item list \<Rightarrow> string \<times> string" where
  "latest_guidance_trigger inputs items =
     (let ids = map (\<lambda>i. trim_space (qi_round i)) inputs
            @ map (\<lambda>i. if trim_space (iq_id i) = [] then [] else ''queue_'' @ trim_space (iq_id i)) items;
          contents = map (\<lambda>i. trim_space (qi_content i)) inputs @ map (\<lambda>i. trim_space (iq_content i)) items;
          newest = (\<lambda>xs. case filter (\<lambda>x. x \<noteq> []) (rev xs) of [] \<Rightarrow> [] | x # _ \<Rightarrow> x)
      in (newest ids, newest contents))"

definition unanchored_guidance :: "queue_item list \<Rightarrow> guided_input list" where
  "unanchored_guidance items =
     map (\<lambda>i. \<lparr>gi_round = ''queue_'' @ trim_space (iq_id i), gi_content = trim_space (iq_content i)\<rparr>)
       (filter (\<lambda>i. trim_space (iq_source_message i) = [] \<and> trim_space (iq_content i) \<noteq> []) items)"

definition runtime_context_agent ::
  "room_env \<Rightarrow> room_context \<Rightarrow> string \<Rightarrow> string + member_agent option" where
  "runtime_context_agent env ctx agent =
     (let a = trim_space agent in
      if a = [] then Inr None
      else case find (\<lambda>m. trim_space (ma_id m) = a) (rc_agents ctx) of
        Some m \<Rightarrow> Inr (Some m)
      | None \<Rightarrow> map_sum id Some (env_agent env a))"

fun render_guidance_items ::
  "room_env \<Rightarrow> (member_agent \<Rightarrow> string \<Rightarrow> string) \<Rightarrow> room_context \<Rightarrow> string \<Rightarrow> queue_item list \<Rightarrow>
   string + queue_item list" where
  "render_guidance_items env user_context ctx agent [] = Inr []"
| "render_guidance_items env user_context ctx agent (i # is) =
     (case env_render env (iq_content i) (iq_attachments i) of
        Inl e \<Rightarrow> Inl e
      | Inr content \<Rightarrow>
     (case runtime_context_agent env ctx agent of
        Inl e \<Rightarrow> Inl e
      | Inr who \<Rightarrow>
          map_sum id (Cons (i\<lparr>iq_content := (case who of None \<Rightarrow> content | Some a \<Rightarrow> user_context a content)\<rparr>))
            (render_guidance_items env user_context ctx agent is)))"

text \<open>
  The hook after a tool use of a room agent: \<open>None\<close> is the empty output. The inputs and queue
  items are taken out before anything can fail.
\<close>

definition room_guidance_hook ::
  "room_env \<Rightarrow> (member_agent \<Rightarrow> string \<Rightarrow> string) \<Rightarrow> room_context \<Rightarrow> queue_location \<Rightarrow> string \<Rightarrow> files \<Rightarrow>
   room_round \<Rightarrow> slot \<Rightarrow> (string + string option) \<times> slot \<times> files" where
  "room_guidance_hook env user_context ctx loc event_name fs r s =
     (if event_name \<noteq> [] \<and> event_name \<noteq> ''PostToolUse'' then (Inr None, s, fs)
      else
        let (inputs, s) = drain_guided_inputs s in
        case dispatch_guidance fs loc [sl_agent_round s] (env_now env) of
          Inl e \<Rightarrow> (Inl e, s, fs)
        | Inr (items, _, fs) \<Rightarrow>
            if inputs = [] \<and> items = [] then (Inr None, s, fs)
            else case render_guidance_items env user_context ctx (sl_agent s) items of
              Inl e \<Rightarrow> (Inl e, s, fs)
            | Inr rendered \<Rightarrow>
            (case build_agent_directory (env_agent env) ctx of
              Inl e \<Rightarrow> (Inl e, s, fs)
            | Inr directory \<Rightarrow>
            (case env_history env of
              Inl e \<Rightarrow> (Inl e, s, fs)
            | Inr history \<Rightarrow>
                let (source, content) = latest_guidance_trigger inputs rendered;
                    t = \<lparr>tg_type = ''public_chat'', tg_content = content, tg_message = trim_space source,
                         tg_source = [], tg_target = sl_agent s, tg_route = no_route\<rparr>
                in case build_slot_guided_context env fs r s history
                          (map (\<lambda>(i, a). (i, ma_name a)) directory) t of
                     (Inl e, s, fs) \<Rightarrow> (Inl e, s, fs)
                   | (Inr public_text, s, fs) \<Rightarrow>
                       let given = (if trim_space public_text \<noteq> []
                              then [\<lparr>gi_round = source, gi_content = public_text\<rparr>] else [])
                            @ unanchored_guidance rendered;
                           given = (if given = [] then
                              map (\<lambda>i. \<lparr>gi_round = qi_round i, gi_content = qi_content i\<rparr>) inputs
                              @ map (\<lambda>i. \<lparr>gi_round = ''queue_'' @ trim_space (iq_id i), gi_content = iq_content i\<rparr>) rendered
                              else given)
                       in (Inr (Some (format_guidance given)), s, fs))))"

section \<open>Properties\<close>

lemma guidance_taken_out:
  assumes "snapshot fs loc now = Inr q" "0 < now" "filter (is_guidance roots) q \<noteq> []"
  shows "\<exists>fs'. dispatch_guidance fs loc roots now =
      Inr (filter (is_guidance roots) q, filter (\<lambda>i. \<not> is_guidance roots i) q, fs') \<and>
    snapshot fs' loc now = Inr (filter (\<lambda>i. \<not> is_guidance roots i) q)"
  using dispatch_guidance_spec[OF assms(1,2), of roots] assms(1,3)
  by (auto simp: dispatch_guidance_def Let_def split: sum.splits)

text \<open>Guidance is lost when it cannot be rendered: the hook empties the slot's inputs and takes the
  guide items out of the queue before it renders them, so when an attachment of one of them
  cannot be read the hook fails, nothing reaches the agent, and neither the slot nor the queue
  has them any more.\<close>

lemma failed_guidance_is_lost:
  assumes "snapshot fs loc (env_now env) = Inr q" "0 < env_now env"
    and "render_guidance_items env user_context ctx (sl_agent s) (filter (is_guidance [sl_agent_round s]) q) = Inl e"
  shows "\<exists>fs'. room_guidance_hook env user_context ctx loc ''PostToolUse'' fs r s = (Inl e, s\<lparr>sl_guided := []\<rparr>, fs') \<and>
    snapshot fs' loc (env_now env) = Inr (filter (\<lambda>i. \<not> is_guidance [sl_agent_round s] i) q)"
proof -
  have ne: "filter (is_guidance [sl_agent_round s]) q \<noteq> []" using assms(3) by auto
  show ?thesis
    using guidance_taken_out[OF assms(1,2) ne] assms(3) ne
    by (auto simp: room_guidance_hook_def drain_guided_inputs_def)
qed

lemma failed_guidance_is_lost_witness:
  "\<exists>fs'. room_guidance_hook (sample_env\<lparr>env_render := (\<lambda>t as. Inl ''missing'')\<rparr>) (\<lambda>_ t. t) sample_context sample_location
      ''PostToolUse'' sample_files sample_parent ((sample_slot ''b'' ''running'' 5)\<lparr>sl_agent_round := ''x''\<rparr>) =
    (Inl ''missing'', (sample_slot ''b'' ''running'' 5)\<lparr>sl_agent_round := ''x'', sl_guided := []\<rparr>, fs')"
proof -
  let ?env = "sample_env\<lparr>env_render := (\<lambda>t as. Inl ''missing'')\<rparr>" and ?s = "(sample_slot ''b'' ''running'' 5)\<lparr>sl_agent_round := ''x''\<rparr>"
  have "filter (is_guidance [''x'']) sample_queue = [sample_item ''a'' ''guide'' 5, sample_item ''c'' ''guide'' 7]"
    by code_simp
  then have "render_guidance_items ?env (\<lambda>_ t. t) sample_context (sl_agent ?s) (filter (is_guidance [sl_agent_round ?s]) sample_queue) = Inl ''missing''"
    by simp
  moreover have "snapshot sample_files sample_location (env_now ?env) = Inr sample_queue" "0 < env_now ?env"
    using sample_snapshot by (simp_all add: sample_env_def)
  ultimately show ?thesis
    using failed_guidance_is_lost[of sample_files sample_location ?env sample_queue "\<lambda>_ t. t" sample_context ?s "''missing''" sample_parent]
    by auto
qed

end
