(* ===== verification/RoomReader.thy ===== *)
theory RoomReader
  imports RoomContext
begin

text \<open>
  One agent of a room as a reader of the public feed: messages are published, slots of the agent
  start, are guided, finish or are abandoned, in any order, and the stored cursor decides what
  the next slot is shown. An inductive step relation composes the operations of \<open>RoomContext\<close>;
  its invariant says where in the history the cursors stand.
\<close>

section \<open>The steps\<close>

record reader =
  rd_files :: files
  rd_history :: "any list"
  rd_slot :: "slot option"
  rd_clock :: int
  rd_shown :: "any list"
  rd_read :: "any list"

text \<open>
  \<open>rd_read\<close> are the messages shown to slots whose cursor is stored, \<open>rd_shown\<close> those and
  what the running slot was shown. The slots of an agent in a conversation share workspace and
  runtime key.
\<close>

definition slot_of_agent :: "string \<Rightarrow> string \<Rightarrow> string \<Rightarrow> slot \<Rightarrow> bool" where
  "slot_of_agent workspace key agent s \<longleftrightarrow>
     sl_workspace s = workspace \<and> sl_runtime_key s = key \<and> sl_agent s = agent"

definition slot_cursor :: "slot \<Rightarrow> public_cursor" where
  "slot_cursor s = \<lparr>pc_message = trim_space (sl_public_id s), pc_time = sl_public_time s\<rparr>"

inductive reader_step ::
  "room_env \<Rightarrow> (room_round \<Rightarrow> slot \<Rightarrow> string \<Rightarrow> string) \<Rightarrow> string \<Rightarrow> agent_names \<Rightarrow>
   string \<Rightarrow> string \<Rightarrow> string \<Rightarrow> string \<Rightarrow> reader \<Rightarrow> reader \<Rightarrow> bool"
  for env memory home names conversation workspace key agent where
  publish:
    "message_id m \<noteq> [] \<Longrightarrow> message_id m \<notin> message_id ` set (rd_history st) \<Longrightarrow>
     reader_step env memory home names conversation workspace key agent st
       (st\<lparr>rd_history := rd_history st @ [m]\<rparr>)"
| tick:
    "rd_clock st \<le> now \<Longrightarrow>
     reader_step env memory home names conversation workspace key agent st (st\<lparr>rd_clock := now\<rparr>)"
| start:
    "rd_slot st = None \<Longrightarrow> slot_of_agent workspace key agent s \<Longrightarrow> rr_conversation r = conversation \<Longrightarrow>
     build_slot_visible_context env memory home (rd_files st) r s (rd_history st) names = Inr (prompt, s') \<Longrightarrow>
     reader_step env memory home names conversation workspace key agent st
       (st\<lparr>rd_slot := Some s',
           rd_shown := rd_read st
             @ pb_messages (public_batch_for_slot (rd_files st) r s (rd_history st) names no_public_cursor)\<rparr>)"
| guide:
    "rd_slot st = Some s \<Longrightarrow> rr_conversation r = conversation \<Longrightarrow>
     build_slot_guided_context (env\<lparr>env_now := rd_clock st\<rparr>) (rd_files st) r s (rd_history st) names t =
       (Inr prompt, s', fs') \<Longrightarrow>
     batch = public_batch_for_slot (rd_files st) r s (rd_history st) names (slot_cursor s) \<Longrightarrow>
     shown = rd_shown st @ pb_messages batch \<Longrightarrow>
     reader_step env memory home names conversation workspace key agent st
       (st\<lparr>rd_slot := Some s', rd_files := fs', rd_shown := shown,
           rd_read := (if pb_message batch = [] then rd_read st else shown)\<rparr>)"
| finish:
    "rd_slot st = Some s \<Longrightarrow> rr_conversation r = conversation \<Longrightarrow>
     record_slot_cursors home (rd_files st) r (set_status ''finished'' s) (rd_clock st) = (evs, fs') \<Longrightarrow>
     reader_step env memory home names conversation workspace key agent st
       (st\<lparr>rd_slot := None, rd_files := fs', rd_read := rd_shown st\<rparr>)"
| abandon:
    "rd_slot st = Some s \<Longrightarrow>
     reader_step env memory home names conversation workspace key agent st
       (st\<lparr>rd_slot := None, rd_shown := rd_read st\<rparr>)"

section \<open>Lemmas on cursors\<close>

lemma cursor_at:
  assumes "distinct (map message_id h)" "0 < n" "n \<le> length h"
    "pc_message c = message_id (h ! (n - 1))" "message_id (h ! (n - 1)) \<noteq> []"
  shows "public_messages_after_cursor h c = drop n h"
proof -
  have ne: "take n h \<noteq> []" using assms(2,3) by auto
  have l: "last (take n h) = h ! (n - 1)" using assms(2,3) ne by (simp add: last_conv_nth min_def)
  have d: "distinct (map message_id (take n h))"
    using assms(1) by (metis distinct_take take_map)
  from after_last[OF ne d, of c "drop n h"] assms(4,5) show ?thesis by (simp add: l)
qed

lemma latest_cursor_snoc:
  "list_all (\<lambda>d. rpc_time d \<le> rpc_time c) cs \<Longrightarrow>
   (case l of None \<Rightarrow> True | Some d \<Rightarrow> rpc_time d \<le> rpc_time c) \<Longrightarrow> latest_cursor l (cs @ [c]) = Some c"
  by (induction cs arbitrary: l) (auto split: option.splits)

definition cursors_of :: "files \<Rightarrow> string \<Rightarrow> string \<Rightarrow> string \<Rightarrow> string \<Rightarrow> room_public_cursor list" where
  "cursors_of fs workspace key conversation agent =
     map public_cursor_of_row
       (filter (is_cursor_row (trim_space conversation) (trim_space agent))
         (log_rows fs (session_overlay_path workspace key)))"

lemma read_cursors_of:
  "read_room_public_cursor fs workspace key conversation agent =
   latest_cursor None (cursors_of fs workspace key conversation agent)"
  by (simp add: read_room_public_cursor_def cursors_of_def)

lemma cursors_of_record:
  assumes "trim_space message \<noteq> []" "slot_of_agent workspace key agent s" "rr_conversation r = conversation"
  shows "\<exists>c. cursors_of (record_room_public_cursor fs r s message stamp now) workspace key conversation agent =
      cursors_of fs workspace key conversation agent @ [c] \<and>
    rpc_message c = trim_space message \<and> rpc_time c = now"
proof -
  let ?row = "AMap [(''nexus_overlay_kind'', AStr ''room_public_cursor''),
      (''room_id'', AStr (trim_space (rr_room r))), (''conversation_id'', AStr (trim_space conversation)),
      (''agent_id'', AStr (trim_space agent)), (''round_id'', AStr (trim_space (sl_agent_round s))),
      (''last_public_message_id'', AStr (trim_space message)),
      (''last_public_timestamp'', AInt stamp), (''timestamp'', AInt now)]"
  have g: "good_row ?row" by (simp add: good_row_def)
  have fs: "record_room_public_cursor fs r s message stamp now =
      append_jsonl fs (session_overlay_path workspace key) ?row"
    using assms by (simp add: record_room_public_cursor_def append_room_public_cursor_def slot_of_agent_def Let_def)
  have "trim_space ''room_public_cursor'' = ''room_public_cursor''"
    by (rule plain_word_trim) (simp add: plain_simps)
  then have "is_cursor_row (trim_space conversation) (trim_space agent) ?row"
    by (simp add: is_cursor_row_def field_AMap)
  then show ?thesis
    unfolding fs cursors_of_def jsonl.rows_append[OF g]
    by (simp add: public_cursor_of_row_def field_AMap)
qed

lemma batch_position:
  assumes "public_messages_after_cursor h c = drop p h"
  shows "subseq (pb_messages (build_public_batch h c names agent)) (drop p h)"
    "drop p h = [] \<Longrightarrow> build_public_batch h c names agent = \<lparr>pb_messages = [], pb_message = [], pb_time = 0\<rparr>"
    "drop p h \<noteq> [] \<Longrightarrow> pb_message (build_public_batch h c names agent) = message_id (last h)"
proof -
  note suf = candidates_suffix[of h c names, unfolded assms]
  have "subseq (filter P (public_candidates h c names)) (drop p h)" for P
    by (rule subseq_order.trans[OF subseq_filter_left suffix_imp_subseq[OF suf]])
  then show "subseq (pb_messages (build_public_batch h c names agent)) (drop p h)"
    by (simp add: build_public_batch_def Let_def)
  show "drop p h = [] \<Longrightarrow> build_public_batch h c names agent = \<lparr>pb_messages = [], pb_message = [], pb_time = 0\<rparr>"
    using candidates_Nil[of h c names] assms by (simp add: build_public_batch_def Let_def)
  show "drop p h \<noteq> [] \<Longrightarrow> pb_message (build_public_batch h c names agent) = message_id (last h)"
    using candidates_Nil[of h c names] last_candidate[of h c names] assms
    by (simp add: build_public_batch_def Let_def)
qed

section \<open>The invariant\<close>

definition marks :: "any list \<Rightarrow> string \<Rightarrow> nat \<Rightarrow> bool" where
  "marks h message n \<longleftrightarrow> 0 < n \<and> n \<le> length h \<and> message = message_id (h ! (n - 1)) \<and> message \<noteq> []"

definition cursor_ok :: "any list \<Rightarrow> string \<Rightarrow> any list \<Rightarrow> bool" where
  "cursor_ok h message seen \<longleftrightarrow> (\<exists>n. marks h message n \<and> subseq seen (take n h))"

definition reader_inv ::
  "string \<Rightarrow> string \<Rightarrow> string \<Rightarrow> string \<Rightarrow> reader \<Rightarrow> bool" where
  "reader_inv conversation workspace key agent st \<longleftrightarrow>
     distinct (map message_id (rd_history st)) \<and> list_all (\<lambda>m. message_id m \<noteq> []) (rd_history st) \<and>
     list_all (\<lambda>c. rpc_time c \<le> rd_clock st) (cursors_of (rd_files st) workspace key conversation agent) \<and>
     (case read_room_public_cursor (rd_files st) workspace key conversation agent of
        None \<Rightarrow> rd_read st = []
      | Some c \<Rightarrow> cursor_ok (rd_history st) (rpc_message c) (rd_read st)) \<and>
     (case rd_slot st of
        None \<Rightarrow> rd_shown st = rd_read st
      | Some s \<Rightarrow> slot_of_agent workspace key agent s \<and>
          (if sl_public_id s = [] then sl_public_time s = 0 \<and> rd_shown st = rd_read st
           else cursor_ok (rd_history st) (sl_public_id s) (rd_shown st)))"

lemma cursor_ok_grow: "cursor_ok h message seen \<Longrightarrow> cursor_ok (h @ [m]) message seen"
  by (auto simp: cursor_ok_def marks_def nth_append)

lemma cursor_ok_subseq: "cursor_ok h message seen \<Longrightarrow> subseq seen h"
  unfolding cursor_ok_def by (metis prefix_imp_subseq subseq_order.trans take_is_prefix)

lemma cursor_ok_unread:
  assumes "cursor_ok h message seen" "distinct (map message_id h)" "pc_message c = message"
  obtains p where "public_messages_after_cursor h c = drop p h" "subseq seen (take p h)"
  using assms cursor_at[of h _ c] by (auto simp: cursor_ok_def marks_def)

lemma cursor_ok_last:
  assumes "subseq seen (take p h)" "subseq news (drop p h)" "h \<noteq> []" "message_id (last h) \<noteq> []"
  shows "cursor_ok h (message_id (last h)) (seen @ news)"
proof -
  have "subseq (seen @ news) (take p h @ drop p h)" using assms(1,2) by (rule list_emb_append_mono)
  then show ?thesis
    using assms(3,4) by (auto simp: cursor_ok_def marks_def last_conv_nth intro!: exI[of _ "length h"])
qed

text \<open>What a slot is shown next, from its own cursor or from the stored one.\<close>

lemma stored_batch:
  assumes "reader_inv conversation workspace key agent st" "slot_of_agent workspace key agent s"
    "rr_conversation r = conversation" "pc_message c = []" "pc_time c = 0"
  obtains p d where
    "public_batch_for_slot (rd_files st) r s (rd_history st) names c = build_public_batch (rd_history st) d names agent"
    "public_messages_after_cursor (rd_history st) d = drop p (rd_history st)"
    "subseq (rd_read st) (take p (rd_history st))"
proof (cases "read_room_public_cursor (rd_files st) workspace key conversation agent")
  case None
  have "public_messages_after_cursor (rd_history st) c = drop 0 (rd_history st)"
    using assms(4,5) by (simp add: public_messages_after_cursor_def Let_def)
  moreover have "rd_read st = []" using assms(1) None by (simp add: reader_inv_def)
  ultimately show ?thesis
    using None assms(2-5) that[of c 0]
    by (simp add: public_batch_for_slot_def slot_of_agent_def Let_def)
next
  case (Some stored)
  let ?d = "\<lparr>pc_message = rpc_message stored, pc_time = rpc_message_time stored\<rparr>"
  have "cursor_ok (rd_history st) (rpc_message stored) (rd_read st)" "distinct (map message_id (rd_history st))"
    using assms(1) Some by (simp_all add: reader_inv_def)
  then obtain p where "public_messages_after_cursor (rd_history st) ?d = drop p (rd_history st)"
    "subseq (rd_read st) (take p (rd_history st))"
    by (rule cursor_ok_unread[where c = ?d]) simp
  then show ?thesis
    using Some assms(2-5) that[of ?d p]
    by (simp add: public_batch_for_slot_def slot_of_agent_def Let_def)
qed

lemma record_times:
  assumes "list_all (\<lambda>c. rpc_time c \<le> now) (cursors_of fs workspace key conversation agent)"
    "slot_of_agent workspace key agent s" "rr_conversation r = conversation" "trim_space message \<noteq> []"
    and fs'_def: "fs' = record_room_public_cursor fs r s message stamp now"
  shows "list_all (\<lambda>c. rpc_time c \<le> now) (cursors_of fs' workspace key conversation agent)"
    "\<exists>c. read_room_public_cursor fs' workspace key conversation agent = Some c \<and> rpc_message c = trim_space message"
proof -
  obtain c where c: "cursors_of fs' workspace key conversation agent = cursors_of fs workspace key conversation agent @ [c]"
    "rpc_message c = trim_space message" "rpc_time c = now"
    unfolding fs'_def using cursors_of_record[OF assms(4,2,3)] by blast
  then show "list_all (\<lambda>c. rpc_time c \<le> now) (cursors_of fs' workspace key conversation agent)"
    using assms(1) by simp
  show "\<exists>c. read_room_public_cursor fs' workspace key conversation agent = Some c \<and> rpc_message c = trim_space message"
    unfolding read_cursors_of c(1) using latest_cursor_snoc[of c _ None] assms(1) c(2,3) by simp
qed

text \<open>The cursor of the directed messages lives in another file.\<close>

lemma overlay_not_cursor_file: "session_overlay_path workspace key \<noteq> room_cursors_path home conversation"
  unfolding session_overlay_path_def room_cursors_path_def
  by (rule file_names_differ; code_simp)

lemma cursors_of_directed [simp]:
  "cursors_of (snd (record_directed_cursor home fs r s now)) workspace key conversation agent =
   cursors_of fs workspace key conversation agent"
  by (simp add: cursors_of_def record_directed_cursor_def append_message_cursor_def Let_def
      jsonl.rows_append_other overlay_not_cursor_file)

lemma read_directed [simp]:
  "read_room_public_cursor (snd (record_directed_cursor home fs r s now)) workspace key conversation agent =
   read_room_public_cursor fs workspace key conversation agent"
  by (simp add: read_cursors_of)

lemma visible_context_slot:
  assumes "build_slot_visible_context env memory home fs r s h names = Inr (prompt, s')"
    "slot_of_agent workspace key agent s"
  shows "sl_public_id s' = pb_message (public_batch_for_slot fs r s h names no_public_cursor)"
    "sl_public_time s' = pb_time (public_batch_for_slot fs r s h names no_public_cursor)"
    "slot_of_agent workspace key agent s'"
  using assms
  by (auto simp: build_slot_visible_context_def directed_messages_for_slot_def slot_of_agent_def Let_def
      split: sum.splits prod.splits if_splits)

lemma marks_trimmed: "cursor_ok h message seen \<Longrightarrow> trim_space message = message \<and> message \<noteq> []"
  by (auto simp: cursor_ok_def marks_def message_id_def)

lemma inv_last: "reader_inv conversation workspace key agent st \<Longrightarrow> rd_history st \<noteq> [] \<Longrightarrow> message_id (last (rd_history st)) \<noteq> []"
  by (simp add: reader_inv_def list_all_iff)

lemma start_inv:
  assumes inv: "reader_inv conversation workspace key agent st"
    and s: "slot_of_agent workspace key agent s" "rr_conversation r = conversation"
    and b: "build_slot_visible_context env memory home (rd_files st) r s (rd_history st) names = Inr (prompt, s')"
  shows "reader_inv conversation workspace key agent
    (st\<lparr>rd_slot := Some s', rd_shown := rd_read st
         @ pb_messages (public_batch_for_slot (rd_files st) r s (rd_history st) names no_public_cursor)\<rparr>)"
proof -
  let ?h = "rd_history st"
  obtain p d where pd:
    "public_batch_for_slot (rd_files st) r s ?h names no_public_cursor = build_public_batch ?h d names agent"
    "public_messages_after_cursor ?h d = drop p ?h" "subseq (rd_read st) (take p ?h)"
    by (rule stored_batch[OF inv s, of no_public_cursor names]) (auto simp: no_public_cursor_def)
  note slot = visible_context_slot[OF b s(1), unfolded pd(1)]
  note batch = batch_position[OF pd(2), of names agent]
  show ?thesis
  proof (cases "drop p ?h = []")
    case True
    then show ?thesis using inv slot batch(2) by (simp add: reader_inv_def pd(1) split: option.splits)
  next
    case False
    have h: "?h \<noteq> []" using False by auto
    have "cursor_ok ?h (message_id (last ?h)) (rd_read st @ pb_messages (build_public_batch ?h d names agent))"
      by (rule cursor_ok_last[OF pd(3) batch(1) h inv_last[OF inv h]])
    then show ?thesis
      using inv slot batch(3)[OF False] inv_last[OF inv h] by (simp add: reader_inv_def pd(1) split: option.splits)
  qed
qed

lemma next_batch:
  assumes inv: "reader_inv conversation workspace key agent st" and s: "rd_slot st = Some s"
    and r: "rr_conversation r = conversation"
  obtains p d where
    "public_batch_for_slot (rd_files st) r s (rd_history st) names (slot_cursor s) =
       build_public_batch (rd_history st) d names agent"
    "public_messages_after_cursor (rd_history st) d = drop p (rd_history st)"
    "subseq (rd_shown st) (take p (rd_history st))"
proof (cases "sl_public_id s = []")
  case True
  then have "rd_shown st = rd_read st" "slot_of_agent workspace key agent s" "sl_public_time s = 0"
    using inv s by (auto simp: reader_inv_def)
  then show ?thesis
    using stored_batch[OF inv _ r, of s "slot_cursor s" names] True that by (auto simp: slot_cursor_def)
next
  case False
  then have c: "cursor_ok (rd_history st) (sl_public_id s) (rd_shown st)" "slot_of_agent workspace key agent s"
    "distinct (map message_id (rd_history st))"
    using inv s by (auto simp: reader_inv_def)
  have "pc_message (slot_cursor s) = sl_public_id s" "pc_message (slot_cursor s) \<noteq> []"
    using marks_trimmed[OF c(1)] by (simp_all add: slot_cursor_def)
  then show ?thesis
    using cursor_ok_unread[OF c(1,3), of "slot_cursor s"] c(2) that[of "slot_cursor s"]
    by (auto simp: public_batch_for_slot_def slot_of_agent_def marks_trimmed[OF c(1)] slot_cursor_def Let_def)
qed

lemma guided_context_state:
  assumes "build_slot_guided_context env fs r s h names t = (Inr prompt, s', fs')"
  defines "b \<equiv> public_batch_for_slot fs r s h names (slot_cursor s)"
  shows "if trim_space (pb_message b) \<noteq> [] \<or> 0 < pb_time b
    then s' = s\<lparr>sl_public_id := pb_message b, sl_public_time := pb_time b\<rparr> \<and>
      fs' = record_room_public_cursor fs r s (pb_message b) (pb_time b) (env_now env)
    else s' = s \<and> fs' = fs"
  using assms(1) unfolding b_def slot_cursor_def
  by (auto simp: build_slot_guided_context_def Let_def split: sum.splits if_splits)

lemma reader_guide_inv:
  assumes inv: "reader_inv conversation workspace key agent st"
    and s: "rd_slot st = Some s" "rr_conversation r = conversation"
    and g: "build_slot_guided_context (env\<lparr>env_now := rd_clock st\<rparr>) (rd_files st) r s (rd_history st) names t =
       (Inr prompt, s', fs')"
  defines "batch \<equiv> public_batch_for_slot (rd_files st) r s (rd_history st) names (slot_cursor s)"
  defines "shown \<equiv> rd_shown st @ pb_messages batch"
  shows "reader_inv conversation workspace key agent
    (st\<lparr>rd_slot := Some s', rd_files := fs', rd_shown := shown,
        rd_read := (if pb_message batch = [] then rd_read st else shown)\<rparr>)"
proof -
  let ?h = "rd_history st"
  obtain p d where pd: "batch = build_public_batch ?h d names agent"
    "public_messages_after_cursor ?h d = drop p ?h" "subseq (rd_shown st) (take p ?h)"
    using next_batch[OF inv s] unfolding batch_def by metis
  note state = guided_context_state[OF g, folded batch_def]
  note bp = batch_position[OF pd(2), of names agent, folded pd(1)]
  have sa: "slot_of_agent workspace key agent s"
    and times: "list_all (\<lambda>c. rpc_time c \<le> rd_clock st) (cursors_of (rd_files st) workspace key conversation agent)"
    using inv s(1) by (simp_all add: reader_inv_def)
  show ?thesis
  proof (cases "drop p ?h = []")
    case True
    then show ?thesis using inv s(1) state bp(2) by (simp add: shown_def reader_inv_def split: option.splits)
  next
    case False
    have h: "?h \<noteq> []" using False by auto
    note ne = h inv_last[OF inv h]
    have c: "cursor_ok ?h (message_id (last ?h)) shown"
      unfolding shown_def by (rule cursor_ok_last[OF pd(3) bp(1) ne])
    note id = bp(3)[OF False]
    have s': "s' = s\<lparr>sl_public_id := message_id (last ?h), sl_public_time := pb_time batch\<rparr>"
      and fs': "fs' = record_room_public_cursor (rd_files st) r s (message_id (last ?h)) (pb_time batch) (rd_clock st)"
      using state ne(2) marks_trimmed[OF c] by (simp_all add: id)
    have sa': "slot_of_agent workspace key agent s'" using sa by (simp add: s' slot_of_agent_def)
    have t: "trim_space (message_id (last ?h)) \<noteq> []" using marks_trimmed[OF c] by simp
    from record_times[OF times sa s(2) t fs'] obtain stored where
      "list_all (\<lambda>c. rpc_time c \<le> rd_clock st) (cursors_of fs' workspace key conversation agent)"
      "read_room_public_cursor fs' workspace key conversation agent = Some stored"
      "rpc_message stored = message_id (last ?h)"
      using marks_trimmed[OF c] by auto
    then show ?thesis
      using inv sa' c ne(2) by (simp add: reader_inv_def id s')
  qed
qed

lemma finish_inv:
  assumes inv: "reader_inv conversation workspace key agent st"
    and s: "rd_slot st = Some s" "rr_conversation r = conversation"
    and f: "record_slot_cursors home (rd_files st) r (set_status ''finished'' s) (rd_clock st) = (evs, fs')"
  shows "reader_inv conversation workspace key agent (st\<lparr>rd_slot := None, rd_files := fs', rd_read := rd_shown st\<rparr>)"
proof -
  let ?fs = "record_room_public_cursor (rd_files st) r (set_status ''finished'' s) (sl_public_id s) (sl_public_time s) (rd_clock st)"
  have fs': "fs' = snd (record_directed_cursor home ?fs r (set_status ''finished'' s) (rd_clock st))"
    using f by (auto simp: record_slot_cursors_def set_status_def Let_def split: prod.splits)
  have sa: "slot_of_agent workspace key agent (set_status ''finished'' s)"
    and times: "list_all (\<lambda>c. rpc_time c \<le> rd_clock st) (cursors_of (rd_files st) workspace key conversation agent)"
    using inv s(1) by (simp_all add: reader_inv_def set_status_def slot_of_agent_def)
  show ?thesis
  proof (cases "sl_public_id s = []")
    case True
    then have "?fs = rd_files st" "rd_shown st = rd_read st"
      using inv s(1) by (simp_all add: reader_inv_def record_room_public_cursor_def Let_def)
    then show ?thesis using inv by (simp add: reader_inv_def fs' split: option.splits)
  next
    case False
    then have c: "cursor_ok (rd_history st) (sl_public_id s) (rd_shown st)" using inv s(1) by (simp add: reader_inv_def)
    have t: "trim_space (sl_public_id s) \<noteq> []" using marks_trimmed[OF c] by simp
    from record_times[OF times sa s(2) t refl] obtain stored where
      "list_all (\<lambda>c. rpc_time c \<le> rd_clock st) (cursors_of ?fs workspace key conversation agent)"
      "read_room_public_cursor ?fs workspace key conversation agent = Some stored"
      "rpc_message stored = sl_public_id s"
      using marks_trimmed[OF c] by auto
    then show ?thesis using inv c by (simp add: reader_inv_def fs')
  qed
qed

lemma reader_step_inv:
  "reader_step env memory home names conversation workspace key agent st st' \<Longrightarrow>
   reader_inv conversation workspace key agent st \<Longrightarrow> reader_inv conversation workspace key agent st'"
proof (induction rule: reader_step.induct)
  case (publish m st)
  then show ?case
    by (auto simp: reader_inv_def cursor_ok_grow split: option.splits if_splits)
next
  case (tick st now)
  then show ?case
    by (auto simp: reader_inv_def list_all_iff split: option.splits if_splits)
next
  case (abandon st s)
  then show ?case by (simp add: reader_inv_def split: option.splits)
next
  case (guide st s r t prompt s' fs' batch shown)
  show ?case unfolding guide(4,5) by (rule reader_guide_inv[OF guide.prems guide.hyps(1-3)])
qed (blast intro: start_inv finish_inv)+

lemma reader_reachable_inv:
  "(reader_step env memory home names conversation workspace key agent)\<^sup>*\<^sup>* st st' \<Longrightarrow>
   reader_inv conversation workspace key agent st \<Longrightarrow> reader_inv conversation workspace key agent st'"
  by (induction rule: rtranclp_induct) (auto intro: reader_step_inv)

lemma reader_inv_subseq:
  assumes "reader_inv conversation workspace key agent st"
  shows "subseq (rd_read st) (rd_history st)" "subseq (rd_shown st) (rd_history st)"
proof -
  show r: "subseq (rd_read st) (rd_history st)"
    using assms by (auto simp: reader_inv_def dest: cursor_ok_subseq split: option.splits)
  show "subseq (rd_shown st) (rd_history st)"
    using assms r by (auto simp: reader_inv_def dest: cursor_ok_subseq split: option.splits if_splits)
qed

definition new_reader :: "files \<Rightarrow> any list \<Rightarrow> int \<Rightarrow> reader" where
  "new_reader fs h now =
     \<lparr>rd_files = fs, rd_history = h, rd_slot = None, rd_clock = now, rd_shown = [], rd_read = []\<rparr>"

lemma subseq_distinct: "subseq xs ys \<Longrightarrow> distinct ys \<Longrightarrow> distinct xs"
  by (induction rule: list_emb.induct) (auto dest: list_emb_set)

lemma latest_cursor_None: "latest_cursor l cs = None \<longleftrightarrow> l = None \<and> cs = []"
  by (induction cs arbitrary: l) (auto split: option.splits)

lemma new_reader_inv:
  "distinct (map message_id h) \<Longrightarrow> list_all (\<lambda>m. message_id m \<noteq> []) h \<Longrightarrow>
   read_room_public_cursor fs workspace key conversation agent = None \<Longrightarrow>
   reader_inv conversation workspace key agent (new_reader fs h now)"
  by (auto simp: reader_inv_def new_reader_def read_cursors_of latest_cursor_None)

section \<open>A sample run\<close>

definition feed_message :: "string \<Rightarrow> string \<Rightarrow> any" where
  "feed_message i content =
     AMap [(''message_id'', AStr i), (''role'', AStr ''user''), (''content'', AStr content), (''timestamp'', AInt 5)]"

definition sample_reader :: reader where
  "sample_reader = new_reader Map.empty [feed_message ''p1'' ''hello'', feed_message ''p2'' ''@Bob hi''] 9"

abbreviation sample_reader_step :: "reader \<Rightarrow> reader \<Rightarrow> bool" where
  "sample_reader_step \<equiv> reader_step sample_env (\<lambda>_ _ t. t) ''/home'' [] ''c1'' ''/w'' ''k'' ''b''"

section \<open>Properties\<close>



end
