(* ===== verification/AutomationModel.thy ===== *)
theory AutomationModel
  imports SessionKey "HOL-Library.Word"
begin

text \<open>
  Scheduled tasks: the requests and records of \<open>protocol/model_automation.go\<close> with their
  normalisation and validation, the next time of a schedule (\<open>automation/schedule.go\<close>),
  the backoff after failures (\<open>automation/runtime_state.go\<close>) and the session of a run
  (\<open>automation/session.go\<close>).

  A time is a number of nanoseconds since the epoch; \<open>UTC()\<close> does not change it. A
  \<open>time.Duration\<close> is an \<open>int64\<close>, so the product of an interval in seconds wraps
  around (\<open>duration_of_seconds\<close>). The time zone database, the layouts of package
  \<open>time\<close> and the third-party cron parser are the fields of \<open>clockwork\<close>, an argument.
  A validation returns the text of its error, or None.
\<close>

section \<open>Records\<close>

record schedule =
  sc_kind :: string
  sc_run_at :: "string option"
  sc_interval :: "int option"
  sc_cron :: "string option"
  sc_timezone :: string

record session_target =
  st_kind :: string
  st_bound :: string
  st_named :: string
  st_wake :: string

record delivery_target =
  dt_mode :: string
  dt_channel :: string
  dt_to :: string
  dt_account :: string
  dt_thread :: string

record task_source =
  ts_kind :: string
  ts_creator :: string
  ts_context_type :: string
  ts_context_id :: string
  ts_context_label :: string
  ts_session :: string
  ts_session_label :: string

record job_input =
  ji_name :: string
  ji_agent :: string
  ji_schedule :: schedule
  ji_instruction :: string
  ji_execution :: string
  ji_target :: session_target
  ji_delivery :: delivery_target
  ji_source :: task_source
  ji_overlap :: string
  ji_enabled :: bool

record cron_job =
  cj_id :: string
  cj_owner :: string
  cj_name :: string
  cj_agent :: string
  cj_schedule :: schedule
  cj_instruction :: string
  cj_execution :: string
  cj_target :: session_target
  cj_delivery :: delivery_target
  cj_source :: task_source
  cj_overlap :: string
  cj_enabled :: bool
  cj_next :: "int option"
  cj_running :: bool
  cj_run_id :: string
  cj_started :: "int option"
  cj_last_run :: "int option"
  cj_last_status :: string
  cj_streak :: nat
  cj_error :: "string option"
  cj_delivered :: string

section \<open>Normalisation and validation\<close>

text \<open>\<open>strings.EqualFold\<close> with an ASCII word none of whose letters folds beyond ASCII.\<close>

definition equal_fold :: "string \<Rightarrow> string \<Rightarrow> bool" where
  "equal_fold s t \<longleftrightarrow> map lower_char s = map lower_char t"

definition default_timezone :: string where
  "default_timezone = ''Asia/Shanghai''"

definition validate_schedule :: "schedule \<Rightarrow> string option" where
  "validate_schedule s =
     (let kind = trim_space (sc_kind s) in
      if kind = ''every'' then
        (if (case sc_interval s of None \<Rightarrow> True | Some n \<Rightarrow> n \<le> 0)
         then Some ''interval_seconds must be greater than 0 when kind is every''
         else if sc_run_at s \<noteq> None \<or> sc_cron s \<noteq> None
         then Some ''run_at and cron_expression must be empty when kind is every'' else None)
      else if kind = ''at'' then
        (if (case sc_run_at s of None \<Rightarrow> True | Some v \<Rightarrow> trim_space v = [])
         then Some ''run_at is required when kind is at''
         else if sc_interval s \<noteq> None \<or> sc_cron s \<noteq> None
         then Some ''interval_seconds and cron_expression must be empty when kind is at'' else None)
      else if kind = ''cron'' then
        (if (case sc_cron s of None \<Rightarrow> True | Some v \<Rightarrow> trim_space v = [])
         then Some ''cron_expression is required when kind is cron''
         else if sc_run_at s \<noteq> None \<or> sc_interval s \<noteq> None
         then Some ''run_at and interval_seconds must be empty when kind is cron'' else None)
      else Some ''schedule.kind must be one of every, cron, at'')"

definition normalize_schedule :: "schedule \<Rightarrow> schedule" where
  "normalize_schedule s =
     s\<lparr>sc_kind := trim_space (sc_kind s),
       sc_timezone := (if trim_space (sc_timezone s) = [] then default_timezone else sc_timezone s),
       sc_run_at := map_option trim_space (sc_run_at s),
       sc_cron := map_option trim_space (sc_cron s)\<rparr>"

definition validate_target :: "session_target \<Rightarrow> string option" where
  "validate_target t =
     (let kind = trim_space (st_kind t);
          wake = (if trim_space (st_wake t) = [] then ''next-heartbeat'' else trim_space (st_wake t))
      in if wake \<noteq> ''now'' \<and> wake \<noteq> ''next-heartbeat''
         then Some ''wake_mode must be one of now, next-heartbeat''
         else if kind = ''isolated'' \<or> kind = ''main'' then
           (if trim_space (st_bound t) \<noteq> [] \<or> trim_space (st_named t) \<noteq> []
            then Some ''bound_session_key and named_session_key must be empty for isolated/main target''
            else None)
         else if kind = ''bound'' then
           (if trim_space (st_bound t) = []
            then Some ''bound_session_key is required when session_target.kind is bound''
            else case require_structured_key (st_bound t) of Inl e \<Rightarrow> Some e | Inr _ \<Rightarrow> None)
         else if kind = ''named'' then
           (if trim_space (st_named t) = []
            then Some ''named_session_key is required when session_target.kind is named''
            else if equal_fold (trim_space (st_named t)) ''main''
            then Some (''named_session_key '' @ CHR 0x27 # ''main'' @ CHR 0x27 # '' is reserved'')
            else None)
         else Some ''session_target.kind must be one of isolated, main, bound, named'')"

definition normalize_target :: "session_target \<Rightarrow> session_target" where
  "normalize_target t =
     t\<lparr>st_kind := (if trim_space (st_kind t) = [] then ''isolated'' else trim_space (st_kind t)),
       st_bound := trim_space (st_bound t),
       st_named := trim_space (st_named t),
       st_wake := (if trim_space (st_wake t) = [] then ''next-heartbeat'' else trim_space (st_wake t))\<rparr>"

definition validate_delivery :: "delivery_target \<Rightarrow> string option" where
  "validate_delivery d =
     (if trim_space (dt_mode d) \<in> set [[], ''none'', ''last'', ''explicit''] then None
      else Some ''delivery.mode must be one of none, last, explicit'')"

definition normalize_delivery :: "delivery_target \<Rightarrow> delivery_target" where
  "normalize_delivery d =
     d\<lparr>dt_mode := (if trim_space (dt_mode d) = [] then ''none'' else trim_space (dt_mode d)),
       dt_channel := trim_space (dt_channel d),
       dt_to := trim_space (dt_to d),
       dt_account := trim_space (dt_account d),
       dt_thread := trim_space (dt_thread d)\<rparr>"

definition validate_source :: "task_source \<Rightarrow> string option" where
  "validate_source s =
     (let context_id = trim_space (ts_context_id s);
          context_label = trim_space (ts_context_label s);
          context_type = trim_space (ts_context_type s)
      in if trim_space (ts_kind s) \<notin> set [[], ''user_page'', ''agent'', ''cli'', ''system'']
         then Some ''source.kind must be one of user_page, agent, cli, system''
         else if context_type \<notin> set [[], ''agent'', ''room'']
         then Some ''source.context_type must be one of agent, room''
         else if context_type = [] \<and> (context_id \<noteq> [] \<or> context_label \<noteq> [])
         then Some ''context_type is required when context_id or context_label is provided''
         else if context_type \<noteq> [] \<and> context_id = []
         then Some ''context_id is required when context_type is provided''
         else if trim_space (ts_session s) \<noteq> []
         then (case require_structured_key (ts_session s) of Inl e \<Rightarrow> Some e | Inr _ \<Rightarrow> None)
         else None)"

definition normalize_source :: "task_source \<Rightarrow> task_source" where
  "normalize_source s =
     s\<lparr>ts_kind := (if trim_space (ts_kind s) = [] then ''system'' else trim_space (ts_kind s)),
       ts_creator := trim_space (ts_creator s),
       ts_context_type := trim_space (ts_context_type s),
       ts_context_id := trim_space (ts_context_id s),
       ts_context_label := trim_space (ts_context_label s),
       ts_session := trim_space (ts_session s),
       ts_session_label := trim_space (ts_session_label s)\<rparr>"

definition normalize_overlap :: "string \<Rightarrow> string" where
  "normalize_overlap policy = (if trim_space policy = [] then ''skip'' else trim_space policy)"

definition validate_overlap :: "string \<Rightarrow> string option" where
  "validate_overlap policy =
     (if normalize_overlap policy \<in> set [''skip'', ''allow''] then None
      else Some ''overlap_policy must be one of skip, allow'')"

definition normalize_execution :: "string \<Rightarrow> string" where
  "normalize_execution kind = (if trim_space kind = [] then ''agent'' else trim_space kind)"

definition validate_execution :: "string \<Rightarrow> string option" where
  "validate_execution kind =
     (if normalize_execution kind \<in> set [''agent'', ''script''] then None
      else Some ''execution_kind must be one of agent, script'')"

text \<open>The first error of a list of checks.\<close>

fun first_error :: "string option list \<Rightarrow> string option" where
  "first_error [] = None"
| "first_error (e # es) = (case e of None \<Rightarrow> first_error es | Some _ \<Rightarrow> e)"

definition validate_job :: "job_input \<Rightarrow> string option" where
  "validate_job i =
     first_error
       [if trim_space (ji_name i) = [] then Some ''name is required'' else None,
        if trim_space (ji_agent i) = [] then Some ''agent_id is required'' else None,
        if trim_space (ji_instruction i) = [] then Some ''instruction is required'' else None,
        validate_execution (ji_execution i),
        validate_schedule (normalize_schedule (ji_schedule i)),
        validate_target (normalize_target (ji_target i)),
        validate_delivery (normalize_delivery (ji_delivery i)),
        validate_source (normalize_source (ji_source i)),
        validate_overlap (ji_overlap i)]"

definition normalize_job :: "job_input \<Rightarrow> job_input" where
  "normalize_job i =
     i\<lparr>ji_name := trim_space (ji_name i),
       ji_agent := trim_space (ji_agent i),
       ji_instruction := trim_space (ji_instruction i),
       ji_execution := normalize_execution (ji_execution i),
       ji_schedule := normalize_schedule (ji_schedule i),
       ji_target := normalize_target (ji_target i),
       ji_delivery := normalize_delivery (ji_delivery i),
       ji_source := normalize_source (ji_source i),
       ji_overlap := normalize_overlap (ji_overlap i)\<rparr>"

text \<open>\<open>*p\<close> with a default for nil.\<close>

definition or_else :: "'a \<Rightarrow> 'a option \<Rightarrow> 'a" where
  "or_else d v = (case v of None \<Rightarrow> d | Some x \<Rightarrow> x)"

lemma or_else_simps [simp]: "or_else d None = d" "or_else d (Some x) = x"
  by (simp_all add: or_else_def)

section \<open>The next time of a schedule\<close>

text \<open>
  What the code reads from outside: the time zones it can load (an error text otherwise), the
  texts that parse as RFC 3339, as a layout in a zone, and the cron parser, which gives an
  error or the schedule's next time after a given one (None for the zero time).
\<close>

record clockwork =
  ck_zone :: "string \<Rightarrow> string option"
  ck_rfc3339 :: "string \<Rightarrow> int option"
  ck_layout :: "string \<Rightarrow> string \<Rightarrow> string \<Rightarrow> int option"
  ck_cron :: "string \<Rightarrow> string + (int \<Rightarrow> int option)"

definition second :: int where
  "second = 1000000000"

text \<open>\<open>time.Duration(n) * time.Second\<close> in 64 bits.\<close>

definition duration_of_seconds :: "int \<Rightarrow> int" where
  "duration_of_seconds n = sint (word_of_int n * word_of_int second :: 64 word)"

definition parse_run_at :: "clockwork \<Rightarrow> string \<Rightarrow> string \<Rightarrow> string + int" where
  "parse_run_at ck raw timezone =
     (let value = trim_space raw; zone = trim_space timezone in
      case ck_zone ck zone of
        Some e \<Rightarrow> Inl e
      | None \<Rightarrow>
          (case ck_rfc3339 ck value of
             Some t \<Rightarrow> Inr t
           | None \<Rightarrow>
               (case ck_layout ck ''2006-01-02T15:04'' value zone of
                  Some t \<Rightarrow> Inr t
                | None \<Rightarrow>
                    (case ck_layout ck ''2006-01-02 15:04:05'' value zone of
                       Some t \<Rightarrow> Inr t
                     | None \<Rightarrow> Inl (''invalid run_at: '' @ raw)))))"

definition parse_cron :: "clockwork \<Rightarrow> string \<Rightarrow> string \<Rightarrow> string + (int \<Rightarrow> int option)" where
  "parse_cron ck expression timezone =
     (let normalized = trim_space expression in
      if normalized = [] then Inl ''cron_expression is required''
      else ck_cron ck
             (if timezone = [] then normalized
              else ''CRON_TZ='' @ trim_space timezone @ '' '' @ normalized))"

definition compute_next_run_at :: "clockwork \<Rightarrow> schedule \<Rightarrow> int \<Rightarrow> string + int option" where
  "compute_next_run_at ck sched now =
     (let s = normalize_schedule sched in
      case validate_schedule s of
        Some e \<Rightarrow> Inl e
      | None \<Rightarrow>
          if sc_kind s = ''every'' then
            Inr (Some (now + duration_of_seconds (or_else 0 (sc_interval s))))
          else if sc_kind s = ''at'' then
            (case parse_run_at ck (or_else [] (sc_run_at s)) (sc_timezone s) of
               Inl e \<Rightarrow> Inl e
             | Inr t \<Rightarrow> Inr (if t < now then None else Some t))
          else
            (case parse_cron ck (or_else [] (sc_cron s)) (sc_timezone s) of
               Inl e \<Rightarrow> Inl e
             | Inr f \<Rightarrow> Inr (f now)))"

definition compute_job_next :: "clockwork \<Rightarrow> cron_job \<Rightarrow> int \<Rightarrow> int option" where
  "compute_job_next ck job now =
     (if \<not> cj_enabled job then None
      else case compute_next_run_at ck (cj_schedule job) now of Inl _ \<Rightarrow> None | Inr t \<Rightarrow> t)"

definition any_string_pointer :: "string option \<Rightarrow> string" where
  "any_string_pointer v = (case v of None \<Rightarrow> [] | Some s \<Rightarrow> trim_space s)"

definition same_schedule :: "schedule \<Rightarrow> schedule \<Rightarrow> bool" where
  "same_schedule l r \<longleftrightarrow>
     (let l = normalize_schedule l; r = normalize_schedule r in
      trim_space (sc_kind l) = trim_space (sc_kind r) \<and>
      any_string_pointer (sc_run_at l) = any_string_pointer (sc_run_at r) \<and>
      or_else 0 (sc_interval l) = or_else 0 (sc_interval r) \<and>
      any_string_pointer (sc_cron l) = any_string_pointer (sc_cron r) \<and>
      trim_space (sc_timezone l) = trim_space (sc_timezone r))"

text \<open>\<open>RetryBackoffFor\<close>: 30 seconds, 2 minutes, 10 minutes, then none.\<close>

definition retry_backoffs :: "int list" where
  "retry_backoffs = [30 * second, 120 * second, 600 * second]"

definition retry_backoff_for :: "nat \<Rightarrow> int option" where
  "retry_backoff_for streak =
     (if streak = 0 \<or> streak > length retry_backoffs then None else Some (retry_backoffs ! (streak - 1)))"

section \<open>The session of a run and the summary of a delivery\<close>

definition build_main_key :: "string \<Rightarrow> string" where
  "build_main_key agent_id = build_agent_key (trim_space agent_id) ''automation'' ''dm'' ''main'' []"

definition resolve_session_key :: "cron_job \<Rightarrow> string option \<Rightarrow> string + string" where
  "resolve_session_key job run_id =
     (let kind = trim_space (st_kind (cj_target job)) in
      if kind = ''main'' then Inr (build_main_key (cj_agent job))
      else if kind = ''bound'' then Inr (trim_space (st_bound (cj_target job)))
      else if kind = ''named'' then
        Inr (build_agent_key (cj_agent job) ''automation'' ''dm'' (trim_space (st_named (cj_target job))) [])
      else if run_id = None \<or> trim_space (or_else [] run_id) = []
      then Inl ''isolated target requires run_id''
      else Inr (build_agent_key (cj_agent job) ''automation'' ''dm''
                  (''cron:'' @ cj_id job @ '':'' @ trim_space (or_else [] run_id)) []))"

definition delivery_summary :: "delivery_target \<Rightarrow> string" where
  "delivery_summary d =
     (let mode = trim_space (dt_mode d) in
      if mode = [] \<or> mode = ''none'' then []
      else if mode = ''last'' then ''last''
      else if mode = ''explicit'' then
        join '':''
          (''explicit'' #
           (if trim_space (dt_channel d) \<noteq> [] then [trim_space (dt_channel d)] else []) @
           (if trim_space (dt_to d) \<noteq> [] then [trim_space (dt_to d)] else []) @
           (if trim_space (dt_thread d) \<noteq> [] then [''thread:'' @ trim_space (dt_thread d)] else []))
      else mode)"

text \<open>\<open>strings.Fields\<close>: the maximal runs without a space rune.\<close>

fun word_of :: "string \<Rightarrow> string" where
  "word_of [] = []"
| "word_of (c # cs) = (if starts_with_any space_runes (c # cs) \<noteq> None then [] else c # word_of cs)"

lemma trim_left_head: "starts_with_any space_runes (trim_left s) = None"
  unfolding trim_left_def by (rule strip_result)

lemma word_of_ne: "trim_left s \<noteq> [] \<Longrightarrow> word_of (trim_left s) \<noteq> []"
  using trim_left_head[of s] by (cases "trim_left s") auto

lemma length_trim_left: "length (trim_left s) \<le> length s"
  unfolding trim_left_def by (rule suffix_length_le[OF suffix_strip])

function string_fields :: "string \<Rightarrow> string list" where
  "string_fields s =
     (let t = trim_left s; w = word_of t in
      if t = [] then [] else w # string_fields (drop (length w) t))"
  by pat_completeness auto
termination
proof (relation "measure length")
  fix s t w :: string
  assume "t = trim_left s" "w = word_of t" "t \<noteq> []"
  then have "0 < length w" "0 < length t" "length t \<le> length s"
    using word_of_ne[of s] length_trim_left[of s] by auto
  then have "length t - length w < length s" by arith
  then show "(drop (length w) t, s) \<in> measure length" by simp
qed simp

declare string_fields.simps [simp del]

definition marker_char :: "char \<Rightarrow> char" where
  "marker_char c = (if c \<in> set [CHR ''['', CHR '']'', CHR 0x0D, CHR 0x0A, CHR 0x09] then CHR '' '' else c)"

definition marker_label :: "string \<Rightarrow> string" where
  "marker_label v = join '' '' (string_fields (map marker_char (trim_space v)))"

definition cron_marker :: "cron_job \<Rightarrow> string" where
  "cron_marker job =
     (let id = (if trim_space (cj_id job) = [] then ''unknown'' else trim_space (cj_id job));
          name = marker_label (cj_name job)
      in if name = [] then ''[cron:'' @ id @ '']'' else ''[cron:'' @ id @ '' '' @ name @ '']'')"

definition cron_instruction :: "cron_job \<Rightarrow> string" where
  "cron_instruction job =
     (let instruction = trim_space (cj_instruction job) in
      if instruction = [] then cron_marker job else cron_marker job @ '' '' @ instruction)"

section \<open>Facts\<close>

text \<open>The constants are trimmed.\<close>

lemma trim_constants [simp]:
  "trim_space ''every'' = ''every''"
  "trim_space ''at'' = ''at''"
  "trim_space ''cron'' = ''cron''"
  "trim_space ''isolated'' = ''isolated''"
  "trim_space ''main'' = ''main''"
  "trim_space ''bound'' = ''bound''"
  "trim_space ''named'' = ''named''"
  "trim_space ''now'' = ''now''"
  "trim_space ''next-heartbeat'' = ''next-heartbeat''"
  "trim_space ''none'' = ''none''"
  "trim_space ''last'' = ''last''"
  "trim_space ''explicit'' = ''explicit''"
  "trim_space ''user_page'' = ''user_page''"
  "trim_space ''agent'' = ''agent''"
  "trim_space ''cli'' = ''cli''"
  "trim_space ''system'' = ''system''"
  "trim_space ''skip'' = ''skip''"
  "trim_space ''allow'' = ''allow''"
  "trim_space ''script'' = ''script''"
  "trim_space ''room'' = ''room''"
  "trim_space ''pending'' = ''pending''"
  "trim_space ''running'' = ''running''"
  "trim_space ''succeeded'' = ''succeeded''"
  "trim_space ''failed'' = ''failed''"
  "trim_space ''cancelled'' = ''cancelled''"
  "trim_space ''skipped'' = ''skipped''"
  "trim_space ''queued_to_main_session'' = ''queued_to_main_session''"
  "trim_space ''not_required'' = ''not_required''"
  "trim_space ''not_attempted'' = ''not_attempted''"
  "trim_space ''manual'' = ''manual''"
  "trim_space default_timezone = default_timezone" "default_timezone \<noteq> []"
  by code_simp+

lemma normalize_schedule_idem [simp]: "normalize_schedule (normalize_schedule s) = normalize_schedule s"
  by (cases s) (auto simp: normalize_schedule_def option.map_comp o_def)

lemma normalize_target_idem [simp]: "normalize_target (normalize_target t) = normalize_target t"
  by (cases t) (auto simp: normalize_target_def)

lemma normalize_delivery_idem [simp]: "normalize_delivery (normalize_delivery d) = normalize_delivery d"
  by (cases d) (auto simp: normalize_delivery_def)

lemma normalize_source_idem [simp]: "normalize_source (normalize_source s) = normalize_source s"
  by (cases s) (auto simp: normalize_source_def)

lemma normalize_overlap_idem [simp]: "normalize_overlap (normalize_overlap p) = normalize_overlap p"
  by (auto simp: normalize_overlap_def)

lemma normalize_execution_idem [simp]: "normalize_execution (normalize_execution p) = normalize_execution p"
  by (auto simp: normalize_execution_def)

lemma normalize_job_idem: "normalize_job (normalize_job i) = normalize_job i"
  by (simp add: normalize_job_def)

lemma validate_normalized: "validate_job (normalize_job i) = validate_job i"
  by (simp add: validate_job_def normalize_job_def validate_execution_def validate_overlap_def)

lemma first_error_None_iff: "first_error es = None \<longleftrightarrow> (\<forall>e \<in> set es. e = None)"
  by (induction es) (auto split: option.splits)

lemma duration_of_seconds_exact_iff:
  assumes "0 \<le> n"
  shows "duration_of_seconds n = n * second \<longleftrightarrow> n \<le> 9223372036"
proof -
  have eq: "duration_of_seconds n = signed_take_bit 63 (n * second)"
    unfolding duration_of_seconds_def
    by (simp only: wi_hom_mult sint_sbintrunc') simp
  show ?thesis
  proof -
    have "1953125 * n < 18014398509481984 \<longleftrightarrow> n \<le> 9223372036"
      by (rule iffI; linarith)
    then show ?thesis
      unfolding eq using assms by (simp add: signed_take_bit_int_eq_self_iff second_def)
  qed
qed

lemma valid_schedule_fields:
  assumes "validate_schedule s = None"
  shows "trim_space (sc_kind s) = ''every'' \<and> (\<exists>n > 0. sc_interval s = Some n) \<and> sc_run_at s = None \<and> sc_cron s = None \<or>
         trim_space (sc_kind s) = ''at'' \<and> (\<exists>v. sc_run_at s = Some v \<and> trim_space v \<noteq> []) \<and> sc_interval s = None \<and> sc_cron s = None \<or>
         trim_space (sc_kind s) = ''cron'' \<and> (\<exists>v. sc_cron s = Some v \<and> trim_space v \<noteq> []) \<and> sc_interval s = None \<and> sc_run_at s = None"
  using assms by (auto simp: validate_schedule_def Let_def not_le split: if_splits option.splits)

lemma normalize_schedule_sel [simp]:
  "sc_kind (normalize_schedule s) = trim_space (sc_kind s)"
  "sc_interval (normalize_schedule s) = sc_interval s"
  "sc_run_at (normalize_schedule s) = map_option trim_space (sc_run_at s)"
  "sc_cron (normalize_schedule s) = map_option trim_space (sc_cron s)"
  by (simp_all add: normalize_schedule_def)

lemma compute_every:
  "validate_schedule (normalize_schedule s) = None \<Longrightarrow> trim_space (sc_kind s) = ''every'' \<Longrightarrow>
   compute_next_run_at ck s now = Inr (Some (now + duration_of_seconds (or_else 0 (sc_interval s))))"
  by (simp add: compute_next_run_at_def)

text \<open>C19. An interval task is due exactly its interval later when the interval is at most
  9223372036 seconds; a longer interval passes validation and wraps around in the 64-bit
  duration, so that the next time is wrong (for 9223372037 seconds it lies in the past).\<close>
theorem interval_next_exact:
  assumes "validate_schedule (normalize_schedule s) = None" "trim_space (sc_kind s) = ''every''"
    "sc_interval s = Some n"
  shows "compute_next_run_at ck s now = Inr (Some (now + n * second)) \<longleftrightarrow> n \<le> 9223372036"
proof -
  have "0 \<le> n" using valid_schedule_fields[OF assms(1)] assms(2,3) by auto
  then show ?thesis using duration_of_seconds_exact_iff[of n] compute_every[OF assms(1,2)] assms(3) by simp
qed

definition clock_example :: clockwork where
  "clock_example = \<lparr>ck_zone = (\<lambda>_. None), ck_rfc3339 = (\<lambda>_. None), ck_layout = (\<lambda>_ _ _. None),
     ck_cron = (\<lambda>_. Inl ''bad spec'')\<rparr>"

definition every_schedule :: "int \<Rightarrow> schedule" where
  "every_schedule n = \<lparr>sc_kind = ''every'', sc_run_at = None, sc_interval = Some n, sc_cron = None, sc_timezone = []\<rparr>"

lemma interval_next_exact_witness:
  "compute_next_run_at clock_example (every_schedule 9223372037) 0 \<noteq> Inr (Some (9223372037 * second)) \<and>
   compute_next_run_at clock_example (every_schedule 9223372037) 0 = Inr (Some (- 9223372036709551616))"
proof -
  have v: "validate_schedule (normalize_schedule (every_schedule n)) = None" if "0 < n" for n
    using that by (simp add: validate_schedule_def every_schedule_def normalize_schedule_def)
  have "duration_of_seconds 9223372037 = - 9223372036709551616" by code_simp
  then have "compute_next_run_at clock_example (every_schedule 9223372037) 0 = Inr (Some (- 9223372036709551616))"
    using compute_every[OF v[of 9223372037]] by (simp add: every_schedule_def)
  then show ?thesis
    using interval_next_exact[OF v, of 9223372037 9223372037 clock_example 0] by (simp add: every_schedule_def)
qed

lemma valid_target_kind:
  "validate_target t = None \<Longrightarrow>
   trim_space (st_kind t) \<in> {''isolated'', ''main'', ''bound'', ''named''} \<and>
   (trim_space (st_kind t) = ''bound'' \<longrightarrow> is_structured_key (st_bound t)) \<and>
   (trim_space (st_kind t) = ''named'' \<longrightarrow> trim_space (st_named t) \<noteq> [])"
  by (auto simp: validate_target_def Let_def require_structured_key_def is_structured_key_def
      split: if_splits sum.splits)

text \<open>A schedule has exactly the field of its kind.\<close>

definition schedule_shape :: "schedule \<Rightarrow> bool" where
  "schedule_shape s \<longleftrightarrow>
     (sc_kind s, sc_interval s \<noteq> None, sc_run_at s \<noteq> None, sc_cron s \<noteq> None) \<in>
       {(''every'', True, False, False), (''at'', False, True, False), (''cron'', False, False, True)} \<and>
     (\<forall>n. sc_interval s = Some n \<longrightarrow> 0 < n) \<and> sc_run_at s \<noteq> Some [] \<and> sc_cron s \<noteq> Some []"

lemma valid_schedule_shape:
  "validate_schedule (normalize_schedule s) = None \<Longrightarrow> schedule_shape (normalize_schedule s)"
  using valid_schedule_fields[of "normalize_schedule s"] by (auto simp: schedule_shape_def)

text \<open>A task that passes validation is stored in normal form: normalising again changes
  nothing, it still passes, its schedule has exactly the field of its kind, a bound target is
  a structured session key, and every choice is one of the known constants.\<close>

lemma accepted_task_normal:
  assumes "validate_job i = None"
  defines "j \<equiv> normalize_job i"
  shows "normalize_job j = j \<and> validate_job j = None \<and> schedule_shape (ji_schedule j) \<and>
    st_kind (ji_target j) \<in> {''isolated'', ''main'', ''bound'', ''named''} \<and>
    (st_kind (ji_target j) = ''bound'' \<longrightarrow> is_structured_key (st_bound (ji_target j))) \<and>
    ji_overlap j \<in> {''skip'', ''allow''} \<and> ji_execution j \<in> {''agent'', ''script''} \<and>
    dt_mode (ji_delivery j) \<in> {''none'', ''last'', ''explicit''}"
proof -
  have ok: "validate_schedule (normalize_schedule (ji_schedule i)) = None"
    "validate_target (normalize_target (ji_target i)) = None"
    "validate_delivery (normalize_delivery (ji_delivery i)) = None"
    "validate_execution (ji_execution i) = None" "validate_overlap (ji_overlap i) = None"
    using assms(1) unfolding validate_job_def first_error_None_iff by simp_all
  have sel: "ji_schedule j = normalize_schedule (ji_schedule i)" "ji_target j = normalize_target (ji_target i)"
    "ji_delivery j = normalize_delivery (ji_delivery i)" "ji_overlap j = normalize_overlap (ji_overlap i)"
    "ji_execution j = normalize_execution (ji_execution i)"
    by (simp_all add: j_def normalize_job_def)
  have t: "trim_space (st_kind (ji_target j)) = st_kind (ji_target j)"
    by (simp add: sel normalize_target_def)
  have sch: "schedule_shape (ji_schedule j)" "validate_target (ji_target j) = None"
    using ok valid_schedule_shape by (simp_all add: sel)
  have "dt_mode (ji_delivery j) \<in> {''none'', ''last'', ''explicit''}"
    using ok(3) by (auto simp: sel validate_delivery_def normalize_delivery_def split: if_splits)
  moreover have "ji_overlap j \<in> {''skip'', ''allow''}" "ji_execution j \<in> {''agent'', ''script''}"
    using ok(4,5) by (auto simp: sel validate_execution_def validate_overlap_def split: if_splits)
  moreover have "normalize_job j = j" "validate_job j = None"
    using normalize_job_idem[of i] validate_normalized[of i] assms(1) by (simp_all add: j_def)
  moreover note valid_target_kind[OF sch(2), unfolded t]
  ultimately show ?thesis using sch(1) by (intro conjI) blast+
qed

definition job_example :: job_input where
  "job_example =
     \<lparr>ji_name = ''report'', ji_agent = ''a1'', ji_schedule = every_schedule 60, ji_instruction = ''sum up'',
      ji_execution = [], ji_target = \<lparr>st_kind = [], st_bound = [], st_named = [], st_wake = []\<rparr>,
      ji_delivery = \<lparr>dt_mode = [], dt_channel = [], dt_to = [], dt_account = [], dt_thread = []\<rparr>,
      ji_source = \<lparr>ts_kind = [], ts_creator = [], ts_context_type = [], ts_context_id = [],
        ts_context_label = [], ts_session = [], ts_session_label = []\<rparr>,
      ji_overlap = [], ji_enabled = True\<rparr>"

lemma accepted_task_normal_witness:
  "ji_overlap (normalize_job job_example) \<in> {''skip'', ''allow''} \<and>
   normalize_job (normalize_job job_example) = normalize_job job_example"
proof -
  have "validate_job job_example = None" by code_simp
  then show ?thesis using accepted_task_normal[of job_example] by blast
qed

end
