(* ===== verification/ExecutionSink.thy ===== *)
theory ExecutionSink
  imports Events
begin

text \<open>
  The observer of an automation run, \<open>automation/execution_sink.go\<close>: a buffer of at most
  256 events that drops the oldest when it is full, and \<open>WaitForRound\<close>, which folds the
  events of a round into the observation of the run. The events it receives are a list; the
  end of the list is the end of its context. One sender at a time uses the buffer.
\<close>

section \<open>The buffer\<close>

record execution_sink =
  es_key :: string
  es_events :: "event_message list"
  es_closed :: bool

definition sink_capacity :: nat where
  "sink_capacity = 256"

definition new_sink :: "string \<Rightarrow> execution_sink" where
  "new_sink key = \<lparr>es_key = key, es_events = [], es_closed = False\<rparr>"

definition close_sink :: "execution_sink \<Rightarrow> execution_sink" where
  "close_sink s = s\<lparr>es_closed := True\<rparr>"

definition sink_send :: "execution_sink \<Rightarrow> event_message \<Rightarrow> execution_sink" where
  "sink_send s e =
     (if es_closed s then s
      else if length (es_events s) < sink_capacity then s\<lparr>es_events := es_events s @ [e]\<rparr>
      else s\<lparr>es_events := tl (es_events s) @ [e]\<rparr>)"

section \<open>Reading the result of a round\<close>

record execution_observation =
  eo_status :: string
  eo_session :: "string option"
  eo_count :: nat
  eo_error :: "string option"
  eo_assistant :: string
  eo_result :: string

fun any_string :: "any \<Rightarrow> string" where
  "any_string (AStr s) = s"
| "any_string _ = []"

fun any_items :: "any \<Rightarrow> any list" where
  "any_items (AList xs) = xs"
| "any_items _ = []"

definition text_part :: "any \<Rightarrow> string option" where
  "text_part item =
     (let text = trim_space (any_string (field item ''text'')) in
      if trim_space (any_string (field item ''type'')) \<noteq> ''text'' \<or> text = [] then None else Some text)"

definition extract_text :: "any \<Rightarrow> string" where
  "extract_text v = join [CHR 0x0A] (List.map_filter text_part (any_items v))"

definition denied_tools :: "any \<Rightarrow> string list" where
  "denied_tools v =
     uniq (filter (\<lambda>n. n \<noteq> []) (map (\<lambda>p. trim_space (any_string (field p ''tool_name''))) (any_items v)))"

definition denial_prefix :: string where
  "denial_prefix =
     [CHR 0xE5, CHR 0xAE, CHR 0x9A, CHR 0xE6, CHR 0x97, CHR 0xB6, CHR 0xE4, CHR 0xBB, CHR 0xBB, CHR 0xE5,
      CHR 0x8A, CHR 0xA1, CHR 0xE5, CHR 0x90, CHR 0x8E, CHR 0xE5, CHR 0x8F, CHR 0xB0, CHR 0xE8, CHR 0xBF,
      CHR 0x90, CHR 0xE8, CHR 0xA1, CHR 0x8C, CHR 0xE8, CHR 0xA2, CHR 0xAB, CHR 0xE6, CHR 0x9D, CHR 0x83,
      CHR 0xE9, CHR 0x99, CHR 0x90, CHR 0xE7, CHR 0xAD, CHR 0x96, CHR 0xE7, CHR 0x95, CHR 0xA5, CHR 0xE6,
      CHR 0x8B, CHR 0x92, CHR 0xE7, CHR 0xBB, CHR 0x9D, CHR 0xEF, CHR 0xBC, CHR 0x8C, CHR 0xE6, CHR 0x9C,
      CHR 0xAA, CHR 0xE6, CHR 0x8E, CHR 0x88, CHR 0xE6, CHR 0x9D, CHR 0x83, CHR 0xE5, CHR 0xB7, CHR 0xA5,
      CHR 0xE5, CHR 0x85, CHR 0xB7, CHR 0x3A, CHR 0x20]"

definition denial_message :: "any \<Rightarrow> string \<Rightarrow> string" where
  "denial_message payload result_text =
     (let tools = denied_tools (field payload ''permission_denials'') in
      if tools = [] then []
      else if trim_space result_text \<noteq> [] then trim_space result_text
      else denial_prefix @ join '', '' tools)"

definition error_strings :: "any \<Rightarrow> string list" where
  "error_strings v = filter (\<lambda>t. t \<noteq> []) (map (\<lambda>e. trim_space (any_string e)) (any_items v))"

definition errors_message :: "any \<Rightarrow> string \<Rightarrow> string" where
  "errors_message payload result_text =
     (let errors = error_strings (field payload ''errors'') in
      if errors = [] then []
      else if trim_space result_text \<noteq> [] then trim_space result_text
      else join ''; '' errors)"

definition apply_result_payload :: "execution_observation \<Rightarrow> any \<Rightarrow> execution_observation" where
  "apply_result_payload obs payload =
     (let text = trim_space (any_string (field payload ''result''));
          obs = (if text \<noteq> [] then obs\<lparr>eo_result := text\<rparr> else obs);
          denial = denial_message payload (eo_result obs);
          failure = errors_message payload (eo_result obs);
          subtype = trim_space (any_string (field payload ''subtype''))
      in if denial \<noteq> [] then obs\<lparr>eo_status := ''failed'', eo_error := Some denial\<rparr>
         else if failure \<noteq> [] then obs\<lparr>eo_status := ''failed'', eo_error := Some failure\<rparr>
         else if subtype = ''success'' \<or> subtype = [] then obs\<lparr>eo_status := ''succeeded''\<rparr>
         else if subtype = ''interrupted'' then obs\<lparr>eo_status := ''cancelled''\<rparr>
         else if text \<noteq> [] then obs\<lparr>eo_status := ''failed'', eo_error := Some text\<rparr>
         else obs\<lparr>eo_status := ''failed''\<rparr>)"

text \<open>One event: the new observation, and whether the wait ends with it.\<close>

definition observe_message :: "execution_observation \<Rightarrow> any \<Rightarrow> execution_observation" where
  "observe_message obs payload =
     (let obs = obs\<lparr>eo_count := Suc (eo_count obs)\<rparr>;
          session_id = trim_space (any_string (field payload ''session_id''));
          obs = (if session_id \<noteq> [] then obs\<lparr>eo_session := Some session_id\<rparr> else obs);
          role = trim_space (any_string (field payload ''role''))
      in if role = ''assistant'' then
           (let text = trim_space (extract_text (field payload ''content''));
                obs = (if text \<noteq> [] then obs\<lparr>eo_assistant := text\<rparr> else obs)
            in case field payload ''result_summary'' of
                 AMap m \<Rightarrow> apply_result_payload obs (AMap m)
               | _ \<Rightarrow> obs)
         else if role = ''result'' then apply_result_payload obs payload
         else obs)"

definition observe_error :: "execution_observation \<Rightarrow> any \<Rightarrow> execution_observation" where
  "observe_error obs payload =
     (let message = trim_space (any_string (field payload ''message''));
          obs = (if message \<noteq> [] then obs\<lparr>eo_error := Some message\<rparr> else obs)
      in obs\<lparr>eo_status := ''failed''\<rparr>)"

definition observe_end :: "execution_observation \<Rightarrow> any \<Rightarrow> execution_observation" where
  "observe_end obs payload =
     (let status = trim_space (any_string (field payload ''status''));
          message = trim_space (any_string (field payload ''result_subtype''))
      in if status = ''finished'' then
           (if eo_status obs = ''running'' then obs\<lparr>eo_status := ''succeeded''\<rparr> else obs)
         else if status = ''interrupted'' then obs\<lparr>eo_status := ''cancelled''\<rparr>
         else if eo_error obs = None \<and> message \<noteq> []
         then obs\<lparr>eo_status := ''failed'', eo_error := Some message\<rparr>
         else obs\<lparr>eo_status := ''failed''\<rparr>)"

definition of_round :: "string \<Rightarrow> event_message \<Rightarrow> bool" where
  "of_round round_id e \<longleftrightarrow> trim_space (any_string (field (ev_data e) ''round_id'')) = round_id"

definition observe :: "string \<Rightarrow> execution_observation \<Rightarrow> event_message \<Rightarrow> execution_observation \<times> bool" where
  "observe round_id obs e =
     (if ev_type e = ''message'' then
        (if of_round round_id e then (observe_message obs (ev_data e), False) else (obs, False))
      else if ev_type e = ''error'' then (observe_error obs (ev_data e), True)
      else if ev_type e = ''round_status'' then
        (if of_round round_id e \<and> bool_from_any (field (ev_data e) ''is_terminal'')
         then (observe_end obs (ev_data e), True) else (obs, False))
      else (obs, False))"

fun wait_from :: "string \<Rightarrow> string \<Rightarrow> execution_observation \<Rightarrow> event_message list \<Rightarrow> execution_observation" where
  "wait_from ctx_error round_id obs [] = obs\<lparr>eo_status := ''cancelled'', eo_error := Some ctx_error\<rparr>"
| "wait_from ctx_error round_id obs (e # es) =
     (case observe round_id obs e of
        (obs', True) \<Rightarrow> obs'
      | (obs', False) \<Rightarrow> wait_from ctx_error round_id obs' es)"

definition empty_observation :: execution_observation where
  "empty_observation =
     \<lparr>eo_status = ''running'', eo_session = None, eo_count = 0, eo_error = None, eo_assistant = [], eo_result = []\<rparr>"

definition wait_for_round :: "string \<Rightarrow> string \<Rightarrow> event_message list \<Rightarrow> execution_observation" where
  "wait_for_round ctx_error round_id es = wait_from ctx_error (trim_space round_id) empty_observation es"

definition wait_timeout :: "int \<Rightarrow> int" where
  "wait_timeout d = (if d \<le> 0 then 1800000000000 else d)"

section \<open>The buffer keeps the latest events\<close>

lemma sink_send_length: "length (es_events s) \<le> sink_capacity \<Longrightarrow> length (es_events (sink_send s e)) \<le> sink_capacity"
  by (auto simp: sink_send_def sink_capacity_def)

lemma sink_send_open [simp]: "es_closed (sink_send s e) = es_closed s"
  by (simp add: sink_send_def)

lemma sink_send_suffix:
  assumes "\<not> es_closed s" "es_events s = drop (length xs - sink_capacity) xs"
  shows "es_events (sink_send s e) = drop (length (xs @ [e]) - sink_capacity) (xs @ [e])"
proof (cases "length xs < sink_capacity")
  case True
  then show ?thesis using assms by (simp add: sink_send_def)
next
  case False
  then have "Suc (length xs) - sink_capacity = Suc (length xs - sink_capacity)" by arith
  then show ?thesis using False assms
    by (simp add: sink_send_def drop_Suc tl_drop) (simp add: sink_capacity_def)
qed


section \<open>What an observation says\<close>

lemma apply_result_status:
  "eo_status (apply_result_payload obs p) \<in> {''failed'', ''succeeded'', ''cancelled''}"
  by (simp add: apply_result_payload_def Let_def)

lemma observe_end_status:
  "eo_status (observe_end obs p) = ''succeeded'' \<Longrightarrow>
   trim_space (any_string (field p ''status'')) = ''finished'' \<and> eo_status obs \<in> {''running'', ''succeeded''}"
  by (auto simp: observe_end_def Let_def split: if_splits)

lemma observe_error_status: "eo_status (observe_error obs p) = ''failed''"
  by (simp add: observe_error_def Let_def)

text \<open>The end of a round that the observer accepts.\<close>

definition is_finish :: "string \<Rightarrow> event_message \<Rightarrow> bool" where
  "is_finish round_id e \<longleftrightarrow> ev_type e = ''round_status'' \<and> of_round round_id e \<and>
     bool_from_any (field (ev_data e) ''is_terminal'') \<and>
     trim_space (any_string (field (ev_data e) ''status'')) = ''finished''"

text \<open>The result that a message of the round carries, and the status it stands for.\<close>

definition result_payload :: "string \<Rightarrow> event_message \<Rightarrow> any option" where
  "result_payload round_id e =
     (let role = trim_space (any_string (field (ev_data e) ''role'')) in
      if ev_type e \<noteq> ''message'' \<or> \<not> of_round round_id e then None
      else if role = ''assistant'' then
        (case field (ev_data e) ''result_summary'' of AMap m \<Rightarrow> Some (AMap m) | _ \<Rightarrow> None)
      else if role = ''result'' then Some (ev_data e) else None)"

definition result_event_status :: "any \<Rightarrow> string" where
  "result_event_status p =
     (let subtype = trim_space (any_string (field p ''subtype'')) in
      if denied_tools (field p ''permission_denials'') \<noteq> [] \<or> error_strings (field p ''errors'') \<noteq> []
      then ''failed''
      else if subtype \<in> {''success'', []} then ''succeeded''
      else if subtype = ''interrupted'' then ''cancelled'' else ''failed'')"

lemma join_ne: "xs \<noteq> [] \<Longrightarrow> \<forall>x \<in> set xs. x \<noteq> [] \<Longrightarrow> join sep xs \<noteq> []"
  by (cases xs rule: list.exhaust; cases "tl xs") auto

lemma denial_message_ne: "denial_message p t \<noteq> [] \<longleftrightarrow> denied_tools (field p ''permission_denials'') \<noteq> []"
  by (simp add: denial_message_def denial_prefix_def Let_def)

lemma error_strings_items: "\<forall>t \<in> set (error_strings v). t \<noteq> []"
  by (simp add: error_strings_def)

lemma errors_message_ne: "errors_message p t \<noteq> [] \<longleftrightarrow> error_strings (field p ''errors'') \<noteq> []"
  using join_ne[of "error_strings (field p ''errors'')" "''; ''"] error_strings_items[of "field p ''errors''"]
  by (cases "error_strings (field p ''errors'') = []") (simp_all add: errors_message_def Let_def)

lemma apply_result_payload_status: "eo_status (apply_result_payload obs p) = result_event_status p"
  using denial_message_ne[of p] errors_message_ne[of p]
  by (auto simp: apply_result_payload_def result_event_status_def Let_def)

lemma observe_status:
  "eo_status (fst (observe r obs e)) =
     (if ev_type e = ''error'' \<or> snd (observe r obs e) then eo_status (fst (observe r obs e))
      else case result_payload r e of None \<Rightarrow> eo_status obs | Some p \<Rightarrow> result_event_status p)"
  by (auto simp: observe_def observe_message_def result_payload_def apply_result_payload_status Let_def
      split: any.splits)

text \<open>The last result of a round before it ends.\<close>

definition last_result :: "string \<Rightarrow> event_message list \<Rightarrow> any option" where
  "last_result round_id es =
     (case List.map_filter (result_payload round_id) es of [] \<Rightarrow> None | ps \<Rightarrow> Some (last ps))"

definition settled :: "string \<Rightarrow> execution_observation \<Rightarrow> event_message list \<Rightarrow> string" where
  "settled r obs es = (case last_result r es of None \<Rightarrow> eo_status obs | Some p \<Rightarrow> result_event_status p)"

lemma settled_Nil: "settled r obs [] = eo_status obs"
  by (simp add: settled_def last_result_def List.map_filter_simps)

lemma settled_Cons:
  "\<not> snd (observe r obs e) \<Longrightarrow> ev_type e \<noteq> ''error'' \<Longrightarrow>
   settled r (fst (observe r obs e)) es = settled r obs (e # es)"
  using observe_status[of r obs e]
  by (auto simp: settled_def last_result_def List.map_filter_simps split: option.splits list.splits)

lemma wait_from_succeeded:
  "eo_status (wait_from ctx_error r obs es) = ''succeeded'' \<Longrightarrow>
   \<exists>pre e post. es = pre @ e # post \<and> is_finish r e \<and> (\<forall>x \<in> set pre. ev_type x \<noteq> ''error'') \<and>
     settled r obs pre \<in> {''running'', ''succeeded''}"
proof (induction ctx_error r obs es rule: wait_from.induct)
  case (2 ctx_error r obs e es)
  obtain obs' fin where o: "observe r obs e = (obs', fin)" by fastforce
  show ?case
  proof (cases fin)
    case True
    then have "eo_status obs' = ''succeeded''" using 2(2) o by simp
    then have "is_finish r e \<and> eo_status obs \<in> {''running'', ''succeeded''}"
      using o True observe_end_status observe_error_status
      by (auto simp: observe_def is_finish_def split: if_splits)
    then show ?thesis by (intro exI[of _ "[]"]) (auto simp: settled_Nil)
  next
    case False
    then have "ev_type e \<noteq> ''error''" using o by (auto simp: observe_def split: if_splits)
    have "eo_status (wait_from ctx_error r obs' es) = ''succeeded''" using 2(2) o False by simp
    from 2(1)[OF o[symmetric] _ this] False obtain pre f post where
      "es = pre @ f # post \<and> is_finish r f \<and> (\<forall>x \<in> set pre. ev_type x \<noteq> ''error'') \<and>
       settled r obs' pre \<in> {''running'', ''succeeded''}" by auto
    moreover have "settled r obs' pre = settled r obs (e # pre)"
      using settled_Cons[of r obs e pre] o False \<open>ev_type e \<noteq> ''error''\<close> by simp
    ultimately show ?thesis using \<open>ev_type e \<noteq> ''error''\<close>
      by (intro exI[of _ "e # pre"] exI[of _ f] exI[of _ post]) auto
  qed
qed simp

text \<open>C17. A run counts as succeeded only when an event ended its own round as finished, no
  error event came before it, and the last result the round reported (if it reported one)
  was a success without denied tools and without errors.\<close>
theorem succeeded_run_finished:
  assumes "eo_status (wait_for_round ctx_error round_id es) = ''succeeded''"
  shows "\<exists>pre e post. es = pre @ e # post \<and> is_finish (trim_space round_id) e \<and>
    (\<forall>x \<in> set pre. ev_type x \<noteq> ''error'') \<and>
    (\<forall>p. last_result (trim_space round_id) pre = Some p \<longrightarrow> result_event_status p = ''succeeded'')"
proof -
  obtain pre e post where split: "es = pre @ e # post" "is_finish (trim_space round_id) e"
    "\<forall>x \<in> set pre. ev_type x \<noteq> ''error''"
    and s: "settled (trim_space round_id) empty_observation pre \<in> {''running'', ''succeeded''}"
    using wait_from_succeeded[OF assms[unfolded wait_for_round_def]] by blast
  have "result_event_status p = ''succeeded''" if "last_result (trim_space round_id) pre = Some p" for p
    using s that by (auto simp: settled_def result_event_status_def Let_def split: if_splits)
  with split show ?thesis by blast
qed

lemma succeeded_run_finished_witness:
  "\<exists>pre e post. [new_event 0 ''message'' (AMap [(''round_id'', AStr ''r1''), (''role'', AStr ''result''),
        (''subtype'', AStr ''success''), (''result'', AStr ''done'')]),
      round_status_event 1 ''k'' ''r1'' ''finished'' []] = pre @ e # post \<and> is_finish ''r1'' e"
proof -
  let ?es = "[new_event 0 ''message'' (AMap [(''round_id'', AStr ''r1''), (''role'', AStr ''result''),
        (''subtype'', AStr ''success''), (''result'', AStr ''done'')]),
      round_status_event 1 ''k'' ''r1'' ''finished'' []]"
  have "eo_status (wait_for_round ''deadline'' ''r1'' ?es) = ''succeeded''" by code_simp
  moreover have "trim_space ''r1'' = ''r1''" by code_simp
  ultimately show ?thesis using succeeded_run_finished[of "''deadline''" "''r1''" ?es] by auto
qed

text \<open>An error event of any round or request of the session ends the wait as failed.\<close>

lemma foreign_error_fails_run:
  assumes "ev_type e = ''error''" "\<not> of_round (trim_space round_id) e"
  shows "eo_status (wait_for_round ctx_error round_id (e # es)) = ''failed''"
  using assms by (simp add: wait_for_round_def observe_def observe_error_status)

end
