(* ===== verification/HeartbeatText.thy ===== *)
theory HeartbeatText
  imports AutomationModel SessionPaths GoDict
begin

text \<open>
  The texts of a heartbeat: the tasks section of HEARTBEAT.md
  (\<open>automation/heartbeat_prompt.go\<close>), the filter of pure acknowledgements
  (\<open>heartbeat_delivery.go\<close>), the configuration of a heartbeat
  (\<open>protocol/model_automation.go\<close>) and its next time. The parser's local variables are
  the record \<open>parse_state\<close>; the iteration that ends a block and looks at the same line
  again is the recursive call on the same list.
\<close>

section \<open>Configuration\<close>

record heartbeat_config =
  hc_agent :: string
  hc_enabled :: bool
  hc_every :: int
  hc_target :: string
  hc_ack :: int

definition validate_heartbeat :: "heartbeat_config \<Rightarrow> string option" where
  "validate_heartbeat c =
     (if trim_space (hc_agent c) = [] then Some ''agent_id is required''
      else if hc_every c \<le> 0 then Some ''every_seconds must be greater than 0''
      else if hc_ack c < 0 then Some ''ack_max_chars must be greater than or equal to 0''
      else if trim_space (hc_target c) \<in> set [[], ''none'', ''last'', ''explicit''] then None
      else Some ''heartbeat config is invalid'')"

definition normalize_heartbeat :: "heartbeat_config \<Rightarrow> heartbeat_config" where
  "normalize_heartbeat c =
     c\<lparr>hc_agent := trim_space (hc_agent c),
       hc_every := (if hc_every c \<le> 0 then 1800 else hc_every c),
       hc_ack := (if hc_ack c < 0 then 300 else hc_ack c),
       hc_target := (if trim_space (hc_target c) = [] then ''none'' else trim_space (hc_target c))\<rparr>"

definition default_heartbeat :: "string \<Rightarrow> heartbeat_config" where
  "default_heartbeat agent_id =
     \<lparr>hc_agent = trim_space agent_id, hc_enabled = False, hc_every = 1800, hc_target = ''none'', hc_ack = 300\<rparr>"

definition explicit_unsupported :: string where
  "explicit_unsupported = ''heartbeat target_mode=explicit is not supported in Task 6 runtime''"

definition sanitize_heartbeat :: "heartbeat_config \<Rightarrow> heartbeat_config \<times> string option" where
  "sanitize_heartbeat c =
     (if trim_space (hc_target c) \<noteq> ''explicit'' then (c, None)
      else (c\<lparr>hc_target := ''none''\<rparr>, Some explicit_unsupported))"

definition heartbeat_next :: "heartbeat_config \<Rightarrow> int \<Rightarrow> int option" where
  "heartbeat_next c now = (if \<not> hc_enabled c then None else Some (now + duration_of_seconds (hc_every c)))"

section \<open>Acknowledgements\<close>

definition ack_word :: string where
  "ack_word = ''HEARTBEAT_OK''"

definition trim_prefix :: "string \<Rightarrow> string \<Rightarrow> string" where
  "trim_prefix p s = (if prefix p s then drop (length p) s else s)"

definition trim_suffix :: "string \<Rightarrow> string \<Rightarrow> string" where
  "trim_suffix p s = (if suffix p s then take (length s - length p) s else s)"

text \<open>None for a reply that is not delivered.\<close>

definition filter_heartbeat :: "string \<Rightarrow> int \<Rightarrow> string option" where
  "filter_heartbeat text ack_max =
     (let normalized = trim_space text in
      if normalized = [] \<or> normalized = ack_word then None
      else
        (let head = prefix ack_word normalized;
             stripped = (if head then trim_space (trim_prefix ack_word normalized) else normalized);
             tail = suffix ack_word stripped;
             stripped = (if tail then trim_space (trim_suffix ack_word stripped) else stripped)
         in if \<not> head \<and> \<not> tail then Some text
            else if int (rune_count stripped) \<le> ack_max then None
            else Some stripped))"

section \<open>The tasks of HEARTBEAT.md\<close>

record heartbeat_task =
  ht_name :: string
  ht_interval :: string
  ht_prompt :: string

definition clean_value :: "string \<Rightarrow> string" where
  "clean_value v =
     (if 2 \<le> length v \<and> (hd v = CHR 0x22 \<or> hd v = CHR 0x27) \<and> hd v = last v
      then butlast (tl v) else v)"

definition parse_key_value :: "string \<Rightarrow> string \<times> string" where
  "parse_key_value line =
     (let key = takeWhile (\<lambda>c. c \<noteq> CHR '':'') line in
      if CHR '':'' \<notin> set line \<or> key = [] then ([], [])
      else (trim_space key, clean_value (trim_space (drop (Suc (length key)) line))))"

definition build_task :: "(string \<times> string) list \<Rightarrow> heartbeat_task option" where
  "build_task m =
     (let name = trim_space (get_or [] m ''name'');
          interval = trim_space (get_or [] m ''interval'');
          prompt = trim_space (get_or [] m ''prompt'')
      in if name = [] \<and> interval = [] \<and> prompt = [] then None
         else Some \<lparr>ht_name = name, ht_interval = interval, ht_prompt = prompt\<rparr>)"

record parse_state =
  pa_tasks :: "heartbeat_task list"
  pa_current :: "(string \<times> string) list"
  pa_in :: bool
  pa_indent :: nat
  pa_key :: string
  pa_key_indent :: nat
  pa_block :: "string list"
  pa_block_indent :: nat

text \<open>\<open>strings.TrimRight(s, cutset)\<close> with ASCII characters.\<close>

definition trim_right_set :: "char list \<Rightarrow> string \<Rightarrow> string" where
  "trim_right_set cs s = rev (dropWhile (\<lambda>c. c \<in> set cs) (rev s))"

definition flush_current :: "parse_state \<Rightarrow> parse_state" where
  "flush_current st =
     (if pa_current st = [] then st
      else st\<lparr>pa_tasks := pa_tasks st @ (case build_task (pa_current st) of None \<Rightarrow> [] | Some t \<Rightarrow> [t]),
              pa_current := []\<rparr>)"

definition finish_block :: "parse_state \<Rightarrow> parse_state" where
  "finish_block st =
     (if pa_key st = [] then st
      else st\<lparr>pa_current := AList.update (pa_key st)
                (trim_right_set [CHR 0x20, CHR 0x09, CHR 0x0D, CHR 0x0A] (join [CHR 0x0A] (pa_block st)))
                (pa_current st),
              pa_key := [], pa_key_indent := 0, pa_block := [], pa_block_indent := 0\<rparr>)"

definition add_field :: "nat \<Rightarrow> string \<Rightarrow> parse_state \<Rightarrow> parse_state" where
  "add_field indent item st =
     (let (key, v) = parse_key_value item in
      if key = [] then st
      else if v = ''|'' then st\<lparr>pa_key := key, pa_key_indent := indent\<rparr>
      else st\<lparr>pa_current := AList.update key v (pa_current st)\<rparr>)"

definition block_line :: "nat \<Rightarrow> string \<Rightarrow> string" where
  "block_line bi line =
     (if bi \<le> length line then trim_right_set [CHR 0x20, CHR 0x09, CHR 0x0D] (drop bi line) else [])"

function parse_lines :: "parse_state \<Rightarrow> string list \<Rightarrow> parse_state" where
  "parse_lines st [] = st"
| "parse_lines st (l # ls) =
     (let line = trim_right_set [CHR 0x0D] l;
          stripped = trim_space line;
          indent = length line - length (dropWhile (\<lambda>c. c = CHR 0x20) line)
      in
      if \<not> pa_in st then
        (if stripped = ''tasks:'' then parse_lines (st\<lparr>pa_in := True, pa_indent := indent\<rparr>) ls
         else parse_lines st ls)
      else if pa_key st \<noteq> [] then
        (if stripped = [] then parse_lines (st\<lparr>pa_block := pa_block st @ [[]]\<rparr>) ls
         else if indent \<le> pa_key_indent st then parse_lines (finish_block st) (l # ls)
         else
           (let bi = (if pa_block_indent st = 0 then indent else pa_block_indent st) in
            if indent < bi then parse_lines (finish_block st) (l # ls)
            else parse_lines (st\<lparr>pa_block := pa_block st @ [block_line bi line], pa_block_indent := bi\<rparr>) ls))
      else if stripped \<noteq> [] \<and> indent \<le> pa_indent st \<and> \<not> prefix ''-'' stripped then st
      else if stripped = [] then parse_lines st ls
      else if prefix ''-'' stripped then
        parse_lines (add_field indent (trim_space (tl stripped)) (flush_current st)) ls
      else parse_lines (add_field indent stripped st) ls)"
  by pat_completeness auto
termination
  by (relation "measure (\<lambda>(st, ls). 2 * length ls + (if pa_key st = [] then 0 else 1))")
    (auto simp: finish_block_def)

declare parse_lines.simps [simp del]

definition start_parse :: parse_state where
  "start_parse =
     \<lparr>pa_tasks = [], pa_current = [], pa_in = False, pa_indent = 0, pa_key = [], pa_key_indent = 0,
      pa_block = [], pa_block_indent = 0\<rparr>"

definition parse_heartbeat_tasks :: "string \<Rightarrow> heartbeat_task list" where
  "parse_heartbeat_tasks text =
     pa_tasks (flush_current (finish_block (parse_lines start_parse (split_on CHR 0x0A text))))"

section \<open>Printing tasks\<close>

text \<open>A value that stands on one line as it is: not blank, not quoted, not the block mark.\<close>

definition plain_field :: "string \<Rightarrow> bool" where
  "plain_field v \<longleftrightarrow> trimmed v \<and> v \<noteq> [] \<and> CHR 0x0A \<notin> set v \<and> v \<noteq> ''|'' \<and> clean_value v = v"

definition plain_task :: "heartbeat_task \<Rightarrow> bool" where
  "plain_task t \<longleftrightarrow> plain_field (ht_name t) \<and> plain_field (ht_interval t) \<and> plain_field (ht_prompt t)"

definition render_task :: "heartbeat_task \<Rightarrow> string list" where
  "render_task t = [''  - name: '' @ ht_name t, ''    interval: '' @ ht_interval t, ''    prompt: '' @ ht_prompt t]"

definition render_tasks :: "heartbeat_task list \<Rightarrow> string" where
  "render_tasks ts = join [CHR 0x0A] (''tasks:'' # concat (map render_task ts))"

lemma trim_left_space [simp]: "trim_left (CHR 0x20 # s) = trim_left s"
  by (simp add: trim_left_def strip.simps[of _ "CHR 0x20 # s"] starts_with_any_def space_runes_def)

lemma trim_space_space [simp]: "trim_space (CHR 0x20 # s) = trim_space s"
  by (simp add: trim_space_def)

lemma space_runes_blank:
  assumes "w \<in> set space_runes"
  shows "w = [CHR 0x20] \<or> CHR 0x20 \<notin> set w"
proof -
  have "list_all (\<lambda>w. w = [CHR 0x20] \<or> CHR 0x20 \<notin> set w) space_runes" by code_simp
  with assms show ?thesis by (simp only: list_all_iff)
qed

lemma space_runes_heads: "list_all (\<lambda>w. hd w \<notin> set ''-nip'') space_runes"
  by code_simp

lemma trimmed_after_space:
  assumes "trimmed v" "v \<noteq> []" "h \<in> set ''-nip''"
  shows "trimmed (h # p @ CHR 0x20 # v)"
proof -
  have "starts_with_any space_runes (h # p @ CHR 0x20 # v) = None"
    using assms(3) space_runes_heads
    by (auto simp only: starts_with_any_None_iff list_all_iff prefix_Cons list.sel)
  moreover have "starts_with_any (map rev space_runes) (rev (h # p @ CHR 0x20 # v)) = None"
    unfolding starts_with_any_None_iff
  proof (intro ballI impI notI)
    fix w assume w: "w \<in> set (map rev space_runes)" "w \<noteq> []" "prefix w (rev (h # p @ CHR 0x20 # v))"
    then have pre: "prefix w (rev v @ CHR 0x20 # (rev p @ [h]))" by simp
    have "prefix w (rev v)"
    proof (cases "w = [CHR 0x20]")
      case True
      then show ?thesis using pre assms(2) by (cases "rev v") auto
    next
      case False
      obtain u where u: "u \<in> set space_runes" "w = rev u" using w(1) by auto
      then have "CHR 0x20 \<notin> set w" using False space_runes_blank[OF u(1)] by auto
      then show ?thesis by (rule prefix_before_sep[OF pre])
    qed
    with assms(1) w(1,2) show False unfolding trimmed_def starts_with_any_None_iff by blast
  qed
  ultimately show ?thesis by (simp add: trimmed_def)
qed

lemma trim_right_CR:
  assumes "trimmed v" "v \<noteq> []"
  shows "trim_right_set [CHR 0x0D] (p @ v) = p @ v"
proof -
  obtain u c where v: "v = u @ [c]" using assms(2) by (metis rev_exhaust)
  have r: "[CHR 0x0D] \<in> set (map rev space_runes)" by code_simp
  have "\<not> prefix [CHR 0x0D] (rev v)"
    using assms(1) r unfolding trimmed_def starts_with_any_None_iff by blast
  then have "c \<noteq> CHR 0x0D" using v by auto
  then show ?thesis by (simp add: trim_right_set_def v)
qed

lemma plain_lines:
  assumes "plain_field v"
  shows "trim_space (''- name: '' @ v) = ''- name: '' @ v" "trim_space (''name: '' @ v) = ''name: '' @ v"
    "trim_space (''interval: '' @ v) = ''interval: '' @ v" "trim_space (''prompt: '' @ v) = ''prompt: '' @ v"
    "trim_space v = v" "trim_right_set [CHR 0x0D] (p @ v) = p @ v"
  using assms trimmed_after_space[of v "CHR ''-''" "'' name:''"] trimmed_after_space[of v "CHR ''n''" "''ame:''"]
    trimmed_after_space[of v "CHR ''i''" "''nterval:''"] trimmed_after_space[of v "CHR ''p''" "''rompt:''"]
  by (simp_all add: plain_field_def trim_right_CR)

lemma plain_key_value:
  assumes "plain_field v"
  shows "parse_key_value (''name: '' @ v) = (''name'', v)"
    "parse_key_value (''interval: '' @ v) = (''interval'', v)"
    "parse_key_value (''prompt: '' @ v) = (''prompt'', v)"
proof -
  have "trim_space ''name'' = ''name''" "trim_space ''interval'' = ''interval''" "trim_space ''prompt'' = ''prompt''"
    by code_simp+
  then show "parse_key_value (''name: '' @ v) = (''name'', v)"
    "parse_key_value (''interval: '' @ v) = (''interval'', v)"
    "parse_key_value (''prompt: '' @ v) = (''prompt'', v)"
    using assms by (simp_all add: parse_key_value_def plain_field_def)
qed

definition loaded :: "parse_state \<Rightarrow> heartbeat_task \<Rightarrow> parse_state" where
  "loaded st t = (flush_current st)\<lparr>pa_current :=
     [(''name'', ht_name t), (''interval'', ht_interval t), (''prompt'', ht_prompt t)]\<rparr>"

lemma flush_sel [simp]:
  "pa_in (flush_current st) = pa_in st" "pa_key (flush_current st) = pa_key st"
  "pa_indent (flush_current st) = pa_indent st" "pa_current (flush_current st) = []"
  by (simp_all add: flush_current_def)

lemma plain_not_bar: "plain_field v \<Longrightarrow> v \<noteq> ''|''"
  by (simp add: plain_field_def)

lemma parse_dash_line:
  assumes "plain_field v" "pa_in st" "pa_key st = []"
  shows "parse_lines st ((''  - name: '' @ v) # ls) =
         parse_lines ((flush_current st)\<lparr>pa_current := [(''name'', v)]\<rparr>) ls"
  using assms plain_lines[OF assms(1)] plain_lines(6)[OF assms(1), of "''  - name: ''"]
    plain_key_value[OF assms(1)] plain_not_bar[OF assms(1)]
  by (simp add: parse_lines.simps[of st] add_field_def Let_def)

lemma parse_field_lines:
  assumes "plain_field v" "pa_in st" "pa_key st = []" "pa_indent st = 0"
  shows "parse_lines st ((''    interval: '' @ v) # ls) =
         parse_lines (st\<lparr>pa_current := AList.update ''interval'' v (pa_current st)\<rparr>) ls"
    "parse_lines st ((''    prompt: '' @ v) # ls) =
         parse_lines (st\<lparr>pa_current := AList.update ''prompt'' v (pa_current st)\<rparr>) ls"
  using assms plain_lines[OF assms(1)] plain_lines(6)[OF assms(1), of "''    interval: ''"]
    plain_lines(6)[OF assms(1), of "''    prompt: ''"] plain_key_value[OF assms(1)] plain_not_bar[OF assms(1)]
  by (simp_all add: parse_lines.simps[of st] add_field_def Let_def)

lemma parse_render_task:
  assumes "plain_task t" "pa_in st" "pa_key st = []" "pa_indent st = 0"
  shows "parse_lines st (render_task t @ ls) = parse_lines (loaded st t) ls"
proof -
  let ?a = "''  - name: '' @ ht_name t" and ?b = "''    interval: '' @ ht_interval t"
    and ?c = "''    prompt: '' @ ht_prompt t"
  have p: "plain_field (ht_name t)" "plain_field (ht_interval t)" "plain_field (ht_prompt t)"
    using assms(1) by (simp_all add: plain_task_def)
  have "render_task t @ ls = ?a # ?b # ?c # ls" by (simp add: render_task_def)
  then show ?thesis
    unfolding loaded_def by (simp only: parse_dash_line[OF p(1) assms(2,3)])
      (simp add: parse_field_lines p assms del: append.simps append_Cons)
qed

lemma loaded_sel [simp]:
  "pa_in (loaded st t) = pa_in st" "pa_key (loaded st t) = pa_key st" "pa_indent (loaded st t) = pa_indent st"
  by (simp_all add: loaded_def)

lemma flush_loaded:
  "plain_task t \<Longrightarrow> pa_tasks (flush_current (loaded st t)) = pa_tasks (flush_current st) @ [t]"
  by (cases t) (auto simp: loaded_def flush_current_def build_task_def get_or_def plain_task_def plain_field_def)

lemma parse_render:
  "\<forall>t \<in> set ts. plain_task t \<Longrightarrow> pa_in st \<Longrightarrow> pa_key st = [] \<Longrightarrow> pa_indent st = 0 \<Longrightarrow>
   pa_tasks (flush_current (finish_block (parse_lines st (concat (map render_task ts))))) =
   pa_tasks (flush_current st) @ ts"
proof (induction ts arbitrary: st)
  case Nil
  then show ?case by (simp add: parse_lines.simps finish_block_def)
next
  case (Cons t ts)
  then have "parse_lines st (concat (map render_task (t # ts))) =
             parse_lines (loaded st t) (concat (map render_task ts))"
    using parse_render_task[of t st] by simp
  moreover have "pa_tasks (flush_current (finish_block (parse_lines (loaded st t) (concat (map render_task ts))))) =
                 pa_tasks (flush_current (loaded st t)) @ ts"
    using Cons by (intro Cons.IH) auto
  ultimately show ?case using flush_loaded[of t st] Cons.prems(1) by simp
qed

lemma render_line_ok: "plain_task t \<Longrightarrow> l \<in> set (render_task t) \<Longrightarrow> CHR 0x0A \<notin> set l"
  by (auto simp: render_task_def plain_task_def plain_field_def)

text \<open>C18. Reading back a tasks section gives the tasks it was written from, in order, for
  every list of tasks whose name, interval and prompt are plain one-line values.\<close>
theorem heartbeat_tasks_roundtrip:
  assumes "\<forall>t \<in> set ts. plain_task t"
  shows "parse_heartbeat_tasks (render_tasks ts) = ts"
proof -
  have "split_on CHR 0x0A (render_tasks ts) = ''tasks:'' # concat (map render_task ts)"
    unfolding render_tasks_def using assms render_line_ok by (intro split_on_join) auto
  moreover have "parse_lines start_parse (''tasks:'' # ls) = parse_lines (start_parse\<lparr>pa_in := True\<rparr>) ls" for ls
  proof -
    have "trim_right_set [CHR 0x0D] ''tasks:'' = ''tasks:''" "trim_space ''tasks:'' = ''tasks:''" by code_simp+
    then show ?thesis by (simp add: parse_lines.simps[of start_parse] Let_def) (simp add: start_parse_def)
  qed
  ultimately show ?thesis
    using parse_render[OF assms, of "start_parse\<lparr>pa_in := True\<rparr>"]
    by (simp add: parse_heartbeat_tasks_def start_parse_def flush_current_def)
qed

definition tasks_example :: "heartbeat_task list" where
  "tasks_example =
     [\<lparr>ht_name = ''mail'', ht_interval = ''30m'', ht_prompt = ''read: the inbox''\<rparr>,
      \<lparr>ht_name = ''logs'', ht_interval = ''1d'', ht_prompt = ''sum up''\<rparr>]"

lemma heartbeat_tasks_roundtrip_witness:
  "parse_heartbeat_tasks (render_tasks tasks_example) = tasks_example"
proof (rule heartbeat_tasks_roundtrip)
  have "list_all plain_task tasks_example" by code_simp
  then show "\<forall>t \<in> set tasks_example. plain_task t" by (simp add: list_all_iff)
qed

end
