(* ===== verification/Heartbeat.thy ===== *)
theory Heartbeat
  imports HeartbeatText ExecutionSink
begin

text \<open>
  Heartbeats of agents: \<open>service/automation/service_heartbeat.go\<close> with the tables of
  heartbeat configurations and system events
  (\<open>storage/automation/repository_heartbeat.go\<close>, \<open>repository_event.go\<close>) and the
  delivery of a reply (\<open>runtime_delivery.go\<close>).

  The state \<open>heart_store\<close> holds the runtime states and wake requests of the service, the two
  tables, the dispatched rounds whose goroutine still waits (\<open>flights\<close>) and the texts that
  were delivered. What the environment answers is the record \<open>heart_env\<close>: the agent service, the
  failures of the database that the code looks at, HEARTBEAT.md, the section on scheduled
  tasks, the session runner and the delivery router. Each function is one pass of the code; a
  dispatch ends where the code starts its goroutine, and \<open>finish_flight\<close> is that goroutine.
  The payload of an event is kept decoded. Events are listed by creation time and id.
\<close>

section \<open>State\<close>

record heartbeat_runtime =
  hr_config :: heartbeat_config
  hr_running :: bool
  hr_pending :: bool
  hr_next :: "int option"
  hr_last :: "int option"
  hr_ack :: "int option"
  hr_error :: "string option"

record wake_request =
  wr_agent :: string
  wr_session :: string
  wr_mode :: string
  wr_text :: string

record system_event =
  se_id :: string
  se_type :: string
  se_source_type :: string
  se_source_id :: string
  se_payload :: any
  se_status :: string
  se_created :: int

text \<open>A row of the table of configurations: the configuration and the two times.\<close>

type_synonym heartbeat_row = "heartbeat_config \<times> int option \<times> int option"

record flight =
  fl_agent :: string
  fl_round :: string
  fl_session :: string
  fl_events :: "system_event list"
  fl_started :: int
  fl_text :: string

record heart_store =
  heart_states :: "(string \<times> heartbeat_runtime) list"
  wake_requests :: "(string \<times> wake_request list) list"
  heart_rows :: "(string \<times> heartbeat_row) list"
  system_events :: "system_event list"
  flights :: "flight list"
  sent_texts :: "(string \<times> string) list"

record heart_env =
  he_now :: int
  he_agent_error :: "string option"
  he_row_error :: "string option"
  he_write_error :: "string option"
  he_event_id :: string
  he_list_error :: "string option"
  he_mark_error :: "string \<Rightarrow> string option"
  he_file :: "string + string option"
  he_summary :: string
  he_round :: string
  he_dispatch_error :: "string option"
  he_started :: int
  he_router :: bool
  he_deliver_error :: "string option"
  he_finished :: int

definition clone_string :: "string option \<Rightarrow> string option" where
  "clone_string v = map_option trim_space v"

section \<open>Tables\<close>

definition get_heartbeat_row :: "heart_store \<Rightarrow> string \<Rightarrow> heartbeat_row option" where
  "get_heartbeat_row s agent_id = map_of (heart_rows s) (trim_space agent_id)"

definition upsert_heartbeat :: "heartbeat_config \<Rightarrow> int option \<Rightarrow> int option \<Rightarrow> heart_store \<Rightarrow> heart_store" where
  "upsert_heartbeat c beat ack s =
     s\<lparr>heart_rows := AList.update (hc_agent c) (c, beat, ack) (heart_rows s)\<rparr>"

definition insert_event :: "string \<Rightarrow> string \<Rightarrow> string \<Rightarrow> string \<Rightarrow> any \<Rightarrow> int \<Rightarrow> heart_store \<Rightarrow> heart_store" where
  "insert_event event_id event_type source_type source_id payload now s =
     s\<lparr>system_events := system_events s @
         [\<lparr>se_id = event_id, se_type = event_type, se_source_type = source_type, se_source_id = source_id,
           se_payload = payload, se_status = ''new'', se_created = now\<rparr>]\<rparr>"

definition event_before :: "system_event \<Rightarrow> system_event \<Rightarrow> bool" where
  "event_before a b \<longleftrightarrow> se_created a < se_created b \<or> se_created a = se_created b \<and> se_id a \<le> se_id b"

fun insert_sorted :: "system_event \<Rightarrow> system_event list \<Rightarrow> system_event list" where
  "insert_sorted e [] = [e]"
| "insert_sorted e (x # xs) = (if event_before e x then e # x # xs else x # insert_sorted e xs)"

definition new_events :: "heart_store \<Rightarrow> string \<Rightarrow> system_event list" where
  "new_events s agent_id =
     foldr insert_sorted
       (filter (\<lambda>e. se_status e = ''new'' \<and>
          (se_source_id e = trim_space agent_id \<or> field (se_payload e) ''agent_id'' = AStr (trim_space agent_id)))
          (system_events s)) []"

definition mark_event :: "string \<Rightarrow> string \<Rightarrow> heart_store \<Rightarrow> heart_store" where
  "mark_event event_id status s =
     s\<lparr>system_events := map (\<lambda>e. if se_id e = event_id then e\<lparr>se_status := status\<rparr> else e) (system_events s)\<rparr>"

definition mark_events :: "string \<Rightarrow> system_event list \<Rightarrow> heart_store \<Rightarrow> heart_store" where
  "mark_events status es s = fold (\<lambda>e. mark_event (se_id e) status) es s"

section \<open>States and wake requests\<close>

definition new_heartbeat_state :: "int \<Rightarrow> string \<Rightarrow> heartbeat_row option \<Rightarrow> heartbeat_runtime" where
  "new_heartbeat_state now agent_id row =
     (let (c, beat, ack) =
            (case row of None \<Rightarrow> (default_heartbeat agent_id, None, None)
             | Some (c, beat, ack) \<Rightarrow> (normalize_heartbeat c, beat, ack));
          (c, e) = sanitize_heartbeat c
      in \<lparr>hr_config = c, hr_running = False, hr_pending = False, hr_next = heartbeat_next c now,
          hr_last = beat, hr_ack = ack, hr_error = clone_string e\<rparr>)"

definition ensure_heartbeat :: "heart_env \<Rightarrow> string \<Rightarrow> heart_store \<Rightarrow> (string + heartbeat_runtime) \<times> heart_store" where
  "ensure_heartbeat env agent_id s =
     (case map_of (heart_states s) (trim_space agent_id) of
        Some st \<Rightarrow> (Inr st, s)
      | None \<Rightarrow>
          (case he_row_error env of
             Some e \<Rightarrow> (Inl e, s)
           | None \<Rightarrow>
               (let st = new_heartbeat_state (he_now env) agent_id (get_heartbeat_row s agent_id)
                in (Inr st, s\<lparr>heart_states := AList.update (hc_agent (hr_config st)) st (heart_states s)\<rparr>))))"

text \<open>A change of a state in place, when the service holds one for the agent.\<close>

definition change_heartbeat :: "string \<Rightarrow> (heartbeat_runtime \<Rightarrow> heartbeat_runtime) \<Rightarrow> heart_store \<Rightarrow> heart_store" where
  "change_heartbeat agent_id f s =
     (case map_of (heart_states s) agent_id of
        None \<Rightarrow> s
      | Some st \<Rightarrow> s\<lparr>heart_states := AList.update agent_id (f st) (heart_states s)\<rparr>)"

definition record_wake :: "string \<Rightarrow> string \<Rightarrow> string \<Rightarrow> string option \<Rightarrow> heart_store \<Rightarrow> heart_store" where
  "record_wake agent_id session_key mode text s =
     (let key = trim_space session_key;
          r = \<lparr>wr_agent = trim_space agent_id, wr_session = key, wr_mode = trim_space mode,
               wr_text = any_string_pointer text\<rparr>
      in change_heartbeat (trim_space agent_id) (hr_pending_update (\<lambda>_. True))
           (s\<lparr>wake_requests := AList.update key (get_or [] (wake_requests s) key @ [r]) (wake_requests s)\<rparr>))"

definition has_immediate_wake :: "heart_store \<Rightarrow> string \<Rightarrow> bool" where
  "has_immediate_wake s agent_id \<longleftrightarrow>
     (\<exists>r \<in> set (get_or [] (wake_requests s) (build_main_key agent_id)).
        trim_space (wr_agent r) = trim_space agent_id \<and> wr_mode r = ''now'')"

definition take_wake_requests :: "string \<Rightarrow> string \<Rightarrow> heart_store \<Rightarrow> (wake_request list \<times> wake_request list) \<times> heart_store" where
  "take_wake_requests agent_id session_key s =
     (let key = trim_space session_key;
          items = filter (\<lambda>r. trim_space (wr_agent r) = trim_space agent_id) (get_or [] (wake_requests s) key)
      in ((filter (\<lambda>r. wr_mode r = ''now'') items, filter (\<lambda>r. wr_mode r = ''next-heartbeat'') items),
          s\<lparr>wake_requests := AList.delete key (wake_requests s)\<rparr>))"

text \<open>The events of an agent are marked one after the other; the first failure ends the claim.\<close>

fun mark_processing :: "heart_env \<Rightarrow> system_event list \<Rightarrow> heart_store \<Rightarrow> string option \<times> heart_store" where
  "mark_processing env [] s = (None, s)"
| "mark_processing env (e # es) s =
     (case he_mark_error env (se_id e) of
        Some err \<Rightarrow> (Some err, s)
      | None \<Rightarrow> mark_processing env es (mark_event (se_id e) ''processing'' s))"

definition claim_events :: "heart_env \<Rightarrow> string \<Rightarrow> heart_store \<Rightarrow> (string + system_event list) \<times> heart_store" where
  "claim_events env agent_id s =
     (case he_list_error env of
        Some e \<Rightarrow> (Inl e, s)
      | None \<Rightarrow>
          (let items = new_events s agent_id in
           case mark_processing env items s of
             (Some e, s') \<Rightarrow> (Inl e, s')
           | (None, s') \<Rightarrow> (Inr items, s')))"

section \<open>The instruction of a heartbeat\<close>

definition bullets :: "string \<Rightarrow> string list \<Rightarrow> string" where
  "bullets title lines = title @ CHR 0x0A # ''- '' @ join (CHR 0x0A # ''- '') lines"

text \<open>The section of HEARTBEAT.md: its tasks, or the whole text when it declares none.\<close>

definition file_sections :: "string option \<Rightarrow> string list" where
  "file_sections file =
     (let content = or_else [] file in
      if trim_space content = [] then []
      else
        (let tasks = parse_heartbeat_tasks content;
             lines = filter (\<lambda>l. l \<noteq> [])
               (map (\<lambda>t. first_non_empty [ht_prompt t, ht_name t, ht_interval t]) tasks)
         in if tasks = [] then [trim_space content]
            else if lines = [] then [] else [bullets ''Heartbeat tasks:'' lines]))"

definition event_line :: "system_event \<Rightarrow> string" where
  "event_line e =
     (let text = trim_space (any_string (field (se_payload e) ''text'')) in if text \<noteq> [] then text else se_type e)"

definition wake_line :: "wake_request \<Rightarrow> string" where
  "wake_line r =
     (if trim_space (wr_text r) \<noteq> [] then trim_space (wr_text r)
      else if trim_space (wr_mode r) = [] then ''wake request (unknown)''
      else ''wake request ('' @ trim_space (wr_mode r) @ '')'')"

definition heartbeat_instruction ::
  "string option \<Rightarrow> string \<Rightarrow> system_event list \<Rightarrow> wake_request list \<Rightarrow> wake_request list \<Rightarrow> string" where
  "heartbeat_instruction file summary events immediate deferred =
     (let event_lines = map event_line events;
          wake_lines = uniq_from event_lines (map wake_line (immediate @ deferred))
      in trim_space (join [CHR 0x0A, CHR 0x0A]
           (file_sections file @
            (if event_lines \<noteq> [] then [bullets ''System events:'' event_lines] else []) @
            (if wake_lines \<noteq> [] then [bullets ''Wake requests:'' wake_lines] else []) @
            (if summary \<noteq> [] then [summary] else []))))"

section \<open>Dispatch and end of a heartbeat\<close>

definition finish_heartbeat_runtime ::
  "int \<Rightarrow> string \<Rightarrow> int option \<Rightarrow> int option \<Rightarrow> string option \<Rightarrow> heart_store \<Rightarrow> heart_store" where
  "finish_heartbeat_runtime now agent_id started ack delivery_error s =
     (case map_of (heart_states s) (trim_space agent_id) of
        None \<Rightarrow> s
      | Some st \<Rightarrow>
          (let st' = st\<lparr>hr_running := False, hr_next := heartbeat_next (hr_config st) now,
                        hr_last := (if started \<noteq> None then started else hr_last st),
                        hr_ack := (if ack \<noteq> None then ack else hr_ack st),
                        hr_error := clone_string delivery_error\<rparr>;
               s = s\<lparr>heart_states := AList.update (trim_space agent_id) st' (heart_states s)\<rparr>
           in if hc_agent (hr_config st') \<noteq> [] then upsert_heartbeat (hr_config st') (hr_last st') (hr_ack st') s
              else s))"

definition persist_heartbeat_times :: "string \<Rightarrow> int option \<Rightarrow> int option \<Rightarrow> heart_store \<Rightarrow> heart_store" where
  "persist_heartbeat_times agent_id beat ack s =
     (case map_of (heart_states s) (trim_space agent_id) of
        None \<Rightarrow> s
      | Some st \<Rightarrow> upsert_heartbeat (hr_config st) beat ack s)"

text \<open>
  \<open>dispatchHeartbeat\<close>. The section on scheduled tasks and the file are read when the
  instruction is built; an instruction that is not blank always has such a section.
\<close>

definition launch_heartbeat :: "heart_env \<Rightarrow> string \<Rightarrow> system_event list \<Rightarrow> string \<Rightarrow> heart_store \<Rightarrow> heart_store" where
  "launch_heartbeat env agent_id events instruction s =
     (case he_dispatch_error env of
        Some e \<Rightarrow>
          finish_heartbeat_runtime (he_started env) agent_id None None (Some e) (mark_events ''failed'' events s)
      | None \<Rightarrow>
          (let s = change_heartbeat agent_id (\<lambda>st. st\<lparr>hr_last := Some (he_started env), hr_error := None\<rparr>) s;
               s = persist_heartbeat_times agent_id (Some (he_started env)) None s
           in s\<lparr>flights := flights s @
                  [\<lparr>fl_agent = agent_id, fl_round = he_round env, fl_session = build_main_key agent_id,
                    fl_events = events, fl_started = he_started env, fl_text = instruction\<rparr>]\<rparr>))"

definition run_heartbeat :: "heart_env \<Rightarrow> string \<Rightarrow> heart_store \<Rightarrow> heart_store" where
  "run_heartbeat env agent_id s =
     (let ((immediate, deferred), s) = take_wake_requests agent_id (build_main_key agent_id) s in
      case claim_events env agent_id s of
        (Inl e, s) \<Rightarrow> finish_heartbeat_runtime (he_started env) agent_id None None (Some e) s
      | (Inr events, s) \<Rightarrow>
          (case he_file env of
             Inl e \<Rightarrow>
               mark_events ''failed'' events
                 (finish_heartbeat_runtime (he_started env) agent_id None None (Some e) s)
           | Inr file \<Rightarrow>
               (let instruction = heartbeat_instruction file (he_summary env) events immediate deferred in
                if trim_space instruction = [] then
                  finish_heartbeat_runtime (he_started env) agent_id None None None
                    (mark_events ''processed'' events s)
                else launch_heartbeat env agent_id events instruction s)))"

definition dispatch_heartbeat :: "heart_env \<Rightarrow> string \<Rightarrow> heart_store \<Rightarrow> heart_store" where
  "dispatch_heartbeat env agent_id s =
     (case ensure_heartbeat env agent_id s of
        (Inl e, s) \<Rightarrow> finish_heartbeat_runtime (he_started env) agent_id None None (Some e) s
      | (Inr _, s) \<Rightarrow>
          (case map_of (heart_states s) agent_id of
             Some st \<Rightarrow>
               if hr_running st then s
               else run_heartbeat env agent_id
                      (change_heartbeat agent_id (\<lambda>st. st\<lparr>hr_running := True, hr_pending := False\<rparr>) s)
           | None \<Rightarrow> run_heartbeat env agent_id s))"

text \<open>\<open>deliverHeartbeatObservation\<close>: the error, and the text that was sent.\<close>

definition deliver_heartbeat ::
  "heart_env \<Rightarrow> heartbeat_config \<Rightarrow> execution_observation \<Rightarrow> string option \<times> string option" where
  "deliver_heartbeat env c obs =
     (if trim_space (hc_target c) = [] \<or> trim_space (hc_target c) = ''none'' then (None, None)
      else if \<not> he_router env then (Some ''delivery router is not configured'', None)
      else
        (case filter_heartbeat (first_non_empty [eo_result obs, eo_assistant obs]) (hc_ack c) of
           None \<Rightarrow> (None, None)
         | Some text \<Rightarrow>
             if trim_space text = [] then (None, None)
             else (case he_deliver_error env of Some e \<Rightarrow> (Some e, None) | None \<Rightarrow> (None, Some text))))"

text \<open>
  The goroutine of a dispatched heartbeat, once it has observed its round. The configuration
  is read from the state the dispatch kept, so an update in between counts.
\<close>

definition finish_flight :: "heart_env \<Rightarrow> flight \<Rightarrow> execution_observation \<Rightarrow> heart_store \<Rightarrow> heart_store" where
  "finish_flight env fl obs s =
     (let s = s\<lparr>flights := remove1 fl (flights s)\<rparr> in
      if eo_status obs = ''succeeded'' then
        (let s = mark_events ''processed'' (fl_events fl) s;
             c = (case map_of (heart_states s) (trim_space (fl_agent fl)) of
                    Some st \<Rightarrow> hr_config st | None \<Rightarrow> default_heartbeat (fl_agent fl));
             (e, sent) = deliver_heartbeat env c obs;
             s = (case sent of None \<Rightarrow> s
                  | Some text \<Rightarrow> s\<lparr>sent_texts := sent_texts s @ [(fl_agent fl, text)]\<rparr>)
         in finish_heartbeat_runtime (he_finished env) (fl_agent fl) (Some (fl_started fl)) (Some (he_finished env)) e s)
      else
        finish_heartbeat_runtime (he_finished env) (fl_agent fl) (Some (fl_started fl)) None (eo_error obs)
          (mark_events ''failed'' (fl_events fl) s))"

section \<open>Requests\<close>

record wake_result =
  wq_agent :: string
  wq_mode :: string
  wq_scheduled :: bool

definition wake_heartbeat ::
  "heart_env \<Rightarrow> string \<Rightarrow> string \<Rightarrow> string option \<Rightarrow> heart_store \<Rightarrow> (string + wake_result) \<times> heart_store" where
  "wake_heartbeat env agent_id requested text s =
     (case he_agent_error env of
        Some e \<Rightarrow> (Inl e, s)
      | None \<Rightarrow>
          (let mode = (if trim_space requested = [] then ''now'' else trim_space requested) in
           if mode \<noteq> ''now'' \<and> mode \<noteq> ''next-heartbeat''
           then (Inl ''mode must be one of now, next-heartbeat'', s)
           else
             (case ensure_heartbeat env agent_id s of
                (Inl e, s) \<Rightarrow> (Inl e, s)
              | (Inr st, s) \<Rightarrow>
                  (let agent = hc_agent (hr_config st);
                       has_text = (any_string_pointer text \<noteq> [])
                   in case (if has_text then he_write_error env else None) of
                        Some e \<Rightarrow> (Inl e, s)
                      | None \<Rightarrow>
                          (let s = (if has_text
                                    then insert_event (he_event_id env) ''heartbeat.wake'' ''heartbeat'' agent
                                      (AMap [(''agent_id'', AStr agent), (''text'', AStr (any_string_pointer text)),
                                             (''wake_mode'', AStr mode)]) (he_now env) s
                                    else s);
                               s = record_wake agent (build_main_key agent) mode text s;
                               running = (case map_of (heart_states s) agent of Some st \<Rightarrow> hr_running st | None \<Rightarrow> False);
                               s = change_heartbeat agent (hr_pending_update (\<lambda>_. True)) s
                           in if mode = ''now'' then
                                (Inr \<lparr>wq_agent = agent, wq_mode = mode, wq_scheduled = True\<rparr>,
                                 if running then s else dispatch_heartbeat env agent s)
                              else (Inr \<lparr>wq_agent = agent, wq_mode = mode, wq_scheduled = False\<rparr>, s))))))"

definition update_heartbeat ::
  "heart_env \<Rightarrow> string \<Rightarrow> bool \<Rightarrow> int \<Rightarrow> string \<Rightarrow> int \<Rightarrow> heart_store \<Rightarrow> string option \<times> heart_store" where
  "update_heartbeat env agent_id enabled every target ack s =
     (case he_agent_error env of
        Some e \<Rightarrow> (Some e, s)
      | None \<Rightarrow>
          (let c = normalize_heartbeat
                 \<lparr>hc_agent = trim_space agent_id, hc_enabled = enabled, hc_every = every,
                  hc_target = trim_space target, hc_ack = ack\<rparr>
           in if hc_target c = ''explicit'' then (Some ''heartbeat config is invalid'', s)
              else
                (case validate_heartbeat c of
                   Some e \<Rightarrow> (Some e, s)
                 | None \<Rightarrow>
                     (case ensure_heartbeat env (hc_agent c) s of
                        (Inl e, s) \<Rightarrow> (Some e, s)
                      | (Inr st, s) \<Rightarrow>
                          (let s = change_heartbeat (hc_agent c)
                                 (\<lambda>st. st\<lparr>hr_config := c, hr_next := heartbeat_next c (he_now env), hr_error := None,
                                          hr_pending := (hr_pending st \<and> enabled),
                                          hr_running := (hr_running st \<and> enabled)\<rparr>) s
                           in case he_write_error env of
                                Some e \<Rightarrow> (Some e, s)
                              | None \<Rightarrow> (None, upsert_heartbeat c (hr_last st) (hr_ack st) s))))))"

text \<open>The heartbeats of \<open>runDueOnce\<close>.\<close>

definition heartbeat_due :: "int \<Rightarrow> heart_store \<Rightarrow> string \<Rightarrow> heartbeat_runtime \<Rightarrow> bool" where
  "heartbeat_due now s agent_id st \<longleftrightarrow>
     \<not> hr_running st \<and> hc_enabled (hr_config st) \<and>
     (has_immediate_wake s agent_id \<or> (case hr_next st of None \<Rightarrow> False | Some t \<Rightarrow> t \<le> now))"

definition due_heartbeats :: "int \<Rightarrow> heart_store \<Rightarrow> string list" where
  "due_heartbeats now s = map fst (filter (\<lambda>(a, st). heartbeat_due now s a st) (heart_states s))"

section \<open>What each operation leaves alone\<close>

text \<open>The part of a store that says which agent has a heartbeat in flight.\<close>

definition core :: "heart_store \<Rightarrow> string \<Rightarrow> (bool \<times> string) option" where
  "core s a = map_option (\<lambda>st. (hr_running st, hc_agent (hr_config st))) (map_of (heart_states s) a)"

lemma core_update:
  "core (s\<lparr>heart_states := AList.update a st (heart_states s)\<rparr>) b =
     (if b = a then Some (hr_running st, hc_agent (hr_config st)) else core s b)"
  by (simp add: core_def)

lemma core_change:
  "core (change_heartbeat a f s) b =
     (if b = a then map_option (\<lambda>st. (hr_running (f st), hc_agent (hr_config (f st)))) (map_of (heart_states s) a)
      else core s b)"
  by (auto simp: change_heartbeat_def core_def split: option.splits)

lemma core_cong: "heart_states s' = heart_states s \<Longrightarrow> core s' = core s"
  by (simp add: core_def fun_eq_iff)

lemma core_other [simp]: "core (s\<lparr>wake_requests := w\<rparr>) = core s" "core (s\<lparr>flights := fs\<rparr>) = core s"
  "core (s\<lparr>sent_texts := ts\<rparr>) = core s"
  by (simp_all add: core_def fun_eq_iff)

lemma change_frame [simp]:
  "flights (change_heartbeat a f s) = flights s" "heart_rows (change_heartbeat a f s) = heart_rows s"
  "system_events (change_heartbeat a f s) = system_events s"
  "wake_requests (change_heartbeat a f s) = wake_requests s"
  by (simp_all add: change_heartbeat_def split: option.splits)

lemma core_pending [simp]: "core (change_heartbeat a (hr_pending_update g) s) = core s"
  by (rule ext, subst core_change) (simp add: core_def option.map_comp o_def)

lemma mark_event_frame [simp]:
  "flights (mark_event i v s) = flights s" "heart_rows (mark_event i v s) = heart_rows s"
  "heart_states (mark_event i v s) = heart_states s" "wake_requests (mark_event i v s) = wake_requests s"
  by (simp_all add: mark_event_def)

lemma mark_events_frame [simp]:
  "flights (mark_events v es s) = flights s" "heart_rows (mark_events v es s) = heart_rows s"
  "heart_states (mark_events v es s) = heart_states s" "wake_requests (mark_events v es s) = wake_requests s"
  unfolding mark_events_def by (induction es arbitrary: s) auto

lemma mark_processing_frame:
  "mark_processing env es s = (e, s') \<Longrightarrow>
   flights s' = flights s \<and> heart_rows s' = heart_rows s \<and> heart_states s' = heart_states s \<and>
   wake_requests s' = wake_requests s"
  by (induction env es s rule: mark_processing.induct) (auto split: option.splits)

lemma claim_frame:
  "claim_events env a s = (r, s') \<Longrightarrow>
   flights s' = flights s \<and> heart_rows s' = heart_rows s \<and> heart_states s' = heart_states s \<and>
   wake_requests s' = wake_requests s"
  by (auto simp: claim_events_def Let_def split: option.splits prod.splits dest: mark_processing_frame)

lemma take_wakes_frame:
  "take_wake_requests a k s = (r, s') \<Longrightarrow> flights s' = flights s \<and> heart_rows s' = heart_rows s \<and>
   heart_states s' = heart_states s \<and> system_events s' = system_events s"
  by (auto simp: take_wake_requests_def Let_def)

lemma record_wake_frame [simp]:
  "flights (record_wake a k m t s) = flights s" "heart_rows (record_wake a k m t s) = heart_rows s"
  "system_events (record_wake a k m t s) = system_events s"
  "core (record_wake a k m t s) = core s"
  by (simp_all add: record_wake_def Let_def)

lemma insert_event_frame [simp]:
  "flights (insert_event i t st si p n s) = flights s" "heart_rows (insert_event i t st si p n s) = heart_rows s"
  "heart_states (insert_event i t st si p n s) = heart_states s"
  by (simp_all add: insert_event_def)

section \<open>One heartbeat at a time\<close>

definition flying :: "heart_store \<Rightarrow> string \<Rightarrow> flight list" where
  "flying s a = filter (\<lambda>f. fl_agent f = a) (flights s)"

definition rows_ok :: "heart_store \<Rightarrow> bool" where
  "rows_ok s \<longleftrightarrow> (\<forall>a c b k. map_of (heart_rows s) a = Some (c, b, k) \<longrightarrow> hc_agent c = a)"

text \<open>
  Every state belongs to its agent, and an agent has one round in flight when its state says
  running and none otherwise; the agent \<open>mid\<close> is between claiming the flag and its round.
\<close>

fun agent_ok :: "bool \<Rightarrow> string \<Rightarrow> (bool \<times> string) option \<Rightarrow> flight list \<Rightarrow> bool" where
  "agent_ok m a None fs \<longleftrightarrow> fs = [] \<and> \<not> m"
| "agent_ok m a (Some (r, g)) fs \<longleftrightarrow>
     g = a \<and> trimmed a \<and> a \<noteq> [] \<and> length fs = (if r \<and> \<not> m then 1 else 0) \<and> (m \<longrightarrow> r)"

definition heart_inv :: "string option \<Rightarrow> heart_store \<Rightarrow> bool" where
  "heart_inv mid s \<longleftrightarrow> rows_ok s \<and> (\<forall>a. agent_ok (mid = Some a) a (core s a) (flying s a))"

lemma heart_inv_rows: "heart_inv mid s \<Longrightarrow> rows_ok s"
  by (simp add: heart_inv_def)

lemma heart_inv_at: "heart_inv mid s \<Longrightarrow> agent_ok (mid = Some a) a (core s a) (flying s a)"
  by (simp add: heart_inv_def)

lemma heart_inv_cong:
  "core s' = core s \<Longrightarrow> flights s' = flights s \<Longrightarrow> heart_rows s' = heart_rows s \<Longrightarrow>
   heart_inv mid s' = heart_inv mid s"
  by (simp add: heart_inv_def flying_def rows_ok_def)

lemma heart_inv_mid: "heart_inv (Some a) s \<Longrightarrow> core s a = Some (True, a) \<and> flying s a = [] \<and> trimmed a \<and> a \<noteq> []"
  using heart_inv_at[of "Some a" s a] by (cases "core s a") auto

lemma heart_inv_agent: "heart_inv mid s \<Longrightarrow> core s a = Some (r, g) \<Longrightarrow> g = a \<and> trimmed a \<and> a \<noteq> []"
  using heart_inv_at[of mid s a] by simp

text \<open>A step that concerns one agent only.\<close>

lemma heart_inv_step:
  assumes "heart_inv mid s" "rows_ok s'" "agent_ok (mid' = Some a) a (core s' a) (flying s' a)"
    and "\<And>b. b \<noteq> a \<Longrightarrow> core s' b = core s b \<and> flying s' b = flying s b \<and> (mid' = Some b) = (mid = Some b)"
  shows "heart_inv mid' s'"
  unfolding heart_inv_def
proof (intro conjI allI)
  fix b
  show "agent_ok (mid' = Some b) b (core s' b) (flying s' b)"
    using assms(3,4) heart_inv_at[OF assms(1), of b] by (cases "b = a") auto
qed (rule assms(2))

lemma rows_ok_upsert [simp]: "rows_ok s \<Longrightarrow> rows_ok (upsert_heartbeat c b k s)"
  by (simp add: rows_ok_def upsert_heartbeat_def)

lemma upsert_frame [simp]:
  "flights (upsert_heartbeat c b k s) = flights s" "core (upsert_heartbeat c b k s) = core s"
  "heart_states (upsert_heartbeat c b k s) = heart_states s"
  "system_events (upsert_heartbeat c b k s) = system_events s"
  "wake_requests (upsert_heartbeat c b k s) = wake_requests s"
  by (simp_all add: upsert_heartbeat_def core_def fun_eq_iff)

lemma heart_inv_upsert: "heart_inv mid s \<Longrightarrow> heart_inv mid (upsert_heartbeat c b k s)"
  by (simp add: heart_inv_def flying_def)

lemma core_marks [simp]: "core (mark_events v es s) = core s"
  by (rule core_cong) simp

lemma core_Some: "core s a = Some (r, g) \<longleftrightarrow>
  (\<exists>st. map_of (heart_states s) a = Some st \<and> hr_running st = r \<and> hc_agent (hr_config st) = g)"
  by (auto simp: core_def)

lemma core_None: "core s a = None \<longleftrightarrow> map_of (heart_states s) a = None"
  by (simp add: core_def)

lemma flying_cong: "flights s' = flights s \<Longrightarrow> flying s' a = flying s a"
  by (simp add: flying_def)

text \<open>Ending a heartbeat clears the flag of the agent in the middle.\<close>

lemma finish_runtime_inv:
  assumes "heart_inv (Some a) s"
  shows "heart_inv None (finish_heartbeat_runtime now a st ack e s)"
proof -
  obtain h where h: "map_of (heart_states s) a = Some h" "hc_agent (hr_config h) = a"
    using heart_inv_mid[OF assms] by (auto simp: core_Some)
  have t: "flying s a = []" "trimmed a" "a \<noteq> []" using heart_inv_mid[OF assms] by auto
  define h' where "h' = h\<lparr>hr_running := False, hr_next := heartbeat_next (hr_config h) now,
      hr_last := (if st \<noteq> None then st else hr_last h), hr_ack := (if ack \<noteq> None then ack else hr_ack h),
      hr_error := clone_string e\<rparr>"
  let ?s = "s\<lparr>heart_states := AList.update a h' (heart_states s)\<rparr>"
  have "heart_inv None ?s"
  proof (rule heart_inv_step[OF assms])
    show "rows_ok ?s" using heart_inv_rows[OF assms] by (simp add: rows_ok_def)
    show "agent_ok (None = Some a) a (core ?s a) (flying ?s a)"
      using t h(2) flying_cong[of ?s s a] by (simp add: core_update h'_def)
  qed (use flying_cong[of ?s s] in \<open>simp add: core_update\<close>)
  then show ?thesis
    using h t by (simp add: finish_heartbeat_runtime_def h'_def heart_inv_upsert Let_def)
qed

lemma launch_inv:
  assumes "heart_inv (Some a) s"
  shows "heart_inv None (launch_heartbeat env a events text s)"
proof (cases "he_dispatch_error env")
  case None
  let ?s1 = "change_heartbeat a (\<lambda>st. st\<lparr>hr_last := Some (he_started env), hr_error := None\<rparr>) s"
  let ?s2 = "persist_heartbeat_times a (Some (he_started env)) None ?s1"
  have c: "core ?s1 = core s"
    by (rule ext, subst core_change) (simp add: core_def option.map_comp o_def)
  have "heart_inv (Some a) ?s1" using assms by (subst heart_inv_cong[OF c]) simp_all
  then have "heart_inv (Some a) ?s2"
    by (simp add: persist_heartbeat_times_def heart_inv_upsert split: option.split)
  note i2 = this
  let ?fl = "\<lparr>fl_agent = a, fl_round = he_round env, fl_session = build_main_key a,
              fl_events = events, fl_started = he_started env, fl_text = text\<rparr>"
  let ?s3 = "?s2\<lparr>flights := flights ?s2 @ [?fl]\<rparr>"
  have "heart_inv None ?s3"
  proof (rule heart_inv_step[OF i2])
    show "rows_ok ?s3" using heart_inv_rows[OF i2] by (simp add: rows_ok_def)
    show "agent_ok (None = Some a) a (core ?s3 a) (flying ?s3 a)"
      using heart_inv_mid[OF i2] by (simp add: flying_def)
  qed (simp add: flying_def)
  then show ?thesis using None by (simp add: launch_heartbeat_def Let_def)
next
  case (Some e)
  have "heart_inv (Some a) (mark_events ''failed'' events s)"
    using assms by (subst heart_inv_cong[of _ s]) (simp_all)
  then show ?thesis using Some by (simp add: launch_heartbeat_def finish_runtime_inv)
qed

lemma run_heartbeat_inv:
  assumes "heart_inv (Some a) s"
  shows "heart_inv None (run_heartbeat env a s)"
proof -
  obtain im df s1 where t: "take_wake_requests a (build_main_key a) s = ((im, df), s1)" by (metis prod.exhaust)
  have i1: "heart_inv (Some a) s1"
    using take_wakes_frame[OF t] assms heart_inv_cong[of s1 s] core_cong[of s1 s] by metis
  obtain r s2 where c: "claim_events env a s1 = (r, s2)" by fastforce
  have i2: "heart_inv (Some a) s2"
    using claim_frame[OF c] i1 heart_inv_cong[of s2 s1] core_cong[of s2 s1] by metis
  have m: "heart_inv mid (mark_events v es s3) = heart_inv mid s3" for mid v es s3
    by (rule heart_inv_cong) (simp_all)
  show ?thesis
  proof (cases r)
    case (Inl e)
    then show ?thesis using i2 by (simp add: run_heartbeat_def t c finish_runtime_inv)
  next
    case (Inr events)
    show ?thesis
    proof (cases "he_file env")
      case (Inl e)
      then show ?thesis using Inr i2 by (simp add: run_heartbeat_def t c m finish_runtime_inv)
    next
      case (Inr doc)
      then show ?thesis using \<open>r = Inr events\<close> i2
        by (simp add: run_heartbeat_def t c m finish_runtime_inv launch_inv Let_def)
    qed
  qed
qed

lemma new_state_agent:
  "rows_ok s \<Longrightarrow>
   hc_agent (hr_config (new_heartbeat_state now a (get_heartbeat_row s a))) = trim_space a \<and>
   \<not> hr_running (new_heartbeat_state now a (get_heartbeat_row s a))"
proof (cases "get_heartbeat_row s a")
  case None
  then show ?thesis by (simp add: new_heartbeat_state_def sanitize_heartbeat_def default_heartbeat_def Let_def)
next
  case (Some row)
  obtain c b k where row: "row = (c, b, k)" by (cases row)
  assume "rows_ok s"
  then have "hc_agent c = trim_space a" using Some row by (simp add: rows_ok_def get_heartbeat_row_def)
  then show ?thesis using Some row
    by (simp add: new_heartbeat_state_def sanitize_heartbeat_def normalize_heartbeat_def Let_def)
qed

lemma ensure_inv:
  assumes "heart_inv None s" "trimmed a" "a \<noteq> []" "ensure_heartbeat env a s = (r, s')"
  shows "heart_inv None s' \<and> flights s' = flights s \<and> wake_requests s' = wake_requests s \<and>
    system_events s' = system_events s \<and>
    (case r of Inl _ \<Rightarrow> True | Inr st \<Rightarrow> map_of (heart_states s') a = Some st \<and> hc_agent (hr_config st) = a)"
proof (cases "map_of (heart_states s) a")
  case (Some st)
  then have "core s a = Some (hr_running st, hc_agent (hr_config st))" by (simp add: core_def)
  with Some assms show ?thesis using heart_inv_agent[OF assms(1)] by (auto simp: ensure_heartbeat_def)
next
  case None
  let ?st = "new_heartbeat_state (he_now env) a (get_heartbeat_row s a)"
  have n: "hc_agent (hr_config ?st) = a" "\<not> hr_running ?st"
    using new_state_agent[OF heart_inv_rows[OF assms(1)], of "he_now env" a] assms(2) by auto
  have z: "flying s a = []" using heart_inv_at[OF assms(1), of a] None by (simp add: core_def)
  let ?s = "s\<lparr>heart_states := AList.update a ?st (heart_states s)\<rparr>"
  have "heart_inv None ?s"
  proof (rule heart_inv_step[OF assms(1)])
    show "rows_ok ?s" using heart_inv_rows[OF assms(1)] by (simp add: rows_ok_def)
    show "agent_ok (None = Some a) a (core ?s a) (flying ?s a)"
      using assms(2,3) n z flying_cong[of ?s s a] by (simp add: core_update)
  qed (use flying_cong[of ?s s] in \<open>simp add: core_update\<close>)
  then show ?thesis using None assms n by (auto simp: ensure_heartbeat_def Let_def split: option.splits)
qed

lemma dispatch_inv:
  assumes "heart_inv None s" "trimmed a" "a \<noteq> []"
  shows "heart_inv None (dispatch_heartbeat env a s)"
proof -
  obtain r s1 where e: "ensure_heartbeat env a s = (r, s1)" by fastforce
  note f = ensure_inv[OF assms e]
  show ?thesis
  proof (cases r)
    case (Inl err)
    have "map_of (heart_states s) a = None \<and> s1 = s"
      using e Inl assms(2) by (auto simp: ensure_heartbeat_def Let_def split: option.splits)
    then show ?thesis using f Inl e assms(2) by (simp add: dispatch_heartbeat_def finish_heartbeat_runtime_def)
  next
    case (Inr st)
    then have st: "map_of (heart_states s1) a = Some st" "hc_agent (hr_config st) = a" "heart_inv None s1"
      using f by auto
    show ?thesis
    proof (cases "hr_running st")
      case True
      then show ?thesis using Inr e st by (simp add: dispatch_heartbeat_def)
    next
      case False
      let ?s2 = "change_heartbeat a (\<lambda>st. st\<lparr>hr_running := True, hr_pending := False\<rparr>) s1"
      have "heart_inv (Some a) ?s2"
      proof (rule heart_inv_step[OF st(3)])
        show "rows_ok ?s2" using heart_inv_rows[OF st(3)] by (simp add: rows_ok_def)
        have "flying s1 a = []" using heart_inv_at[OF st(3), of a] st(1) False by (simp add: core_def)
        then show "agent_ok (Some a = Some a) a (core ?s2 a) (flying ?s2 a)"
          using st(1,2) assms(2,3) flying_cong[of ?s2 s1 a] by (simp add: core_change)
      qed (use flying_cong[of ?s2 s1] in \<open>simp add: core_change\<close>)
      then show ?thesis using Inr e st False run_heartbeat_inv by (simp add: dispatch_heartbeat_def)
    qed
  qed
qed

lemma length_remove1_flying:
  "fl \<in> set fs \<Longrightarrow> length (filter (\<lambda>f. fl_agent f = fl_agent fl) (remove1 fl fs)) =
     length (filter (\<lambda>f. fl_agent f = fl_agent fl) fs) - 1"
  by (simp add: filter_remove1 length_remove1)

lemma remove1_other:
  "b \<noteq> fl_agent fl \<Longrightarrow> filter (\<lambda>f. fl_agent f = b) (remove1 fl fs) = filter (\<lambda>f. fl_agent f = b) fs"
  by (induction fs) auto

lemma landed_inv:
  assumes "heart_inv None s" "fl \<in> set (flights s)"
  shows "heart_inv (Some (fl_agent fl)) (s\<lparr>flights := remove1 fl (flights s)\<rparr>)"
proof (rule heart_inv_step[OF assms(1)])
  let ?a = "fl_agent fl" and ?s = "s\<lparr>flights := remove1 fl (flights s)\<rparr>"
  show "rows_ok ?s" using heart_inv_rows[OF assms(1)] by (simp add: rows_ok_def)
  have "flying s ?a \<noteq> []" using assms(2) by (auto simp: flying_def filter_empty_conv)
  then obtain r g where c: "core s ?a = Some (r, g)" "r" "length (flying s ?a) = 1" "g = ?a" "trimmed ?a" "?a \<noteq> []"
    using heart_inv_at[OF assms(1), of ?a] by (cases "core s ?a") (auto split: if_splits)
  have "length (flying ?s ?a) = 0"
    using length_remove1_flying[OF assms(2)] c(3) by (simp add: flying_def)
  then show "agent_ok (Some ?a = Some ?a) ?a (core ?s ?a) (flying ?s ?a)" using c by simp
qed (simp add: flying_def remove1_other)

lemma finish_flight_inv:
  assumes "heart_inv None s" "fl \<in> set (flights s)"
  shows "heart_inv None (finish_flight env fl obs s)"
proof -
  let ?s = "s\<lparr>flights := remove1 fl (flights s)\<rparr>"
  note l = landed_inv[OF assms]
  have m: "heart_inv mid (mark_events v es s3) = heart_inv mid s3" for mid v es s3
    by (rule heart_inv_cong) simp_all
  have t: "heart_inv mid (s3\<lparr>sent_texts := x\<rparr>) = heart_inv mid s3" for mid x s3
    by (rule heart_inv_cong) simp_all
  show ?thesis
    using l by (auto simp: finish_flight_def Let_def m t finish_runtime_inv split: prod.split option.split)
qed

lemma wake_inv:
  assumes "heart_inv None s" "trimmed a" "a \<noteq> []"
  shows "heart_inv None (snd (wake_heartbeat env a mode text s))"
proof -
  obtain r s1 where e: "ensure_heartbeat env a s = (r, s1)" by fastforce
  note f = ensure_inv[OF assms e]
  show ?thesis
  proof (cases r)
    case (Inl err)
    then show ?thesis using e f assms(1) by (auto simp: wake_heartbeat_def Let_def split: option.split)
  next
    case (Inr st)
    then have st: "heart_inv None s1" "hc_agent (hr_config st) = a" using f by auto
    have i: "heart_inv None (insert_event i t x y p n s1) = heart_inv None s1" for i t x y p n
      by (rule heart_inv_cong) (simp_all add: core_def fun_eq_iff)
    have w: "heart_inv None (change_heartbeat a (hr_pending_update g) (record_wake a k m text s3)) = heart_inv None s3" for g k m s3
      by (rule heart_inv_cong) simp_all
    show ?thesis
      using assms(1) st(1) e Inr
      by (auto simp: wake_heartbeat_def Let_def st(2) i w dispatch_inv[OF _ assms(2,3)] split: option.split)
  qed
qed

text \<open>An update keeps the invariant unless it switches off an agent whose round is in flight.\<close>

lemma update_inv:
  assumes "heart_inv None s" "trimmed a" "a \<noteq> []" "enabled \<or> flying s a = []"
  shows "heart_inv None (snd (update_heartbeat env a enabled every target ack s))"
proof -
  let ?c = "normalize_heartbeat \<lparr>hc_agent = trim_space a, hc_enabled = enabled, hc_every = every,
                  hc_target = trim_space target, hc_ack = ack\<rparr>"
  have a: "hc_agent ?c = a" using assms(2) by (simp add: normalize_heartbeat_def)
  obtain r s1 where e: "ensure_heartbeat env a s = (r, s1)" by fastforce
  note f = ensure_inv[OF assms(1-3) e]
  show ?thesis
  proof (cases r)
    case (Inl err)
    then show ?thesis using e f assms(1) a by (auto simp: update_heartbeat_def Let_def split: option.split)
  next
    case (Inr st)
    then have st: "heart_inv None s1" "map_of (heart_states s1) a = Some st" "hc_agent (hr_config st) = a"
      using f by auto
    let ?g = "\<lambda>st. st\<lparr>hr_config := ?c, hr_next := heartbeat_next ?c (he_now env), hr_error := None,
                     hr_pending := (hr_pending st \<and> enabled), hr_running := (hr_running st \<and> enabled)\<rparr>"
    have "heart_inv None (change_heartbeat a ?g s1)"
    proof (rule heart_inv_step[OF st(1)])
      show "rows_ok (change_heartbeat a ?g s1)" using heart_inv_rows[OF st(1)] by (simp add: rows_ok_def)
      have "flying s1 a = flying s a" using f by (simp add: flying_def)
      then have "enabled \<or> \<not> hr_running st"
        using heart_inv_at[OF st(1), of a] st(2) assms(4) by (auto simp: core_def)
      then have "(hr_running st \<and> enabled) = hr_running st" by auto
      then show "agent_ok (None = Some a) a (core (change_heartbeat a ?g s1) a) (flying (change_heartbeat a ?g s1) a)"
        using heart_inv_at[OF st(1), of a] st(2,3) a flying_cong[of "change_heartbeat a ?g s1" s1 a]
        by (simp add: core_change) (auto simp: core_def split: if_splits)
    qed (use flying_cong[of "change_heartbeat a ?g s1" s1] in \<open>simp add: core_change\<close>)
    then show ?thesis
      using assms(1) st(1) e Inr a by (auto simp: update_heartbeat_def Let_def heart_inv_upsert split: option.split)
  qed
qed

section \<open>All interleavings\<close>

text \<open>
  A wake request, a dispatch by the scheduler, the end of a round and an update of the
  configuration, in any order; the update may switch an agent off only between its rounds.
\<close>

inductive heart_step :: "heart_store \<Rightarrow> heart_store \<Rightarrow> bool" where
  wake: "trimmed a \<Longrightarrow> a \<noteq> [] \<Longrightarrow> heart_step s (snd (wake_heartbeat env a mode text s))"
| due: "a \<in> set (due_heartbeats now s) \<Longrightarrow> heart_step s (dispatch_heartbeat env a s)"
| land: "fl \<in> set (flights s) \<Longrightarrow> heart_step s (finish_flight env fl obs s)"
| update: "trimmed a \<Longrightarrow> a \<noteq> [] \<Longrightarrow> enabled \<or> flying s a = [] \<Longrightarrow>
    heart_step s (snd (update_heartbeat env a enabled every target ack s))"

definition empty_store :: heart_store where
  "empty_store = \<lparr>heart_states = [], wake_requests = [], heart_rows = [], system_events = [], flights = [],
     sent_texts = []\<rparr>"

lemma heart_inv_empty: "heart_inv None empty_store"
  by (simp add: heart_inv_def empty_store_def core_def flying_def rows_ok_def)

lemma heart_step_inv: "heart_step s s' \<Longrightarrow> heart_inv None s \<Longrightarrow> heart_inv None s'"
proof (induction rule: heart_step.induct)
  case (due a now s env)
  then obtain st where "(a, st) \<in> set (heart_states s)" by (auto simp: due_heartbeats_def)
  then have "map_of (heart_states s) a \<noteq> None" by (metis map_of_eq_None_iff fst_conv imageI)
  then have "core s a \<noteq> None" by (simp add: core_None)
  then obtain r g where "core s a = Some (r, g)" by auto
  from heart_inv_agent[OF due(2) this] show ?case using dispatch_inv[OF due(2)] by auto
qed (simp_all add: wake_inv finish_flight_inv update_inv)

lemma heart_reachable: "heart_step\<^sup>*\<^sup>* empty_store s \<Longrightarrow> heart_inv None s"
  by (induction rule: rtranclp_induct) (auto intro: heart_inv_empty heart_step_inv)


definition heart_example :: heart_env where
  "heart_example =
     \<lparr>he_now = 0, he_agent_error = None, he_row_error = None, he_write_error = None, he_event_id = ''evt_1'',
      he_list_error = None, he_mark_error = (\<lambda>_. None), he_file = Inr None, he_summary = [], he_round = ''hb_1'',
      he_dispatch_error = None, he_started = 1, he_router = False, he_deliver_error = None, he_finished = 2\<rparr>"

definition woken_store :: heart_store where
  "woken_store = snd (wake_heartbeat heart_example ''a1'' ''now'' None empty_store)"

lemma woken_flights: "map fl_agent (flights woken_store) = [''a1'']"
  by code_simp


text \<open>
  Switching an agent off while its round is in flight clears the flag that keeps rounds
  apart, so the next wake request starts a second one.
\<close>

definition disabled_store :: heart_store where
  "disabled_store = snd (update_heartbeat heart_example ''a1'' False 1800 ''none'' 300 woken_store)"

lemma disabling_admits_second_round:
  "map fl_agent (flights (snd (wake_heartbeat (heart_example\<lparr>he_round := ''hb_2''\<rparr>) ''a1'' ''now'' None disabled_store)))
   = [''a1'', ''a1'']"
  by code_simp

section \<open>Events are reported at most once\<close>

text \<open>The table only grows, and a status never goes back to new.\<close>

definition events_grow :: "heart_store \<Rightarrow> heart_store \<Rightarrow> bool" where
  "events_grow s s' \<longleftrightarrow>
     length (system_events s) \<le> length (system_events s') \<and>
     (\<forall>i < length (system_events s). se_id (system_events s' ! i) = se_id (system_events s ! i) \<and>
        (se_status (system_events s ! i) \<noteq> ''new'' \<longrightarrow> se_status (system_events s' ! i) \<noteq> ''new''))"

lemma events_grow_refl [simp]: "system_events s' = system_events s \<Longrightarrow> events_grow s s'"
  by (simp add: events_grow_def)

lemma events_grow_trans: "events_grow s t \<Longrightarrow> events_grow t u \<Longrightarrow> events_grow s u"
  by (auto simp: events_grow_def)

lemma mark_event_grow: "v \<noteq> ''new'' \<Longrightarrow> events_grow s (mark_event i v s)"
  by (simp add: events_grow_def mark_event_def)

lemma mark_events_grow: "v \<noteq> ''new'' \<Longrightarrow> events_grow s (mark_events v es s)"
  unfolding mark_events_def
  by (induction es arbitrary: s) (auto intro: events_grow_trans[OF mark_event_grow])

lemma insert_event_grow: "events_grow s (insert_event i t x y p n s)"
  by (auto simp: events_grow_def insert_event_def nth_append)

lemma mark_processing_grow: "mark_processing env es s = (r, s') \<Longrightarrow> events_grow s s'"
  by (induction env es s rule: mark_processing.induct)
    (auto split: option.splits intro: events_grow_trans[OF mark_event_grow[of "''processing''"]])

lemma claim_grow: "claim_events env a s = (r, s') \<Longrightarrow> events_grow s s'"
  by (auto simp: claim_events_def Let_def split: option.splits prod.splits dest: mark_processing_grow)

lemma finish_runtime_frame [simp]:
  "system_events (finish_heartbeat_runtime now a st ack e s) = system_events s"
  "wake_requests (finish_heartbeat_runtime now a st ack e s) = wake_requests s"
  "flights (finish_heartbeat_runtime now a st ack e s) = flights s"
  by (simp_all add: finish_heartbeat_runtime_def Let_def split: option.split)

lemma persist_frame [simp]:
  "system_events (persist_heartbeat_times a b k s) = system_events s"
  "wake_requests (persist_heartbeat_times a b k s) = wake_requests s"
  "flights (persist_heartbeat_times a b k s) = flights s"
  by (simp_all add: persist_heartbeat_times_def split: option.split)

lemma launch_grow: "events_grow s (launch_heartbeat env a es text s)"
proof (cases "he_dispatch_error env")
  case (Some e)
  have "events_grow s (mark_events ''failed'' es s)" by (rule mark_events_grow) simp
  then show ?thesis by (rule events_grow_trans) (simp add: launch_heartbeat_def Some)
qed (simp add: launch_heartbeat_def Let_def)

lemma run_heartbeat_grow: "events_grow s (run_heartbeat env a s)"
proof -
  obtain im df s1 where t: "take_wake_requests a (build_main_key a) s = ((im, df), s1)" by (metis prod.exhaust)
  obtain r s2 where c: "claim_events env a s1 = (r, s2)" by fastforce
  have "events_grow s s1" using take_wakes_frame[OF t] by simp
  then have "events_grow s s2" using claim_grow[OF c] by (rule events_grow_trans)
  moreover have "events_grow s2 (run_heartbeat env a s)"
  proof (cases r)
    case (Inr events)
    have f: "events_grow s3 (mark_events ''failed'' events s3)" "events_grow s3 (mark_events ''processed'' events s3)" for s3
      by (rule mark_events_grow, simp)+
    show ?thesis
    proof (cases "he_file env")
      case (Inl e)
      have "events_grow s2 (finish_heartbeat_runtime (he_started env) a None None (Some e) s2)" by simp
      from events_grow_trans[OF this f(1)] show ?thesis using Inl Inr by (simp add: run_heartbeat_def t c)
    next
      case (Inr doc)
      have "events_grow s2 (finish_heartbeat_runtime (he_started env) a None None None (mark_events ''processed'' events s2))"
        using f(2) by (rule events_grow_trans) simp
      then show ?thesis using Inr \<open>r = Inr events\<close> launch_grow by (simp add: run_heartbeat_def t c Let_def)
    qed
  qed (simp add: run_heartbeat_def t c)
  ultimately show ?thesis by (rule events_grow_trans)
qed

lemma ensure_events: "ensure_heartbeat env a s = (r, s') \<Longrightarrow>
  system_events s' = system_events s \<and> flights s' = flights s \<and> wake_requests s' = wake_requests s"
  by (auto simp: ensure_heartbeat_def Let_def split: option.splits)

lemma dispatch_grow: "events_grow s (dispatch_heartbeat env a s)"
proof -
  obtain r s1 where e: "ensure_heartbeat env a s = (r, s1)" by fastforce
  have g: "events_grow s s1" using ensure_events[OF e] by simp
  have c: "events_grow s (run_heartbeat env a (change_heartbeat a f s1))" for f
  proof -
    have "events_grow s (change_heartbeat a f s1)" using g by (rule events_grow_trans) simp
    then show ?thesis using run_heartbeat_grow by (rule events_grow_trans)
  qed
  show ?thesis
    using g c events_grow_trans[OF g run_heartbeat_grow] events_grow_trans[OF g events_grow_refl]
    by (simp add: dispatch_heartbeat_def e split: sum.split option.split)
qed

lemma finish_flight_grow: "events_grow s (finish_flight env fl obs s)"
proof -
  let ?s = "s\<lparr>flights := remove1 fl (flights s)\<rparr>"
  have m: "events_grow s (mark_events v es ?s)" if "v \<noteq> ''new''" for v es
    using events_grow_trans[OF _ mark_events_grow[OF that], of s ?s] by simp
  have g: "events_grow s t" if "events_grow s u" "system_events t = system_events u" for t u
    using that by (simp add: events_grow_def)
  show ?thesis
  proof (cases "eo_status obs = ''succeeded''")
    case True
    then show ?thesis unfolding finish_flight_def Let_def
      by (auto split: prod.split option.split intro!: g[OF m[of "''processed''" "fl_events fl"]])
  next
    case False
    then show ?thesis unfolding finish_flight_def Let_def by (auto intro!: g[OF m[of "''failed''" "fl_events fl"]])
  qed
qed

lemma wake_grow: "events_grow s (snd (wake_heartbeat env a mode text s))"
proof -
  obtain r s1 where e: "ensure_heartbeat env a s = (r, s1)" by fastforce
  have g: "events_grow s s1" using ensure_events[OF e] by simp
  have i: "events_grow s (change_heartbeat b f (record_wake b k m text (insert_event i t x y p n s1)))" for b f k m i t x y p n
    using events_grow_trans[OF g insert_event_grow, of i t x y p n] by (simp add: events_grow_def)
  have j: "events_grow s (change_heartbeat b f (record_wake b k m text s1))" for b f k m
    using g by (simp add: events_grow_def)
  show ?thesis
    using g i j by (auto simp: wake_heartbeat_def e Let_def split: sum.split option.split
        intro: events_grow_trans[OF i dispatch_grow] events_grow_trans[OF j dispatch_grow])
qed

lemma update_grow: "events_grow s (snd (update_heartbeat env a enabled every target ack s))"
proof -
  have "system_events (snd (update_heartbeat env a enabled every target ack s)) = system_events s"
    by (auto simp: update_heartbeat_def Let_def dest: ensure_events split: option.split sum.split prod.split)
  then show ?thesis by simp
qed

lemma heart_step_grow: "heart_step s s' \<Longrightarrow> events_grow s s'"
  by (induction rule: heart_step.induct) (simp_all add: wake_grow update_grow dispatch_grow finish_flight_grow)

lemma set_insert_sorted: "set (insert_sorted e xs) = insert e (set xs)"
  by (induction xs) auto

lemma new_events_set:
  "set (new_events s a) = {e \<in> set (system_events s). se_status e = ''new'' \<and>
     (se_source_id e = trim_space a \<or> field (se_payload e) ''agent_id'' = AStr (trim_space a))}"
proof -
  have "set (foldr insert_sorted xs []) = set xs" for xs
    by (induction xs) (auto simp: set_insert_sorted)
  then show ?thesis by (auto simp: new_events_def)
qed

text \<open>A system event that is no longer new stays so whatever happens afterwards, and no
  later claim lists it: a heartbeat never reports an event twice. (An event whose claim was
  cut off after it was marked is therefore never reported.)\<close>

lemma claimed_event_never_new:
  assumes "heart_step\<^sup>*\<^sup>* s s'" "i < length (system_events s)" "se_status (system_events s ! i) \<noteq> ''new''"
  shows "i < length (system_events s') \<and> se_id (system_events s' ! i) = se_id (system_events s ! i) \<and>
         (\<forall>a. system_events s' ! i \<notin> set (new_events s' a))"
proof -
  have "events_grow s s'" using assms(1)
    by (induction rule: rtranclp_induct) (auto intro: events_grow_trans heart_step_grow)
  then show ?thesis using assms(2,3) by (auto simp: events_grow_def new_events_set)
qed

definition told_store :: heart_store where
  "told_store = snd (wake_heartbeat heart_example ''a1'' ''now'' (Some ''look'') empty_store)"

lemma claimed_event_never_new_witness:
  "system_events (finish_flight heart_example (hd (flights told_store)) empty_observation told_store) ! 0
     \<notin> set (new_events (finish_flight heart_example (hd (flights told_store)) empty_observation told_store) ''a1'')"
proof -
  let ?s = "finish_flight heart_example (hd (flights told_store)) empty_observation told_store"
  have "map se_status (system_events told_store) = [''processing'']" "flights told_store \<noteq> []" by code_simp+
  then have "heart_step told_store ?s" "0 < length (system_events told_store)"
    "se_status (system_events told_store ! 0) \<noteq> ''new''"
    by (auto intro: heart_step.land)
  then show ?thesis using claimed_event_never_new[of told_store ?s 0] by auto
qed

section \<open>Errors of a dispatch\<close>

lemma main_key_trimmed [simp]: "trim_space (build_main_key a) = build_main_key a"
proof -
  have "trimmed ''main''" by code_simp
  from trimmed_agent_key[OF this, of "trim_space a @ '':'' @ normalize_channel_segment ''automation'' @ '':'' @ normalize_chat_type ''dm''"]
  show ?thesis by (simp add: build_main_key_def build_agent_key_def)
qed

lemma launch_wakes [simp]: "wake_requests (launch_heartbeat env a es text s) = wake_requests s"
  by (simp add: launch_heartbeat_def Let_def split: option.split)

lemma run_heartbeat_wakes:
  "get_or [] (wake_requests (run_heartbeat env a s)) (build_main_key a) = []"
proof -
  obtain im df s1 where t: "take_wake_requests a (build_main_key a) s = ((im, df), s1)" by (metis prod.exhaust)
  then have "get_or [] (wake_requests s1) (build_main_key a) = []" by (auto simp: take_wake_requests_def Let_def)
  moreover obtain r s2 where c: "claim_events env a s1 = (r, s2)" by fastforce
  ultimately show ?thesis using claim_frame[OF c]
    by (simp add: run_heartbeat_def t c Let_def split: sum.split)
qed

lemma run_heartbeat_no_flight:
  assumes "he_list_error env \<noteq> None \<or> isl (he_file env) \<or> he_dispatch_error env \<noteq> None"
  shows "flights (run_heartbeat env a s) = flights s"
proof -
  obtain im df s1 where t: "take_wake_requests a (build_main_key a) s = ((im, df), s1)" by (metis prod.exhaust)
  obtain r s2 where c: "claim_events env a s1 = (r, s2)" by fastforce
  have "flights s2 = flights s" using take_wakes_frame[OF t] claim_frame[OF c] by simp
  moreover have "he_list_error env \<noteq> None \<Longrightarrow> isl r" using c by (auto simp: claim_events_def)
  ultimately show ?thesis using assms
    by (auto simp: run_heartbeat_def t c Let_def launch_heartbeat_def split: sum.split)
qed

text \<open>A heartbeat that fails before its round starts (the events cannot be listed,
  HEARTBEAT.md cannot be read, or the session refuses the round) starts no round, and the wake
  requests it was started for are gone all the same.\<close>

lemma failed_heartbeat_drops_wakes:
  assumes "map_of (heart_states s) a = Some st" "\<not> hr_running st" "trimmed a"
    and "he_list_error env \<noteq> None \<or> isl (he_file env) \<or> he_dispatch_error env \<noteq> None"
  shows "flights (dispatch_heartbeat env a s) = flights s \<and>
         get_or [] (wake_requests (dispatch_heartbeat env a s)) (build_main_key a) = [] \<and>
         \<not> has_immediate_wake (dispatch_heartbeat env a s) a"
proof -
  have "dispatch_heartbeat env a s =
        run_heartbeat env a (change_heartbeat a (\<lambda>st. st\<lparr>hr_running := True, hr_pending := False\<rparr>) s)"
    using assms(1-3) by (simp add: dispatch_heartbeat_def ensure_heartbeat_def)
  then show ?thesis using run_heartbeat_wakes run_heartbeat_no_flight[OF assms(4)] by (simp add: has_immediate_wake_def)
qed

lemma failed_heartbeat_drops_wakes_witness:
  "let s = snd (wake_heartbeat heart_example ''a1'' ''next-heartbeat'' None empty_store);
       s' = dispatch_heartbeat (heart_example\<lparr>he_file := Inl ''disk error''\<rparr>) ''a1'' s
   in wake_requests s \<noteq> [] \<and> flights s' = [] \<and> get_or [] (wake_requests s') (build_main_key ''a1'') = []"
proof -
  let ?s = "snd (wake_heartbeat heart_example ''a1'' ''next-heartbeat'' None empty_store)"
  let ?env = "heart_example\<lparr>he_file := Inl ''disk error''\<rparr>"
  have "wake_requests ?s \<noteq> []" "flights ?s = []" "map_option hr_running (map_of (heart_states ?s) ''a1'') = Some False"
    "trimmed ''a1''" by code_simp+
  moreover obtain st where "map_of (heart_states ?s) ''a1'' = Some st" "\<not> hr_running st"
    using calculation(3) by auto
  ultimately show ?thesis using failed_heartbeat_drops_wakes[of ?s "''a1''" st ?env] by (simp add: Let_def)
qed

end
