(* ===== verification/AutomationStore.thy ===== *)
theory AutomationStore
  imports AutomationModel GoDict
begin

text \<open>
  The tables of scheduled tasks: \<open>storage/automation/repository.go\<close>,
  \<open>repository_job.go\<close>, \<open>repository_runtime.go\<close>, \<open>repository_run.go\<close> and
  \<open>scan_automation.go\<close>, with the schedule of delivery attempts of
  \<open>service/automation/runtime_delivery.go\<close>.

  A table is a list of rows in the order of creation; a statement is a function on it. A row
  has the record type the repository reads: columns that are NULL or blank read as the empty
  string or None. Each statement is atomic, as in the database; its failure is an argument of
  the service operations that look at it.
\<close>

section \<open>Columns\<close>

text \<open>\<open>nullableString\<close> and the reader of a nullable column.\<close>

definition nullable_string :: "string option \<Rightarrow> string option" where
  "nullable_string v =
     (case v of None \<Rightarrow> None | Some s \<Rightarrow> if trim_space s = [] then None else Some (trim_space s))"

text \<open>\<open>COALESCE(%s, column)\<close> of a trimmed string.\<close>

definition coalesce :: "string \<Rightarrow> string \<Rightarrow> string" where
  "coalesce v old = (if trim_space v = [] then old else trim_space v)"

section \<open>Tasks\<close>

text \<open>What a stored definition reads back as: written by the upsert, read by the scan.\<close>

definition stored_schedule :: "schedule \<Rightarrow> schedule" where
  "stored_schedule s = s\<lparr>sc_run_at := nullable_string (sc_run_at s), sc_cron := nullable_string (sc_cron s)\<rparr>"

definition stored_target :: "session_target \<Rightarrow> session_target" where
  "stored_target t = t\<lparr>st_bound := trim_space (st_bound t), st_named := trim_space (st_named t)\<rparr>"

definition stored_delivery :: "delivery_target \<Rightarrow> delivery_target" where
  "stored_delivery d =
     d\<lparr>dt_channel := trim_space (dt_channel d), dt_to := trim_space (dt_to d),
       dt_account := trim_space (dt_account d), dt_thread := trim_space (dt_thread d)\<rparr>"

definition stored_job :: "cron_job \<Rightarrow> cron_job" where
  "stored_job j =
     j\<lparr>cj_schedule := stored_schedule (cj_schedule j),
       cj_execution := normalize_execution (cj_execution j),
       cj_target := stored_target (cj_target j),
       cj_delivery := stored_delivery (cj_delivery j),
       cj_source := normalize_source (cj_source j),
       cj_overlap := normalize_overlap (cj_overlap j),
       cj_running := (cj_run_id j \<noteq> [])\<rparr>"

text \<open>The runtime columns of a row, which an upsert of the definition leaves alone.\<close>

definition keep_runtime :: "cron_job \<Rightarrow> cron_job \<Rightarrow> cron_job" where
  "keep_runtime row j =
     j\<lparr>cj_next := cj_next row, cj_run_id := cj_run_id row, cj_started := cj_started row,
       cj_last_run := cj_last_run row, cj_last_status := cj_last_status row, cj_streak := cj_streak row,
       cj_error := cj_error row, cj_delivered := cj_delivered row\<rparr>"

definition no_runtime :: "cron_job \<Rightarrow> cron_job" where
  "no_runtime j =
     j\<lparr>cj_next := None, cj_run_id := [], cj_started := None, cj_last_run := None, cj_last_status := [],
       cj_streak := 0, cj_error := None, cj_delivered := []\<rparr>"

definition get_job :: "string \<Rightarrow> string \<Rightarrow> cron_job list \<Rightarrow> cron_job option" where
  "get_job owner job_id tab =
     List.find (\<lambda>j. cj_id j = trim_space job_id \<and> (trim_space owner = [] \<or> cj_owner j = trim_space owner)) tab"

definition upsert_job :: "cron_job \<Rightarrow> cron_job list \<Rightarrow> cron_job list" where
  "upsert_job j tab =
     (if \<exists>row \<in> set tab. cj_id row = cj_id j
      then map (\<lambda>row. if cj_id row = cj_id j then stored_job (keep_runtime row j) else row) tab
      else tab @ [stored_job (no_runtime j)])"

definition delete_job :: "string \<Rightarrow> string \<Rightarrow> cron_job list \<Rightarrow> cron_job list" where
  "delete_job owner job_id tab =
     filter (\<lambda>j. \<not> (cj_id j = trim_space job_id \<and> (trim_space owner = [] \<or> cj_owner j = trim_space owner))) tab"

text \<open>\<open>ClaimCronJobRuntime\<close>: a conditional update; it reports whether a row matched.\<close>

definition claimable :: "string \<Rightarrow> string \<Rightarrow> bool \<Rightarrow> cron_job \<Rightarrow> bool" where
  "claimable job_id overlap allow_disabled j \<longleftrightarrow>
     cj_id j = trim_space job_id \<and> (allow_disabled \<or> cj_enabled j) \<and>
     (trim_space overlap = ''skip'' \<longrightarrow> cj_run_id j = [])"

definition claim_columns :: "string \<Rightarrow> int \<Rightarrow> int option \<Rightarrow> cron_job \<Rightarrow> cron_job" where
  "claim_columns run_id started next_run j =
     j\<lparr>cj_run_id := trim_space run_id, cj_started := Some started, cj_next := next_run,
       cj_running := (trim_space run_id \<noteq> [])\<rparr>"

definition claim_job ::
  "string \<Rightarrow> string \<Rightarrow> int \<Rightarrow> int option \<Rightarrow> string \<Rightarrow> bool \<Rightarrow> cron_job list \<Rightarrow> bool \<times> cron_job list" where
  "claim_job job_id run_id started next_run overlap allow_disabled tab =
     (\<exists>j \<in> set tab. claimable job_id overlap allow_disabled j,
      map (\<lambda>j. if claimable job_id overlap allow_disabled j
               then claim_columns run_id started next_run j else j) tab)"

lemma claim_columns_sel [simp]:
  "cj_id (claim_columns run_id started next_run j) = cj_id j"
  "cj_run_id (claim_columns run_id started next_run j) = trim_space run_id"
  by (simp_all add: claim_columns_def)

record runtime_update =
  ju_job :: string
  ju_next :: "int option"
  ju_run_id :: string
  ju_started :: "int option"
  ju_last_run :: "int option"
  ju_last_status :: string
  ju_streak :: nat
  ju_error :: "string option"
  ju_delivered :: string

definition runtime_columns :: "runtime_update \<Rightarrow> cron_job \<Rightarrow> cron_job" where
  "runtime_columns u j =
     j\<lparr>cj_next := ju_next u, cj_run_id := trim_space (ju_run_id u), cj_started := ju_started u,
       cj_last_run := ju_last_run u, cj_last_status := trim_space (ju_last_status u),
       cj_streak := ju_streak u, cj_error := nullable_string (ju_error u),
       cj_delivered := trim_space (ju_delivered u), cj_running := (trim_space (ju_run_id u) \<noteq> [])\<rparr>"

definition update_runtime :: "runtime_update \<Rightarrow> cron_job list \<Rightarrow> cron_job list" where
  "update_runtime u tab = map (\<lambda>j. if cj_id j = trim_space (ju_job u) then runtime_columns u j else j) tab"

lemma runtime_columns_sel [simp]:
  "cj_id (runtime_columns u j) = cj_id j" "cj_run_id (runtime_columns u j) = trim_space (ju_run_id u)"
  by (simp_all add: runtime_columns_def)

section \<open>Runs\<close>

record cron_run =
  cr_id :: string
  cr_job :: string
  cr_owner :: string
  cr_status :: string
  cr_trigger :: string
  cr_session :: string
  cr_round :: string
  cr_session_id :: "string option"
  cr_count :: nat
  cr_mode :: string
  cr_to :: string
  cr_dstatus :: string
  cr_derror :: "string option"
  cr_delivered :: "int option"
  cr_dattempts :: nat
  cr_dnext :: "int option"
  cr_dead :: "int option"
  cr_scheduled :: "int option"
  cr_started :: "int option"
  cr_finished :: "int option"
  cr_attempts :: nat
  cr_error :: "string option"
  cr_summary :: "string option"
  cr_assistant :: "string option"
  cr_result :: "string option"
  cr_artifact :: "string option"
  cr_updated :: int

record run_pending =
  rp_run :: string
  rp_job :: string
  rp_owner :: string
  rp_scheduled :: "int option"
  rp_trigger :: string
  rp_session :: string
  rp_round :: string
  rp_mode :: string
  rp_to :: string
  rp_dstatus :: string
  rp_status :: string

record run_finish =
  rf_run :: string
  rf_status :: string
  rf_at :: int
  rf_error :: "string option"
  rf_session_id :: "string option"
  rf_count :: nat
  rf_summary :: "string option"
  rf_assistant :: "string option"
  rf_result :: "string option"
  rf_artifact :: "string option"
  rf_to :: string
  rf_dstatus :: string
  rf_derror :: "string option"
  rf_delivered :: "int option"
  rf_attempted :: bool
  rf_next :: "int option"
  rf_dead :: "int option"

definition finish_input :: "string \<Rightarrow> string \<Rightarrow> int \<Rightarrow> string option \<Rightarrow> run_finish" where
  "finish_input run_id status at error =
     \<lparr>rf_run = run_id, rf_status = status, rf_at = at, rf_error = error, rf_session_id = None, rf_count = 0,
      rf_summary = None, rf_assistant = None, rf_result = None, rf_artifact = None, rf_to = [], rf_dstatus = [],
      rf_derror = None, rf_delivered = None, rf_attempted = False, rf_next = None, rf_dead = None\<rparr>"

definition initial_delivery_status :: "run_pending \<Rightarrow> string" where
  "initial_delivery_status p =
     (if trim_space (rp_dstatus p) \<noteq> [] then trim_space (rp_dstatus p)
      else if trim_space (rp_mode p) = [] \<or> trim_space (rp_mode p) = ''none'' then ''not_required''
      else ''pending'')"

definition finished_delivery_status :: "run_finish \<Rightarrow> string" where
  "finished_delivery_status f =
     (let status = trim_space (rf_status f) in
      if trim_space (rf_dstatus f) \<noteq> [] then trim_space (rf_dstatus f)
      else if status \<in> set [''pending'', ''running''] then ''pending''
      else if status \<in> set [''succeeded'', ''queued_to_main_session''] then ''not_required''
      else ''not_attempted'')"

definition insert_run :: "int \<Rightarrow> run_pending \<Rightarrow> cron_run list \<Rightarrow> cron_run list" where
  "insert_run now p runs =
     runs @
     [\<lparr>cr_id = trim_space (rp_run p), cr_job = trim_space (rp_job p), cr_owner = trim_space (rp_owner p),
       cr_status = (if trim_space (rp_status p) = [] then ''pending'' else trim_space (rp_status p)),
       cr_trigger = trim_space (rp_trigger p), cr_session = trim_space (rp_session p),
       cr_round = trim_space (rp_round p), cr_session_id = None, cr_count = 0, cr_mode = trim_space (rp_mode p),
       cr_to = trim_space (rp_to p), cr_dstatus = initial_delivery_status p, cr_derror = None,
       cr_delivered = None, cr_dattempts = 0, cr_dnext = None, cr_dead = None, cr_scheduled = rp_scheduled p,
       cr_started = None, cr_finished = None, cr_attempts = 0, cr_error = None, cr_summary = None,
       cr_assistant = None, cr_result = None, cr_artifact = None, cr_updated = now\<rparr>]"

definition change_runs :: "(cron_run \<Rightarrow> bool) \<Rightarrow> (cron_run \<Rightarrow> cron_run) \<Rightarrow> cron_run list \<Rightarrow> cron_run list" where
  "change_runs P f runs = map (\<lambda>r. if P r then f r else r) runs"

definition running_columns :: "int \<Rightarrow> cron_run \<Rightarrow> cron_run" where
  "running_columns now r =
     r\<lparr>cr_status := ''running'', cr_started := Some now, cr_attempts := Suc (cr_attempts r), cr_updated := now\<rparr>"

definition mark_run_running :: "string \<Rightarrow> int \<Rightarrow> cron_run list \<Rightarrow> cron_run list" where
  "mark_run_running run_id now = change_runs (\<lambda>r. cr_id r = run_id) (running_columns now)"

text \<open>The columns that both statements of a finished run set.\<close>

definition finish_columns :: "run_finish \<Rightarrow> cron_run \<Rightarrow> cron_run" where
  "finish_columns f r =
     r\<lparr>cr_status := trim_space (rf_status f), cr_finished := Some (rf_at f), cr_error := nullable_string (rf_error f),
       cr_session_id := nullable_string (rf_session_id f), cr_count := rf_count f,
       cr_summary := nullable_string (rf_summary f), cr_assistant := nullable_string (rf_assistant f),
       cr_result := nullable_string (rf_result f), cr_artifact := nullable_string (rf_artifact f),
       cr_to := coalesce (rf_to f) (cr_to r), cr_dstatus := finished_delivery_status f,
       cr_derror := nullable_string (rf_derror f), cr_delivered := rf_delivered f,
       cr_dattempts := cr_dattempts r + (if rf_attempted f then 1 else 0), cr_dnext := rf_next f,
       cr_dead := rf_dead f, cr_updated := rf_at f\<rparr>"

definition mark_run_finished :: "run_finish \<Rightarrow> cron_run list \<Rightarrow> cron_run list" where
  "mark_run_finished f = change_runs (\<lambda>r. cr_id r = trim_space (rf_run f)) (finish_columns f)"

definition active_run :: "cron_run \<Rightarrow> bool" where
  "active_run r \<longleftrightarrow> cr_status r = ''pending'' \<or> cr_status r = ''running''"

definition mark_run_finished_if_active :: "run_finish \<Rightarrow> cron_run list \<Rightarrow> bool \<times> cron_run list" where
  "mark_run_finished_if_active f runs =
     (let P = (\<lambda>r. cr_id r = trim_space (rf_run f) \<and> active_run r)
      in (\<exists>r \<in> set runs. P r, change_runs P (finish_columns f) runs))"

record delivery_update =
  du_run :: string
  du_mode :: string
  du_to :: string
  du_status :: string
  du_error :: "string option"
  du_delivered :: "int option"
  du_attempted :: bool
  du_next :: "int option"
  du_dead :: "int option"

definition delivery_columns :: "int \<Rightarrow> delivery_update \<Rightarrow> cron_run \<Rightarrow> cron_run" where
  "delivery_columns now u r =
     r\<lparr>cr_mode := coalesce (du_mode u) (cr_mode r), cr_to := coalesce (du_to u) (cr_to r),
       cr_dstatus := trim_space (du_status u), cr_derror := nullable_string (du_error u),
       cr_delivered := du_delivered u, cr_dattempts := cr_dattempts r + (if du_attempted u then 1 else 0),
       cr_dnext := du_next u, cr_dead := du_dead u, cr_updated := now\<rparr>"

definition mark_run_delivery :: "int \<Rightarrow> delivery_update \<Rightarrow> cron_run list \<Rightarrow> cron_run list" where
  "mark_run_delivery now u = change_runs (\<lambda>r. cr_id r = trim_space (du_run u)) (delivery_columns now u)"

lemma run_columns_sel [simp]:
  "cr_id (running_columns now r) = cr_id r" "cr_job (running_columns now r) = cr_job r"
  "cr_status (running_columns now r) = ''running''"
  "cr_id (finish_columns f r) = cr_id r" "cr_job (finish_columns f r) = cr_job r"
  "cr_status (finish_columns f r) = trim_space (rf_status f)"
  "cr_id (delivery_columns now u r) = cr_id r" "cr_job (delivery_columns now u r) = cr_job r"
  "cr_status (delivery_columns now u r) = cr_status r"
  by (simp_all add: running_columns_def finish_columns_def delivery_columns_def)

definition get_run :: "string \<Rightarrow> string \<Rightarrow> string \<Rightarrow> cron_run list \<Rightarrow> cron_run option" where
  "get_run owner job_id run_id runs =
     List.find (\<lambda>r. cr_job r = trim_space job_id \<and> cr_id r = trim_space run_id \<and>
        (trim_space owner = [] \<or> cr_owner r = trim_space owner)) runs"

definition due_delivery :: "int \<Rightarrow> nat \<Rightarrow> cron_run \<Rightarrow> bool" where
  "due_delivery now max_attempts r \<longleftrightarrow>
     cr_dstatus r = ''failed'' \<and> cr_dead r = None \<and> cr_dattempts r < max_attempts \<and>
     (case cr_dnext r of None \<Rightarrow> True | Some t \<Rightarrow> t \<le> now)"

text \<open>\<open>ORDER BY COALESCE(delivery_next_attempt_at, updated_at), updated_at, run_id LIMIT\<close>.\<close>

definition due_before :: "cron_run \<Rightarrow> cron_run \<Rightarrow> bool" where
  "due_before a b \<longleftrightarrow>
     (let x = or_else (cr_updated a) (cr_dnext a); y = or_else (cr_updated b) (cr_dnext b) in
      x < y \<or> x = y \<and> (cr_updated a < cr_updated b \<or> cr_updated a = cr_updated b \<and> cr_id a \<le> cr_id b))"

fun insert_due :: "cron_run \<Rightarrow> cron_run list \<Rightarrow> cron_run list" where
  "insert_due e [] = [e]"
| "insert_due e (x # xs) = (if due_before e x then e # x # xs else x # insert_due e xs)"

definition list_due_deliveries :: "int \<Rightarrow> nat \<Rightarrow> nat \<Rightarrow> cron_run list \<Rightarrow> cron_run list" where
  "list_due_deliveries now max_attempts limit runs =
     take limit (foldr insert_due (filter (due_delivery now max_attempts) runs) [])"

section \<open>The schedule of delivery attempts\<close>

definition max_auto_attempts :: nat where
  "max_auto_attempts = 5"

definition delivery_backoffs :: "int list" where
  "delivery_backoffs = [30 * second, 120 * second, 600 * second, 1800 * second]"

definition delivery_attempted :: "string \<Rightarrow> bool" where
  "delivery_attempted status \<longleftrightarrow> trim_space status = ''succeeded'' \<or> trim_space status = ''failed''"

definition delivered_at :: "string \<Rightarrow> int \<Rightarrow> int option" where
  "delivered_at status at = (if trim_space status \<noteq> ''succeeded'' then None else Some at)"

text \<open>The time of the next attempt, and the time the delivery was given up.\<close>

definition delivery_retry_schedule :: "string \<Rightarrow> nat \<Rightarrow> int \<Rightarrow> int option \<times> int option" where
  "delivery_retry_schedule status attempts now =
     (if trim_space status \<noteq> ''failed'' then (None, None)
      else if max_auto_attempts \<le> attempts then (None, Some now)
      else if attempts = 0 \<or> length delivery_backoffs < attempts then (None, Some now)
      else (Some (now + delivery_backoffs ! (attempts - 1)), None))"

end
