(* ===== verification/AutomationRun.thy ===== *)
theory AutomationRun
  imports AutomationStore Heartbeat
begin

text \<open>
  The scheduler of tasks: \<open>service/automation/runtime_state.go\<close>, \<open>service_execution.go\<close>,
  \<open>runtime_script.go\<close>, \<open>service_scheduler.go\<close> and \<open>service_scheduler_recovery.go\<close>.

  The state \<open>auto_state\<close> holds the runtime states of the service, the tables, the
  heartbeats, the goroutines that disable an expired task (\<open>au_disabling\<close>) and those that
  observe a run (\<open>au_flying\<close>). The critical sections of \<open>startJobExecution\<close> (look at the
  runtime state, claim the row, count the run) are functions of their own, because another
  trigger can come between them; \<open>start_job_execution\<close> composes them. One pass of the code
  reads one clock. The audit trail of task events and the artifact files are not modelled.
\<close>

section \<open>State\<close>

record job_runtime =
  jr_job :: cron_job
  jr_running :: bool
  jr_count :: nat
  jr_next :: "int option"
  jr_run_id :: string
  jr_started :: "int option"
  jr_last_run :: "int option"
  jr_last_status :: string
  jr_streak :: nat
  jr_error :: "string option"
  jr_delivered :: string

record run_task =
  rt_job :: cron_job
  rt_run :: string
  rt_round :: string
  rt_session :: string

record auto_state =
  au_jobs :: "(string \<times> job_runtime) list"
  au_table :: "cron_job list"
  au_runs :: "cron_run list"
  au_disabling :: "cron_job list"
  au_flying :: "run_task list"
  au_retrying :: bool
  au_heart :: heart_store

record auto_env =
  ae_clock :: clockwork
  ae_now :: int
  ae_run :: string
  ae_round :: string
  ae_event :: string
  ae_read_error :: "string option"
  ae_claim_error :: "string option"
  ae_insert_error :: "string option"
  ae_running_error :: "string option"
  ae_event_error :: "string option"
  ae_finish_error :: "string option"
  ae_dispatch_error :: "string option"
  ae_router :: bool
  ae_deliver :: "string \<Rightarrow> string + delivery_target"
  ae_artifact :: "string option"
  ae_timeout :: int
  ae_timeout_text :: string
  ae_heart :: heart_env

record execution_result =
  er_run :: "string option"
  er_status :: string
  er_session :: string
  er_round :: "string option"
  er_error :: "string option"

section \<open>Runtime states\<close>

definition successful_status :: "string \<Rightarrow> bool" where
  "successful_status status \<longleftrightarrow>
     trim_space status = ''succeeded'' \<or> trim_space status = ''queued_to_main_session''"

definition expired_at :: "cron_job \<Rightarrow> int option \<Rightarrow> bool" where
  "expired_at job next_run \<longleftrightarrow> cj_enabled job \<and> equal_fold (sc_kind (cj_schedule job)) ''at'' \<and> next_run = None"

text \<open>The columns of a task that \<open>ensureJobState\<close> and \<open>replaceJobRuntimeState\<close> take over.\<close>

definition runtime_of_job :: "cron_job \<Rightarrow> nat \<Rightarrow> job_runtime" where
  "runtime_of_job job count =
     \<lparr>jr_job = job, jr_running = (trim_space (cj_run_id job) \<noteq> []), jr_count = count, jr_next = cj_next job,
      jr_run_id = trim_space (cj_run_id job), jr_started = cj_started job, jr_last_run = cj_last_run job,
      jr_last_status = trim_space (cj_last_status job), jr_streak = cj_streak job,
      jr_error = clone_string (cj_error job), jr_delivered = trim_space (cj_delivered job)\<rparr>"

definition set_runtime :: "string \<Rightarrow> job_runtime \<Rightarrow> auto_state \<Rightarrow> auto_state" where
  "set_runtime job_id r s = s\<lparr>au_jobs := AList.update job_id r (au_jobs s)\<rparr>"

text \<open>\<open>ensureJobState\<close>: the state of the task, made from its columns when there is none.\<close>

definition ensured_runtime :: "clockwork \<Rightarrow> int \<Rightarrow> cron_job \<Rightarrow> job_runtime option \<Rightarrow> job_runtime" where
  "ensured_runtime ck now job old =
     (let r = (case old of
                 None \<Rightarrow> runtime_of_job job (if trim_space (cj_run_id job) \<noteq> [] then 1 else 0)
               | Some r \<Rightarrow>
                   (if cj_enabled (jr_job r) \<noteq> cj_enabled job \<or>
                       \<not> same_schedule (cj_schedule (jr_job r)) (cj_schedule job)
                    then r\<lparr>jr_job := job, jr_next := None\<rparr> else r\<lparr>jr_job := job\<rparr>))
      in if jr_next r = None \<or> \<not> cj_enabled job then r\<lparr>jr_next := compute_job_next ck job now\<rparr> else r)"

definition ensure_job_state :: "clockwork \<Rightarrow> int \<Rightarrow> cron_job \<Rightarrow> auto_state \<Rightarrow> job_runtime \<times> auto_state" where
  "ensure_job_state ck now job s =
     (let r = ensured_runtime ck now job (map_of (au_jobs s) (cj_id job));
          s = set_runtime (cj_id job) r s
      in (r, if expired_at job (jr_next r) then s\<lparr>au_disabling := au_disabling s @ [job]\<rparr> else s))"

definition update_of_runtime :: "string \<Rightarrow> job_runtime \<Rightarrow> runtime_update" where
  "update_of_runtime job_id r =
     \<lparr>ju_job = job_id, ju_next = jr_next r, ju_run_id = trim_space (jr_run_id r), ju_started = jr_started r,
      ju_last_run = jr_last_run r, ju_last_status = trim_space (jr_last_status r), ju_streak = jr_streak r,
      ju_error = clone_string (jr_error r), ju_delivered = trim_space (jr_delivered r)\<rparr>"

definition persist_runtime :: "runtime_update \<Rightarrow> auto_state \<Rightarrow> auto_state" where
  "persist_runtime u s =
     (if trim_space (ju_job u) = [] then s else s\<lparr>au_table := update_runtime u (au_table s)\<rparr>)"

text \<open>The time after a failure: the earlier of the natural one and the short backoff.\<close>

definition retry_next :: "int option \<Rightarrow> nat \<Rightarrow> int \<Rightarrow> int option" where
  "retry_next natural streak now =
     (case retry_backoff_for streak of
        None \<Rightarrow> natural
      | Some b \<Rightarrow>
          (case natural of None \<Rightarrow> Some (now + b) | Some t \<Rightarrow> if now + b < t then Some (now + b) else Some t))"

definition finished_runtime ::
  "clockwork \<Rightarrow> int \<Rightarrow> int option \<Rightarrow> string \<Rightarrow> string option \<Rightarrow> string option \<Rightarrow> job_runtime \<Rightarrow> job_runtime" where
  "finished_runtime ck now finished requested message delivery r =
     (let status = (if trim_space requested = [] then ''failed'' else requested);
          count = jr_count r - 1;
          good = successful_status status;
          natural = compute_job_next ck (jr_job r) now
      in r\<lparr>jr_count := count, jr_running := (0 < count),
           jr_run_id := (if 0 < count then jr_run_id r else []),
           jr_started := (if 0 < count then jr_started r else None),
           jr_last_run := (if finished \<noteq> None then finished else jr_last_run r),
           jr_last_status := trim_space status,
           jr_error := (if good then None else clone_string message),
           jr_delivered := (case delivery of Some d \<Rightarrow> trim_space d
                            | None \<Rightarrow> if good then jr_delivered r else ''not_attempted''),
           jr_streak := (if good then 0 else Suc (jr_streak r)),
           jr_next := (if good then natural else retry_next natural (Suc (jr_streak r)) now)\<rparr>)"

definition finish_job_runtime ::
  "clockwork \<Rightarrow> int \<Rightarrow> string \<Rightarrow> int option \<Rightarrow> string \<Rightarrow> string option \<Rightarrow> string option \<Rightarrow> auto_state \<Rightarrow> auto_state" where
  "finish_job_runtime ck now job_id finished status message delivery s =
     (case map_of (au_jobs s) job_id of
        None \<Rightarrow> s
      | Some r \<Rightarrow>
          (let r' = finished_runtime ck now finished status message delivery r;
               s = persist_runtime (update_of_runtime job_id r') (set_runtime job_id r' s)
           in if expired_at (jr_job r') (jr_next r') then s\<lparr>au_disabling := au_disabling s @ [jr_job r']\<rparr> else s))"

definition advance_after_trigger :: "clockwork \<Rightarrow> string \<Rightarrow> int \<Rightarrow> bool \<Rightarrow> auto_state \<Rightarrow> auto_state" where
  "advance_after_trigger ck job_id scheduled persist s =
     (case map_of (au_jobs s) job_id of
        None \<Rightarrow> s
      | Some r \<Rightarrow>
          (let r' = r\<lparr>jr_last_run := Some scheduled, jr_last_status := ''skipped'',
                      jr_next := compute_job_next ck (jr_job r) (scheduled + second)\<rparr>;
               s = set_runtime job_id r' s
           in if persist then
                (let s = persist_runtime (update_of_runtime job_id r') s
                 in if expired_at (jr_job r') (jr_next r') then s\<lparr>au_disabling := au_disabling s @ [jr_job r']\<rparr> else s)
              else s))"

definition replace_job_runtime :: "cron_job \<Rightarrow> auto_state \<Rightarrow> job_runtime \<times> auto_state" where
  "replace_job_runtime job s =
     (let old = (case map_of (au_jobs s) (cj_id job) of None \<Rightarrow> 0 | Some r \<Rightarrow> jr_count r);
          count = (if trim_space (cj_run_id job) \<noteq> [] then (if old = 0 then 1 else old) else 0);
          r = runtime_of_job job count
      in (r, persist_runtime (update_of_runtime (cj_id job) r) (set_runtime (cj_id job) r s)))"

definition disable_expired :: "cron_job \<Rightarrow> auto_state \<Rightarrow> auto_state" where
  "disable_expired job s =
     (let s = s\<lparr>au_disabling := remove1 job (au_disabling s), au_table := upsert_job (job\<lparr>cj_enabled := False\<rparr>) (au_table s)\<rparr>
      in case map_of (au_jobs s) (cj_id job) of
           None \<Rightarrow> s
         | Some r \<Rightarrow> set_runtime (cj_id job) (r\<lparr>jr_job := (jr_job r)\<lparr>cj_enabled := False\<rparr>\<rparr>) s)"

section \<open>Starting a run\<close>

definition skipped_result :: "string \<Rightarrow> string \<Rightarrow> execution_result" where
  "skipped_result run_id message =
     \<lparr>er_run = Some run_id, er_status = ''skipped'', er_session = [], er_round = None, er_error = Some message\<rparr>"

definition overlap_message :: string where
  "overlap_message = ''previous run is still running; overlap_policy=skip''"

definition record_skipped ::
  "auto_env \<Rightarrow> cron_job \<Rightarrow> string \<Rightarrow> int \<Rightarrow> bool \<Rightarrow> auto_state \<Rightarrow> (string + execution_result) \<times> auto_state" where
  "record_skipped env job trigger scheduled persist s =
     (case ae_insert_error env of
        Some e \<Rightarrow> (Inl e, s)
      | None \<Rightarrow>
          (let runs = insert_run (ae_now env)
                 \<lparr>rp_run = ae_run env, rp_job = cj_id job, rp_owner = cj_owner job, rp_scheduled = Some scheduled,
                  rp_trigger = trigger, rp_session = [], rp_round = [], rp_mode = trim_space (dt_mode (cj_delivery job)),
                  rp_to = delivery_summary (cj_delivery job), rp_dstatus = [], rp_status = ''skipped''\<rparr> (au_runs s);
               runs = mark_run_finished (finish_input (ae_run env) ''skipped'' (ae_now env) (Some overlap_message)) runs;
               s = s\<lparr>au_runs := runs\<rparr>;
               s = (if trigger = ''cron'' then advance_after_trigger (ae_clock env) (cj_id job) scheduled persist s else s)
           in (Inr (skipped_result (ae_run env) overlap_message), s)))"

definition external_message :: string where
  "external_message = ''scheduled task execution was claimed by another scheduler''"

definition externally_claimed ::
  "auto_env \<Rightarrow> cron_job \<Rightarrow> auto_state \<Rightarrow> (string + execution_result) \<times> auto_state" where
  "externally_claimed env job s =
     (let running = \<lparr>er_run = None, er_status = ''running'', er_session = [], er_round = None, er_error = Some external_message\<rparr>
      in case ae_read_error env of
        Some e \<Rightarrow> (Inl e, s)
      | None \<Rightarrow>
          (case get_job [] (cj_id job) (au_table s) of
             None \<Rightarrow> (Inr running, s)
           | Some current \<Rightarrow>
               (let s = snd (replace_job_runtime current s) in
                if trim_space (cj_run_id current) \<noteq> []
                then (Inr (running\<lparr>er_run := Some (trim_space (cj_run_id current))\<rparr>), s)
                else if \<not> cj_enabled current
                then (Inr (running\<lparr>er_status := ''skipped'', er_error := Some ''scheduled task is disabled''\<rparr>), s)
                else (Inr running, s))))"

text \<open>First critical section: None when an earlier run blocks this one, else the next time.\<close>

definition check_overlap ::
  "auto_env \<Rightarrow> cron_job \<Rightarrow> string \<Rightarrow> int \<Rightarrow> auto_state \<Rightarrow> int option option \<times> auto_state" where
  "check_overlap env job trigger scheduled s =
     (let (r, s) = ensure_job_state (ae_clock env) (ae_now env) job s in
      if jr_running r \<and> normalize_overlap (cj_overlap job) = ''skip'' then (None, s)
      else (Some (if trigger = ''cron'' then compute_job_next (ae_clock env) job (scheduled + second) else jr_next r), s))"

text \<open>The claim of the row, one statement of the database.\<close>

definition claim_run ::
  "auto_env \<Rightarrow> cron_job \<Rightarrow> string \<Rightarrow> int option \<Rightarrow> auto_state \<Rightarrow> (string + bool) \<times> auto_state" where
  "claim_run env job trigger next_run s =
     (case ae_claim_error env of
        Some e \<Rightarrow> (Inl e, s)
      | None \<Rightarrow>
          (let (claimed, tab) = claim_job (cj_id job) (ae_run env) (ae_now env) next_run
                 (normalize_overlap (cj_overlap job)) (trigger = ''manual'') (au_table s)
           in (Inr claimed, s\<lparr>au_table := tab\<rparr>)))"

text \<open>Second critical section: the run counts as running.\<close>

definition count_run :: "auto_env \<Rightarrow> cron_job \<Rightarrow> int option \<Rightarrow> auto_state \<Rightarrow> auto_state" where
  "count_run env job next_run s =
     (let r = (case map_of (au_jobs s) (cj_id job) of
                 Some r \<Rightarrow> r
               | None \<Rightarrow> \<lparr>jr_job = job, jr_running = False, jr_count = 0, jr_next = None, jr_run_id = [], jr_started = None,
                          jr_last_run = None, jr_last_status = [], jr_streak = 0, jr_error = None, jr_delivered = []\<rparr>)
      in set_runtime (cj_id job)
           (r\<lparr>jr_count := Suc (jr_count r), jr_running := True, jr_run_id := ae_run env,
              jr_started := Some (ae_now env), jr_next := next_run\<rparr>) s)"

text \<open>The ledger entry of the run, and the session that executes it.\<close>

definition launch_run ::
  "auto_env \<Rightarrow> cron_job \<Rightarrow> string \<Rightarrow> int \<Rightarrow> string \<Rightarrow> string \<Rightarrow> auto_state \<Rightarrow> (string + execution_result) \<times> auto_state" where
  "launch_run env job trigger scheduled session_key round_id s =
     (let fail = (\<lambda>when e s. finish_job_runtime (ae_clock env) (ae_now env) (cj_id job) when ''failed'' (Some (trim_space e)) None s) in
      case ae_insert_error env of
        Some e \<Rightarrow> (Inl e, fail None e s)
      | None \<Rightarrow>
          (let s = s\<lparr>au_runs := insert_run (ae_now env)
                 \<lparr>rp_run = ae_run env, rp_job = cj_id job, rp_owner = cj_owner job, rp_scheduled = Some scheduled,
                  rp_trigger = trigger, rp_session = session_key, rp_round = round_id,
                  rp_mode = trim_space (dt_mode (cj_delivery job)), rp_to = delivery_summary (cj_delivery job),
                  rp_dstatus = [], rp_status = []\<rparr> (au_runs s)\<rparr>
           in case ae_running_error env of
             Some e \<Rightarrow> (Inl e, fail None e s)
           | None \<Rightarrow>
               (let s = s\<lparr>au_runs := mark_run_running (ae_run env) (ae_now env) (au_runs s)\<rparr> in
                case ae_dispatch_error env of
                  Some e \<Rightarrow>
                    (Inl e, fail (Some (ae_now env)) e
                       (s\<lparr>au_runs := mark_run_finished (finish_input (ae_run env) ''failed'' (ae_now env) (Some e)) (au_runs s)\<rparr>))
                | None \<Rightarrow>
                    (Inr \<lparr>er_run = Some (ae_run env), er_status = ''running'', er_session = session_key,
                          er_round = (if round_id = [] then None else Some round_id), er_error = None\<rparr>,
                     s\<lparr>au_flying := au_flying s @
                         [\<lparr>rt_job = job, rt_run = ae_run env, rt_round = round_id, rt_session = session_key\<rparr>]\<rparr>))))"

definition run_claimed ::
  "auto_env \<Rightarrow> cron_job \<Rightarrow> string \<Rightarrow> int \<Rightarrow> string \<Rightarrow> string \<Rightarrow> auto_state \<Rightarrow> (string + execution_result) \<times> auto_state" where
  "run_claimed env job trigger scheduled session_key round_id s =
     (case check_overlap env job trigger scheduled s of
        (None, s) \<Rightarrow> record_skipped env job trigger scheduled True s
      | (Some next_run, s) \<Rightarrow>
          (case claim_run env job trigger next_run s of
             (Inl e, s) \<Rightarrow> (Inl e, s)
           | (Inr False, s) \<Rightarrow> externally_claimed env job s
           | (Inr True, s) \<Rightarrow> launch_run env job trigger scheduled session_key round_id (count_run env job next_run s)))"

text \<open>
  A task of the main session is handed to the agent's heartbeat. Its failures end in
  \<open>finishJobRuntime\<close> too, which counts a run down that this trigger never counted up.
\<close>

definition start_main_job ::
  "auto_env \<Rightarrow> cron_job \<Rightarrow> string \<Rightarrow> int \<Rightarrow> auto_state \<Rightarrow> (string + execution_result) \<times> auto_state" where
  "start_main_job env job trigger scheduled s =
     (let now = ae_now env;
          session_key = build_main_key (cj_agent job);
          finish = (\<lambda>status e s. finish_job_runtime (ae_clock env) now (cj_id job) (Some now) status e None s);
          ended = (\<lambda>status e s. s\<lparr>au_runs := mark_run_finished (finish_input (ae_run env) status now e) (au_runs s)\<rparr>)
      in case ae_insert_error env of
        Some e \<Rightarrow> (Inl e, finish ''failed'' (Some (trim_space e)) s)
      | None \<Rightarrow>
          (let s = s\<lparr>au_runs := insert_run now
                 \<lparr>rp_run = ae_run env, rp_job = cj_id job, rp_owner = cj_owner job, rp_scheduled = Some scheduled,
                  rp_trigger = trigger, rp_session = session_key, rp_round = [], rp_mode = ''none'', rp_to = [],
                  rp_dstatus = [], rp_status = []\<rparr> (au_runs s)\<rparr>
           in case ae_event_error env of
             Some e \<Rightarrow> (Inl e, finish ''failed'' (Some e) (ended ''failed'' (Some e) s))
           | None \<Rightarrow>
               (let s = s\<lparr>au_heart := insert_event (ae_event env) ''cron.trigger'' ''cron'' (cj_agent job)
                      (AMap [(''agent_id'', AStr (cj_agent job)), (''job_id'', AStr (cj_id job)),
                             (''text'', AStr (cron_instruction job)), (''trigger_kind'', AStr trigger),
                             (''session_target_kind'', AStr (st_kind (cj_target job)))]) now (au_heart s)\<rparr>;
                    mode = (if st_wake (cj_target job) = [] then ''next-heartbeat'' else st_wake (cj_target job));
                    (r, h) = wake_heartbeat (ae_heart env) (cj_agent job) mode None (au_heart s);
                    s = s\<lparr>au_heart := h\<rparr>
                in case r of
                     Inl e \<Rightarrow>
                       (Inl e, finish ''failed'' (Some e) (ended ''failed'' (Some e)
                          (s\<lparr>au_heart := mark_event (ae_event env) ''failed'' (au_heart s)\<rparr>)))
                   | Inr _ \<Rightarrow>
                       (Inr \<lparr>er_run = Some (ae_run env), er_status = ''queued_to_main_session'',
                             er_session = session_key, er_round = None, er_error = None\<rparr>,
                        finish ''queued_to_main_session'' None (ended ''queued_to_main_session'' None s)))))"

definition is_script :: "cron_job \<Rightarrow> bool" where
  "is_script job \<longleftrightarrow> normalize_execution (cj_execution job) = ''script''"

text \<open>A script has neither session nor round; its process starts in the observing goroutine.\<close>

definition start_script_job ::
  "auto_env \<Rightarrow> cron_job \<Rightarrow> string \<Rightarrow> int \<Rightarrow> auto_state \<Rightarrow> (string + execution_result) \<times> auto_state" where
  "start_script_job env job trigger scheduled s =
     run_claimed (env\<lparr>ae_dispatch_error := None\<rparr>) job trigger scheduled [] [] s"

text \<open>\<open>ensureDirectTargetSupported\<close> resolves the target with a dummy run and cannot fail.\<close>

definition start_job_execution ::
  "auto_env \<Rightarrow> cron_job \<Rightarrow> string \<Rightarrow> int \<Rightarrow> auto_state \<Rightarrow> (string + execution_result) \<times> auto_state" where
  "start_job_execution env job trigger scheduled s =
     (if is_script job then start_script_job env job trigger scheduled s
      else if trim_space (st_kind (cj_target job)) = ''main'' then start_main_job env job trigger scheduled s
      else
        (case resolve_session_key job (Some (ae_run env)) of
           Inl e \<Rightarrow> (Inl e, finish_job_runtime (ae_clock env) (ae_now env) (cj_id job) (Some (ae_now env)) ''failed''
                             (Some (trim_space e)) None s)
         | Inr session_key \<Rightarrow> run_claimed env job trigger scheduled session_key (ae_round env) s))"

section \<open>The end of a run\<close>

text \<open>\<open>deliverJobObservation\<close>: status, error and the summary of the target.\<close>

definition deliver_observation ::
  "auto_env \<Rightarrow> cron_job \<Rightarrow> string \<Rightarrow> execution_observation \<Rightarrow> string \<times> string option \<times> string" where
  "deliver_observation env job session_key obs =
     (let d = cj_delivery job;
          mode = trim_space (dt_mode d);
          planned = delivery_summary d;
          text = first_non_empty [eo_result obs, eo_assistant obs]
      in if mode = [] \<or> mode = ''none'' then (''not_required'', None, planned)
         else if mode = ''explicit'' \<and> trim_space (dt_channel d) = ''websocket'' \<and> trim_space (dt_to d) \<noteq> [] \<and>
                 trim_space (dt_to d) = trim_space session_key
         then (''skipped'', None, planned)
         else if \<not> ae_router env then (''failed'', Some ''delivery router is not configured'', planned)
         else if text = [] then (''skipped'', None, planned)
         else (case ae_deliver env text of
                 Inl e \<Rightarrow> (''failed'', Some (trim_space e), planned)
               | Inr target \<Rightarrow> (''succeeded'', None, delivery_summary target)))"

definition string_pointer :: "string \<Rightarrow> string option" where
  "string_pointer v = (if trim_space v = [] then None else Some (trim_space v))"

definition observed_finish :: "auto_env \<Rightarrow> run_task \<Rightarrow> execution_observation \<Rightarrow> run_finish" where
  "observed_finish env t obs =
     (let status = (if eo_status obs = [] then ''failed'' else eo_status obs);
          (dstatus, derror, to) =
            (if status = ''succeeded'' then deliver_observation env (rt_job t) (rt_session t) obs
             else (''not_required'', None, delivery_summary (cj_delivery (rt_job t))));
          attempts = (if delivery_attempted dstatus then 1 else 0);
          (next_attempt, dead) = delivery_retry_schedule dstatus attempts (ae_now env)
      in \<lparr>rf_run = rt_run t, rf_status = status, rf_at = ae_now env, rf_error = clone_string (eo_error obs),
          rf_session_id = eo_session obs, rf_count = eo_count obs,
          rf_summary = string_pointer (first_non_empty [eo_result obs, eo_assistant obs]),
          rf_assistant = string_pointer (eo_assistant obs), rf_result = string_pointer (eo_result obs),
          rf_artifact = ae_artifact env, rf_to = to, rf_dstatus = dstatus, rf_derror = derror,
          rf_delivered = delivered_at dstatus (ae_now env), rf_attempted = delivery_attempted dstatus,
          rf_next = next_attempt, rf_dead = dead\<rparr>)"

text \<open>\<open>observeJobRun\<close> and \<open>observeScriptJob\<close>: the result of a run that is no longer active is ignored.\<close>

definition observe_job_run :: "auto_env \<Rightarrow> run_task \<Rightarrow> execution_observation \<Rightarrow> auto_state \<Rightarrow> auto_state" where
  "observe_job_run env t obs s =
     (let s = s\<lparr>au_flying := remove1 t (au_flying s)\<rparr>;
          f = observed_finish env t obs
      in case ae_finish_error env of
           Some _ \<Rightarrow> s
         | None \<Rightarrow>
             (let (finished, runs) = mark_run_finished_if_active f (au_runs s) in
              if \<not> finished then s
              else finish_job_runtime (ae_clock env) (ae_now env) (cj_id (rt_job t)) (Some (ae_now env)) (rf_status f)
                     (rf_error f) (Some (rf_dstatus f)) (s\<lparr>au_runs := runs\<rparr>)))"

section \<open>Recovery\<close>

definition recover_as_cancelled :: "auto_env \<Rightarrow> cron_job \<Rightarrow> string \<Rightarrow> auto_state \<Rightarrow> cron_job \<times> auto_state" where
  "recover_as_cancelled env job message s =
     (if trim_space (cj_run_id job) = [] then (job, s)
      else
        (let now = ae_now env;
             s = (if ae_finish_error env = None
                  then s\<lparr>au_runs := snd (mark_run_finished_if_active
                            (finish_input (trim_space (cj_run_id job)) ''cancelled'' now (Some message)) (au_runs s))\<rparr>
                  else s);
             job = job\<lparr>cj_running := False, cj_run_id := [], cj_started := None, cj_last_run := Some now,
                       cj_last_status := ''cancelled'', cj_error := Some message, cj_streak := Suc (cj_streak job)\<rparr>
         in (job\<lparr>cj_next := retry_next (compute_job_next (ae_clock env) job now) (cj_streak job) now\<rparr>, s)))"

definition restart_message :: string where
  "restart_message = ''scheduler restarted before run completed''"

text \<open>The task as its runtime state has it.\<close>

definition job_of_runtime :: "job_runtime \<Rightarrow> cron_job" where
  "job_of_runtime r =
     (jr_job r)\<lparr>cj_running := jr_running r, cj_run_id := trim_space (jr_run_id r), cj_started := jr_started r,
               cj_next := jr_next r, cj_last_run := jr_last_run r, cj_last_status := trim_space (jr_last_status r),
               cj_streak := jr_streak r, cj_error := clone_string (jr_error r), cj_delivered := trim_space (jr_delivered r)\<rparr>"

definition stale_runtime :: "int \<Rightarrow> int \<Rightarrow> job_runtime \<Rightarrow> bool" where
  "stale_runtime now timeout r \<longleftrightarrow>
     jr_running r \<and> trim_space (jr_run_id r) \<noteq> [] \<and>
     (case jr_started r of None \<Rightarrow> False | Some t \<Rightarrow> timeout \<le> now - t)"

definition recover_stale_job :: "auto_env \<Rightarrow> cron_job \<Rightarrow> auto_state \<Rightarrow> auto_state" where
  "recover_stale_job env job s =
     (if trim_space (cj_run_id job) = [] then s
      else (let (recovered, s) = recover_as_cancelled env job (ae_timeout_text env) s
            in snd (replace_job_runtime recovered s)))"

definition recover_stale :: "auto_env \<Rightarrow> auto_state \<Rightarrow> auto_state" where
  "recover_stale env s =
     (if ae_timeout env \<le> 0 then s
      else fold (recover_stale_job env)
             (map (\<lambda>(_, r). job_of_runtime r)
               (filter (\<lambda>(_, r). stale_runtime (ae_now env) (ae_timeout env) r) (au_jobs s))) s)"

text \<open>\<open>bootstrapRuntime\<close>: a new process has no runtime states and no goroutines.\<close>

definition restart :: "auto_env \<Rightarrow> auto_state \<Rightarrow> auto_state" where
  "restart env s =
     fold (\<lambda>job s.
         let (job, s) = recover_as_cancelled env job restart_message s;
             (r, s) = ensure_job_state (ae_clock env) (ae_now env) job s
         in persist_runtime (update_of_runtime (cj_id job) r) s)
       (rev (au_table s))
       (s\<lparr>au_jobs := [], au_disabling := [], au_flying := [], au_retrying := False\<rparr>)"

section \<open>Due tasks\<close>

definition job_due :: "int \<Rightarrow> job_runtime \<Rightarrow> bool" where
  "job_due now r \<longleftrightarrow>
     cj_enabled (jr_job r) \<and> \<not> (jr_running r \<and> normalize_overlap (cj_overlap (jr_job r)) = ''skip'') \<and>
     (case jr_next r of None \<Rightarrow> False | Some t \<Rightarrow> t \<le> now)"

definition due_jobs :: "int \<Rightarrow> auto_state \<Rightarrow> cron_job list" where
  "due_jobs now s = map (\<lambda>(_, r). jr_job r) (filter (\<lambda>(_, r). job_due now r) (au_jobs s))"

end
