(* ===== verification/AutomationTasks.thy ===== *)
theory AutomationTasks
  imports AutomationRun
begin

text \<open>
  The requests on scheduled tasks, \<open>service/automation/service_task.go\<close> and
  \<open>service_task_delete.go\<close>, the retries of deliveries (\<open>service_delivery_retry.go\<close>) and the
  summary of tasks in a heartbeat (\<open>summary_heartbeat_tasks.go\<close>).

  The agent service (the owner of an agent, its existence) and the runners that interrupt a
  session are arguments. The owner of the request is the first argument of a request, empty for
  the global scope.
\<close>

section \<open>Reading\<close>

definition get_task :: "auto_env \<Rightarrow> string \<Rightarrow> string \<Rightarrow> auto_state \<Rightarrow> (string + cron_job option) \<times> auto_state" where
  "get_task env owner job_id s =
     (case ae_read_error env of
        Some e \<Rightarrow> (Inl e, s)
      | None \<Rightarrow>
          (case get_job owner job_id (au_table s) of
             None \<Rightarrow> (Inr None, s)
           | Some job \<Rightarrow>
               (let (r, s) = ensure_job_state (ae_clock env) (ae_now env) job s
                in (Inr (Some (job_of_runtime r)), s))))"

text \<open>\<open>ListTasks\<close>: every task of the owner and agent, newest first, each with its runtime state.\<close>

definition list_jobs :: "string \<Rightarrow> string \<Rightarrow> cron_job list \<Rightarrow> cron_job list" where
  "list_jobs owner agent tab =
     filter (\<lambda>j. (trim_space owner = [] \<or> cj_owner j = trim_space owner) \<and>
                 (trim_space agent = [] \<or> cj_agent j = trim_space agent)) (rev tab)"

fun enrich_jobs :: "auto_env \<Rightarrow> cron_job list \<Rightarrow> auto_state \<Rightarrow> cron_job list \<times> auto_state" where
  "enrich_jobs env [] s = ([], s)"
| "enrich_jobs env (job # jobs) s =
     (let (r, s) = ensure_job_state (ae_clock env) (ae_now env) job s;
          (rest, s) = enrich_jobs env jobs s
      in (job_of_runtime r # rest, s))"

definition list_tasks :: "auto_env \<Rightarrow> string \<Rightarrow> string \<Rightarrow> auto_state \<Rightarrow> (string + cron_job list) \<times> auto_state" where
  "list_tasks env owner agent s =
     (case ae_read_error env of
        Some e \<Rightarrow> (Inl e, s)
      | None \<Rightarrow> (let (jobs, s) = enrich_jobs env (list_jobs owner agent (au_table s)) s in (Inr jobs, s)))"

section \<open>Creating and updating\<close>

definition job_not_found :: string where
  "job_not_found = ''scheduled task not found''"

text \<open>\<open>ensureJobState\<close> of the stored task, and its columns written back.\<close>

definition sync_job :: "auto_env \<Rightarrow> cron_job \<Rightarrow> auto_state \<Rightarrow> cron_job \<times> auto_state" where
  "sync_job env job s =
     (let (r, s) = ensure_job_state (ae_clock env) (ae_now env) job s
      in (job_of_runtime r, persist_runtime (update_of_runtime (cj_id job) r) s))"

definition store_job :: "auto_env \<Rightarrow> cron_job \<Rightarrow> auto_state \<Rightarrow> (string + cron_job) \<times> auto_state" where
  "store_job env job s =
     (case ae_insert_error env of
        Some e \<Rightarrow> (Inl e, s)
      | None \<Rightarrow>
          (let s = s\<lparr>au_table := upsert_job job (au_table s)\<rparr> in
           case get_job [] (cj_id job) (au_table s) of
             None \<Rightarrow> (Inl job_not_found, s)
           | Some stored \<Rightarrow> (let (result, s) = sync_job env stored s in (Inr result, s))))"

text \<open>\<open>check\<close> is \<open>validateAgentAndTarget\<close> and \<open>owner\<close> \<open>resolveTaskOwnerUserID\<close>.\<close>

definition create_task ::
  "auto_env \<Rightarrow> (string \<Rightarrow> session_target \<Rightarrow> string option) \<Rightarrow> (string \<Rightarrow> string + string) \<Rightarrow> string \<Rightarrow> job_input \<Rightarrow>
   auto_state \<Rightarrow> (string + cron_job) \<times> auto_state" where
  "create_task env check owner job_id input s =
     (let i = normalize_job input in
      case validate_job i of
        Some e \<Rightarrow> (Inl e, s)
      | None \<Rightarrow>
          (case check (ji_agent i) (ji_target i) of
             Some e \<Rightarrow> (Inl e, s)
           | None \<Rightarrow>
               (case owner (ji_agent i) of
                  Inl e \<Rightarrow> (Inl e, s)
                | Inr user \<Rightarrow>
                    store_job env
                      \<lparr>cj_id = job_id, cj_owner = user, cj_name = ji_name i, cj_agent = ji_agent i,
                       cj_schedule = ji_schedule i, cj_instruction = ji_instruction i, cj_execution = ji_execution i,
                       cj_target = ji_target i, cj_delivery = ji_delivery i, cj_source = ji_source i,
                       cj_overlap = ji_overlap i, cj_enabled = ji_enabled i, cj_next = None, cj_running = False,
                       cj_run_id = [], cj_started = None, cj_last_run = None, cj_last_status = [], cj_streak = 0,
                       cj_error = None, cj_delivered = []\<rparr> s)))"

record job_update =
  jp_name :: "string option"
  jp_schedule :: "schedule option"
  jp_instruction :: "string option"
  jp_execution :: "string option"
  jp_target :: "session_target option"
  jp_delivery :: "delivery_target option"
  jp_source :: "task_source option"
  jp_overlap :: "string option"
  jp_enabled :: "bool option"

definition updated_job :: "job_update \<Rightarrow> cron_job \<Rightarrow> cron_job" where
  "updated_job u j =
     j\<lparr>cj_name := or_else (cj_name j) (map_option trim_space (jp_name u)),
       cj_schedule := or_else (cj_schedule j) (map_option normalize_schedule (jp_schedule u)),
       cj_instruction := or_else (cj_instruction j) (map_option trim_space (jp_instruction u)),
       cj_execution := or_else (cj_execution j) (map_option normalize_execution (jp_execution u)),
       cj_target := or_else (cj_target j) (map_option normalize_target (jp_target u)),
       cj_delivery := or_else (cj_delivery j) (map_option normalize_delivery (jp_delivery u)),
       cj_source := or_else (cj_source j) (map_option normalize_source (jp_source u)),
       cj_overlap := or_else (cj_overlap j) (map_option normalize_overlap (jp_overlap u)),
       cj_enabled := or_else (cj_enabled j) (jp_enabled u)\<rparr>"

definition input_of_job :: "cron_job \<Rightarrow> job_input" where
  "input_of_job j =
     \<lparr>ji_name = cj_name j, ji_agent = cj_agent j, ji_schedule = cj_schedule j, ji_instruction = cj_instruction j,
      ji_execution = cj_execution j, ji_target = cj_target j, ji_delivery = cj_delivery j, ji_source = cj_source j,
      ji_overlap = cj_overlap j, ji_enabled = cj_enabled j\<rparr>"

definition update_task ::
  "auto_env \<Rightarrow> (string \<Rightarrow> session_target \<Rightarrow> string option) \<Rightarrow> string \<Rightarrow> string \<Rightarrow> job_update \<Rightarrow>
   auto_state \<Rightarrow> (string + cron_job) \<times> auto_state" where
  "update_task env check owner job_id u s =
     (case ae_read_error env of
        Some e \<Rightarrow> (Inl e, s)
      | None \<Rightarrow>
          (case get_job owner job_id (au_table s) of
             None \<Rightarrow> (Inl job_not_found, s)
           | Some current \<Rightarrow>
               (let next_job = updated_job u current in
                case validate_job (input_of_job next_job) of
                  Some e \<Rightarrow> (Inl e, s)
                | None \<Rightarrow>
                    (case check (cj_agent next_job) (cj_target next_job) of
                       Some e \<Rightarrow> (Inl e, s)
                     | None \<Rightarrow> store_job env next_job s))))"

definition no_update :: job_update where
  "no_update = \<lparr>jp_name = None, jp_schedule = None, jp_instruction = None, jp_execution = None, jp_target = None,
     jp_delivery = None, jp_source = None, jp_overlap = None, jp_enabled = None\<rparr>"

definition update_task_status ::
  "auto_env \<Rightarrow> (string \<Rightarrow> session_target \<Rightarrow> string option) \<Rightarrow> string \<Rightarrow> string \<Rightarrow> bool \<Rightarrow>
   auto_state \<Rightarrow> (string + cron_job) \<times> auto_state" where
  "update_task_status env check owner job_id enabled s =
     update_task env check owner job_id (no_update\<lparr>jp_enabled := Some enabled\<rparr>) s"

section \<open>Running, recovering and deleting\<close>

definition run_task_now :: "auto_env \<Rightarrow> string \<Rightarrow> string \<Rightarrow> auto_state \<Rightarrow> (string + execution_result) \<times> auto_state" where
  "run_task_now env owner job_id s =
     (case ae_read_error env of
        Some e \<Rightarrow> (Inl e, s)
      | None \<Rightarrow>
          (case get_job owner job_id (au_table s) of
             None \<Rightarrow> (Inl job_not_found, s)
           | Some job \<Rightarrow> start_job_execution env job ''manual'' (ae_now env) s))"

definition run_mismatch :: string where
  "run_mismatch =
     [CHR 0xE8, CHR 0xBF, CHR 0x90, CHR 0xE8, CHR 0xA1, CHR 0x8C, CHR 0xE8, CHR 0xAE, CHR 0xB0, CHR 0xE5,
      CHR 0xBD, CHR 0x95, CHR 0xE4, CHR 0xB8, CHR 0x8D, CHR 0xE4, CHR 0xB8, CHR 0x80, CHR 0xE8, CHR 0x87,
      CHR 0xB4, CHR 0xEF, CHR 0xBC, CHR 0x8C, CHR 0xE8, CHR 0xAF, CHR 0xB7, CHR 0xE5, CHR 0x88, CHR 0xB7,
      CHR 0xE6, CHR 0x96, CHR 0xB0, CHR 0xE4, CHR 0xBB, CHR 0xBB, CHR 0xE5, CHR 0x8A, CHR 0xA1, CHR 0xE5,
      CHR 0x90, CHR 0x8E, CHR 0xE9, CHR 0x87, CHR 0x8D, CHR 0xE8, CHR 0xAF, CHR 0x95]"

text \<open>
  \<open>interrupt\<close> is \<open>interruptActiveRunExecution\<close>: None, or the error of the runner. It does
  not change the state of the scheduler.
\<close>

definition recover_task ::
  "auto_env \<Rightarrow> (cron_job \<Rightarrow> string \<Rightarrow> string option) \<Rightarrow> string \<Rightarrow> string \<Rightarrow> string \<Rightarrow> string \<Rightarrow>
   auto_state \<Rightarrow> (string + cron_job) \<times> auto_state" where
  "recover_task env interrupt message owner job_id run_id s =
     (case get_task env owner job_id s of
        (Inl e, s) \<Rightarrow> (Inl e, s)
      | (Inr None, s) \<Rightarrow> (Inl job_not_found, s)
      | (Inr (Some current), s) \<Rightarrow>
          (let current_run = trim_space (cj_run_id current); expected = trim_space run_id in
           if current_run = [] then (Inr current, s)
           else if expected \<noteq> [] \<and> expected \<noteq> current_run then (Inl run_mismatch, s)
           else
             (case interrupt current current_run of
                Some e \<Rightarrow> (Inl e, s)
              | None \<Rightarrow>
                  (let (recovered, s) = recover_as_cancelled env current message s;
                       (r, s) = replace_job_runtime recovered s
                   in (Inr (job_of_runtime r), s)))))"

text \<open>The delivery status of a run as the reports read it.\<close>

definition contains_text :: "string \<Rightarrow> string \<Rightarrow> bool" where
  "contains_text sub s \<longleftrightarrow> (\<exists>n \<in> set [0..<Suc (length s)]. prefix sub (drop n s))"

definition delivery_markers :: "string list" where
  "delivery_markers =
     [''delivery'', ''router'', ''channel'', [CHR 0xE6, CHR 0x8A, CHR 0x95, CHR 0xE9, CHR 0x80, CHR 0x92],
      [CHR 0xE5, CHR 0x8F, CHR 0x91, CHR 0xE9, CHR 0x80, CHR 0x81], ''feishu'', ''telegram'', ''discord'', ''websocket'']"

definition looks_like_delivery_error :: "string option \<Rightarrow> bool" where
  "looks_like_delivery_error message \<longleftrightarrow>
     (let text = to_lower (trim_space (or_else [] message)) in
      text \<noteq> [] \<and> (\<exists>m \<in> set delivery_markers. contains_text m text))"

definition derive_delivery_status :: "cron_run \<Rightarrow> string" where
  "derive_delivery_status r =
     (let status = trim_space (cr_status r); mode = trim_space (cr_mode r) in
      if trim_space (cr_dstatus r) \<noteq> [] then trim_space (cr_dstatus r)
      else if mode = [] \<or> mode = ''none'' then ''not_required''
      else if status \<in> set [''pending'', ''running''] then ''pending''
      else if status \<in> set [''succeeded'', ''queued_to_main_session''] then ''succeeded''
      else if status = ''failed'' then
        (if looks_like_delivery_error (cr_error r) then ''failed'' else ''not_attempted'')
      else if status \<in> set [''cancelled'', ''skipped''] then ''not_attempted''
      else ''pending'')"

definition should_dead_letter :: "cron_run \<Rightarrow> bool" where
  "should_dead_letter r \<longleftrightarrow>
     trim_space (cr_id r) \<noteq> [] \<and> cr_dead r = None \<and>
     trim_space (cr_status r) \<noteq> ''pending'' \<and> trim_space (cr_status r) \<noteq> ''running'' \<and>
     derive_delivery_status r = ''failed''"

definition list_runs :: "string \<Rightarrow> string \<Rightarrow> cron_run list \<Rightarrow> cron_run list" where
  "list_runs owner job_id runs =
     filter (\<lambda>r. cr_job r = trim_space job_id \<and> (trim_space owner = [] \<or> cr_owner r = trim_space owner)) (rev runs)"

definition dead_letter_update :: "string \<Rightarrow> string option \<Rightarrow> int \<Rightarrow> delivery_update" where
  "dead_letter_update run_id error now =
     \<lparr>du_run = run_id, du_mode = [], du_to = [], du_status = ''failed'', du_error = error, du_delivered = None,
      du_attempted = False, du_next = None, du_dead = Some now\<rparr>"

definition deleted_message :: string where
  "deleted_message = ''scheduled task was deleted before delivery could be retried''"

definition active_deleted_message :: string where
  "active_deleted_message = ''scheduled task was deleted while this run was active''"

definition dead_letter_runs :: "int \<Rightarrow> cron_job \<Rightarrow> cron_run list \<Rightarrow> cron_run list" where
  "dead_letter_runs now job runs =
     fold (\<lambda>r. mark_run_delivery now (dead_letter_update (cr_id r) (Some deleted_message) now))
       (filter should_dead_letter (list_runs (cj_owner job) (cj_id job) runs)) runs"

record delete_result =
  dr_active :: string
  dr_cancelled :: bool

text \<open>\<open>cleanup\<close> is the removal of the isolated sessions' files and may fail.\<close>

definition delete_task ::
  "auto_env \<Rightarrow> (cron_job \<Rightarrow> string \<Rightarrow> string option) \<Rightarrow> (cron_job \<Rightarrow> string option) \<Rightarrow> string \<Rightarrow> string \<Rightarrow>
   auto_state \<Rightarrow> (string + delete_result) \<times> auto_state" where
  "delete_task env interrupt cleanup owner job_id s =
     (case ae_read_error env of
        Some e \<Rightarrow> (Inl e, s)
      | None \<Rightarrow>
          (case get_job owner job_id (au_table s) of
             None \<Rightarrow> (Inl job_not_found, s)
           | Some job \<Rightarrow>
               (let run_id = trim_space (cj_run_id job) in
                case (if run_id = [] then None else interrupt job run_id) of
                  Some e \<Rightarrow> (Inl e, s)
                | None \<Rightarrow>
                    (case ae_finish_error env of
                       Some e \<Rightarrow> (Inl e, s)
                     | None \<Rightarrow>
                         (let (cancelled, runs) =
                                (if run_id = [] then (False, au_runs s)
                                 else mark_run_finished_if_active
                                   (finish_input run_id ''cancelled'' (ae_now env) (Some active_deleted_message)) (au_runs s));
                              s = s\<lparr>au_runs := dead_letter_runs (ae_now env) job runs,
                                    au_table := delete_job owner (cj_id job) (au_table s)\<rparr>
                          in case cleanup job of
                               Some e \<Rightarrow> (Inl e, s)
                             | None \<Rightarrow>
                                 (Inr \<lparr>dr_active = run_id, dr_cancelled = cancelled\<rparr>,
                                  s\<lparr>au_jobs := AList.delete (cj_id job) (au_jobs s)\<rparr>))))))"

section \<open>Retrying a delivery\<close>

text \<open>The last delivery status of a task follows the retry.\<close>

definition update_last_delivery :: "auto_env \<Rightarrow> cron_job \<Rightarrow> string \<Rightarrow> auto_state \<Rightarrow> auto_state" where
  "update_last_delivery env job status s =
     (if trim_space status = [] then s
      else
        (let (r, s) = ensure_job_state (ae_clock env) (ae_now env) job s;
             r = r\<lparr>jr_delivered := trim_space status\<rparr>
         in persist_runtime (update_of_runtime (cj_id job) r) (set_runtime (cj_id job) r s)))"

text \<open>The observation that a finished run is delivered from again.\<close>

definition observation_of_run :: "cron_run \<Rightarrow> execution_observation" where
  "observation_of_run r =
     \<lparr>eo_status = ''succeeded'', eo_session = cr_session_id r, eo_count = cr_count r, eo_error = None,
      eo_assistant = any_string_pointer (cr_assistant r), eo_result = any_string_pointer (cr_result r)\<rparr>"

definition retried_delivery :: "auto_env \<Rightarrow> cron_job \<Rightarrow> cron_run \<Rightarrow> delivery_update" where
  "retried_delivery env job r =
     (let (status, error, to) = deliver_observation env job (cr_session r) (observation_of_run r);
          attempted = delivery_attempted status;
          attempts = cr_dattempts r + (if attempted then 1 else 0);
          (next_attempt, dead) = delivery_retry_schedule status attempts (ae_now env)
      in \<lparr>du_run = cr_id r, du_mode = trim_space (dt_mode (cj_delivery job)), du_to = to, du_status = status,
          du_error = error, du_delivered = delivered_at status (ae_now env), du_attempted = attempted,
          du_next = next_attempt, du_dead = dead\<rparr>)"

definition run_not_found :: string where
  "run_not_found = ''scheduled task run not found''"

definition retry_run_delivery ::
  "auto_env \<Rightarrow> string \<Rightarrow> string \<Rightarrow> string \<Rightarrow> auto_state \<Rightarrow> (string + cron_run) \<times> auto_state" where
  "retry_run_delivery env owner job_id run_id s =
     (case ae_read_error env of
        Some e \<Rightarrow> (Inl e, s)
      | None \<Rightarrow>
          (case get_job owner job_id (au_table s) of
             None \<Rightarrow> (Inl job_not_found, s)
           | Some job \<Rightarrow>
               (case get_run owner (cj_id job) run_id (au_runs s) of
                  None \<Rightarrow> (Inl run_not_found, s)
                | Some r \<Rightarrow>
                    if trim_space (cr_status r) = ''pending'' \<or> trim_space (cr_status r) = ''running''
                    then (Inl ''run is not finished'', s)
                    else if trim_space (cr_dstatus r) \<noteq> ''failed''
                    then (Inl (''run delivery_status must be failed before retrying delivery, got '' @
                                CHR 0x22 # trim_space (cr_dstatus r) @ [CHR 0x22]), s)
                    else
                      (case ae_finish_error env of
                         Some e \<Rightarrow> (Inl e, s)
                       | None \<Rightarrow>
                           (let u = retried_delivery env job r;
                                s = update_last_delivery env job (du_status u)
                                      (s\<lparr>au_runs := mark_run_delivery (ae_now env) u (au_runs s)\<rparr>)
                            in case get_run owner (cj_id job) (cr_id r) (au_runs s) of
                                 None \<Rightarrow> (Inl run_not_found, s)
                               | Some updated \<Rightarrow> (Inr updated, s))))))"

text \<open>One run of the automatic batch: given up when its task is gone or disabled.\<close>

definition retry_due_run :: "auto_env \<Rightarrow> cron_run \<Rightarrow> auto_state \<Rightarrow> auto_state" where
  "retry_due_run env r s =
     (if ae_read_error env \<noteq> None then s
      else
        (case get_job [] (cr_job r) (au_table s) of
           None \<Rightarrow>
             (if ae_finish_error env \<noteq> None then s
              else s\<lparr>au_runs := mark_run_delivery (ae_now env)
                (dead_letter_update (cr_id r) (Some ''scheduled task not found while retrying delivery'') (ae_now env)) (au_runs s)\<rparr>)
         | Some job \<Rightarrow>
             if \<not> cj_enabled job then
               (if ae_finish_error env \<noteq> None then s
                else s\<lparr>au_runs := mark_run_delivery (ae_now env) (dead_letter_update (cr_id r) (cr_derror r) (ae_now env)) (au_runs s)\<rparr>)
             else snd (retry_run_delivery env (cj_owner job) (cj_id job) (cr_id r) s)))"

definition delivery_batch_limit :: nat where
  "delivery_batch_limit = 20"

definition retry_due_deliveries :: "auto_env \<Rightarrow> int \<Rightarrow> auto_state \<Rightarrow> auto_state" where
  "retry_due_deliveries env now s =
     (if au_retrying s \<or> ae_read_error env \<noteq> None then s
      else fold (retry_due_run env) (list_due_deliveries now max_auto_attempts delivery_batch_limit (au_runs s)) s)"

section \<open>The summary of tasks in a heartbeat\<close>

fun decimal_digits :: "nat \<Rightarrow> string" where
  "decimal_digits n =
     (if n < 10 then [char_of (48 + n)] else decimal_digits (n div 10) @ [char_of (48 + n mod 10)])"

declare decimal_digits.simps [simp del]

definition decimal :: "int \<Rightarrow> string" where
  "decimal n = (if n < 0 then CHR ''-'' # decimal_digits (nat (- n)) else decimal_digits (nat n))"

definition schedule_summary :: "schedule \<Rightarrow> string" where
  "schedule_summary s =
     (if sc_kind s = ''every'' then
        (case sc_interval s of None \<Rightarrow> ''every'' | Some n \<Rightarrow> ''every '' @ decimal n @ ''s'')
      else if sc_kind s = ''cron'' then (case sc_cron s of None \<Rightarrow> ''cron'' | Some v \<Rightarrow> ''cron '' @ v)
      else if sc_kind s = ''at'' then (case sc_run_at s of None \<Rightarrow> ''at'' | Some v \<Rightarrow> ''at '' @ v)
      else sc_kind s)"

text \<open>\<open>format\<close> is the RFC 3339 text of a time.\<close>

definition task_line :: "(int \<Rightarrow> string) \<Rightarrow> cron_job \<Rightarrow> string" where
  "task_line format job =
     join '' | ''
       ([if cj_enabled job then ''[enabled]'' else ''[paused]'', cj_name job, ''id='' @ cj_id job,
         ''schedule='' @ schedule_summary (cj_schedule job)] @
        (case cj_next job of None \<Rightarrow> [] | Some t \<Rightarrow> [''next='' @ format t]) @
        (case cj_last_run job of None \<Rightarrow> [] | Some t \<Rightarrow> [''last='' @ format t]) @
        (if cj_running job then [''running''] else []))"

definition agent_jobs :: "string \<Rightarrow> auto_state \<Rightarrow> cron_job list" where
  "agent_jobs agent s =
     map (\<lambda>(_, r). (jr_job r)\<lparr>cj_running := jr_running r, cj_next := jr_next r, cj_last_run := jr_last_run r\<rparr>)
       (filter (\<lambda>(_, r). agent = [] \<or> cj_agent (jr_job r) = agent) (au_jobs s))"

text \<open>The first moment of the year 9999, where tasks without a next time sort to.\<close>

definition far_future :: int where
  "far_future = 253370764800 * second"

definition task_sort_key :: "cron_job \<Rightarrow> int" where
  "task_sort_key job = or_else far_future (cj_next job)"

definition summary_limit :: nat where
  "summary_limit = 10"

definition tasks_section :: "(int \<Rightarrow> string) \<Rightarrow> string \<Rightarrow> auto_state \<Rightarrow> string" where
  "tasks_section format agent s =
     (let jobs = sort_key task_sort_key (agent_jobs (trim_space agent) s);
          lines = map (task_line format) (take summary_limit jobs) @
            (if summary_limit < length jobs
             then [''(+'' @ decimal (int (length jobs - summary_limit)) @ '' more, use list_scheduled_tasks for full list)'']
             else [])
      in if jobs = [] then []
         else ''Scheduled tasks (you can manage these via the nexus_automation tools):'' @ CHR 0x0A # ''- '' @
              join (CHR 0x0A # ''- '') lines)"

section \<open>Failed deliveries end\<close>

text \<open>
  A failed delivery that is not given up was attempted one to four times and has a time for its
  next attempt.
\<close>

definition delivery_open :: "cron_run \<Rightarrow> bool" where
  "delivery_open r \<longleftrightarrow> cr_dstatus r = ''failed'' \<and> cr_dead r = None"

definition delivery_ok :: "cron_run \<Rightarrow> bool" where
  "delivery_ok r \<longleftrightarrow> (delivery_open r \<longrightarrow> 0 < cr_dattempts r \<and> cr_dattempts r < max_auto_attempts \<and> cr_dnext r \<noteq> None)"

lemma schedule_failed:
  "delivery_retry_schedule ''failed'' n now = (a, None) \<Longrightarrow>
   0 < n \<and> n < max_auto_attempts \<and> a = Some (now + delivery_backoffs ! (n - 1))"
  by (auto simp: delivery_retry_schedule_def max_auto_attempts_def delivery_backoffs_def split: if_splits)

lemma delivered_status:
  "deliver_observation env job key obs = (status, e, to) \<Longrightarrow>
   status \<in> {''not_required'', ''skipped'', ''failed'', ''succeeded''}"
  by (auto simp: deliver_observation_def Let_def split: if_splits sum.splits)

lemma attempted_failed [simp]: "delivery_attempted ''failed''"
  by (simp add: delivery_attempted_def)

lemma retried_ok:
  defines "r' \<equiv> \<lambda>env job r. delivery_columns (ae_now env) (retried_delivery env job r) r"
  shows "delivery_ok (r' env job r) \<and> (delivery_open (r' env job r) \<longrightarrow> cr_dattempts (r' env job r) = Suc (cr_dattempts r))"
proof -
  obtain status e to where d: "deliver_observation env job (cr_session r) (observation_of_run r) = (status, e, to)"
    by (metis prod.exhaust)
  obtain a dead where s: "delivery_retry_schedule status (cr_dattempts r + (if delivery_attempted status then 1 else 0)) (ae_now env) = (a, dead)"
    by fastforce
  show ?thesis
    using s delivered_status[OF d] schedule_failed[of "Suc (cr_dattempts r)" "ae_now env" a]
    by (auto simp: r'_def delivery_columns_def retried_delivery_def d delivery_ok_def delivery_open_def Let_def)
qed

lemma observed_ok:
  "cr_dattempts r = 0 \<Longrightarrow> delivery_ok (finish_columns (observed_finish env t obs) r)"
proof -
  assume z: "cr_dattempts r = 0"
  define status where "status = (if eo_status obs = [] then ''failed'' else eo_status obs)"
  obtain ds e to where d: "(if status = ''succeeded'' then deliver_observation env (rt_job t) (rt_session t) obs
      else (''not_required'', None, delivery_summary (cj_delivery (rt_job t)))) = (ds, e, to)" by (metis prod.exhaust)
  then have ds: "ds \<in> {''not_required'', ''skipped'', ''failed'', ''succeeded''}"
    using delivered_status by (auto split: if_splits)
  obtain a dead where s: "delivery_retry_schedule ds (if delivery_attempted ds then 1 else 0) (ae_now env) = (a, dead)"
    by fastforce
  show ?thesis
    using z s ds schedule_failed[of 1 "ae_now env" a] d
    by (auto simp: finish_columns_def observed_finish_def finished_delivery_status_def delivery_ok_def
        delivery_open_def Let_def status_def[symmetric] split: prod.splits)
qed

text \<open>One retry of a run, when there is something to retry.\<close>

definition retry_row :: "cron_job \<Rightarrow> auto_env \<Rightarrow> cron_run \<Rightarrow> cron_run" where
  "retry_row job env r =
     (if delivery_open r then delivery_columns (ae_now env) (retried_delivery env job r) r else r)"

lemma retry_row_open:
  "delivery_open r \<Longrightarrow> retry_row job env r = delivery_columns (ae_now env) (retried_delivery env job r) r"
  "\<not> delivery_open r \<Longrightarrow> retry_row job env r = r"
  by (simp_all add: retry_row_def)

lemma retry_rows:
  "delivery_ok r \<Longrightarrow> delivery_open (fold (retry_row job) envs r) \<Longrightarrow>
   delivery_ok (fold (retry_row job) envs r) \<and> delivery_open r \<and>
   cr_dattempts (fold (retry_row job) envs r) = cr_dattempts r + length envs"
proof (induction envs rule: rev_induct)
  case (snoc env envs)
  let ?r = "fold (retry_row job) envs r"
  have o: "delivery_open (retry_row job env ?r)" using snoc.prems(2) by simp
  then have d: "delivery_open ?r" using retry_row_open(2)[of ?r job env] by fastforce
  then show ?case using snoc.IH[OF snoc.prems(1)] retried_ok[of env job ?r] o d
    by (simp add: retry_row_open(1))
qed simp

text \<open>C15. However the deliveries of a finished run go, at most four retries settle it: the
  delivery is no longer failed, or it is given up with a time of death. (The first attempt is
  the one at the end of the run; after each failure the next attempt has its time.)\<close>
theorem delivery_retries_end:
  assumes "cr_dattempts r = 0" "4 \<le> length envs"
  shows "\<not> delivery_open (fold (retry_row job) envs (finish_columns (observed_finish env t obs) r))"
proof
  let ?r = "finish_columns (observed_finish env t obs) r"
  assume o: "delivery_open (fold (retry_row job) envs ?r)"
  have ok: "delivery_ok ?r" using assms(1) by (rule observed_ok)
  note rows = retry_rows[OF ok o]
  then have "0 < cr_dattempts ?r" using ok by (simp add: delivery_ok_def)
  then show False using rows o assms(2) by (simp add: delivery_ok_def max_auto_attempts_def)
qed

definition auto_example :: auto_env where
  "auto_example =
     \<lparr>ae_clock = clock_example, ae_now = 1000, ae_run = ''run_1'', ae_round = ''round_1'', ae_event = ''evt_1'',
      ae_read_error = None, ae_claim_error = None, ae_insert_error = None, ae_running_error = None,
      ae_event_error = None, ae_finish_error = None, ae_dispatch_error = None, ae_router = True,
      ae_deliver = (\<lambda>_. Inl ''offline''), ae_artifact = None, ae_timeout = 0, ae_timeout_text = ''timeout'',
      ae_heart = heart_example\<rparr>"

definition task_example :: cron_job where
  "task_example =
     \<lparr>cj_id = ''cron_1'', cj_owner = [], cj_name = ''report'', cj_agent = ''a1'', cj_schedule = every_schedule 60,
      cj_instruction = ''sum up'', cj_execution = ''agent'',
      cj_target = \<lparr>st_kind = ''isolated'', st_bound = [], st_named = [], st_wake = ''next-heartbeat''\<rparr>,
      cj_delivery = \<lparr>dt_mode = ''last'', dt_channel = [], dt_to = [], dt_account = [], dt_thread = []\<rparr>,
      cj_source = \<lparr>ts_kind = ''system'', ts_creator = [], ts_context_type = [], ts_context_id = [],
        ts_context_label = [], ts_session = [], ts_session_label = []\<rparr>,
      cj_overlap = ''skip'', cj_enabled = True, cj_next = None, cj_running = False, cj_run_id = [],
      cj_started = None, cj_last_run = None, cj_last_status = [], cj_streak = 0, cj_error = None, cj_delivered = []\<rparr>"

definition run_example :: cron_run where
  "run_example =
     hd (insert_run 0 \<lparr>rp_run = ''run_1'', rp_job = ''cron_1'', rp_owner = [], rp_scheduled = None, rp_trigger = ''manual'',
       rp_session = ''agent:a1:automation:dm:cron:cron_1:run_1'', rp_round = ''round_1'', rp_mode = ''last'',
       rp_to = ''last'', rp_dstatus = [], rp_status = ''running''\<rparr> [])"

definition result_example :: execution_observation where
  "result_example =
     \<lparr>eo_status = ''succeeded'', eo_session = None, eo_count = 1, eo_error = None, eo_assistant = ''all well'', eo_result = []\<rparr>"

lemma delivery_retries_end_witness:
  "\<not> delivery_open (fold (retry_row task_example) [auto_example, auto_example, auto_example, auto_example]
       (finish_columns (observed_finish auto_example
          \<lparr>rt_job = task_example, rt_run = ''run_1'', rt_round = ''round_1'', rt_session = []\<rparr> result_example) run_example))"
  by (rule delivery_retries_end) (simp_all add: run_example_def insert_run_def)

end
