(* ===== verification/AutomationSafety.thy ===== *)
theory AutomationSafety
  imports AutomationTasks
begin

text \<open>
  What the scheduler promises: under the overlap policy "skip" a task never has two runs in
  execution. \<open>occupied k o\<close> says that task \<open>k\<close> is occupied by the run \<open>o\<close> (or free, when
  \<open>o\<close> is empty): its row, its runtime state and the ledger agree on it. Each operation is
  shown to keep the records of other tasks (\<open>agree\<close>) and to move its own task from one
  occupation to another. \<open>auto_step\<close> is the machine of all operations.
\<close>

section \<open>Occupation\<close>

definition executing :: "string \<Rightarrow> cron_run \<Rightarrow> bool" where
  "executing k r \<longleftrightarrow> cr_job r = k \<and> cr_status r = ''running''"

definition occupied :: "string \<Rightarrow> string \<Rightarrow> auto_state \<Rightarrow> bool" where
  "occupied k w s \<longleftrightarrow> trimmed w \<and>
     (\<forall>row \<in> set (au_table s). cj_id row = k \<longrightarrow> cj_run_id row = w) \<and>
     (\<forall>m. map_of (au_jobs s) k = Some m \<longrightarrow>
        jr_run_id m = w \<and> jr_count m = (if w = [] then 0 else 1) \<and> jr_running m = (w \<noteq> [])) \<and>
     (\<forall>r \<in> set (au_runs s). executing k r \<longrightarrow> cr_id r = w \<and> w \<noteq> [])"

text \<open>What holds of the tables and states as a whole.\<close>

definition owns :: "cron_run list \<Rightarrow> string \<Rightarrow> string \<Rightarrow> bool" where
  "owns runs j w \<longleftrightarrow> (\<forall>r \<in> set runs. cr_id r = trim_space w \<longrightarrow> cr_job r = j)"

definition table_ok :: "cron_run list \<Rightarrow> cron_job list \<Rightarrow> bool" where
  "table_ok runs tab \<longleftrightarrow> distinct (map cj_id tab) \<and>
     (\<forall>row \<in> set tab. trimmed (cj_id row) \<and> cj_id row \<noteq> [] \<and> owns runs (cj_id row) (cj_run_id row))"

definition jobs_ok :: "cron_run list \<Rightarrow> (string \<times> job_runtime) list \<Rightarrow> bool" where
  "jobs_ok runs jobs \<longleftrightarrow> distinct (map fst jobs) \<and>
     (\<forall>k m. map_of jobs k = Some m \<longrightarrow> trimmed k \<and> k \<noteq> [] \<and> cj_id (jr_job m) = k \<and> owns runs k (jr_run_id m))"

definition flying_ok :: "cron_run list \<Rightarrow> run_task \<Rightarrow> bool" where
  "flying_ok runs t \<longleftrightarrow>
     (\<exists>r \<in> set runs. cr_id r = trim_space (rt_run t) \<and> cr_job r = cj_id (rt_job t) \<and> cr_status r \<noteq> ''pending'')"

definition base_ok :: "auto_state \<Rightarrow> bool" where
  "base_ok s \<longleftrightarrow>
     distinct (map cr_id (au_runs s)) \<and> (\<forall>r \<in> set (au_runs s). cr_id r \<noteq> []) \<and> table_ok (au_runs s) (au_table s) \<and> jobs_ok (au_runs s) (au_jobs s) \<and>
     (\<forall>t \<in> set (au_flying s). flying_ok (au_runs s) t \<and> trimmed (cj_id (rt_job t))) \<and>
     (\<forall>j \<in> set (au_disabling s). trimmed (cj_id j) \<and> cj_id j \<noteq> [])"

text \<open>Two states with the same records of a task.\<close>

definition agree :: "string \<Rightarrow> auto_state \<Rightarrow> auto_state \<Rightarrow> bool" where
  "agree k s s' \<longleftrightarrow>
     map_of (au_jobs s') k = map_of (au_jobs s) k \<and>
     map cj_run_id (filter (\<lambda>j. cj_id j = k) (au_table s')) = map cj_run_id (filter (\<lambda>j. cj_id j = k) (au_table s)) \<and>
     map cr_id (filter (executing k) (au_runs s')) = map cr_id (filter (executing k) (au_runs s))"

lemma agree_refl [simp]: "agree k s s"
  by (simp add: agree_def)

lemma agree_trans: "agree k s t \<Longrightarrow> agree k t u \<Longrightarrow> agree k s u"
  by (simp add: agree_def)

lemma occupied_alt:
  "occupied k w s \<longleftrightarrow> trimmed w \<and>
     set (map cj_run_id (filter (\<lambda>j. cj_id j = k) (au_table s))) \<subseteq> {w} \<and>
     (\<forall>m. map_of (au_jobs s) k = Some m \<longrightarrow>
        jr_run_id m = w \<and> jr_count m = (if w = [] then 0 else 1) \<and> jr_running m = (w \<noteq> [])) \<and>
     set (map cr_id (filter (executing k) (au_runs s))) \<subseteq> {w} - {[]}"
proof -
  have sub: "set (map f (filter P xs)) \<subseteq> A \<longleftrightarrow> (\<forall>x \<in> set xs. P x \<longrightarrow> f x \<in> A)"
    for f :: "'a \<Rightarrow> string" and P xs A by auto
  have mem: "x \<in> {w} - {[]} \<longleftrightarrow> x = w \<and> w \<noteq> []" for x by auto
  show ?thesis unfolding occupied_def sub mem singleton_iff by (rule refl)
qed

lemma agree_occupied: "agree k s s' \<Longrightarrow> occupied k w s' \<longleftrightarrow> occupied k w s"
  unfolding occupied_alt agree_def by simp

lemma agree_other [simp]:
  "agree k s (s\<lparr>au_disabling := x\<rparr>)" "agree k s (s\<lparr>au_flying := y\<rparr>)" "agree k s (s\<lparr>au_heart := h\<rparr>)"
  by (simp_all add: agree_def)

lemma occupied_other [simp]:
  "occupied k w (s\<lparr>au_disabling := x\<rparr>) = occupied k w s" "occupied k w (s\<lparr>au_flying := y\<rparr>) = occupied k w s"
  "occupied k w (s\<lparr>au_heart := h\<rparr>) = occupied k w s"
  by (simp_all add: occupied_def)

section \<open>Runtime states and rows\<close>

lemma set_runtime_sel [simp]:
  "map_of (au_jobs (set_runtime j r s)) k = (if k = j then Some r else map_of (au_jobs s) k)"
  "au_table (set_runtime j r s) = au_table s" "au_runs (set_runtime j r s) = au_runs s"
  "au_flying (set_runtime j r s) = au_flying s" "au_disabling (set_runtime j r s) = au_disabling s"
  by (simp_all add: set_runtime_def)

lemma persist_sel [simp]:
  "au_jobs (persist_runtime u s) = au_jobs s" "au_runs (persist_runtime u s) = au_runs s"
  "au_flying (persist_runtime u s) = au_flying s" "au_disabling (persist_runtime u s) = au_disabling s"
  by (simp_all add: persist_runtime_def)

lemma persist_table:
  "trimmed (ju_job u) \<Longrightarrow> ju_job u \<noteq> [] \<Longrightarrow> au_table (persist_runtime u s) = update_runtime u (au_table s)"
  by (simp add: persist_runtime_def)

lemma update_runtime_ids: "map cj_id (update_runtime u tab) = map cj_id tab"
  by (simp add: update_runtime_def)

lemma update_runtime_row:
  "row \<in> set (update_runtime u tab) \<Longrightarrow>
   \<exists>row' \<in> set tab. cj_id row = cj_id row' \<and>
     cj_run_id row = (if cj_id row' = trim_space (ju_job u) then trim_space (ju_run_id u) else cj_run_id row')"
  by (auto simp: update_runtime_def split: if_splits)

lemma update_runtime_other:
  "k \<noteq> trim_space (ju_job u) \<Longrightarrow>
   map cj_run_id (filter (\<lambda>j. cj_id j = k) (update_runtime u tab)) = map cj_run_id (filter (\<lambda>j. cj_id j = k) tab)"
  by (induction tab) (auto simp: update_runtime_def)

lemma agree_set_runtime: "k \<noteq> j \<Longrightarrow> agree k s (set_runtime j r s)"
  by (simp add: agree_def)

lemma agree_persist: "k \<noteq> trim_space (ju_job u) \<Longrightarrow> agree k s (persist_runtime u s)"
  by (simp add: agree_def) (simp add: persist_runtime_def update_runtime_other)

text \<open>Setting the state of a task and writing it to the row.\<close>

definition write_runtime :: "string \<Rightarrow> job_runtime \<Rightarrow> auto_state \<Rightarrow> auto_state" where
  "write_runtime j r s = persist_runtime (update_of_runtime j r) (set_runtime j r s)"

lemma agree_write: "trimmed j \<Longrightarrow> k \<noteq> j \<Longrightarrow> agree k s (write_runtime j r s)"
  unfolding write_runtime_def
  by (rule agree_trans[OF agree_set_runtime agree_persist]) (simp_all add: update_of_runtime_def)

lemma write_occupied:
  assumes "trimmed j" "j \<noteq> []" "trimmed w" "jr_run_id r = w" "jr_count r = (if w = [] then 0 else 1)"
    "jr_running r = (w \<noteq> [])" "\<forall>x \<in> set (au_runs s). executing j x \<longrightarrow> cr_id x = w \<and> w \<noteq> []"
  shows "occupied j w (write_runtime j r s)"
  using assms unfolding occupied_def write_runtime_def
  by (auto simp: persist_table update_of_runtime_def dest!: update_runtime_row)

lemma table_ok_update:
  "table_ok runs tab \<Longrightarrow> owns runs (trim_space (ju_job u)) (ju_run_id u) \<Longrightarrow> table_ok runs (update_runtime u tab)"
  by (auto simp: table_ok_def update_runtime_ids owns_def dest!: update_runtime_row split: if_splits)

lemma write_sel [simp]:
  "au_runs (write_runtime j r s) = au_runs s" "au_flying (write_runtime j r s) = au_flying s"
  "au_disabling (write_runtime j r s) = au_disabling s"
  "map_of (au_jobs (write_runtime j r s)) k = (if k = j then Some r else map_of (au_jobs s) k)"
  by (simp_all add: write_runtime_def)

lemma write_table:
  "trimmed j \<Longrightarrow> j \<noteq> [] \<Longrightarrow> au_table (write_runtime j r s) = update_runtime (update_of_runtime j r) (au_table s)"
  by (simp add: write_runtime_def persist_table update_of_runtime_def)

lemma jobs_ok_set:
  "jobs_ok runs jobs \<Longrightarrow> trimmed j \<Longrightarrow> j \<noteq> [] \<Longrightarrow> cj_id (jr_job r) = j \<Longrightarrow> owns runs j (jr_run_id r) \<Longrightarrow>
   jobs_ok runs (AList.update j r jobs)"
  by (auto simp: jobs_ok_def distinct_update)

lemma write_base:
  assumes "base_ok s" "trimmed j" "j \<noteq> []" "cj_id (jr_job r) = j" "owns (au_runs s) j (jr_run_id r)"
  shows "base_ok (write_runtime j r s)"
proof -
  have "table_ok (au_runs s) (update_runtime (update_of_runtime j r) (au_table s))"
    using assms by (intro table_ok_update) (auto simp: base_ok_def update_of_runtime_def owns_def)
  moreover have "jobs_ok (au_runs s) (au_jobs (write_runtime j r s))"
    using assms jobs_ok_set[of "au_runs s" "au_jobs s" j r]
    by (simp add: base_ok_def write_runtime_def set_runtime_def)
  ultimately show ?thesis using assms by (simp add: base_ok_def write_table)
qed

lemma set_base:
  assumes "base_ok s" "trimmed j" "j \<noteq> []" "cj_id (jr_job r) = j" "owns (au_runs s) j (jr_run_id r)"
  shows "base_ok (set_runtime j r s)"
  using assms jobs_ok_set[of "au_runs s" "au_jobs s" j r] by (simp add: base_ok_def set_runtime_def)

lemma base_disabling:
  "base_ok s \<Longrightarrow> trimmed (cj_id j) \<Longrightarrow> cj_id j \<noteq> [] \<Longrightarrow> base_ok (s\<lparr>au_disabling := au_disabling s @ [j]\<rparr>)"
  by (auto simp: base_ok_def)

lemma base_jobs:
  "base_ok s \<Longrightarrow> map_of (au_jobs s) k = Some m \<Longrightarrow>
   trimmed k \<and> k \<noteq> [] \<and> cj_id (jr_job m) = k \<and> owns (au_runs s) k (jr_run_id m)"
  by (simp add: base_ok_def jobs_ok_def)

lemma base_ids: "base_ok s \<Longrightarrow> r \<in> set (au_runs s) \<Longrightarrow> cr_id r \<noteq> []"
  by (simp add: base_ok_def)

lemma base_row:
  "base_ok s \<Longrightarrow> row \<in> set (au_table s) \<Longrightarrow>
   trimmed (cj_id row) \<and> cj_id row \<noteq> [] \<and> owns (au_runs s) (cj_id row) (cj_run_id row)"
  by (simp add: base_ok_def table_ok_def)

lemma owns_Nil_run: "owns runs j w \<Longrightarrow> trim_space v = trim_space w \<Longrightarrow> owns runs j v"
  by (simp add: owns_def)

section \<open>The effect of an operation on one task\<close>

text \<open>The state stays well formed and the other tasks keep their records.\<close>

definition frame :: "string \<Rightarrow> auto_state \<Rightarrow> auto_state \<Rightarrow> bool" where
  "frame j s s' \<longleftrightarrow> base_ok s' \<and> (\<forall>k. k \<noteq> j \<longrightarrow> agree k s s')"

lemma frame_refl: "base_ok s \<Longrightarrow> frame j s s"
  by (simp add: frame_def)

lemma frame_trans: "frame j s t \<Longrightarrow> frame j t u \<Longrightarrow> frame j s u"
  by (auto simp: frame_def intro: agree_trans)

lemma frame_base: "frame j s t \<Longrightarrow> base_ok t"
  by (simp add: frame_def)

lemma write_frame:
  "base_ok s \<Longrightarrow> trimmed j \<Longrightarrow> j \<noteq> [] \<Longrightarrow> cj_id (jr_job r) = j \<Longrightarrow> owns (au_runs s) j (jr_run_id r) \<Longrightarrow>
   frame j s (write_runtime j r s)"
  by (auto simp: frame_def write_base agree_write)

lemma set_frame:
  "base_ok s \<Longrightarrow> trimmed j \<Longrightarrow> j \<noteq> [] \<Longrightarrow> cj_id (jr_job r) = j \<Longrightarrow> owns (au_runs s) j (jr_run_id r) \<Longrightarrow>
   frame j s (set_runtime j r s)"
  by (auto simp: frame_def set_base agree_set_runtime)

lemma frame_disabling:
  "frame j s t \<Longrightarrow> trimmed (cj_id x) \<Longrightarrow> cj_id x \<noteq> [] \<Longrightarrow> au_disabling t = d \<Longrightarrow>
   frame j s (t\<lparr>au_disabling := d @ [x]\<rparr>)"
  by (auto simp: frame_def base_disabling intro: agree_trans)

section \<open>Operations on the runtime state\<close>

lemma runtime_of_job_sel [simp]:
  "jr_job (runtime_of_job job c) = job" "jr_run_id (runtime_of_job job c) = trim_space (cj_run_id job)"
  "jr_count (runtime_of_job job c) = c" "jr_running (runtime_of_job job c) = (trim_space (cj_run_id job) \<noteq> [])"
  by (simp_all add: runtime_of_job_def)

lemma ensured_sel:
  "jr_job (ensured_runtime ck now job old) = job"
  "case old of
     None \<Rightarrow> jr_run_id (ensured_runtime ck now job old) = trim_space (cj_run_id job) \<and>
       jr_count (ensured_runtime ck now job old) = (if trim_space (cj_run_id job) \<noteq> [] then 1 else 0) \<and>
       jr_running (ensured_runtime ck now job old) = (trim_space (cj_run_id job) \<noteq> [])
   | Some m \<Rightarrow> jr_run_id (ensured_runtime ck now job old) = jr_run_id m \<and>
       jr_count (ensured_runtime ck now job old) = jr_count m \<and>
       jr_running (ensured_runtime ck now job old) = jr_running m"
  by (simp_all add: ensured_runtime_def Let_def split: option.split)

text \<open>The state that \<open>ensureJobState\<close> leaves: that of the task, or a new one from its columns.\<close>

lemma ensure_result:
  assumes "ensure_job_state ck now job s = (r, s')"
  shows "jr_job r = job \<and>
    (case map_of (au_jobs s) (cj_id job) of
       None \<Rightarrow> jr_run_id r = trim_space (cj_run_id job) \<and> jr_count r = (if trim_space (cj_run_id job) \<noteq> [] then 1 else 0) \<and>
         jr_running r = (trim_space (cj_run_id job) \<noteq> [])
     | Some m \<Rightarrow> jr_run_id r = jr_run_id m \<and> jr_count r = jr_count m \<and> jr_running r = jr_running m) \<and>
    (s' = set_runtime (cj_id job) r s \<or>
     s' = (set_runtime (cj_id job) r s)\<lparr>au_disabling := au_disabling (set_runtime (cj_id job) r s) @ [job]\<rparr>)"
proof -
  let ?s = "set_runtime (cj_id job) r s"
  have r: "r = ensured_runtime ck now job (map_of (au_jobs s) (cj_id job))"
    using assms by (simp add: ensure_job_state_def Let_def)
  have "s' = ?s \<or> s' = ?s\<lparr>au_disabling := au_disabling ?s @ [job]\<rparr>"
    using assms unfolding r by (simp add: ensure_job_state_def Let_def split: if_splits)
  moreover note ensured_sel[of ck now job "map_of (au_jobs s) (cj_id job)", folded r]
  ultimately show ?thesis by (intro conjI)
qed

text \<open>A task whose own columns are those of its runtime state, or of its row.\<close>

definition job_fits :: "cron_job \<Rightarrow> auto_state \<Rightarrow> bool" where
  "job_fits job s \<longleftrightarrow> trimmed (cj_id job) \<and> cj_id job \<noteq> [] \<and>
     (map_of (au_jobs s) (cj_id job) = None \<longrightarrow>
        owns (au_runs s) (cj_id job) (cj_run_id job) \<and>
        (\<forall>w. occupied (cj_id job) w s \<longrightarrow> trim_space (cj_run_id job) = w))"

lemma ensure_frame:
  assumes "base_ok s" "job_fits job s" "ensure_job_state ck now job s = (r, s')"
  shows "frame (cj_id job) s s'"
proof -
  note e = ensure_result[OF assms(3)]
  have t: "trimmed (cj_id job)" "cj_id job \<noteq> []" using assms(2) by (auto simp: job_fits_def)
  have "owns (au_runs s) (cj_id job) (jr_run_id r)"
    using e base_jobs[OF assms(1), of "cj_id job"] assms(2)
    by (cases "map_of (au_jobs s) (cj_id job)") (auto simp: job_fits_def intro: owns_Nil_run)
  then have "frame (cj_id job) s (set_runtime (cj_id job) r s)"
    using e t assms(1) by (intro set_frame) auto
  then show ?thesis using e t by (auto intro: frame_disabling)
qed

lemma set_occupied:
  assumes "occupied j w s" "jr_run_id r = w" "jr_count r = (if w = [] then 0 else 1)" "jr_running r = (w \<noteq> [])"
  shows "occupied j w (set_runtime j r s)"
  using assms by (auto simp: occupied_def)

lemma occupied_state:
  "occupied j w s \<Longrightarrow> map_of (au_jobs s) j = Some m \<Longrightarrow>
   jr_run_id m = w \<and> jr_count m = (if w = [] then 0 else 1) \<and> jr_running m = (w \<noteq> [])"
  by (simp add: occupied_def)

lemma occupied_trimmed: "occupied j w s \<Longrightarrow> trimmed w"
  by (simp add: occupied_def)

lemma ensure_occupied:
  assumes "occupied (cj_id job) w s" "job_fits job s" "ensure_job_state ck now job s = (r, s')"
  shows "occupied (cj_id job) w s' \<and> map_of (au_jobs s') (cj_id job) = Some r \<and> jr_running r = (w \<noteq> []) \<and>
    au_table s' = au_table s \<and> au_runs s' = au_runs s"
proof -
  note e = ensure_result[OF assms(3)]
  have w: "map_of (au_jobs s) (cj_id job) = None \<Longrightarrow> trim_space (cj_run_id job) = w"
    using assms(1,2) by (simp add: job_fits_def)
  have "jr_run_id r = w \<and> jr_count r = (if w = [] then 0 else 1) \<and> jr_running r = (w \<noteq> [])"
    using e w occupied_state[OF assms(1)] by (cases "map_of (au_jobs s) (cj_id job)") auto
  then show ?thesis using e set_occupied[OF assms(1)] by auto
qed

lemma finished_runtime_sel:
  "jr_job (finished_runtime ck now f st msg d r) = jr_job r"
  "jr_count r \<le> 1 \<Longrightarrow> jr_run_id (finished_runtime ck now f st msg d r) = []"
  "jr_count r \<le> 1 \<Longrightarrow> jr_count (finished_runtime ck now f st msg d r) = 0"
  "jr_count r \<le> 1 \<Longrightarrow> \<not> jr_running (finished_runtime ck now f st msg d r)"
  "jr_run_id (finished_runtime ck now f st msg d r) \<in> {[], jr_run_id r}"
  by (auto simp: finished_runtime_def Let_def)

lemma finish_frame:
  assumes "base_ok s"
  shows "frame j s (finish_job_runtime ck now j f st msg d s)"
proof (cases "map_of (au_jobs s) j")
  case None
  then show ?thesis using assms by (simp add: finish_job_runtime_def frame_refl)
next
  case (Some m)
  let ?r = "finished_runtime ck now f st msg d m"
  note b = base_jobs[OF assms Some]
  have "owns (au_runs s) j (jr_run_id ?r)"
    using finished_runtime_sel(5)[of ck now f st msg d m] b base_ids[OF assms] by (auto simp: owns_def)
  then have "frame j s (write_runtime j ?r s)"
    using b assms by (intro write_frame) (auto simp: finished_runtime_sel(1))
  then show ?thesis
    using Some b by (auto simp: finish_job_runtime_def write_runtime_def finished_runtime_sel(1) Let_def intro: frame_disabling)
qed

lemma finish_occupied:
  assumes "base_ok s" "occupied j w s" "\<forall>r \<in> set (au_runs s). \<not> executing j r"
  shows "\<exists>w'. occupied j w' (finish_job_runtime ck now j f st msg d s)"
proof (cases "map_of (au_jobs s) j")
  case None
  then show ?thesis using assms(2) by (auto simp: finish_job_runtime_def)
next
  case (Some m)
  let ?r = "finished_runtime ck now f st msg d m"
  note b = base_jobs[OF assms(1) Some]
  have "jr_count m \<le> 1" using occupied_state[OF assms(2) Some] by simp
  then have "occupied j [] (write_runtime j ?r s)"
    using b assms(3) by (intro write_occupied) (auto simp: finished_runtime_sel)
  then show ?thesis
    using Some by (intro exI[of _ "[]"]) (auto simp: finish_job_runtime_def write_runtime_def Let_def)
qed

lemma finish_sel [simp]:
  "au_runs (finish_job_runtime ck now j f st msg d s) = au_runs s"
  "au_flying (finish_job_runtime ck now j f st msg d s) = au_flying s"
  by (simp_all add: finish_job_runtime_def Let_def split: option.split)


section \<open>The ledger\<close>

text \<open>A run id that no entry of the ledger has and no other task holds.\<close>

definition fresh_for :: "string \<Rightarrow> string \<Rightarrow> auto_state \<Rightarrow> bool" where
  "fresh_for j w s \<longleftrightarrow> trimmed w \<and> w \<noteq> [] \<and> w \<notin> cr_id ` set (au_runs s) \<and>
     (\<forall>row \<in> set (au_table s). trim_space (cj_run_id row) = w \<longrightarrow> cj_id row = j) \<and>
     (\<forall>k m. map_of (au_jobs s) k = Some m \<and> trim_space (jr_run_id m) = w \<longrightarrow> k = j)"

lemma agree_rows:
  "agree k s s' \<Longrightarrow> row \<in> set (au_table s') \<Longrightarrow> cj_id row = k \<Longrightarrow>
   \<exists>row' \<in> set (au_table s). cj_id row' = k \<and> cj_run_id row' = cj_run_id row"
proof -
  assume a: "agree k s s'" and r: "row \<in> set (au_table s')" "cj_id row = k"
  have "cj_run_id row \<in> set (map cj_run_id (filter (\<lambda>j. cj_id j = k) (au_table s')))" using r by simp
  then have "cj_run_id row \<in> set (map cj_run_id (filter (\<lambda>j. cj_id j = k) (au_table s)))"
    using a unfolding agree_def by metis
  then show ?thesis by auto
qed

lemma fresh_frame:
  assumes "fresh_for j w s" "frame j s s'" "w \<notin> cr_id ` set (au_runs s')"
  shows "fresh_for j w s'"
proof -
  have ag: "k \<noteq> j \<Longrightarrow> agree k s s'" for k using assms(2) by (simp add: frame_def)
  have rows: "cj_id row = j" if r: "row \<in> set (au_table s')" "trim_space (cj_run_id row) = w" for row
  proof (rule ccontr)
    assume n: "cj_id row \<noteq> j"
    obtain row' where "row' \<in> set (au_table s)" "cj_id row' = cj_id row" "cj_run_id row' = cj_run_id row"
      using agree_rows[OF ag[OF n] r(1) refl] by blast
    then show False using assms(1) r(2) n by (auto simp: fresh_for_def)
  qed
  have states: "k = j" if "map_of (au_jobs s') k = Some m" "trim_space (jr_run_id m) = w" for k m
  proof (rule ccontr)
    assume n: "k \<noteq> j"
    then have "map_of (au_jobs s) k = Some m" using that(1) ag[OF n] by (simp add: agree_def)
    then show False using assms(1) that(2) n by (auto simp: fresh_for_def)
  qed
  show ?thesis using assms(1,3) rows states by (auto simp: fresh_for_def)
qed

text \<open>Changes of an entry that keep its id and task and do not make it pending.\<close>

definition keeps_entry :: "(cron_run \<Rightarrow> cron_run) \<Rightarrow> bool" where
  "keeps_entry f \<longleftrightarrow> (\<forall>r. cr_id (f r) = cr_id r \<and> cr_job (f r) = cr_job r \<and> (cr_status r \<noteq> ''pending'' \<longrightarrow> cr_status (f r) \<noteq> ''pending''))"

lemma keeps_entry_columns [simp]:
  "keeps_entry (running_columns now)" "keeps_entry (delivery_columns now u)"
  "trim_space (rf_status f) \<noteq> ''pending'' \<Longrightarrow> keeps_entry (finish_columns f)"
  by (simp_all add: keeps_entry_def)

lemma change_ids:
  "keeps_entry f \<Longrightarrow> map cr_id (change_runs P f runs) = map cr_id runs"
  "keeps_entry f \<Longrightarrow> owns (change_runs P f runs) j w = owns runs j w"
proof -
  have same: "cr_id (if P r then f r else r) = cr_id r \<and> cr_job (if P r then f r else r) = cr_job r"
    if "keeps_entry f" for r using that by (simp add: keeps_entry_def)
  show "keeps_entry f \<Longrightarrow> map cr_id (change_runs P f runs) = map cr_id runs"
    using same by (simp add: change_runs_def)
  show "keeps_entry f \<Longrightarrow> owns (change_runs P f runs) j w = owns runs j w"
    unfolding change_runs_def owns_def set_map ball_simps(9) using same by simp
qed

lemma change_set_ids: "keeps_entry f \<Longrightarrow> cr_id ` set (change_runs P f runs) = cr_id ` set runs"
  by (metis change_ids(1) list.set_map)

lemma change_flying:
  assumes "keeps_entry f" "flying_ok runs t"
  shows "flying_ok (change_runs P f runs) t"
proof -
  obtain r where "r \<in> set runs" "cr_id r = trim_space (rt_run t)" "cr_job r = cj_id (rt_job t)" "cr_status r \<noteq> ''pending''"
    using assms(2) by (auto simp: flying_ok_def)
  then show ?thesis using assms(1) unfolding flying_ok_def change_runs_def
    by (intro bexI[of _ "if P r then f r else r"]) (auto simp: keeps_entry_def)
qed

lemma change_base:
  assumes "base_ok s" "keeps_entry f"
  shows "base_ok (s\<lparr>au_runs := change_runs P f (au_runs s)\<rparr>)"
proof -
  have "\<forall>r \<in> set (change_runs P f (au_runs s)). cr_id r \<noteq> []"
    using assms by (auto simp: base_ok_def change_runs_def keeps_entry_def)
  then show ?thesis using assms
    by (auto simp: base_ok_def change_ids table_ok_def jobs_ok_def intro: change_flying)
qed

lemma change_filter:
  assumes "keeps_entry f" "\<forall>r \<in> set runs. P r \<longrightarrow> cr_job r \<noteq> k"
  shows "map cr_id (filter (executing k) (change_runs P f runs)) = map cr_id (filter (executing k) runs)"
  using assms by (induction runs) (auto simp: change_runs_def keeps_entry_def executing_def)

lemma ledger_change_frame:
  assumes "base_ok s" "keeps_entry f" "\<forall>r \<in> set (au_runs s). P r \<longrightarrow> cr_job r = j"
  shows "frame j s (s\<lparr>au_runs := change_runs P f (au_runs s)\<rparr>)"
  using assms change_base[OF assms(1,2)] by (auto simp: frame_def agree_def intro!: change_filter)

lemma change_occupied:
  assumes "occupied k w s" "keeps_entry f"
    "\<forall>r \<in> set (au_runs s). P r \<and> cr_job r = k \<longrightarrow> cr_status (f r) = ''running'' \<longrightarrow> cr_id r = w \<and> w \<noteq> []"
  shows "occupied k w (s\<lparr>au_runs := change_runs P f (au_runs s)\<rparr>)"
  using assms by (auto simp: occupied_def change_runs_def keeps_entry_def executing_def)

text \<open>A new entry that is not yet executing.\<close>

lemma insert_frame:
  assumes "base_ok s" "fresh_for j w s" "cr_id r = w" "cr_job r = j" "cr_status r \<noteq> ''running''"
  shows "frame j s (s\<lparr>au_runs := au_runs s @ [r]\<rparr>)"
proof -
  have own: "owns (au_runs s @ [r]) k v" if "owns (au_runs s) k v" "trim_space v = w \<longrightarrow> k = j" for k v
    using that assms(3,4) by (auto simp: owns_def)
  have "table_ok (au_runs s @ [r]) (au_table s)"
    using assms(1,2) own by (simp add: base_ok_def table_ok_def fresh_for_def)
  moreover have "jobs_ok (au_runs s @ [r]) (au_jobs s)"
    using assms(1,2) own base_jobs[OF assms(1)] unfolding jobs_ok_def base_ok_def fresh_for_def by blast
  moreover have "flying_ok (au_runs s @ [r]) t" if "t \<in> set (au_flying s)" for t
    using that assms(1) by (auto simp: base_ok_def flying_ok_def)
  ultimately have "base_ok (s\<lparr>au_runs := au_runs s @ [r]\<rparr>)"
    using assms(1,2,3) by (auto simp: base_ok_def fresh_for_def)
  moreover have "agree k s (s\<lparr>au_runs := au_runs s @ [r]\<rparr>)" for k
    using assms(5) by (simp add: agree_def executing_def)
  ultimately show ?thesis by (simp add: frame_def)
qed

lemma insert_occupied:
  "occupied k w s \<Longrightarrow> cr_status r \<noteq> ''running'' \<Longrightarrow> occupied k w (s\<lparr>au_runs := au_runs s @ [r]\<rparr>)"
  by (auto simp: occupied_def executing_def)


section \<open>Starting a run\<close>

lemma row_fits:
  assumes "base_ok s" "get_job owner job_id (au_table s) = Some job"
  shows "job_fits job s" "job \<in> set (au_table s)"
proof -
  show row: "job \<in> set (au_table s)" using assms(2) by (auto simp: get_job_def find_Some_iff)
  then show "job_fits job s" using base_row[OF assms(1) row] by (auto simp: job_fits_def occupied_def)
qed

lemma state_fits:
  "base_ok s \<Longrightarrow> map_of (au_jobs s) k = Some r \<Longrightarrow> cj_id (jr_job r) = k \<and> job_fits (jr_job r) s"
  using base_jobs[of s k r] by (auto simp: job_fits_def)

lemma advance_as_write:
  "map_of (au_jobs s) j = Some m \<Longrightarrow>
   \<exists>r. jr_job r = jr_job m \<and> jr_run_id r = jr_run_id m \<and> jr_count r = jr_count m \<and> jr_running r = jr_running m \<and>
     (let s' = advance_after_trigger ck j scheduled True s in
      s' = write_runtime j r s \<or> s' = (write_runtime j r s)\<lparr>au_disabling := au_disabling s @ [jr_job m]\<rparr>)"
  by (rule exI[of _ "m\<lparr>jr_last_run := Some scheduled, jr_last_status := ''skipped'',
        jr_next := compute_job_next ck (jr_job m) (scheduled + second)\<rparr>"])
     (simp add: advance_after_trigger_def write_runtime_def Let_def)

lemma advance_none: "map_of (au_jobs s) j = None \<Longrightarrow> advance_after_trigger ck j scheduled p s = s"
  by (simp add: advance_after_trigger_def)

lemma advance_frame:
  assumes "base_ok s"
  shows "frame j s (advance_after_trigger ck j scheduled True s)"
proof (cases "map_of (au_jobs s) j")
  case (Some m)
  then obtain r where r: "jr_job r = jr_job m" "jr_run_id r = jr_run_id m"
    and s': "advance_after_trigger ck j scheduled True s \<in>
      {write_runtime j r s, (write_runtime j r s)\<lparr>au_disabling := au_disabling s @ [jr_job m]\<rparr>}"
    using advance_as_write[OF Some, of ck scheduled] by (auto simp: Let_def)
  note b = base_jobs[OF assms Some]
  have f: "frame j s (write_runtime j r s)" using b r assms by (intro write_frame) auto
  have "frame j s ((write_runtime j r s)\<lparr>au_disabling := au_disabling s @ [jr_job m]\<rparr>)"
    by (rule frame_disabling[OF f]) (use b in auto)
  then show ?thesis using s' f by auto
qed (simp add: advance_none frame_refl assms)

lemma advance_occupied:
  assumes "base_ok s" "occupied j w s"
  shows "occupied j w (advance_after_trigger ck j scheduled True s)"
proof (cases "map_of (au_jobs s) j")
  case (Some m)
  then obtain r where r: "jr_run_id r = jr_run_id m" "jr_count r = jr_count m" "jr_running r = jr_running m"
    and s': "advance_after_trigger ck j scheduled True s \<in>
      {write_runtime j r s, (write_runtime j r s)\<lparr>au_disabling := au_disabling s @ [jr_job m]\<rparr>}"
    using advance_as_write[OF Some, of ck scheduled] by (auto simp: Let_def)
  have "occupied j w (write_runtime j r s)"
    using base_jobs[OF assms(1) Some] r assms(2) occupied_state[OF assms(2) Some]
    by (intro write_occupied) (auto simp: occupied_def)
  then show ?thesis using s' by auto
qed (simp add: advance_none assms)

lemma insert_run_entry:
  "\<exists>r. insert_run now p runs = runs @ [r] \<and> cr_id r = trim_space (rp_run p) \<and> cr_job r = trim_space (rp_job p) \<and>
     cr_status r = (if trim_space (rp_status p) = [] then ''pending'' else trim_space (rp_status p))"
  by (simp add: insert_run_def)

lemma insert_run_frame:
  assumes "base_ok s" "fresh_for j w s" "trimmed j" "rp_run p = w" "rp_job p = j" "trim_space (rp_status p) \<noteq> ''running''"
  shows "frame j s (s\<lparr>au_runs := insert_run now p (au_runs s)\<rparr>)"
    and "occupied k v s \<Longrightarrow> occupied k v (s\<lparr>au_runs := insert_run now p (au_runs s)\<rparr>)"
    and "r \<in> set (insert_run now p (au_runs s)) \<Longrightarrow> cr_id r = w \<Longrightarrow> cr_job r = j"
proof -
  obtain e where e: "insert_run now p (au_runs s) = au_runs s @ [e]" "cr_id e = w" "cr_job e = j" "cr_status e \<noteq> ''running''"
    using insert_run_entry[of now p "au_runs s"] assms by (auto simp: fresh_for_def split: if_splits)
  show "frame j s (s\<lparr>au_runs := insert_run now p (au_runs s)\<rparr>)"
    unfolding e(1) by (rule insert_frame[OF assms(1,2) e(2-4)])
  show "occupied k v s \<Longrightarrow> occupied k v (s\<lparr>au_runs := insert_run now p (au_runs s)\<rparr>)"
    unfolding e(1) by (rule insert_occupied[OF _ e(4)])
  show "r \<in> set (insert_run now p (au_runs s)) \<Longrightarrow> cr_id r = w \<Longrightarrow> cr_job r = j"
    using e assms(2) by (auto simp: fresh_for_def)
qed

text \<open>The end of the entry of a run of the task.\<close>

lemma finished_run_frame:
  assumes "base_ok s" "trim_space (rf_status f) \<noteq> ''pending''" "\<forall>r \<in> set (au_runs s). cr_id r = trim_space (rf_run f) \<longrightarrow> cr_job r = j"
  shows "frame j s (s\<lparr>au_runs := mark_run_finished f (au_runs s)\<rparr>)"
    and "trim_space (rf_status f) \<noteq> ''running'' \<Longrightarrow> occupied k v s \<Longrightarrow>
      occupied k v (s\<lparr>au_runs := mark_run_finished f (au_runs s)\<rparr>)"
  unfolding mark_run_finished_def
  by (rule ledger_change_frame[OF assms(1)], use assms in auto) (rule change_occupied, use assms in auto)


lemma literal_trimmed [simp]:
  "trimmed ''skipped''" "trimmed ''failed''" "trimmed ''cancelled''" "trimmed ''pending''" "trimmed ''running''"
  "trimmed ''queued_to_main_session''" "trimmed ''skip''"
  by (auto simp: trimmed_iff)

text \<open>An operation on the task of \<open>job\<close>: the frame, and the occupation of the task.\<close>

definition moves :: "string \<Rightarrow> string \<Rightarrow> auto_state \<Rightarrow> auto_state \<Rightarrow> bool" where
  "moves j w s s' \<longleftrightarrow> frame j s s' \<and> (occupied j w s \<longrightarrow> (\<exists>w'. occupied j w' s'))"

lemma record_skipped_moves:
  assumes "base_ok s" "fresh_for (cj_id job) (ae_run env) s" "trimmed (cj_id job)"
  shows "moves (cj_id job) w s (snd (record_skipped env job trigger scheduled True s))"
proof (cases "ae_insert_error env")
  case None
  let ?j = "cj_id job" and ?w = "ae_run env"
  define p where "p = \<lparr>rp_run = ?w, rp_job = ?j, rp_owner = cj_owner job, rp_scheduled = Some scheduled,
                  rp_trigger = trigger, rp_session = [], rp_round = [], rp_mode = trim_space (dt_mode (cj_delivery job)),
                  rp_to = delivery_summary (cj_delivery job), rp_dstatus = [], rp_status = ''skipped''\<rparr>"
  define f where "f = finish_input ?w ''skipped'' (ae_now env) (Some overlap_message)"
  define t where "t = s\<lparr>au_runs := insert_run (ae_now env) p (au_runs s)\<rparr>"
  define u where "u = t\<lparr>au_runs := mark_run_finished f (au_runs t)\<rparr>"
  have p: "rp_run p = ?w" "rp_job p = ?j" "trim_space (rp_status p) \<noteq> ''running''" by (simp_all add: p_def)
  have f: "trim_space (rf_status f) = ''skipped''" "trim_space (rf_run f) = ?w"
    using assms(2) by (simp_all add: f_def finish_input_def fresh_for_def)
  note ins = insert_run_frame[where now = "ae_now env", OF assms(1-3) p, folded t_def] 
  have own: "\<forall>r \<in> set (au_runs t). cr_id r = trim_space (rf_run f) \<longrightarrow> cr_job r = ?j"
    using ins(3) f by (simp add: t_def)
  note fin = finished_run_frame[OF frame_base[OF ins(1)] _ own, folded u_def]
  have fu: "frame ?j s u" by (rule frame_trans[OF ins(1) fin(1)]) (simp add: f)
  have ou: "occupied ?j w s \<Longrightarrow> occupied ?j w u" by (rule fin(2)) (simp_all add: f ins(2))
  have "snd (record_skipped env job trigger scheduled True s) =
     (if trigger = ''cron'' then advance_after_trigger (ae_clock env) ?j scheduled True u else u)"
    using None by (simp add: record_skipped_def u_def t_def p_def f_def Let_def)
  then show ?thesis
    using fu ou advance_frame[OF frame_base[OF fu]] advance_occupied[OF frame_base[OF fu]] frame_trans
    unfolding moves_def by (metis (full_types))
qed (auto simp: record_skipped_def moves_def frame_refl assms(1))

text \<open>A failed or ended run of the task, written to the ledger or not.\<close>

lemma finish_moves:
  assumes "frame j s t" "occupied j w s \<longrightarrow> (\<exists>w'. occupied j w' t) \<and> (\<forall>r \<in> set (au_runs t). \<not> executing j r)"
  shows "moves j w s (finish_job_runtime ck now j f st msg d t)"
  using assms finish_frame[OF frame_base[OF assms(1)]] finish_occupied[OF frame_base[OF assms(1)]]
  by (auto simp: moves_def intro: frame_trans)

lemma not_executing:
  "occupied j [] s \<Longrightarrow> r \<in> set (au_runs s) \<Longrightarrow> \<not> executing j r"
  by (auto simp: occupied_def)

lemma insert_not_executing:
  assumes "\<forall>r \<in> set (au_runs s). \<not> executing j r" "trim_space (rp_status p) \<noteq> ''running''"
  shows "\<forall>r \<in> set (insert_run now p (au_runs s)). \<not> executing j r"
  using assms insert_run_entry[of now p "au_runs s"] by (auto simp: executing_def split: if_splits)

lemma finished_not_executing:
  assumes "\<forall>r \<in> set runs. executing j r \<longrightarrow> cr_id r = trim_space (rf_run f)" "trim_space (rf_status f) \<noteq> ''running''"
  shows "\<forall>r \<in> set (mark_run_finished f runs). \<not> executing j r"
  using assms by (auto simp: mark_run_finished_def change_runs_def executing_def)


text \<open>The claim and the count: the task, free before, is occupied by the new run.\<close>

lemma fresh_owns: "fresh_for j w s \<Longrightarrow> owns (au_runs s) k w"
  by (force simp: owns_def fresh_for_def)

lemma filter_rows_map:
  assumes "\<And>x. cj_id (g x) = cj_id x" "\<And>x. cj_id x = k \<Longrightarrow> cj_run_id (g x) = cj_run_id x"
  shows "map cj_run_id (filter (\<lambda>j. cj_id j = k) (map g tab)) = map cj_run_id (filter (\<lambda>j. cj_id j = k) tab)"
  using assms by (induction tab) auto

lemma row_claim_frame:
  assumes "base_ok s" "fresh_for (cj_id job) (ae_run env) s" "job_fits job s"
  shows "frame (cj_id job) s (snd (claim_run env job trigger n s))"
proof -
  let ?w = "ae_run env"
  define tab where "tab = snd (claim_job (cj_id job) ?w (ae_now env) n (normalize_overlap (cj_overlap job)) (trigger = ''manual'') (au_table s))"
  have row: "\<exists>x \<in> set (au_table s). cj_id row = cj_id x \<and>
      (cj_run_id row = cj_run_id x \<or> cj_run_id row = ?w)" if "row \<in> set tab" for row
    using that assms(2) by (auto simp: tab_def claim_job_def fresh_for_def)
  have ids: "map cj_id tab = map cj_id (au_table s)" by (simp add: tab_def claim_job_def)
  note own = fresh_owns[OF assms(2)]
  have "table_ok (au_runs s) tab"
    using assms(1) ids own row unfolding base_ok_def table_ok_def by metis
  then have "base_ok (s\<lparr>au_table := tab\<rparr>)" using assms(1) by (simp add: base_ok_def)
  moreover have "map cj_run_id (filter (\<lambda>j. cj_id j = k) tab) = map cj_run_id (filter (\<lambda>j. cj_id j = k) (au_table s))"
    if "k \<noteq> cj_id job" for k
  proof -
    have "trim_space (cj_id job) = cj_id job" using assms(3) by (simp add: job_fits_def)
    then show ?thesis using that unfolding tab_def claim_job_def snd_conv
      by (intro filter_rows_map) (auto simp: claimable_def)
  qed
  ultimately have "frame (cj_id job) s (s\<lparr>au_table := tab\<rparr>)" by (simp add: frame_def agree_def)
  then show ?thesis using assms(1)
    by (auto simp: claim_run_def tab_def frame_refl split: option.splits prod.splits)
qed

lemma claim_unclaimed:
  "claim_run env job trigger n s = (Inl e, s') \<Longrightarrow> s' = s"
  "claim_run env job trigger n s = (Inr False, s') \<Longrightarrow> s' = s"
proof -
  have "map (\<lambda>j. if claimable a b c j then g j else j) tab = tab" if "\<not> (\<exists>j \<in> set tab. claimable a b c j)" for a b c g tab
    using that by (induction tab) auto
  then show "claim_run env job trigger n s = (Inr False, s') \<Longrightarrow> s' = s"
    by (auto simp: claim_run_def claim_job_def split: option.splits)
qed (auto simp: claim_run_def split: option.splits prod.splits)

lemma claim_sel:
  "au_runs (snd (claim_run env job trigger n s)) = au_runs s" "au_jobs (snd (claim_run env job trigger n s)) = au_jobs s"
  by (simp_all add: claim_run_def split: option.splits prod.splits)

lemma count_frame:
  assumes "base_ok s" "fresh_for (cj_id job) (ae_run env) s" "job_fits job s"
  shows "frame (cj_id job) s (count_run env job n s)"
proof -
  note own = fresh_owns[OF assms(2)]
  have t: "trimmed (cj_id job)" "cj_id job \<noteq> []" using assms(3) by (auto simp: job_fits_def)
  show ?thesis unfolding count_run_def Let_def
    by (rule set_frame[OF assms(1) t])
       (use own base_jobs[OF assms(1), of "cj_id job"] in \<open>auto split: option.split\<close>)
qed

lemma claimed_occupied:
  assumes "occupied (cj_id job) w s" "job_fits job s" "normalize_overlap (cj_overlap job) = ''skip''"
    "fresh_for (cj_id job) (ae_run env) s" "base_ok s" "claim_run env job trigger n s = (Inr True, t)"
  shows "w = []" "occupied (cj_id job) (ae_run env) (count_run env job n t)"
proof -
  let ?j = "cj_id job" and ?w = "ae_run env" and ?c = "claimable (cj_id job) ''skip'' (trigger = ''manual'')"
  have j: "trimmed ?j" using assms(2) by (simp add: job_fits_def)
  have t: "t = s\<lparr>au_table := map (\<lambda>j. if ?c j then claim_columns ?w (ae_now env) n j else j) (au_table s)\<rparr>"
    and c: "\<exists>x \<in> set (au_table s). ?c x"
    using assms(3,6) by (auto simp: claim_run_def claim_job_def split: option.splits)
  then obtain x where x: "x \<in> set (au_table s)" "?c x" by blast
  then show w: "w = []" using assms(1) j by (auto simp: occupied_def claimable_def)
  have d: "distinct (map cj_id (au_table s))" using assms(5) by (simp add: base_ok_def table_ok_def)
  have tab: "au_table t = map (\<lambda>j. if ?c j then claim_columns ?w (ae_now env) n j else j) (au_table s)"
    by (simp add: t)
  have rows: "cj_run_id row = ?w" if h: "row \<in> set (au_table t)" "cj_id row = ?j" for row
  proof -
    obtain y where y: "y \<in> set (au_table s)" "row = (if ?c y then claim_columns ?w (ae_now env) n y else y)"
      using h(1) unfolding tab set_map by blast
    then have "cj_id y = cj_id x" using h(2) x(2) j by (auto simp: claimable_def split: if_splits)
    then have "y = x" using d x(1) y(1) by (simp add: distinct_map inj_on_def)
    then show ?thesis using y x(2) assms(4) by (simp add: fresh_for_def)
  qed
  have count: "jr_count m = 0" if "map_of (au_jobs t) ?j = Some m" for m
    using that occupied_state[OF assms(1)] w by (simp add: t)
  have ex: "\<not> executing ?j r" if "r \<in> set (au_runs t)" for r
    using that assms(1) w by (auto simp: t occupied_def)
  show "occupied ?j ?w (count_run env job n t)"
    using rows count ex assms(4)
    by (auto simp: occupied_def count_run_def Let_def fresh_for_def split: option.split)
qed


lemma frame_flying:
  assumes "frame j s t" "flying_ok (au_runs t) x" "trimmed (cj_id (rt_job x))"
  shows "frame j s (t\<lparr>au_flying := au_flying t @ [x]\<rparr>)"
  using assms by (auto simp: frame_def base_ok_def intro: agree_trans)

lemma marked_running_frame:
  assumes "base_ok s" "\<forall>r \<in> set (au_runs s). cr_id r = w \<longrightarrow> cr_job r = j"
  shows "frame j s (s\<lparr>au_runs := mark_run_running w now (au_runs s)\<rparr>)"
  unfolding mark_run_running_def by (rule ledger_change_frame[OF assms(1)]) (use assms(2) in auto)

text \<open>The same with the occupation before as an assumption.\<close>

definition goes :: "string \<Rightarrow> bool \<Rightarrow> auto_state \<Rightarrow> auto_state \<Rightarrow> bool" where
  "goes j P s s' \<longleftrightarrow> frame j s s' \<and> (P \<longrightarrow> (\<exists>w. occupied j w s'))"

lemma finish_goes:
  assumes "frame j s t" "P \<longrightarrow> (\<exists>w. occupied j w t) \<and> (\<forall>r \<in> set (au_runs t). \<not> executing j r)"
  shows "goes j P s (finish_job_runtime ck now j f st msg d t)"
  using assms finish_frame[OF frame_base[OF assms(1)]] finish_occupied[OF frame_base[OF assms(1)]] frame_trans
  unfolding goes_def by blast

lemma launch_goes:
  assumes "base_ok s" "fresh_for (cj_id job) (ae_run env) s" "job_fits job s"
    "P \<longrightarrow> occupied (cj_id job) (ae_run env) s \<and> (\<forall>r \<in> set (au_runs s). \<not> executing (cj_id job) r)"
  shows "goes (cj_id job) P s (snd (launch_run env job trigger scheduled key round_id s))"
proof -
  let ?j = "cj_id job" and ?w = "ae_run env"
  define p where "p = \<lparr>rp_run = ?w, rp_job = ?j, rp_owner = cj_owner job, rp_scheduled = Some scheduled,
                  rp_trigger = trigger, rp_session = key, rp_round = round_id,
                  rp_mode = trim_space (dt_mode (cj_delivery job)), rp_to = delivery_summary (cj_delivery job),
                  rp_dstatus = [], rp_status = []\<rparr>"
  define t where "t = s\<lparr>au_runs := insert_run (ae_now env) p (au_runs s)\<rparr>"
  define u where "u = t\<lparr>au_runs := mark_run_running ?w (ae_now env) (au_runs t)\<rparr>"
  have j: "trimmed ?j" and w: "trimmed ?w" using assms(2,3) by (simp_all add: job_fits_def fresh_for_def)
  have p: "rp_run p = ?w" "rp_job p = ?j" "trim_space (rp_status p) \<noteq> ''running''" by (simp_all add: p_def)
  note ins = insert_run_frame[where now = "ae_now env", OF assms(1,2) j p, folded t_def]
  have own: "\<forall>r \<in> set (au_runs t). cr_id r = ?w \<longrightarrow> cr_job r = ?j" using ins(3) by (simp add: t_def)
  have ent: "\<exists>r \<in> set (au_runs t). cr_id r = ?w"
    using insert_run_entry[of "ae_now env" p "au_runs s"] w by (auto simp: t_def p_def)
  note run = marked_running_frame[OF frame_base[OF ins(1)] own, of "ae_now env", folded u_def]
  have fu: "frame ?j s u" by (rule frame_trans[OF ins(1) run])
  have ownu: "\<forall>r \<in> set (au_runs u). cr_id r = ?w \<longrightarrow> cr_job r = ?j"
    using own by (auto simp: u_def mark_run_running_def change_runs_def)
  have exu: "\<forall>r \<in> set (au_runs u). executing ?j r \<longrightarrow> cr_id r = ?w" if P
    using that assms(4) insert_not_executing[of s ?j p "ae_now env"]
    by (auto simp: u_def t_def p_def mark_run_running_def change_runs_def executing_def)
  have ou: "occupied ?j ?w u" if P
  proof -
    have "occupied ?j ?w t" using ins(2) assms(4) that by blast
    then show ?thesis unfolding u_def mark_run_running_def
      by (rule change_occupied) (use assms(2) in \<open>simp_all add: fresh_for_def\<close>)
  qed
  have fly: "flying_ok (au_runs u) x" if "rt_job x = job" "rt_run x = ?w" for x
  proof -
    obtain r where r: "r \<in> set (au_runs t)" "cr_id r = ?w" using ent by blast
    then have "running_columns (ae_now env) r \<in> set (au_runs u)"
      unfolding u_def mark_run_running_def change_runs_def by force
    then show ?thesis unfolding flying_ok_def
      by (rule bexI[rotated]) (use r own that w in simp)
  qed
  define f where "f = (\<lambda>e. finish_input ?w ''failed'' (ae_now env) (Some e))"
  define v where "v = (\<lambda>e. u\<lparr>au_runs := mark_run_finished (f e) (au_runs u)\<rparr>)"
  have f: "trim_space (rf_status (f e)) = ''failed''" "trim_space (rf_run (f e)) = ?w" for e
    using w by (simp_all add: f_def finish_input_def)
  have fv: "frame ?j s (v e)" for e
    unfolding v_def
    by (rule frame_trans[OF fu finished_run_frame(1)[OF frame_base[OF fu]]]) (use ownu f in auto)
  have ov: "occupied ?j ?w (v e) \<and> (\<forall>r \<in> set (au_runs (v e)). \<not> executing ?j r)" if P for e
  proof
    show "occupied ?j ?w (v e)" unfolding v_def
      by (rule finished_run_frame(2)[where j = ?j, OF frame_base[OF fu] _ _ _ ou[OF that]]) (use ownu f in simp_all)
    show "\<forall>r \<in> set (au_runs (v e)). \<not> executing ?j r"
      using finished_not_executing[of "au_runs u" ?j "f e"] f exu[OF that] by (simp add: v_def)
  qed
  have result: "snd (launch_run env job trigger scheduled key round_id s) =
     (let fail = (\<lambda>when e s. finish_job_runtime (ae_clock env) (ae_now env) ?j when ''failed'' (Some (trim_space e)) None s)
      in case ae_insert_error env of Some e \<Rightarrow> fail None e s
         | None \<Rightarrow> (case ae_running_error env of Some e \<Rightarrow> fail None e t
         | None \<Rightarrow> (case ae_dispatch_error env of Some e \<Rightarrow> fail (Some (ae_now env)) e (v e)
         | None \<Rightarrow> u\<lparr>au_flying := au_flying u @
                         [\<lparr>rt_job = job, rt_run = ?w, rt_round = round_id, rt_session = key\<rparr>]\<rparr>)))"
    by (simp add: launch_run_def t_def u_def v_def f_def p_def Let_def split: option.split)
  have P1: "P \<longrightarrow> (\<exists>w. occupied ?j w s) \<and> (\<forall>r \<in> set (au_runs s). \<not> executing ?j r)" using assms(4) by blast
  have P2: "P \<longrightarrow> (\<exists>w. occupied ?j w t) \<and> (\<forall>r \<in> set (au_runs t). \<not> executing ?j r)"
    using assms(4) ins(2) insert_not_executing[of s ?j p "ae_now env"] p(3) unfolding t_def by fastforce
  have P3: "P \<longrightarrow> (\<exists>w. occupied ?j w (v e)) \<and> (\<forall>r \<in> set (au_runs (v e)). \<not> executing ?j r)" for e
    using ov by blast
  have ok: "goes ?j P s (u\<lparr>au_flying := au_flying u @
      [\<lparr>rt_job = job, rt_run = ?w, rt_round = round_id, rt_session = key\<rparr>]\<rparr>)"
    unfolding goes_def using frame_flying[OF fu fly] j ou by auto
  show ?thesis unfolding result Let_def
    using finish_goes[OF frame_refl[OF assms(1)] P1] finish_goes[OF ins(1) P2] finish_goes[OF fv P3] ok
    by (simp split: option.split)
qed


lemma goes_frame: "goes j P s s' \<Longrightarrow> frame j s s'"
  by (simp add: goes_def)

lemma goes_trans: "frame j s t \<Longrightarrow> goes j P t u \<Longrightarrow> goes j P s u"
  by (auto simp: goes_def intro: frame_trans)

lemma goes_refl: "base_ok s \<Longrightarrow> (P \<Longrightarrow> \<exists>w. occupied j w s) \<Longrightarrow> goes j P s s"
  by (simp add: goes_def frame_refl)

lemma replace_as_write:
  "trimmed (cj_id job) \<Longrightarrow> \<exists>r. jr_job r = job \<and> jr_run_id r = trim_space (cj_run_id job) \<and>
     (jr_count r = (if trim_space (cj_run_id job) = [] then 0
        else case map_of (au_jobs s) (cj_id job) of None \<Rightarrow> 1 | Some m \<Rightarrow> if jr_count m = 0 then 1 else jr_count m)) \<and>
     jr_running r = (trim_space (cj_run_id job) \<noteq> []) \<and>
     replace_job_runtime job s = (r, write_runtime (cj_id job) r s)"
  by (simp add: replace_job_runtime_def write_runtime_def Let_def split: option.split)

text \<open>A task that takes the place of the runtime state: its run id is that of the task's row, or empty.\<close>

lemma replace_goes:
  assumes "base_ok s" "trimmed (cj_id job)" "cj_id job \<noteq> []" "owns (au_runs s) (cj_id job) (cj_run_id job)"
    "P \<longrightarrow> (\<exists>w. occupied (cj_id job) w s \<and> trim_space (cj_run_id job) = w) \<or>
       (trim_space (cj_run_id job) = [] \<and> (\<forall>r \<in> set (au_runs s). \<not> executing (cj_id job) r))"
  shows "goes (cj_id job) P s (snd (replace_job_runtime job s))"
proof -
  let ?j = "cj_id job" and ?v = "trim_space (cj_run_id job)"
  obtain r where r: "jr_job r = job" "jr_run_id r = ?v"
    "jr_count r = (if ?v = [] then 0 else case map_of (au_jobs s) ?j of None \<Rightarrow> 1 | Some m \<Rightarrow> if jr_count m = 0 then 1 else jr_count m)"
    "jr_running r = (?v \<noteq> [])" "replace_job_runtime job s = (r, write_runtime ?j r s)"
    using replace_as_write[OF assms(2), of s] by blast
  have f: "frame ?j s (write_runtime ?j r s)"
    using assms(1-4) r(1,2) by (intro write_frame) (auto intro: owns_Nil_run)
  have "\<exists>w. occupied ?j w (write_runtime ?j r s)" if p: P
  proof -
    consider w where "occupied ?j w s" "?v = w" | "?v = []" "\<forall>x \<in> set (au_runs s). \<not> executing ?j x"
      using assms(5) p by blast
    then have "occupied ?j ?v (write_runtime ?j r s)"
    proof cases
      case 1
      then have "jr_count r = (if ?v = [] then 0 else 1)"
        using r(3) occupied_state[OF 1(1)] by (auto split: option.split)
      then show ?thesis
        using assms(2,3) r(2,4) 1 by (intro write_occupied) (auto simp: occupied_def)
    next
      case 2
      then show ?thesis using assms(2,3) r(2-4) by (intro write_occupied) auto
    qed
    then show ?thesis by blast
  qed
  then show ?thesis using f r(5) by (simp add: goes_def)
qed

lemma external_goes:
  assumes "base_ok s" "trimmed (cj_id job)" "P \<longrightarrow> (\<exists>w. occupied (cj_id job) w s)"
  shows "goes (cj_id job) P s (snd (externally_claimed env job s))"
proof (cases "ae_read_error env = None \<and> get_job [] (cj_id job) (au_table s) \<noteq> None")
  case True
  then obtain c where c: "get_job [] (cj_id job) (au_table s) = Some c" by blast
  have id: "cj_id c = cj_id job" using c assms(2) by (auto simp: get_job_def find_Some_iff)
  note fits = row_fits[OF assms(1) c]
  have "\<exists>w. occupied (cj_id c) w s \<and> trim_space (cj_run_id c) = w" if P
    using assms(3) that fits(2) id by (auto simp: occupied_def)
  then have "goes (cj_id c) P s (snd (replace_job_runtime c s))"
    using base_row[OF assms(1) fits(2)] assms(1) by (intro replace_goes) auto
  moreover have "snd (externally_claimed env job s) = snd (replace_job_runtime c s)"
    using True c by (auto simp: externally_claimed_def Let_def)
  ultimately show ?thesis using id by simp
next
  case False
  then have "snd (externally_claimed env job s) = s" by (auto simp: externally_claimed_def Let_def split: option.splits)
  then show ?thesis using goes_refl[OF assms(1)] assms(3) by simp
qed

text \<open>A trigger of a task with the policy "skip".\<close>

definition skip_task :: "cron_job \<Rightarrow> bool" where
  "skip_task job \<longleftrightarrow> normalize_overlap (cj_overlap job) = ''skip'' \<and>
     (is_script job \<or> trim_space (st_kind (cj_target job)) \<noteq> ''main'')"

lemma ensure_fits:
  assumes "ensure_job_state ck now job s = (r, s')" "trimmed (cj_id job)" "cj_id job \<noteq> []"
  shows "job_fits job s'"
  using ensure_result[OF assms(1)] assms(2,3) by (auto simp: job_fits_def)

lemma run_claimed_goes:
  assumes "base_ok s" "fresh_for (cj_id job) (ae_run env) s" "job_fits job s"
    "P \<longrightarrow> normalize_overlap (cj_overlap job) = ''skip'' \<and> (\<exists>w. occupied (cj_id job) w s)"
  shows "goes (cj_id job) P s (snd (run_claimed env job trigger scheduled key round_id s))"
proof -
  let ?j = "cj_id job" and ?w = "ae_run env"
  obtain r t where e: "ensure_job_state (ae_clock env) (ae_now env) job s = (r, t)" by fastforce
  have j: "trimmed ?j" "?j \<noteq> []" using assms(3) by (auto simp: job_fits_def)
  have ft: "frame ?j s t" by (rule ensure_frame[OF assms(1,3) e])
  have fit: "job_fits job t" by (rule ensure_fits[OF e j])
  have runs: "au_runs t = au_runs s" using ensure_result[OF e] by auto
  have fresh: "fresh_for ?j ?w t" by (rule fresh_frame[OF assms(2) ft]) (use assms(2) runs in \<open>simp add: fresh_for_def\<close>)
  have occ: "\<exists>w. occupied ?j w t \<and> jr_running r = (w \<noteq> [])" if P
    using assms(4) that ensure_occupied[OF _ assms(3) e] by blast
  note bt = frame_base[OF ft]
  obtain c where "check_overlap env job trigger scheduled s = (c, t)"
    using e by (cases "jr_running r \<and> normalize_overlap (cj_overlap job) = ''skip''") (auto simp: check_overlap_def)
  note chk = this
  show ?thesis
  proof (cases c)
    case None
    have "moves ?j w t (snd (record_skipped env job trigger scheduled True t))" for w
      by (rule record_skipped_moves[OF bt fresh j(1)])
    then have "goes ?j P t (snd (record_skipped env job trigger scheduled True t))"
      using occ unfolding moves_def goes_def by blast
    then show ?thesis using chk None goes_trans[OF ft] by (simp add: run_claimed_def)
  next
    case (Some n)
    obtain res u where cl: "claim_run env job trigger n t = (res, u)" by fastforce
    consider (err) e where "res = Inl e" | (lost) "res = Inr False" | (won) "res = Inr True"
      by (metis (full_types) sum.exhaust)
    then show ?thesis
    proof cases
      case err
      then have "u = t" using cl claim_unclaimed(1) by blast
      then show ?thesis using chk Some cl err ft occ by (auto simp: run_claimed_def goes_def)
    next
      case lost
      then have u: "u = t" using cl claim_unclaimed(2) by blast
      have "goes ?j P t (snd (externally_claimed env job t))" using occ by (intro external_goes[OF bt j(1)]) blast
      then show ?thesis using chk Some cl lost u goes_trans[OF ft] by (simp add: run_claimed_def)
    next
      case won
      let ?u = "count_run env job n u"
      have fu: "frame ?j t u" using row_claim_frame[OF bt fresh fit, of trigger n] cl by simp
      have ru: "au_runs u = au_runs s" "au_jobs u = au_jobs t" using claim_sel[of env job trigger n t] cl runs by simp_all
      have fru: "fresh_for ?j ?w u" by (rule fresh_frame[OF fresh fu]) (use assms(2) ru in \<open>simp add: fresh_for_def\<close>)
      have fitu: "job_fits job u" using ensure_result[OF e] ru(2) j by (auto simp: job_fits_def)
      have fc: "frame ?j u ?u" by (rule count_frame[OF frame_base[OF fu] fru fitu])
      have rc: "au_runs ?u = au_runs s" using ru by (simp add: count_run_def Let_def)
      have frc: "fresh_for ?j ?w ?u" by (rule fresh_frame[OF fru fc]) (use assms(2) rc in \<open>simp add: fresh_for_def\<close>)
      have fitc: "job_fits job ?u" using j by (simp add: job_fits_def count_run_def Let_def)
      have "occupied ?j ?w ?u \<and> (\<forall>r \<in> set (au_runs ?u). \<not> executing ?j r)" if p: P
      proof -
        obtain w where w: "occupied ?j w t" using occ p by blast
        have skip: "normalize_overlap (cj_overlap job) = ''skip''" using assms(4) p by blast
        note c = claimed_occupied[OF w fit skip fresh bt cl[unfolded won]]
        show ?thesis using c w not_executing[of ?j t] rc runs by auto
      qed
      then have "goes ?j P ?u (snd (launch_run env job trigger scheduled key round_id ?u))"
        by (intro launch_goes[OF frame_base[OF fc] frc fitc]) blast
      then show ?thesis
        using chk Some cl won goes_trans[OF frame_trans[OF ft frame_trans[OF fu fc]]] by (simp add: run_claimed_def)
    qed
  qed
qed


section \<open>Main-session tasks and the dispatch of a trigger\<close>

lemma frame_heart: "frame j s t \<Longrightarrow> frame j s (t\<lparr>au_heart := h\<rparr>)"
  by (auto simp: frame_def base_ok_def intro: agree_trans)

lemma main_frame:
  assumes "base_ok s" "fresh_for (cj_id job) (ae_run env) s" "trimmed (cj_id job)"
  shows "frame (cj_id job) s (snd (start_main_job env job trigger scheduled s))"
proof -
  let ?j = "cj_id job" and ?w = "ae_run env"
  define p where "p = \<lparr>rp_run = ?w, rp_job = ?j, rp_owner = cj_owner job, rp_scheduled = Some scheduled,
                  rp_trigger = trigger, rp_session = build_main_key (cj_agent job), rp_round = [], rp_mode = ''none'',
                  rp_to = [], rp_dstatus = [], rp_status = []\<rparr>"
  define t where "t = s\<lparr>au_runs := insert_run (ae_now env) p (au_runs s)\<rparr>"
  have w: "trimmed ?w" using assms(2) by (simp add: fresh_for_def)
  have p: "rp_run p = ?w" "rp_job p = ?j" "trim_space (rp_status p) \<noteq> ''running''" by (simp_all add: p_def)
  note ins = insert_run_frame[where now = "ae_now env", OF assms(1-3) p, folded t_def]
  have ended: "frame ?j s (t\<lparr>au_heart := h, au_runs := mark_run_finished (finish_input ?w status tm e) (au_runs t)\<rparr>)"
    if "trim_space status \<noteq> ''pending''" for status tm e h
  proof -
    have f: "frame ?j s (t\<lparr>au_heart := h\<rparr>)" by (rule frame_heart[OF ins(1)])
    have "\<forall>r \<in> set (au_runs t). cr_id r = ?w \<longrightarrow> cr_job r = ?j" using ins(3) by (simp add: t_def)
    then have "frame ?j (t\<lparr>au_heart := h\<rparr>) (t\<lparr>au_heart := h, au_runs := mark_run_finished (finish_input ?w status tm e) (au_runs t)\<rparr>)"
      using finished_run_frame(1)[OF frame_base[OF f], of "finish_input ?w status tm e" ?j] that w
      by (simp add: finish_input_def)
    then show ?thesis by (rule frame_trans[OF f])
  qed
  have ended0: "frame ?j s (t\<lparr>au_runs := mark_run_finished (finish_input ?w status tm e) (au_runs t)\<rparr>)"
    if "trim_space status \<noteq> ''pending''" for status tm e
    using ended[OF that, where h = "au_heart t"] by simp
  have fin: "frame ?j s u \<Longrightarrow> frame ?j s (finish_job_runtime ck now ?j f st msg d u)" for ck now f st msg d u
    using finish_frame frame_base frame_trans by blast
  have t': "s\<lparr>au_runs := insert_run (ae_now env) p (au_runs s)\<rparr> = t" by (simp add: t_def)
  show ?thesis
    unfolding start_main_job_def Let_def p_def[symmetric] t'
    using fin[OF frame_refl[OF assms(1)]] fin[OF ended] fin[OF ended0]
    by (auto split: option.split sum.split prod.split)
qed

lemma start_goes:
  assumes "base_ok s" "fresh_for (cj_id job) (ae_run env) s" "job_fits job s"
    "P \<longrightarrow> skip_task job \<and> (\<exists>w. occupied (cj_id job) w s)"
  shows "goes (cj_id job) P s (snd (start_job_execution env job trigger scheduled s))"
proof -
  have claimed: "goes (cj_id job) P s (snd (run_claimed env' job trigger scheduled key round_id s))"
    if "ae_run env' = ae_run env" for env' key round_id
    using assms that by (intro run_claimed_goes) (auto simp: skip_task_def)
  consider (script) "is_script job"
    | (main) "\<not> is_script job" "trim_space (st_kind (cj_target job)) = ''main''"
    | (session) "\<not> is_script job" "trim_space (st_kind (cj_target job)) \<noteq> ''main''"
    by blast
  then show ?thesis
  proof cases
    case script
    then show ?thesis using claimed[of "env\<lparr>ae_dispatch_error := None\<rparr>"]
      by (simp add: start_job_execution_def start_script_job_def)
  next
    case main
    then have "\<not> P" using assms(4) by (auto simp: skip_task_def)
    moreover have "frame (cj_id job) s (snd (start_main_job env job trigger scheduled s))"
      using assms(3) by (intro main_frame[OF assms(1,2)]) (simp add: job_fits_def)
    ultimately show ?thesis using main by (simp add: start_job_execution_def goes_def)
  next
    case session
    have "ae_run env \<noteq> []" "trim_space (ae_run env) = ae_run env" using assms(2) by (simp_all add: fresh_for_def)
    then have "\<not> isl (resolve_session_key job (Some (ae_run env)))"
      using session(2) by (simp add: resolve_session_key_def Let_def)
    then obtain key where "resolve_session_key job (Some (ae_run env)) = Inr key"
      by (cases "resolve_session_key job (Some (ae_run env))") auto
    then show ?thesis using claimed[of env] session by (simp add: start_job_execution_def)
  qed
qed


section \<open>The end of a run and recovery\<close>

lemma base_unflying: "base_ok s \<Longrightarrow> base_ok (s\<lparr>au_flying := remove1 t (au_flying s)\<rparr>)"
  using set_remove1_subset[of t "au_flying s"] by (auto simp: base_ok_def)

lemma entry_unique:
  "base_ok s \<Longrightarrow> r \<in> set (au_runs s) \<Longrightarrow> r' \<in> set (au_runs s) \<Longrightarrow> cr_id r = cr_id r' \<Longrightarrow> r = r'"
  by (simp add: base_ok_def distinct_map inj_on_def)

text \<open>The conditional end of an active run of the task.\<close>

lemma finished_if_active:
  assumes "base_ok s" "trim_space (rf_status f) \<notin> {''pending'', ''running''}"
    "\<forall>r \<in> set (au_runs s). cr_id r = trim_space (rf_run f) \<longrightarrow> cr_job r = j"
  defines "t \<equiv> s\<lparr>au_runs := snd (mark_run_finished_if_active f (au_runs s))\<rparr>"
  shows "frame j s t"
    and "occupied k w s \<Longrightarrow> occupied k w t"
    and "\<forall>r \<in> set (au_runs s). executing j r \<longrightarrow> cr_id r = trim_space (rf_run f) \<Longrightarrow> \<forall>r \<in> set (au_runs t). \<not> executing j r"
proof -
  let ?P = "\<lambda>r. cr_id r = trim_space (rf_run f) \<and> active_run r"
  have t: "t = s\<lparr>au_runs := change_runs ?P (finish_columns f) (au_runs s)\<rparr>"
    by (simp add: t_def mark_run_finished_if_active_def Let_def)
  show "frame j s t" unfolding t by (rule ledger_change_frame[OF assms(1)]) (use assms(2,3) in auto)
  show "occupied k w s \<Longrightarrow> occupied k w t" unfolding t by (rule change_occupied) (use assms(2) in auto)
  assume ex: "\<forall>r \<in> set (au_runs s). executing j r \<longrightarrow> cr_id r = trim_space (rf_run f)"
  show "\<forall>r \<in> set (au_runs t). \<not> executing j r"
  proof
    fix r assume "r \<in> set (au_runs t)"
    then obtain x where x: "x \<in> set (au_runs s)" "r = (if ?P x then finish_columns f x else x)"
      unfolding t change_runs_def by auto
    show "\<not> executing j r"
    proof (cases "?P x")
      case True
      then show ?thesis using x assms(2) by (simp add: executing_def)
    next
      case False
      then have "executing j x \<Longrightarrow> \<not> active_run x" using ex x(1) by blast
      then have "\<not> executing j x" by (auto simp: executing_def active_run_def)
      then show ?thesis unfolding x(2) if_not_P[OF False] .
    qed
  qed
qed

lemma observe_goes:
  assumes "base_ok s" "t \<in> set (au_flying s)" "trim_space (eo_status obs) \<notin> {''pending'', ''running''}"
    "P \<longrightarrow> (\<exists>w. occupied (cj_id (rt_job t)) w s)"
  shows "goes (cj_id (rt_job t)) P s (observe_job_run env t obs s)"
proof -
  let ?j = "cj_id (rt_job t)"
  define u where "u = s\<lparr>au_flying := remove1 t (au_flying s)\<rparr>"
  define f where "f = observed_finish env t obs"
  define v where "v = u\<lparr>au_runs := snd (mark_run_finished_if_active f (au_runs u))\<rparr>"
  have b: "base_ok u" unfolding u_def by (rule base_unflying[OF assms(1)])
  then have fu: "frame ?j s u" by (simp add: frame_def u_def)
  have f: "rf_run f = rt_run t" "trim_space (rf_status f) \<notin> {''pending'', ''running''}"
    using assms(3) by (auto simp: f_def observed_finish_def Let_def split: prod.splits)
  obtain e where e: "e \<in> set (au_runs s)" "cr_id e = trim_space (rt_run t)" "cr_job e = ?j" "cr_status e \<noteq> ''pending''"
    using assms(1,2) by (auto simp: base_ok_def flying_ok_def)
  have uniq: "r = e" if "r \<in> set (au_runs s)" "cr_id r = trim_space (rt_run t)" for r
    by (rule entry_unique[OF assms(1) that(1) e(1)]) (simp add: that(2) e(2))
  then have own: "\<forall>r \<in> set (au_runs u). cr_id r = trim_space (rf_run f) \<longrightarrow> cr_job r = ?j"
    unfolding u_def f(1) using e(3) by auto
  note fin = finished_if_active[OF b f(2) own, folded v_def]
  show ?thesis
  proof (cases "ae_finish_error env = None \<and> fst (mark_run_finished_if_active f (au_runs s))")
    case True
    then obtain r where "r \<in> set (au_runs s)" "cr_id r = trim_space (rt_run t)" "active_run r"
      using f(1) by (auto simp: mark_run_finished_if_active_def Let_def)
    then have "active_run e" using uniq by blast
    then have ex: "executing ?j e" using e by (simp add: executing_def active_run_def)
    have "(\<exists>w. occupied ?j w v) \<and> (\<forall>r \<in> set (au_runs v). \<not> executing ?j r)" if p: P
    proof -
      obtain w where w: "occupied ?j w s" using assms(4) p by blast
      then have "\<forall>r \<in> set (au_runs u). executing ?j r \<longrightarrow> cr_id r = trim_space (rf_run f)"
        using ex e f by (fastforce simp: occupied_def u_def)
      then have "\<forall>r \<in> set (au_runs v). \<not> executing ?j r" by (rule fin(3))
      moreover have "occupied ?j w v" by (rule fin(2)) (use w in \<open>simp add: u_def\<close>)
      ultimately show ?thesis by blast
    qed
    then have "goes ?j P s (finish_job_runtime (ae_clock env) (ae_now env) ?j (Some (ae_now env)) (rf_status f)
                     (rf_error f) (Some (rf_dstatus f)) v)"
      by (intro finish_goes[OF frame_trans[OF fu fin(1)]]) blast
    then show ?thesis using True
      by (simp add: observe_job_run_def Let_def f_def u_def v_def case_prod_beta)
  next
    case False
    then have "observe_job_run env t obs s = u"
      by (auto simp: observe_job_run_def Let_def f_def u_def case_prod_beta split: option.splits)
    then show ?thesis using fu assms(4) by (simp add: goes_def u_def)
  qed
qed

text \<open>Recovery: the active run is cancelled and the task written back without a run.\<close>

lemma recover_cancelled:
  assumes "base_ok s" "owns (au_runs s) (cj_id job) (cj_run_id job)" "ae_finish_error env = None"
    "recover_as_cancelled env job message s = (job', t)"
  shows "cj_id job' = cj_id job" "trim_space (cj_run_id job') = []" "frame (cj_id job) s t"
    and "au_table t = au_table s" "au_jobs t = au_jobs s"
    and "occupied (cj_id job) (trim_space (cj_run_id job)) s \<Longrightarrow>
      occupied (cj_id job) (trim_space (cj_run_id job)) t \<and> (\<forall>r \<in> set (au_runs t). \<not> executing (cj_id job) r)"
proof -
  let ?j = "cj_id job" and ?w = "trim_space (cj_run_id job)"
  define f where "f = finish_input ?w ''cancelled'' (ae_now env) (Some message)"
  define u where "u = s\<lparr>au_runs := snd (mark_run_finished_if_active f (au_runs s))\<rparr>"
  have f: "trim_space (rf_status f) \<notin> {''pending'', ''running''}" "trim_space (rf_run f) = ?w"
    by (simp_all add: f_def finish_input_def)
  have "\<forall>r \<in> set (au_runs s). cr_id r = trim_space (rf_run f) \<longrightarrow> cr_job r = ?j"
    using assms(2) f(2) by (simp add: owns_def)
  note fin = finished_if_active[OF assms(1) f(1) this, folded u_def]
  have t: "t = (if ?w = [] then s else u)" and j: "job' = job \<and> ?w = [] \<or> cj_id job' = ?j \<and> cj_run_id job' = []"
    using assms(3,4) by (auto simp: recover_as_cancelled_def u_def f_def Let_def split: if_splits)
  show "cj_id job' = ?j" "trim_space (cj_run_id job') = []" using j by auto
  show "frame ?j s t" using t fin(1) frame_refl[OF assms(1)] by simp
  show "au_table t = au_table s" "au_jobs t = au_jobs s" using t by (auto simp: u_def)
  assume o: "occupied ?j ?w s"
  show "occupied ?j ?w t \<and> (\<forall>r \<in> set (au_runs t). \<not> executing ?j r)"
  proof (cases "?w = []")
    case True
    then show ?thesis using o t not_executing[of ?j s] by auto
  next
    case False
    moreover have "\<forall>r \<in> set (au_runs s). executing ?j r \<longrightarrow> cr_id r = trim_space (rf_run f)"
      using o f(2) by (simp add: occupied_def)
    ultimately show ?thesis using t fin(2)[OF o] fin(3) by simp
  qed
qed

lemma recover_goes:
  assumes "base_ok s" "trimmed (cj_id job)" "cj_id job \<noteq> []" "owns (au_runs s) (cj_id job) (cj_run_id job)"
    "ae_finish_error env = None" "recover_as_cancelled env job message s = (job', t)"
    "P \<longrightarrow> occupied (cj_id job) (trim_space (cj_run_id job)) s"
  shows "goes (cj_id job) P s (snd (replace_job_runtime job' t))"
proof -
  note r = recover_cancelled[OF assms(1,4,5,6)]
  have "goes (cj_id job') P t (snd (replace_job_runtime job' t))"
    by (rule replace_goes[OF frame_base[OF r(3)]])
       (use r assms(2,3,7) frame_base[OF r(3)] in \<open>auto simp: owns_def dest: base_ids\<close>)
  then show ?thesis using r(1) goes_trans[OF r(3)] by simp
qed


section \<open>Definitions and requests\<close>

lemma stored_sel [simp]:
  "cj_id (stored_job j) = cj_id j" "cj_run_id (stored_job j) = cj_run_id j"
  "cj_id (keep_runtime row j) = cj_id j" "cj_run_id (keep_runtime row j) = cj_run_id row"
  "cj_id (no_runtime j) = cj_id j" "cj_run_id (no_runtime j) = []"
  by (simp_all add: stored_job_def keep_runtime_def no_runtime_def)

text \<open>Writing a definition over its row leaves every run id in its place.\<close>

lemma upsert_existing:
  assumes "cj_id job \<in> cj_id ` set tab"
  shows "map (\<lambda>j. (cj_id j, cj_run_id j)) (upsert_job job tab) = map (\<lambda>j. (cj_id j, cj_run_id j)) tab"
proof -
  have "\<exists>row \<in> set tab. cj_id row = cj_id job" using assms by force
  then have "upsert_job job tab = map (\<lambda>row. if cj_id row = cj_id job then stored_job (keep_runtime row job) else row) tab"
    by (simp add: upsert_job_def)
  then show ?thesis by simp
qed

lemma same_columns:
  assumes "map (\<lambda>j. (cj_id j, cj_run_id j)) tab' = map (\<lambda>j. (cj_id j, cj_run_id j)) tab"
  shows "map cj_id tab' = map cj_id tab"
    and "map cj_run_id (filter (\<lambda>j. cj_id j = k) tab') = map cj_run_id (filter (\<lambda>j. cj_id j = k) tab)"
    and "table_ok runs tab \<Longrightarrow> table_ok runs tab'"
proof -
  let ?c = "\<lambda>j. (cj_id j, cj_run_id j)"
  have "map fst (map ?c tab') = map fst (map ?c tab)" using assms by simp
  then show ids: "map cj_id tab' = map cj_id tab" by (simp add: comp_def)
  have "map snd (filter (\<lambda>p. fst p = k) (map ?c tab')) = map snd (filter (\<lambda>p. fst p = k) (map ?c tab))"
    using assms by simp
  then show "map cj_run_id (filter (\<lambda>j. cj_id j = k) tab') = map cj_run_id (filter (\<lambda>j. cj_id j = k) tab)"
    by (simp add: filter_map comp_def)
  have rows: "\<exists>y \<in> set tab. cj_id y = cj_id x \<and> cj_run_id y = cj_run_id x" if x: "x \<in> set tab'" for x
  proof -
    have "?c x \<in> set (map ?c tab)" unfolding assms[symmetric] using x by simp
    then show ?thesis by auto
  qed
  show "table_ok runs tab \<Longrightarrow> table_ok runs tab'" using ids rows unfolding table_ok_def by metis
qed

lemma columns_frame:
  assumes "base_ok s" "map (\<lambda>j. (cj_id j, cj_run_id j)) tab = map (\<lambda>j. (cj_id j, cj_run_id j)) (au_table s)"
  shows "base_ok (s\<lparr>au_table := tab\<rparr>) \<and> agree k s (s\<lparr>au_table := tab\<rparr>)"
  using same_columns[OF assms(2)] assms(1) by (simp add: base_ok_def agree_def)

definition holds_for :: "string \<Rightarrow> auto_state \<Rightarrow> bool" where
  "holds_for k s \<longleftrightarrow> base_ok s \<and> (\<exists>w. occupied k w s)"

lemma goes_holds:
  assumes "goes j (j = k) s s'" "holds_for k s"
  shows "holds_for k s'"
proof (cases "j = k")
  case True
  then show ?thesis using assms(1) by (simp add: goes_def holds_for_def frame_def)
next
  case False
  then have "agree k s s'" "base_ok s'" using assms(1) by (auto simp: goes_def frame_def)
  then show ?thesis using assms(2) agree_occupied[of k s s'] by (simp add: holds_for_def)
qed

lemma agree_holds: "base_ok s' \<Longrightarrow> agree k s s' \<Longrightarrow> holds_for k s \<Longrightarrow> holds_for k s'"
  using agree_occupied[of k s s'] by (auto simp: holds_for_def)

lemma holds_occ: "holds_for k s \<Longrightarrow> j = k \<longrightarrow> (\<exists>w. occupied j w s)"
  by (auto simp: holds_for_def)

lemma ensure_holds:
  assumes "holds_for k s" "job_fits job s" "ensure_job_state ck now job s = (r, s')"
  shows "holds_for k s'"
proof (rule goes_holds[OF _ assms(1), of "cj_id job"])
  have b: "base_ok s" using assms(1) by (simp add: holds_for_def)
  show "goes (cj_id job) (cj_id job = k) s s'"
    using ensure_frame[OF b assms(2,3)] ensure_occupied[OF _ assms(2,3)] holds_occ[OF assms(1)]
    unfolding goes_def by blast
qed

lemma update_of_write:
  "persist_runtime (update_of_runtime j r) (set_runtime j r s) = write_runtime j r s"
  by (simp add: write_runtime_def)

text \<open>\<open>ensureJobState\<close> and a change of other columns, written to the row.\<close>

lemma ensure_write_holds:
  assumes "holds_for k s" "job_fits job s" "ensure_job_state ck now job s = (r, t)"
    "jr_job r' = jr_job r" "jr_run_id r' = jr_run_id r" "jr_count r' = jr_count r" "jr_running r' = jr_running r"
  shows "holds_for k (write_runtime (cj_id job) r' t)"
proof (rule goes_holds[OF _ ensure_holds[OF assms(1-3)], of "cj_id job"])
  let ?j = "cj_id job"
  have b: "base_ok t" using ensure_holds[OF assms(1-3)] by (simp add: holds_for_def)
  have j: "trimmed ?j" "?j \<noteq> []" using assms(2) by (auto simp: job_fits_def)
  have m: "map_of (au_jobs t) ?j = Some r" and job: "jr_job r = job"
    using ensure_result[OF assms(3)] by auto
  have own: "owns (au_runs t) ?j (jr_run_id r)" using base_jobs[OF b m] by blast
  have "frame ?j t (write_runtime ?j r' t)"
    using b j own assms(4,5) job by (intro write_frame) auto
  moreover have "occupied ?j w (write_runtime ?j r' t)" if "occupied ?j w t" for w
    using occupied_state[OF that m] that j assms(5-7) by (intro write_occupied) (auto simp: occupied_def)
  ultimately show "goes ?j (?j = k) t (write_runtime ?j r' t)"
    using holds_occ[OF ensure_holds[OF assms(1-3)], of ?j] unfolding goes_def by blast
qed

lemma ensured_write:
  assumes "ensure_job_state ck now job s = (r, t)"
  shows "persist_runtime (update_of_runtime (cj_id job) r) t = write_runtime (cj_id job) r t"
proof -
  have "set_runtime (cj_id job) r t = t"
    using ensure_result[OF assms] by (auto simp: set_runtime_def update_last)
  then show ?thesis by (simp add: write_runtime_def)
qed

lemma sync_holds:
  assumes "holds_for k s" "job_fits job s"
  shows "holds_for k (snd (sync_job env job s))"
proof -
  obtain r t where e: "ensure_job_state (ae_clock env) (ae_now env) job s = (r, t)" by fastforce
  show ?thesis using ensure_write_holds[OF assms e] by (simp add: sync_job_def e ensured_write[OF e])
qed

lemma row_in_fits: "base_ok s \<Longrightarrow> job \<in> set (au_table s) \<Longrightarrow> job_fits job s"
  using base_row[of s job] by (auto simp: job_fits_def occupied_def)

text \<open>Storing a definition: over its row, or as a new row of a task that nothing knows yet.\<close>

definition new_id :: "string \<Rightarrow> auto_state \<Rightarrow> bool" where
  "new_id j s \<longleftrightarrow> trimmed j \<and> j \<noteq> [] \<and> j \<notin> cj_id ` set (au_table s) \<and> map_of (au_jobs s) j = None \<and>
     j \<notin> cr_job ` set (au_runs s)"

lemma upsert_holds:
  assumes "holds_for k s" "cj_id job \<in> cj_id ` set (au_table s) \<or> new_id (cj_id job) s"
  shows "holds_for k (s\<lparr>au_table := upsert_job job (au_table s)\<rparr>)"
  using assms(2)
proof
  have b: "base_ok s" using assms(1) by (simp add: holds_for_def)
  show ?thesis if "cj_id job \<in> cj_id ` set (au_table s)"
    using columns_frame[OF b upsert_existing[OF that]] agree_holds[OF _ _ assms(1)] by blast
  show ?thesis if n: "new_id (cj_id job) s"
  proof (rule goes_holds[OF _ assms(1), of "cj_id job"])
    let ?j = "cj_id job" and ?row = "stored_job (no_runtime job)"
    let ?s = "s\<lparr>au_table := au_table s @ [?row]\<rparr>"
    have tab: "upsert_job job (au_table s) = au_table s @ [?row]"
    proof -
      have "\<not> (\<exists>row \<in> set (au_table s). cj_id row = ?j)" using n unfolding new_id_def image_iff by metis
      then show ?thesis by (simp add: upsert_job_def)
    qed
    have "owns (au_runs s) ?j []" using b by (auto simp: owns_def dest: base_ids)
    then have "base_ok ?s"
      using b n unfolding new_id_def by (auto simp: base_ok_def table_ok_def)
    then have f: "frame ?j s ?s" by (simp add: frame_def agree_def)
    have "occupied ?j [] ?s"
    proof -
      have "cj_id row \<noteq> ?j" if "row \<in> set (au_table s)" for row using n that unfolding new_id_def image_iff by metis
      moreover have "\<not> executing ?j r" if "r \<in> set (au_runs s)" for r
        using n that unfolding new_id_def image_iff executing_def by metis
      ultimately show ?thesis using n by (simp add: occupied_def new_id_def) 
    qed
    then show "goes ?j (?j = k) s (s\<lparr>au_table := upsert_job job (au_table s)\<rparr>)"
      using f unfolding tab goes_def by blast
  qed
qed

lemma store_holds:
  assumes "holds_for k s" "cj_id job \<in> cj_id ` set (au_table s) \<or> new_id (cj_id job) s"
  shows "holds_for k (snd (store_job env job s))"
proof -
  let ?t = "s\<lparr>au_table := upsert_job job (au_table s)\<rparr>"
  have t: "holds_for k ?t" by (rule upsert_holds[OF assms])
  then have b: "base_ok ?t" by (simp add: holds_for_def)
  have "holds_for k (snd (sync_job env c ?t))" if "get_job [] (cj_id job) (au_table ?t) = Some c" for c
    by (rule sync_holds[OF t row_fits(1)[OF b that]])
  then show ?thesis using t assms(1)
    by (auto simp: store_job_def Let_def case_prod_beta split: option.splits)
qed

lemma create_holds:
  "holds_for k s \<Longrightarrow> new_id job_id s \<Longrightarrow> holds_for k (snd (create_task env check owner job_id input s))"
  by (auto simp: create_task_def Let_def intro!: store_holds split: option.split sum.split)

lemma updated_id [simp]: "cj_id (updated_job u j) = cj_id j"
  by (simp add: updated_job_def)

lemma update_holds:
  assumes "holds_for k s"
  shows "holds_for k (snd (update_task env check owner job_id u s))"
proof -
  have b: "base_ok s" using assms by (simp add: holds_for_def)
  have "holds_for k (snd (store_job env (updated_job u c) s))" if "get_job owner job_id (au_table s) = Some c" for c
    by (rule store_holds[OF assms]) (use row_fits(2)[OF b that] in simp)
  then show ?thesis using assms by (auto simp: update_task_def Let_def split: option.split)
qed

lemma enrich_holds:
  "holds_for k s \<Longrightarrow> set jobs \<subseteq> set (au_table s) \<Longrightarrow> holds_for k (snd (enrich_jobs env jobs s))"
proof (induction jobs arbitrary: s)
  case (Cons job jobs)
  obtain r t where e: "ensure_job_state (ae_clock env) (ae_now env) job s = (r, t)" by fastforce
  have b: "base_ok s" using Cons.prems(1) by (simp add: holds_for_def)
  have "holds_for k t" by (rule ensure_holds[OF Cons.prems(1) row_in_fits[OF b] e]) (use Cons.prems(2) in simp)
  moreover have "au_table t = au_table s" using ensure_result[OF e] by auto
  ultimately show ?case using Cons.IH[of t] Cons.prems(2) e by (simp add: case_prod_beta)
qed simp

lemma list_holds: "holds_for k s \<Longrightarrow> holds_for k (snd (list_tasks env owner agent s))"
  using enrich_holds[of k s "list_jobs owner agent (au_table s)" env]
  by (auto simp: list_tasks_def list_jobs_def case_prod_beta split: option.split)

lemma disable_holds:
  assumes "holds_for k s" "cj_id job \<in> cj_id ` set (au_table s)"
  shows "holds_for k (disable_expired job s)"
proof -
  let ?t = "s\<lparr>au_disabling := remove1 job (au_disabling s), au_table := upsert_job (job\<lparr>cj_enabled := False\<rparr>) (au_table s)\<rparr>"
  have "holds_for k (s\<lparr>au_disabling := remove1 job (au_disabling s)\<rparr>)"
    using assms(1) set_remove1_subset[of job "au_disabling s"] by (auto simp: holds_for_def base_ok_def)
  then have t: "holds_for k ?t"
    using upsert_holds[of k "s\<lparr>au_disabling := remove1 job (au_disabling s)\<rparr>" "job\<lparr>cj_enabled := False\<rparr>"] assms(2) by simp
  have "holds_for k (set_runtime (cj_id job) (m\<lparr>jr_job := (jr_job m)\<lparr>cj_enabled := False\<rparr>\<rparr>) ?t)"
    if m: "map_of (au_jobs ?t) (cj_id job) = Some m" for m
  proof (rule goes_holds[OF _ t, of "cj_id job"])
    let ?j = "cj_id job" and ?m = "m\<lparr>jr_job := (jr_job m)\<lparr>cj_enabled := False\<rparr>\<rparr>"
    have b: "base_ok ?t" using t by (simp add: holds_for_def)
    note bm = base_jobs[OF b m]
    have "frame ?j ?t (set_runtime ?j ?m ?t)" by (rule set_frame[OF b]) (use bm in auto)
    moreover have "occupied ?j w (set_runtime ?j ?m ?t)" if "occupied ?j w ?t" for w
      using occupied_state[OF that m] by (intro set_occupied[OF that]) auto
    ultimately show "goes ?j (?j = k) ?t (set_runtime ?j ?m ?t)"
      using holds_occ[OF t, of ?j] unfolding goes_def by blast
  qed
  then show ?thesis using t by (simp add: disable_expired_def Let_def split: option.split)
qed

end
