(* ===== verification/AutomationMachine.thy ===== *)
theory AutomationMachine
  imports AutomationSafety
begin

text \<open>
  The remaining requests on tasks keep what \<open>AutomationSafety\<close> states, and the machine of all
  operations of the scheduler: \<open>auto_step k\<close> is one operation on any task, where the triggers
  of the task \<open>k\<close> have the overlap policy "skip". Under it \<open>k\<close> never has two runs in execution.
\<close>

section \<open>Reading, recovering and deleting\<close>

lemma holds_base: "holds_for k s \<Longrightarrow> base_ok s"
  by (simp add: holds_for_def)

lemma get_holds: "holds_for k s \<Longrightarrow> holds_for k (snd (get_task env owner job_id s))"
proof -
  assume h: "holds_for k s"
  have "holds_for k (snd (ensure_job_state ck now c s))" if "get_job owner job_id (au_table s) = Some c" for c ck now
    by (rule ensure_holds[OF h row_fits(1)[OF holds_base[OF h] that]]) (rule prod.collapse[symmetric])
  then show ?thesis using h by (auto simp: get_task_def case_prod_beta split: option.split)
qed

lemma job_of_runtime_sel [simp]:
  "cj_id (job_of_runtime r) = cj_id (jr_job r)" "cj_run_id (job_of_runtime r) = trim_space (jr_run_id r)"
  by (simp_all add: job_of_runtime_def)

text \<open>Cancelling the run of a runtime state.\<close>

lemma cancel_holds:
  assumes "holds_for k s" "map_of (au_jobs s) j = Some r" "ae_finish_error env = None"
    "recover_as_cancelled env (job_of_runtime r) message s = (job', t)"
  shows "holds_for k (snd (replace_job_runtime job' t))"
proof (rule goes_holds[OF _ assms(1), of j])
  note b = base_jobs[OF holds_base[OF assms(1)] assms(2)]
  have own: "owns (au_runs s) j (trim_space (jr_run_id r))" using b by (simp add: owns_def)
  have occ: "occupied j (trim_space (jr_run_id r)) s" if jk: "j = k"
  proof -
    obtain w where w: "occupied j w s" using holds_occ[OF assms(1), of j] jk by blast
    then show ?thesis using occupied_state[OF w assms(2)] by (simp add: occupied_def)
  qed
  show "goes j (j = k) s (snd (replace_job_runtime job' t))"
    using recover_goes[OF holds_base[OF assms(1)] _ _ _ assms(3,4), of "j = k"] b own occ by simp
qed

lemma recover_task_holds:
  assumes "holds_for k s" "ae_finish_error env = None"
  shows "holds_for k (snd (recover_task env interrupt message owner job_id run_id s))"
proof -
  obtain res t where g: "get_task env owner job_id s = (res, t)" by fastforce
  have t: "holds_for k t" using get_holds[OF assms(1), of env owner job_id] g by simp
  have "holds_for k (snd (replace_job_runtime job' u))"
    if c: "res = Inr (Some c)" and u: "recover_as_cancelled env c message t = (job', u)" for c job' u
  proof -
    have b: "base_ok s" using assms(1) by (simp add: holds_for_def)
    obtain job r where "get_job owner job_id (au_table s) = Some job" "c = job_of_runtime r"
      "ensure_job_state (ae_clock env) (ae_now env) job s = (r, t)"
      using g c by (auto simp: get_task_def case_prod_beta prod_eq_iff split: option.splits)
    then have "map_of (au_jobs t) (cj_id job) = Some r" "c = job_of_runtime r"
      using ensure_result[of "ae_clock env" "ae_now env" job s r t] by auto
    then show ?thesis using cancel_holds[OF t _ assms(2)] u by blast
  qed
  then show ?thesis using g t
    by (auto simp: recover_task_def Let_def case_prod_beta prod_eq_iff split: sum.split option.split)
qed

lemma deliveries_agree:
  assumes "base_ok s"
  shows "base_ok (s\<lparr>au_runs := mark_run_delivery now u (au_runs s)\<rparr>)"
    and "agree k s (s\<lparr>au_runs := mark_run_delivery now u (au_runs s)\<rparr>)"
proof -
  show "base_ok (s\<lparr>au_runs := mark_run_delivery now u (au_runs s)\<rparr>)"
    unfolding mark_run_delivery_def by (rule change_base[OF assms]) simp
  have "map cr_id (filter (executing k) (mark_run_delivery now u runs)) = map cr_id (filter (executing k) runs)" for runs
    by (induction runs) (auto simp: mark_run_delivery_def change_runs_def executing_def)
  then show "agree k s (s\<lparr>au_runs := mark_run_delivery now u (au_runs s)\<rparr>)" by (simp add: agree_def)
qed

lemma delivery_holds: "holds_for k s \<Longrightarrow> holds_for k (s\<lparr>au_runs := mark_run_delivery now u (au_runs s)\<rparr>)"
  using deliveries_agree[OF holds_base] agree_holds by blast

lemma fold_holds:
  assumes "\<And>x s. holds_for k s \<Longrightarrow> holds_for k (f x s)"
  shows "holds_for k s \<Longrightarrow> holds_for k (fold f xs s)"
  using assms by (induction xs arbitrary: s) auto

lemma last_delivery_holds:
  assumes "holds_for k s" "job_fits job s"
  shows "holds_for k (update_last_delivery env job status s)"
proof -
  obtain r t where e: "ensure_job_state (ae_clock env) (ae_now env) job s = (r, t)" by fastforce
  have "holds_for k (write_runtime (cj_id job) (r\<lparr>jr_delivered := trim_space status\<rparr>) t)"
    by (rule ensure_write_holds[OF assms e]) simp_all
  then show ?thesis using assms(1) e by (simp add: update_last_delivery_def update_of_write Let_def)
qed

lemma fits_delivery: "job_fits job s \<Longrightarrow> base_ok s \<Longrightarrow> job_fits job (s\<lparr>au_runs := mark_run_delivery now u (au_runs s)\<rparr>)"
  using deliveries_agree(2)[of s "cj_id job" now u] agree_occupied
  by (auto simp: job_fits_def mark_run_delivery_def change_ids)

lemma retry_holds:
  assumes "holds_for k s"
  shows "holds_for k (snd (retry_run_delivery env owner job_id run_id s))"
proof -
  note b = holds_base[OF assms]
  have "holds_for k (update_last_delivery env job st (s\<lparr>au_runs := mark_run_delivery now u (au_runs s)\<rparr>))"
    if "get_job owner job_id (au_table s) = Some job" for job st now u
    by (rule last_delivery_holds[OF delivery_holds[OF assms] fits_delivery[OF row_fits(1)[OF b that] b]])
  then show ?thesis using assms by (auto simp: retry_run_delivery_def Let_def split: option.split)
qed

lemma retry_due_holds: "holds_for k s \<Longrightarrow> holds_for k (retry_due_run env r s)"
  by (auto simp: retry_due_run_def intro: delivery_holds retry_holds split: option.split)

lemma retry_all_holds: "holds_for k s \<Longrightarrow> holds_for k (retry_due_deliveries env now s)"
  by (auto simp: retry_due_deliveries_def intro: fold_holds retry_due_holds)


lemma deliveries_fold:
  "base_ok s \<Longrightarrow> base_ok (s\<lparr>au_runs := fold (\<lambda>r. mark_run_delivery now (u r)) rs (au_runs s)\<rparr>) \<and>
     agree k s (s\<lparr>au_runs := fold (\<lambda>r. mark_run_delivery now (u r)) rs (au_runs s)\<rparr>)"
proof (induction rs arbitrary: s)
  case (Cons r rs)
  let ?t = "s\<lparr>au_runs := mark_run_delivery now (u r) (au_runs s)\<rparr>"
  have "base_ok ?t" "agree k s ?t" using deliveries_agree[OF Cons.prems] by auto
  then show ?case using Cons.IH[of ?t] agree_trans[of k s ?t] by simp
qed simp

text \<open>A deleted row and a forgotten runtime state.\<close>

lemma fewer_rows: "occupied k w s \<Longrightarrow> set tab \<subseteq> set (au_table s) \<Longrightarrow> occupied k w (s\<lparr>au_table := tab\<rparr>)"
  unfolding occupied_def by (simp add: subset_iff)

lemma fewer_states: "occupied k w s \<Longrightarrow> occupied k w (s\<lparr>au_jobs := AList.delete j (au_jobs s)\<rparr>)"
  unfolding occupied_def by (simp add: delete_conv')

lemma table_ok_filter: "table_ok runs tab \<Longrightarrow> table_ok runs (filter P tab)"
  unfolding table_ok_def by (simp add: distinct_map_filter)

lemma forget_holds:
  assumes "holds_for k s"
  shows "holds_for k (s\<lparr>au_table := delete_job owner j (au_table s)\<rparr>)"
    and "holds_for k (s\<lparr>au_jobs := AList.delete j (au_jobs s)\<rparr>)"
proof -
  have "table_ok (au_runs s) (delete_job owner j (au_table s))"
    using holds_base[OF assms] table_ok_filter unfolding base_ok_def delete_job_def by blast
  then have b: "base_ok (s\<lparr>au_table := delete_job owner j (au_table s)\<rparr>)"
    using holds_base[OF assms] by (simp add: base_ok_def)
  have "set (delete_job owner j (au_table s)) \<subseteq> set (au_table s)" unfolding delete_job_def by (rule filter_is_subset)
  then show "holds_for k (s\<lparr>au_table := delete_job owner j (au_table s)\<rparr>)"
    using assms b fewer_rows[of k _ s] unfolding holds_for_def by blast
  have "jobs_ok (au_runs s) (AList.delete j (au_jobs s))"
    using holds_base[OF assms] by (auto simp: base_ok_def jobs_ok_def delete_conv' distinct_delete split: if_splits)
  then have "base_ok (s\<lparr>au_jobs := AList.delete j (au_jobs s)\<rparr>)"
    using holds_base[OF assms] by (simp add: base_ok_def)
  then show "holds_for k (s\<lparr>au_jobs := AList.delete j (au_jobs s)\<rparr>)"
    using assms fewer_states[of k _ s j] unfolding holds_for_def by blast
qed

lemma delete_holds:
  assumes "holds_for k s"
  shows "holds_for k (snd (delete_task env interrupt cleanup owner job_id s))"
proof -
  note b = holds_base[OF assms]
  have "holds_for k (s\<lparr>au_runs := dead_letter_runs now job runs, au_table := delete_job owner (cj_id job) (au_table s)\<rparr>) \<and>
      holds_for k (s\<lparr>au_runs := dead_letter_runs now job runs, au_table := delete_job owner (cj_id job) (au_table s),
        au_jobs := AList.delete (cj_id job) (au_jobs s)\<rparr>)"
    if job: "get_job owner job_id (au_table s) = Some job"
      and runs: "runs = au_runs s \<or> runs = snd (mark_run_finished_if_active (finish_input (trim_space (cj_run_id job)) ''cancelled'' now (Some m)) (au_runs s))"
    for job now runs m
  proof -
    let ?f = "finish_input (trim_space (cj_run_id job)) ''cancelled'' now (Some m)" and ?t = "s\<lparr>au_runs := runs\<rparr>"
    have own: "\<forall>r \<in> set (au_runs s). cr_id r = trim_space (rf_run ?f) \<longrightarrow> cr_job r = cj_id job"
      using base_row[OF b row_fits(2)[OF b job]] by (simp add: owns_def finish_input_def)
    have "trim_space (rf_status ?f) \<notin> {''pending'', ''running''}" by (simp add: finish_input_def)
    note fin = finished_if_active[OF b this own]
    have t: "holds_for k ?t"
    proof (cases "runs = au_runs s")
      case False
      then have "?t = s\<lparr>au_runs := snd (mark_run_finished_if_active ?f (au_runs s))\<rparr>" using runs by simp
      then show ?thesis using fin(1) fin(2) assms by (auto simp: holds_for_def frame_def)
    qed (use assms in simp)
    let ?d = "s\<lparr>au_runs := dead_letter_runs now job runs\<rparr>"
    have "holds_for k ?d"
      using deliveries_fold[OF holds_base[OF t]] agree_holds[OF _ _ t] unfolding dead_letter_runs_def by fastforce
    note step = forget_holds(1)[OF this, of owner "cj_id job"]
    show ?thesis using step forget_holds(2)[OF step, of "cj_id job"] by simp
  qed
  note ended = this
  show ?thesis using assms ended
    by (auto simp: delete_task_def Let_def case_prod_beta split: option.split)
qed

text \<open>Recovery of the runs that last too long.\<close>

lemma stale_holds:
  assumes "holds_for k s" "ae_finish_error env = None" "distinct (map fst xs)"
    "\<forall>(j, r) \<in> set xs. map_of (au_jobs s) j = Some r"
  shows "holds_for k (fold (recover_stale_job env) (map (\<lambda>(_, r). job_of_runtime r) xs) s)"
  using assms
proof (induction xs arbitrary: s)
  case (Cons x xs)
  obtain j r where x: "x = (j, r)" by (cases x)
  have m: "map_of (au_jobs s) j = Some r" using Cons.prems(4) x by simp
  note h = Cons.prems(1)
  note b = base_jobs[OF holds_base[OF h] m]
  obtain job' t where c: "recover_as_cancelled env (job_of_runtime r) (ae_timeout_text env) s = (job', t)" by fastforce
  let ?s = "recover_stale_job env (job_of_runtime r) s"
  have own: "owns (au_runs s) j (trim_space (jr_run_id r))" using b by (simp add: owns_def)
  have hs: "holds_for k ?s"
    using h cancel_holds[OF h m Cons.prems(2) c] by (simp add: recover_stale_job_def c)
  have "goes j False s (snd (replace_job_runtime job' t))"
    using recover_goes[OF holds_base[OF h] _ _ _ Cons.prems(2) c, of False] b own by simp
  then have f: "frame j s ?s" using holds_base[OF h] by (simp add: recover_stale_job_def c goes_def frame_refl)
  have "map_of (au_jobs ?s) i = Some q" if "(i, q) \<in> set xs" for i q
  proof -
    have "i \<noteq> j" using that Cons.prems(3) x by force
    then have "map_of (au_jobs ?s) i = map_of (au_jobs s) i" using f by (simp add: frame_def agree_def)
    then show ?thesis using Cons.prems(4) that by fastforce
  qed
  then show ?case using Cons.IH[OF hs Cons.prems(2)] Cons.prems(3) x by auto
qed simp

lemma recover_stale_holds:
  assumes "holds_for k s" "ae_finish_error env = None"
  shows "holds_for k (recover_stale env s)"
proof -
  let ?xs = "filter (\<lambda>(_, r). stale_runtime (ae_now env) (ae_timeout env) r) (au_jobs s)"
  have d: "distinct (map fst (au_jobs s))" using holds_base[OF assms(1)] by (simp add: base_ok_def jobs_ok_def)
  then have "distinct (map fst ?xs)" by (simp add: distinct_map_filter)
  moreover have "\<forall>(j, r) \<in> set ?xs. map_of (au_jobs s) j = Some r" using d by auto
  ultimately show ?thesis using stale_holds[OF assms] assms(1) by (simp add: recover_stale_def)
qed


section \<open>The start of a process\<close>

definition restart_job :: "auto_env \<Rightarrow> cron_job \<Rightarrow> auto_state \<Rightarrow> auto_state" where
  "restart_job env job s =
     (let (job, s) = recover_as_cancelled env job restart_message s;
          (r, s) = ensure_job_state (ae_clock env) (ae_now env) job s
      in persist_runtime (update_of_runtime (cj_id job) r) s)"

lemma restart_as_fold:
  "restart env s = fold (restart_job env) (rev (au_table s))
     (s\<lparr>au_jobs := [], au_disabling := [], au_flying := [], au_retrying := False\<rparr>)"
proof -
  have "(\<lambda>job s. let (job, s) = recover_as_cancelled env job restart_message s;
             (r, s) = ensure_job_state (ae_clock env) (ae_now env) job s
         in persist_runtime (update_of_runtime (cj_id job) r) s) = restart_job env"
    by (rule ext)+ (simp add: restart_job_def)
  then show ?thesis unfolding restart_def by simp
qed

text \<open>One row: its run is cancelled, and the task starts free.\<close>

lemma restart_job_goes:
  assumes "base_ok s" "trimmed (cj_id job)" "cj_id job \<noteq> []" "owns (au_runs s) (cj_id job) (cj_run_id job)"
    "ae_finish_error env = None" "map_of (au_jobs s) (cj_id job) = None"
    "P \<longrightarrow> occupied (cj_id job) (trim_space (cj_run_id job)) s"
  shows "goes (cj_id job) P s (restart_job env job s)"
proof -
  let ?j = "cj_id job"
  obtain job' t where c: "recover_as_cancelled env job restart_message s = (job', t)" by fastforce
  obtain r u where e: "ensure_job_state (ae_clock env) (ae_now env) job' t = (r, u)" by fastforce
  note rc = recover_cancelled[OF assms(1,4,5) c]
  note en = ensure_result[OF e]
  have none: "map_of (au_jobs t) (cj_id job') = None" using rc(1,5) assms(6) by simp
  have r: "jr_job r = job'" "jr_run_id r = []" "jr_count r = 0" "\<not> jr_running r"
    using en none rc(2) by simp_all
  have bt: "base_ok t" by (rule frame_base[OF rc(3)])
  let ?v = "write_runtime ?j r t"
  have "owns (au_runs t) ?j []" using bt by (auto simp: owns_def dest: base_ids)
  then have fv: "frame ?j t ?v" using r rc(1) assms(2,3) by (intro write_frame[OF bt]) auto
  have ov: "occupied ?j [] ?v" if P
    using rc(6) assms(2,3,7) r that by (intro write_occupied) auto
  have "u = set_runtime ?j r t \<or> u = (set_runtime ?j r t)\<lparr>au_disabling := au_disabling t @ [job']\<rparr>"
    using en rc(1) by simp
  then have "restart_job env job s \<in> {?v, ?v\<lparr>au_disabling := au_disabling t @ [job']\<rparr>}"
    using rc(1) by (auto simp: restart_job_def c e write_runtime_def persist_runtime_def)
  moreover have "frame ?j t (?v\<lparr>au_disabling := au_disabling t @ [job']\<rparr>)"
    by (rule frame_disabling[OF fv]) (use rc(1) assms(2,3) in simp_all)
  ultimately have "frame ?j t (restart_job env job s)" "P \<Longrightarrow> occupied ?j [] (restart_job env job s)"
    using fv ov by auto
  then show ?thesis using frame_trans[OF rc(3)] by (auto simp: goes_def)
qed

lemma restart_rows:
  assumes "holds_for k s" "ae_finish_error env = None" "distinct (map cj_id rows)"
    "\<forall>row \<in> set rows. map_of (au_jobs s) (cj_id row) = None \<and>
       (\<exists>row' \<in> set (au_table s). cj_id row' = cj_id row \<and> cj_run_id row' = cj_run_id row)"
  shows "holds_for k (fold (restart_job env) rows s)"
  using assms
proof (induction rows arbitrary: s)
  case (Cons row rows)
  let ?j = "cj_id row" and ?s = "restart_job env row s"
  note h = Cons.prems(1) and b = holds_base[OF Cons.prems(1)]
  obtain row' where row': "row' \<in> set (au_table s)" "cj_id row' = ?j" "cj_run_id row' = cj_run_id row"
    using Cons.prems(4) by auto
  have row: "trimmed ?j" "?j \<noteq> []" "owns (au_runs s) ?j (cj_run_id row)" using base_row[OF b row'(1)] row' by auto
  have "occupied ?j (trim_space (cj_run_id row)) s" if jk: "?j = k"
  proof -
    obtain w where "occupied ?j w s" using holds_occ[OF h, of ?j] jk by blast
    moreover from this have "cj_run_id row = w" "trimmed w" using row' by (auto simp: occupied_def)
    ultimately show ?thesis by simp
  qed
  then have g: "goes ?j (?j = k) s ?s"
    using Cons.prems(2,4) row by (intro restart_job_goes[OF b]) auto
  have "map_of (au_jobs ?s) (cj_id x) = None \<and>
      (\<exists>row' \<in> set (au_table ?s). cj_id row' = cj_id x \<and> cj_run_id row' = cj_run_id x)" if x: "x \<in> set rows" for x
  proof -
    have "cj_id x \<in> cj_id ` set rows" using x by (rule imageI)
    then have "cj_id x \<noteq> ?j" using Cons.prems(3) by auto
    then have a: "agree (cj_id x) s ?s" using goes_frame[OF g] by (simp add: frame_def)
    then have a': "agree (cj_id x) ?s s" by (simp add: agree_def)
    obtain y where "y \<in> set (au_table s)" "cj_id y = cj_id x" "cj_run_id y = cj_run_id x"
      using Cons.prems(4) x by auto
    then have "\<exists>row' \<in> set (au_table ?s). cj_id row' = cj_id x \<and> cj_run_id row' = cj_run_id x"
      using agree_rows[OF a', of y] by auto
    then show ?thesis using a Cons.prems(4) x by (simp add: agree_def)
  qed
  then show ?case using Cons.IH[OF goes_holds[OF g h] Cons.prems(2)] Cons.prems(3) by simp
qed simp

lemma restart_holds:
  assumes "holds_for k s" "ae_finish_error env = None"
  shows "holds_for k (restart env s)"
proof -
  let ?s = "s\<lparr>au_jobs := [], au_disabling := [], au_flying := [], au_retrying := False\<rparr>"
  have "base_ok ?s" using holds_base[OF assms(1)] by (simp add: base_ok_def jobs_ok_def)
  moreover have "occupied k w s \<Longrightarrow> occupied k w ?s" for w unfolding occupied_def by simp
  ultimately have h: "holds_for k ?s" using assms(1) by (auto simp: holds_for_def)
  have "distinct (map cj_id (rev (au_table s)))"
    using holds_base[OF assms(1)] by (simp add: base_ok_def table_ok_def distinct_rev rev_map[symmetric])
  from restart_rows[OF h assms(2) this] show ?thesis unfolding restart_as_fold by auto
qed

section \<open>The machine\<close>

text \<open>
  One operation of the scheduler. \<open>ae_finish_error = None\<close> in a recovery says that the write of
  the cancelled run succeeds; a late disabling of an expired task comes before the task is
  deleted; the identifiers that the service draws are new.
\<close>

inductive auto_step :: "string \<Rightarrow> auto_state \<Rightarrow> auto_state \<Rightarrow> bool" for k where
  manual: "get_job owner job_id (au_table s) = Some job \<Longrightarrow> (cj_id job = k \<longrightarrow> skip_task job) \<Longrightarrow>
    fresh_for (cj_id job) (ae_run env) s \<Longrightarrow> auto_step k s (snd (run_task_now env owner job_id s))"
| cron: "map_of (au_jobs s) j = Some r \<Longrightarrow> job_due now r \<Longrightarrow> (j = k \<longrightarrow> skip_task (jr_job r)) \<Longrightarrow>
    fresh_for j (ae_run env) s \<Longrightarrow>
    auto_step k s (snd (start_job_execution env (jr_job r) ''cron'' scheduled s))"
| observed: "t \<in> set (au_flying s) \<Longrightarrow> trim_space (eo_status obs) \<notin> {''pending'', ''running''} \<Longrightarrow>
    auto_step k s (observe_job_run env t obs s)"
| disabled: "job \<in> set (au_disabling s) \<Longrightarrow> cj_id job \<in> cj_id ` set (au_table s) \<Longrightarrow>
    auto_step k s (disable_expired job s)"
| created: "new_id job_id s \<Longrightarrow> auto_step k s (snd (create_task env check owner_of job_id input s))"
| updated: "auto_step k s (snd (update_task env check owner job_id u s))"
| got: "auto_step k s (snd (get_task env owner job_id s))"
| listed: "auto_step k s (snd (list_tasks env owner agent s))"
| deleted: "auto_step k s (snd (delete_task env interrupt cleanup owner job_id s))"
| recovered: "ae_finish_error env = None \<Longrightarrow>
    auto_step k s (snd (recover_task env interrupt message owner job_id run_id s))"
| stale: "ae_finish_error env = None \<Longrightarrow> auto_step k s (recover_stale env s)"
| restarted: "ae_finish_error env = None \<Longrightarrow> auto_step k s (restart env s)"
| retried: "auto_step k s (snd (retry_run_delivery env owner job_id run_id s))"
| retried_due: "auto_step k s (retry_due_deliveries env now s)"
| heart: "auto_step k s (s\<lparr>au_heart := h\<rparr>)"

inductive_cases auto_step_cases: "auto_step k s s'"

inductive auto_runs :: "string \<Rightarrow> auto_state \<Rightarrow> auto_state \<Rightarrow> bool" for k where
  start: "auto_runs k s s"
| more: "auto_runs k s t \<Longrightarrow> auto_step k t u \<Longrightarrow> auto_runs k s u"

lemma step_holds: "auto_step k s s' \<Longrightarrow> holds_for k s \<Longrightarrow> holds_for k s'"
proof (induction rule: auto_step.induct)
  case (manual owner job_id s job env)
  note b = holds_base[OF manual.prems]
  have "goes (cj_id job) (cj_id job = k) s (snd (start_job_execution env job ''manual'' (ae_now env) s))"
    using holds_occ[OF manual.prems, of "cj_id job"] manual.hyps(2)
    by (intro start_goes[OF b manual.hyps(3) row_fits(1)[OF b manual.hyps(1)]]) blast
  from goes_holds[OF this manual.prems] show ?case
    using manual.hyps(1) manual.prems by (auto simp: run_task_now_def split: option.split)
next
  case (cron s j r now env scheduled)
  note b = holds_base[OF cron.prems]
  have j: "cj_id (jr_job r) = j" "job_fits (jr_job r) s" using state_fits[OF b cron.hyps(1)] by auto
  have "goes (cj_id (jr_job r)) (j = k) s (snd (start_job_execution env (jr_job r) ''cron'' scheduled s))"
    using holds_occ[OF cron.prems, of j] cron.hyps(3,4) j by (intro start_goes[OF b _ j(2)]) auto
  then show ?case using goes_holds[OF _ cron.prems, of j] j(1) by simp
next
  case (observed t s obs env)
  have "goes (cj_id (rt_job t)) (cj_id (rt_job t) = k) s (observe_job_run env t obs s)"
    using holds_occ[OF observed.prems] by (intro observe_goes[OF holds_base[OF observed.prems] observed.hyps]) blast
  then show ?case by (rule goes_holds[OF _ observed.prems])
next
  case (heart s h)
  then show ?case by (simp add: holds_for_def base_ok_def)
qed (auto intro: disable_holds create_holds update_holds get_holds list_holds delete_holds
    recover_task_holds recover_stale_holds restart_holds retry_holds retry_all_holds)

lemma runs_hold: "auto_runs k s s' \<Longrightarrow> holds_for k s \<Longrightarrow> holds_for k s'"
  by (induction rule: auto_runs.induct) (auto intro: step_holds)

text \<open>An occupied task executes at most one run.\<close>

lemma occupied_one:
  assumes "base_ok s" "occupied k w s"
  shows "length (filter (executing k) (au_runs s)) \<le> 1"
proof -
  let ?ids = "map cr_id (filter (executing k) (au_runs s))"
  have "distinct ?ids" using assms(1) by (simp add: base_ok_def distinct_map_filter)
  moreover have "set ?ids \<subseteq> {w}" using assms(2) by (auto simp: occupied_def)
  ultimately show ?thesis using card_mono[of "{w}" "set ?ids"] distinct_card[of ?ids] by simp
qed

text \<open>The service before its first task.\<close>

definition auto_start :: "heart_store \<Rightarrow> auto_state" where
  "auto_start h = \<lparr>au_jobs = [], au_table = [], au_runs = [], au_disabling = [], au_flying = [],
     au_retrying = False, au_heart = h\<rparr>"

lemma start_holds: "holds_for k (auto_start h)"
  by (auto simp: holds_for_def auto_start_def base_ok_def table_ok_def jobs_ok_def occupied_def intro: exI[of _ "[]"])



definition input_example :: job_input where
  "input_example = input_of_job task_example"

definition created_example :: auto_state where
  "created_example = snd (create_task auto_example (\<lambda>_ _. None) Inr ''cron_1'' input_example (auto_start empty_store))"

definition running_example :: auto_state where
  "running_example = snd (run_task_now auto_example [] ''cron_1'' created_example)"

lemma running_example_state: "map cr_status (au_runs running_example) = [''running'']"
  by code_simp

lemma created_example_row:
  "map_option skip_task (get_job [] ''cron_1'' (au_table created_example)) = Some True"
  "au_runs created_example = []" "map cj_id (au_table created_example) = [''cron_1'']"
  "map fst (au_jobs created_example) = [''cron_1'']" "map (jr_run_id \<circ> snd) (au_jobs created_example) = [[]]"
  "map cj_run_id (au_table created_example) = [[]]"
  by code_simp+

lemma example_ids [simp]: "trimmed ''cron_1''" "trimmed ''run_1''"
  by code_simp+

lemma running_example_reached: "auto_runs ''cron_1'' (auto_start empty_store) running_example"
proof -
  have new: "new_id ''cron_1'' (auto_start empty_store)"
    by (simp add: new_id_def auto_start_def)
  have c: "auto_runs ''cron_1'' (auto_start empty_store) created_example"
    unfolding created_example_def by (rule auto_runs.more[OF auto_runs.start auto_step.created[OF new]])
  obtain job where job: "get_job [] ''cron_1'' (au_table created_example) = Some job" "skip_task job"
    using created_example_row(1) by auto
  have id: "cj_id job = ''cron_1''" using job(1) by (auto simp: get_job_def find_Some_iff)
  have rows: "cj_run_id row = []" if "row \<in> set (au_table created_example)" for row
    using that created_example_row(6) by (metis imageI list.set_map list.set(1,2) singletonD)
  have states: "jr_run_id m = []" if "map_of (au_jobs created_example) j = Some m" for j m
  proof -
    have "(jr_run_id \<circ> snd) (j, m) \<in> set (map (jr_run_id \<circ> snd) (au_jobs created_example))"
      unfolding set_map by (rule imageI[OF map_of_SomeD[OF that]])
    then show ?thesis unfolding created_example_row(5) by simp
  qed
  have "ae_run auto_example = ''run_1''" by (simp add: auto_example_def)
  then have fr: "fresh_for (cj_id job) (ae_run auto_example) created_example"
    using rows states created_example_row(2) by (auto simp: fresh_for_def)
  show ?thesis
    unfolding running_example_def by (rule auto_runs.more[OF c auto_step.manual[OF job(1) _ fr]]) (use job(2) in simp)
qed



section \<open>What the guards do not exclude\<close>

text \<open>
  Two triggers at once: the first has claimed the row and not yet counted its run when the
  second finds the row taken. The second installs the runtime state of the row, with a run
  already counted, and the first counts it again.
\<close>

definition row_example :: cron_job where
  "row_example = hd (au_table created_example)"

definition key_example :: string where
  "key_example = ''agent:a1:automation:dm:cron:cron_1:run_1''"

definition raced_example :: auto_state where
  "raced_example =
     (let s = snd (check_overlap auto_example row_example ''manual'' 1000 created_example);
          s = snd (claim_run auto_example row_example ''manual'' (cj_next row_example) s);
          s = snd (run_claimed (auto_example\<lparr>ae_run := ''run_2''\<rparr>) row_example ''manual'' 1000 key_example ''round_2'' s);
          s = count_run auto_example row_example (cj_next row_example) s
      in snd (launch_run auto_example row_example ''manual'' 1000 key_example ''round_1'' s))"

text \<open>When a second trigger loses the claim before the first has counted its run, the run is
  counted twice: its end leaves the task running in memory and in its row, although the only
  entry of the ledger has succeeded, and no later trigger passes the guard.\<close>

lemma raced_trigger_blocks_task:
  "let s = observe_job_run auto_example (hd (au_flying raced_example)) result_example raced_example
   in map cr_status (au_runs s) = [''succeeded''] \<and> map cj_run_id (au_table s) = [''run_1''] \<and>
      map (\<lambda>(_, r). jr_running r) (au_jobs s) = [True] \<and>
      fst (check_overlap auto_example row_example ''manual'' 5000 s) = None"
  by code_simp

text \<open>
  A recovery whose write of the cancelled run fails (it is only logged) frees the task all the
  same: the next trigger starts a second run beside an entry that is still running.
\<close>

definition unrecorded_example :: auto_state where
  "unrecorded_example =
     snd (recover_task (auto_example\<lparr>ae_finish_error := Some ''database is locked''\<rparr>) (\<lambda>_ _. None) ''stopped'' []
       ''cron_1'' [] running_example)"

theorem unrecorded_recovery_overlaps:
  "map cr_status (au_runs (snd (run_task_now (auto_example\<lparr>ae_run := ''run_2''\<rparr>) [] ''cron_1'' unrecorded_example)))
   = [''running'', ''running'']"
  by code_simp

text \<open>A task that is deleted while its expiry is being written comes back, disabled.\<close>

definition at_task_example :: cron_job where
  "at_task_example = row_example\<lparr>cj_schedule := (cj_schedule row_example)\<lparr>sc_kind := ''at''\<rparr>\<rparr>"

theorem late_disabling_restores_row:
  "let s = snd (delete_task auto_example (\<lambda>_ _. None) (\<lambda>_. None) [] ''cron_1'' created_example)
   in au_table s = [] \<and> map (\<lambda>j. (cj_id j, cj_enabled j)) (au_table (disable_expired at_task_example s)) = [(''cron_1'', False)]"
  by code_simp

end
