(* ===== verification/MessageText.thy ===== *)
theory MessageText
  imports InputQueue GoDict
begin

text \<open>
  Content blocks and results of messages: \<open>message/helpers.go\<close>, \<open>projection_result.go\<close> and
  \<open>factory_guidance.go\<close>. A block and a message are dictionaries (\<open>map[string]any\<close>), a nil map
  is the empty one. A block of the agent SDK is a record of what the code reads from it: its raw
  payload, its type and the five typed views, with raw JSON already decoded.
\<close>

type_synonym dict_value = "(string \<times> any) list"

section \<open>Readers\<close>

fun raw_string :: "any \<Rightarrow> string" where
  "raw_string (AStr s) = s"
| "raw_string _ = []"

fun map_value :: "any \<Rightarrow> dict_value" where
  "map_value (AMap m) = m"
| "map_value _ = []"

definition empty_to_nil :: "string \<Rightarrow> any" where
  "empty_to_nil s = (if trim_space s = [] then ANil else AStr (trim_space s))"

definition nil_if_empty_map :: "dict_value \<Rightarrow> any" where
  "nil_if_empty_map m = (if m = [] then ANil else AMap m)"

definition first_non_nil_map :: "dict_value list \<Rightarrow> dict_value" where
  "first_non_nil_map ms = (case filter (\<lambda>m. m \<noteq> []) ms of [] \<Rightarrow> [] | m # _ \<Rightarrow> m)"

definition get_any :: "dict_value \<Rightarrow> string \<Rightarrow> any" where
  "get_any m k = get_or ANil m k"

definition get_str :: "dict_value \<Rightarrow> string \<Rightarrow> string" where
  "get_str m k = string_from_any (get_any m k)"

lemma get_update [simp]:
  "get_any (AList.update k v m) j = (if j = k then v else get_any m j)"
  "get_str (AList.update k v m) j = (if j = k then string_from_any v else get_str m j)"
  by (simp_all add: get_any_def get_str_def)

lemma get_delete [simp]:
  "get_any (AList.delete k m) j = (if j = k then ANil else get_any m j)"
  "get_str (AList.delete k m) j = (if j = k then [] else get_str m j)"
  by (simp_all add: get_any_def get_str_def)

lemma get_Cons [simp]:
  "get_any ((k, v) # m) j = (if j = k then v else get_any m j)"
  "get_str ((k, v) # m) j = (if j = k then string_from_any v else get_str m j)"
  "get_any [] j = ANil" "get_str [] j = []"
  by (simp_all add: get_any_def get_str_def get_or_def)

section \<open>Content blocks\<close>

record sdk_block =
  sb_raw :: dict_value
  sb_type :: string
  sb_text :: "string option"
  sb_thinking :: "(string \<times> string) option"
  sb_image :: "(string \<times> string) option"
  sb_tool_use :: "(string \<times> string \<times> any) option"
  sb_tool_result :: "(string \<times> any \<times> bool \<times> string) option"

definition normalize_block_type :: "string \<Rightarrow> string" where
  "normalize_block_type t =
     (if t = ''server_tool_use'' then ''tool_use''
      else if t = ''server_tool_result'' then ''tool_result'' else t)"

text \<open>Set a field unless the text is blank.\<close>

definition put_text :: "string \<Rightarrow> string \<Rightarrow> dict_value \<Rightarrow> dict_value" where
  "put_text k s m = (if trim_space s = [] then m else AList.update k (AStr (trim_space s)) m)"

definition put_any :: "string \<Rightarrow> any \<Rightarrow> dict_value \<Rightarrow> dict_value" where
  "put_any k v m = (if v = ANil then m else AList.update k v m)"

definition clone_block_payload :: "sdk_block \<Rightarrow> dict_value" where
  "clone_block_payload b =
     (let m = sb_raw b;
          m = (case sb_text b of None \<Rightarrow> m | Some t \<Rightarrow> put_text ''text'' t m);
          m = (case sb_thinking b of None \<Rightarrow> m
               | Some (t, sig) \<Rightarrow> put_text ''signature'' sig (put_text ''thinking'' t m));
          m = (case sb_image b of None \<Rightarrow> m
               | Some (data, mime) \<Rightarrow> put_text ''mime_type'' mime (put_text ''data'' data m));
          m = (case sb_tool_use b of None \<Rightarrow> m
               | Some (ident, name, input) \<Rightarrow> put_any ''input'' input (put_text ''name'' name (put_text ''id'' ident m)))
      in case sb_tool_result b of None \<Rightarrow> m
         | Some (ident, content, err, mime) \<Rightarrow>
             (let m = put_any ''content'' content (put_text ''tool_use_id'' ident m);
                  m = (if err then AList.update ''is_error'' (ABool True) m else m)
              in put_text ''mime_type'' mime m))"

definition merge_normalized_payload :: "sdk_block \<Rightarrow> dict_value \<Rightarrow> dict_value" where
  "merge_normalized_payload b m =
     (let t = normalize_block_type (sb_type b) in
      if t = ''text'' then
        (case sb_text b of None \<Rightarrow> m | Some v \<Rightarrow> AList.update ''text'' (AStr v) m)
      else if t = ''thinking'' then
        (case sb_thinking b of None \<Rightarrow> m
         | Some (v, sig) \<Rightarrow> AList.update ''signature'' (empty_to_nil sig) (AList.update ''thinking'' (AStr v) m))
      else if t = ''image'' then
        (case sb_image b of None \<Rightarrow> m
         | Some (data, mime) \<Rightarrow> AList.update ''mime_type'' (empty_to_nil mime) (AList.update ''data'' (AStr data) m))
      else if t = ''tool_use'' then
        (case sb_tool_use b of None \<Rightarrow> m
         | Some (ident, name, input) \<Rightarrow>
             AList.update ''input'' (AMap (first_non_nil_map [map_value input, []]))
               (AList.update ''name'' (AStr name) (AList.update ''id'' (AStr ident) m)))
      else if t = ''tool_result'' then
        (case sb_tool_result b of None \<Rightarrow> m
         | Some (ident, content, err, mime) \<Rightarrow>
             AList.update ''mime_type'' (empty_to_nil mime)
               (AList.update ''is_error'' (ABool err)
                 (AList.update ''content'' content (AList.update ''tool_use_id'' (AStr ident) m))))
      else m)"

definition normalize_sdk_block :: "sdk_block \<Rightarrow> dict_value" where
  "normalize_sdk_block b =
     merge_normalized_payload b
       (AList.update ''type'' (AStr (normalize_block_type (sb_type b))) (clone_block_payload b))"

definition normalize_content_blocks :: "sdk_block list \<Rightarrow> dict_value list" where
  "normalize_content_blocks bs = map normalize_sdk_block bs"

definition normalize_content_block :: "any \<Rightarrow> dict_value" where
  "normalize_content_block raw =
     (let m = map_value raw; t = get_str m ''type''
      in if t = [] then m else AList.update ''type'' (AStr (normalize_block_type t)) m)"

lemma merge_type [simp]: "get_any (merge_normalized_payload b m) ''type'' = get_any m ''type''"
  by (simp add: merge_normalized_payload_def Let_def split: option.split prod.split)

text \<open>Every block of a snapshot has a type, one of the names the front end knows.\<close>

lemma block_type [simp]: "get_any (normalize_sdk_block b) ''type'' = AStr (normalize_block_type (sb_type b))"
  by (simp add: normalize_sdk_block_def)

lemma block_not_empty [simp]: "normalize_sdk_block b \<noteq> []"
  using block_type[of b] by (auto simp del: block_type)

section \<open>Roles and texts of messages\<close>

definition message_role :: "dict_value \<Rightarrow> string" where
  "message_role m = get_str m ''role''"

definition message_round_id :: "dict_value \<Rightarrow> string" where
  "message_round_id m = get_str m ''round_id''"

fun replace_crlf :: "string \<Rightarrow> string" where
  "replace_crlf (a # b # s) =
     (if a = CHR 0x0D \<and> b = CHR 0x0A then CHR 0x0A # replace_crlf s else a # replace_crlf (b # s))"
| "replace_crlf s = s"

definition normalize_display_text :: "string \<Rightarrow> string" where
  "normalize_display_text s = trim_space (replace_crlf s)"

definition normalize_result_subtype_text :: "string \<Rightarrow> string" where
  "normalize_result_subtype_text subtype =
     (let s = trim_space subtype in if s \<in> set [''success'', ''error'', ''interrupted''] then s else [])"

definition interrupt_prompt_prefix :: string where
  "interrupt_prompt_prefix = ''[Request interrupted by user''"

definition is_interrupt_prompt :: "string \<Rightarrow> bool" where
  "is_interrupt_prompt content \<longleftrightarrow>
     prefix interrupt_prompt_prefix (trim_space content) \<and> suffix '']'' (trim_space content)"

fun message_blocks :: "any \<Rightarrow> dict_value list" where
  "message_blocks (AList xs) = map map_value (filter is_map xs)"
| "message_blocks _ = []"

definition extract_display_text :: "dict_value \<Rightarrow> string" where
  "extract_display_text m =
     normalize_display_text (join [CHR 0x0A, CHR 0x0A]
       (filter (\<lambda>t. t \<noteq> [])
         (map (\<lambda>b. get_str b ''text'')
           (filter (\<lambda>b. get_str b ''type'' = ''text'') (message_blocks (get_any m ''content''))))))"

section \<open>Results\<close>

fun float_from_any :: "any \<Rightarrow> any" where
  "float_from_any (AFloat r) = AFloat r"
| "float_from_any (AInt n) = AFloat (of_int n)"
| "float_from_any _ = AFloat 0"

fun blank_field :: "any \<Rightarrow> bool" where
  "blank_field ANil = True"
| "blank_field (AStr s) = (trim_space s = [])"
| "blank_field (AList xs) = (xs = [])"
| "blank_field (AMap m) = (m = [])"
| "blank_field _ = False"

definition copy_result_field :: "dict_value \<Rightarrow> string \<Rightarrow> dict_value \<Rightarrow> dict_value" where
  "copy_result_field result k summary =
     (if blank_field (get_any result k) then summary else AList.update k (get_any result k) summary)"

definition build_result_summary :: "dict_value \<Rightarrow> string \<Rightarrow> dict_value" where
  "build_result_summary result assistant_text =
     (let subtype = get_str result ''subtype''; value = get_str result ''result'';
          summary =
            [(''message_id'', AStr (get_str result ''message_id'')),
             (''timestamp'', AInt (int64_from_any (get_any result ''timestamp''))), (''subtype'', AStr subtype),
             (''duration_ms'', AInt (int64_from_any (get_any result ''duration_ms''))),
             (''duration_api_ms'', AInt (int64_from_any (get_any result ''duration_api_ms''))),
             (''num_turns'', AInt (int64_from_any (get_any result ''num_turns''))),
             (''is_error'', ABool (bool_from_any (get_any result ''is_error'')))];
          summary = (case map_of result ''total_cost_usd'' of None \<Rightarrow> summary
                     | Some v \<Rightarrow> AList.update ''total_cost_usd'' (float_from_any v) summary);
          summary = (if map_value (get_any result ''usage'') \<noteq> []
                     then AList.update ''usage'' (get_any result ''usage'') summary else summary);
          summary = copy_result_field result ''permission_denials'' summary;
          summary = copy_result_field result ''errors'' summary;
          summary = copy_result_field result ''terminal_reason'' summary;
          summary = copy_result_field result ''stop_reason'' summary;
          text = normalize_display_text value
      in if text \<noteq> [] \<and> (normalize_result_subtype_text subtype \<noteq> ''success'' \<or> text \<noteq> assistant_text)
         then AList.update ''result'' (AStr value) summary else summary)"

definition attach_result_summary :: "dict_value \<Rightarrow> dict_value \<Rightarrow> dict_value option" where
  "attach_result_summary assistant result =
     (if message_role assistant \<noteq> ''assistant'' \<or> message_role result \<noteq> ''result'' then None
      else if message_round_id assistant = [] \<or> message_round_id result = [] \<or>
              message_round_id assistant \<noteq> message_round_id result then None
      else (let summary = build_result_summary result (extract_display_text assistant)
            in if summary = [] then None else Some (AList.update ''result_summary'' (AMap summary) assistant)))"

definition synthetic_message_id :: "dict_value \<Rightarrow> string" where
  "synthetic_message_id result =
     (if get_str result ''message_id'' \<noteq> [] then ''assistant_'' @ get_str result ''message_id''
      else if get_str result ''round_id'' \<noteq> [] then ''assistant_result_'' @ get_str result ''round_id''
      else ''assistant_result'')"

definition build_synthetic_assistant :: "dict_value \<Rightarrow> dict_value" where
  "build_synthetic_assistant result =
     (let m = [(''message_id'', AStr (synthetic_message_id result)), (''session_key'', AStr (get_str result ''session_key'')),
               (''agent_id'', AStr (get_str result ''agent_id'')), (''round_id'', AStr (get_str result ''round_id'')),
               (''role'', AStr ''assistant''), (''timestamp'', AInt (int64_from_any (get_any result ''timestamp''))),
               (''is_complete'', ABool True)];
          m = put_text ''room_id'' (get_str result ''room_id'') m;
          m = put_text ''conversation_id'' (get_str result ''conversation_id'') m;
          m = put_text ''session_id'' (get_str result ''session_id'') m;
          m = put_text ''parent_id'' (get_str result ''parent_id'') m;
          subtype = normalize_result_subtype_text (get_str result ''subtype'');
          m = AList.update ''stop_reason''
                (AStr (if subtype = ''interrupted'' then ''cancelled'' else if subtype = ''error'' then ''error'' else ''end_turn'')) m;
          text = get_str result ''result'';
          m = AList.update ''content''
                (AList (if text \<noteq> [] then [AMap [(''type'', AStr ''text''), (''text'', AStr text)]] else [])) m
      in case attach_result_summary m result of Some summary \<Rightarrow> summary | None \<Rightarrow> m)"

definition project_result_message :: "dict_value \<Rightarrow> dict_value \<Rightarrow> dict_value" where
  "project_result_message assistant result =
     (case attach_result_summary assistant result of Some m \<Rightarrow> m | None \<Rightarrow> build_synthetic_assistant result)"

section \<open>Guided inputs\<close>

definition new_guided_message ::
  "string \<Rightarrow> string \<Rightarrow> string \<Rightarrow> string \<Rightarrow> string \<Rightarrow> string \<Rightarrow> string \<Rightarrow> string \<Rightarrow> string \<Rightarrow> int \<Rightarrow> int \<Rightarrow> dict_value" where
  "new_guided_message message_id session_key room conversation agent round_id source_round content session_id timestamp now =
     (let m = [(''message_id'', AStr (first_non_empty [message_id, trim_space source_round, ''guidance_'' @ trim_space round_id])),
               (''session_key'', AStr (trim_space session_key)), (''agent_id'', AStr (trim_space agent)),
               (''round_id'', AStr (trim_space round_id)), (''role'', AStr ''system''), (''content'', AStr (trim_space content)),
               (''timestamp'', AInt (if timestamp \<le> 0 then now else timestamp)),
               (''metadata'', AMap [(''subtype'', AStr ''guided_input''), (''delivery_policy'', AStr ''guide''),
                                    (''source_round_id'', AStr (trim_space source_round))])]
      in put_text ''session_id'' session_id (put_text ''conversation_id'' conversation (put_text ''room_id'' room m)))"

end
