(* ===== verification/MessageSegment.thy ===== *)
theory MessageSegment
  imports MessageText
begin

text \<open>
  The assistant segment under construction, \<open>message/segment_assistant.go\<close>: its content
  blocks, its metadata and the table from the raw indices of the stream to positions of the
  content. A nil block is the empty dictionary. The clock's reading is an argument.
\<close>

type_synonym block = dict_value

record assistant_segment =
  seg_id :: string
  seg_content :: "block list"
  seg_model :: string
  seg_stop :: string
  seg_usage :: dict_value
  seg_time :: int
  seg_slots :: "(int \<times> nat) list"

definition reset_segment :: assistant_segment where
  "reset_segment = \<lparr>seg_id = [], seg_content = [], seg_model = [], seg_stop = [], seg_usage = [],
     seg_time = 0, seg_slots = []\<rparr>"

definition start_segment :: "int \<Rightarrow> string \<Rightarrow> string \<Rightarrow> dict_value \<Rightarrow> int \<Rightarrow> assistant_segment" where
  "start_segment now message_id model usage timestamp =
     reset_segment\<lparr>seg_id := first_non_empty [message_id, ''assistant_'' @ decimal (nat now)],
       seg_model := trim_space model, seg_usage := usage,
       seg_time := (if timestamp \<le> 0 then now else timestamp)\<rparr>"

definition is_started :: "assistant_segment \<Rightarrow> bool" where
  "is_started s \<longleftrightarrow> trim_space (seg_id s) \<noteq> []"

definition ensure_started :: "int \<Rightarrow> assistant_segment \<Rightarrow> assistant_segment" where
  "ensure_started now s = (if is_started s then s else start_segment now [] [] [] 0)"

definition block_kind :: "block \<Rightarrow> string" where
  "block_kind b = get_str b ''type''"

section \<open>Positions\<close>

text \<open>
  A raw index keeps its position while the block there has the wanted type; otherwise it gets
  the position behind the content.
\<close>

definition resolve_logical_index :: "int \<Rightarrow> string \<Rightarrow> assistant_segment \<Rightarrow> assistant_segment \<times> nat" where
  "resolve_logical_index raw kind s =
     (case map_of (seg_slots s) raw of
        Some l \<Rightarrow>
          if l < length (seg_content s) \<and> block_kind (seg_content s ! l) \<in> {[], kind} then (s, l)
          else (s\<lparr>seg_slots := AList.update raw (length (seg_content s)) (seg_slots s)\<rparr>, length (seg_content s))
      | None \<Rightarrow>
          (s\<lparr>seg_slots := AList.update raw (length (seg_content s)) (seg_slots s)\<rparr>, length (seg_content s)))"

definition resolve_existing :: "int \<Rightarrow> assistant_segment \<Rightarrow> nat option" where
  "resolve_existing raw s = map_of (seg_slots s) raw"

definition empty_text_block :: block where
  "empty_text_block = [(''type'', AStr ''text''), (''text'', AStr [])]"

definition pad_content :: "nat \<Rightarrow> block list \<Rightarrow> block list" where
  "pad_content l bs = bs @ replicate (Suc l - length bs) empty_text_block"

definition apply_block :: "int \<Rightarrow> int \<Rightarrow> block \<Rightarrow> assistant_segment \<Rightarrow> assistant_segment \<times> nat" where
  "apply_block now index b s =
     (case resolve_logical_index index (block_kind b) (ensure_started now s) of
        (s, l) \<Rightarrow> (s\<lparr>seg_content := (pad_content l (seg_content s))[l := b]\<rparr>, l))"

definition infer_block_type :: "dict_value \<Rightarrow> string" where
  "infer_block_type delta =
     (let t = get_str delta ''type'' in
      if t \<in> {''thinking_delta'', ''signature_delta''} then ''thinking''
      else if t = ''text_delta'' then ''text'' else [])"

definition extend_field :: "string \<Rightarrow> dict_value \<Rightarrow> block \<Rightarrow> block" where
  "extend_field k delta b = AList.update k (AStr (raw_string (get_any b k) @ raw_string (get_any delta k))) b"

definition delta_field :: "string \<Rightarrow> string \<Rightarrow> string option" where
  "delta_field kind delta_type =
     (if kind = ''text'' \<and> delta_type = ''text_delta'' then Some ''text''
      else if kind = ''thinking'' \<and> delta_type = ''thinking_delta'' then Some ''thinking''
      else if kind = ''thinking'' \<and> delta_type = ''signature_delta'' then Some ''signature''
      else None)"

definition apply_delta :: "int \<Rightarrow> int \<Rightarrow> dict_value \<Rightarrow> assistant_segment \<Rightarrow> assistant_segment \<times> nat \<times> bool" where
  "apply_delta now index delta s =
     (let s = ensure_started now s;
          (s, l) = (case resolve_existing index s of
                      Some l \<Rightarrow> (s, l)
                    | None \<Rightarrow> resolve_logical_index index (infer_block_type delta) s);
          s = s\<lparr>seg_content := pad_content l (seg_content s)\<rparr>;
          b = seg_content s ! l
      in case delta_field (block_kind b) (get_str delta ''type'') of
           None \<Rightarrow> (s, l, False)
         | Some k \<Rightarrow> (s\<lparr>seg_content := (seg_content s)[l := extend_field k delta b]\<rparr>, l, True))"

definition current_block :: "int \<Rightarrow> assistant_segment \<Rightarrow> block" where
  "current_block index s =
     (let l = (case resolve_existing index s of Some l \<Rightarrow> int l | None \<Rightarrow> index)
      in if l < 0 \<or> l \<ge> int (length (seg_content s)) then [] else seg_content s ! nat l)"

section \<open>Metadata and snapshots\<close>

definition update_meta :: "string \<Rightarrow> dict_value \<Rightarrow> string \<Rightarrow> assistant_segment \<Rightarrow> assistant_segment" where
  "update_meta model usage stop_reason s =
     (let s = (if trim_space model \<noteq> [] then s\<lparr>seg_model := trim_space model\<rparr> else s);
          s = (if usage \<noteq> [] then s\<lparr>seg_usage := usage\<rparr> else s)
      in if trim_space stop_reason \<noteq> [] then s\<lparr>seg_stop := trim_space stop_reason\<rparr> else s)"

definition workspace_file_artifact_type :: string where
  "workspace_file_artifact_type = ''workspace_file_artifact''"

definition workspace_file_artifact_key :: "block \<Rightarrow> string" where
  "workspace_file_artifact_key b =
     (if get_str b ''id'' \<noteq> [] then get_str b ''id''
      else if get_str b ''source_tool_use_id'' = [] \<or> get_str b ''path'' = [] then []
      else get_str b ''source_tool_use_id'' @ '':'' @ get_str b ''path'')"

text \<open>Whether an incoming block replaces one of the same type.\<close>

definition same_block :: "block \<Rightarrow> block \<Rightarrow> bool" where
  "same_block current b \<longleftrightarrow>
     block_kind current = block_kind b \<and>
     (let kind = block_kind b in
      if kind = ''thinking'' then True
      else if kind = ''tool_use'' then get_str current ''id'' = get_str b ''id''
      else if kind = ''tool_result'' then get_str current ''tool_use_id'' = get_str b ''tool_use_id''
      else if kind = ''task_progress'' then get_str current ''task_id'' = get_str b ''task_id''
      else if kind = workspace_file_artifact_type
           then workspace_file_artifact_key current = workspace_file_artifact_key b
      else kind = ''text'' \<and> raw_string (get_any current ''text'') = raw_string (get_any b ''text''))"

fun upsert :: "block \<Rightarrow> block list \<Rightarrow> block list" where
  "upsert b [] = [b]"
| "upsert b (c # cs) = (if same_block c b then b # cs else c # upsert b cs)"

definition upsert_block :: "block \<Rightarrow> assistant_segment \<Rightarrow> assistant_segment" where
  "upsert_block b s = s\<lparr>seg_content := upsert b (seg_content s)\<rparr>"

definition upsert_all :: "block list \<Rightarrow> block list \<Rightarrow> block list" where
  "upsert_all bs cs = foldl (\<lambda>cs b. upsert b cs) cs bs"

definition replace_from_snapshot ::
  "int \<Rightarrow> block list \<Rightarrow> string \<Rightarrow> dict_value \<Rightarrow> string \<Rightarrow> assistant_segment \<Rightarrow> assistant_segment" where
  "replace_from_snapshot now content model usage stop_reason s =
     (let s = ensure_started now s
      in update_meta model usage stop_reason
           (s\<lparr>seg_content := (if seg_content s = [] then content else upsert_all content (seg_content s))\<rparr>))"

definition append_task_progress :: "int \<Rightarrow> block \<Rightarrow> assistant_segment \<Rightarrow> assistant_segment" where
  "append_task_progress now b s = upsert_block b (ensure_started now s)"

definition append_tool_results :: "int \<Rightarrow> block list \<Rightarrow> assistant_segment \<Rightarrow> assistant_segment" where
  "append_tool_results now bs s =
     (let s = ensure_started now s in s\<lparr>seg_content := upsert_all bs (seg_content s)\<rparr>)"

section \<open>Lookups\<close>

definition find_tool_name :: "string \<Rightarrow> assistant_segment \<Rightarrow> string" where
  "find_tool_name tool_use_id s =
     (case find (\<lambda>b. block_kind b = ''tool_use'' \<and> get_str b ''id'' = tool_use_id) (seg_content s) of
        None \<Rightarrow> [] | Some b \<Rightarrow> get_str b ''name'')"

definition find_tool_use :: "string \<Rightarrow> assistant_segment \<Rightarrow> block" where
  "find_tool_use tool_use_id s =
     (if trim_space tool_use_id = [] then []
      else case find (\<lambda>b. block_kind b = ''tool_use'' \<and> get_str b ''id'' = trim_space tool_use_id) (seg_content s) of
             None \<Rightarrow> [] | Some b \<Rightarrow> b)"

definition has_tool_use :: "string \<Rightarrow> assistant_segment \<Rightarrow> bool" where
  "has_tool_use tool_use_id s \<longleftrightarrow>
     trim_space tool_use_id \<noteq> [] \<and>
     list_ex (\<lambda>b. block_kind b = ''tool_use'' \<and> get_str b ''id'' = trim_space tool_use_id) (seg_content s)"

section \<open>The assistant message\<close>

text \<open>The first thinking block goes to the front.\<close>

definition normalized_content :: "block list \<Rightarrow> block list" where
  "normalized_content bs =
     (if length bs \<le> 1 then bs
      else case dropWhile (\<lambda>b. block_kind b \<noteq> ''thinking'') bs of
             [] \<Rightarrow> bs
           | t # rest \<Rightarrow> t # takeWhile (\<lambda>b. block_kind b \<noteq> ''thinking'') bs @ rest)"

record message_context =
  mc_session :: string
  mc_room :: string
  mc_conversation :: string
  mc_agent :: string
  mc_workspace :: string
  mc_round :: string
  mc_parent :: string

definition base_message_envelope :: "int \<Rightarrow> message_context \<Rightarrow> string \<Rightarrow> string \<Rightarrow> string \<Rightarrow> dict_value" where
  "base_message_envelope now ctx session_id message_id role =
     (let m = [(''message_id'', AStr (trim_space message_id)), (''session_key'', AStr (mc_session ctx)),
               (''agent_id'', AStr (mc_agent ctx)), (''round_id'', AStr (mc_round ctx)), (''role'', AStr role),
               (''timestamp'', AInt now)];
          m = put_text ''session_id'' session_id m;
          m = (if role \<noteq> ''user'' then put_text ''parent_id'' (mc_parent ctx) m else m)
      in put_text ''conversation_id'' (mc_conversation ctx) (put_text ''room_id'' (mc_room ctx) m))"

definition build_assistant_message ::
  "int \<Rightarrow> message_context \<Rightarrow> string \<Rightarrow> bool \<Rightarrow> assistant_segment \<Rightarrow> assistant_segment \<times> dict_value" where
  "build_assistant_message now ctx session_id is_complete s =
     (let s = ensure_started now s;
          m = base_message_envelope now ctx session_id (seg_id s) ''assistant'';
          m = AList.update ''content'' (AList (map AMap (normalized_content (seg_content s)))) m;
          m = AList.update ''model'' (empty_to_nil (seg_model s)) m;
          m = AList.update ''usage'' (nil_if_empty_map (seg_usage s)) m;
          m = AList.update ''is_complete'' (ABool is_complete) m;
          m = (if trim_space (seg_stop s) \<noteq> [] then AList.update ''stop_reason'' (AStr (seg_stop s)) m else m)
      in (s, if seg_time s > 0 then AList.update ''timestamp'' (AInt (seg_time s)) m else m))"

section \<open>Stream slots\<close>

text \<open>
  The table of slots is injective and points into the content. Two raw indices therefore
  never share a block.
\<close>

definition segment_ok :: "assistant_segment \<Rightarrow> bool" where
  "segment_ok s \<longleftrightarrow>
     (\<forall>i l. map_of (seg_slots s) i = Some l \<longrightarrow> l < length (seg_content s)) \<and>
     (\<forall>i j l. map_of (seg_slots s) i = Some l \<longrightarrow> map_of (seg_slots s) j = Some l \<longrightarrow> i = j)"

lemma segment_okD:
  assumes "segment_ok s" and "map_of (seg_slots s) i = Some l"
  shows "l < length (seg_content s)" and "map_of (seg_slots s) j = Some l \<Longrightarrow> j = i"
  using assms by (auto simp: segment_ok_def)

lemma segment_ok_start [simp]: "segment_ok (start_segment now i m u t)"
  by (simp add: segment_ok_def start_segment_def reset_segment_def)

lemma segment_ok_ensure [simp]: "segment_ok s \<Longrightarrow> segment_ok (ensure_started now s)"
  by (simp add: ensure_started_def)

lemma started_start [simp]: "is_started (start_segment now i m u t)"
proof -
  have "trim_space (''assistant_'' @ x) \<noteq> []" for x
    by (rule trim_space_ne[of "CHR ''a''"]) (simp, code_simp)
  then have "first_non_empty [i, ''assistant_'' @ decimal (nat now)] \<noteq> []" by simp
  then show ?thesis
    by (simp add: is_started_def start_segment_def trim_space_id[OF trimmed_first_non_empty] del: first_non_empty.simps)
qed

lemma ensure_started [simp]: "is_started (ensure_started now s)" "is_started s \<Longrightarrow> ensure_started now s = s"
  by (simp_all add: ensure_started_def)

lemma length_pad [simp]: "length (pad_content l bs) = max (length bs) (Suc l)"
  by (simp add: pad_content_def)

lemma pad_id [simp]: "l < length bs \<Longrightarrow> pad_content l bs = bs"
  by (simp add: pad_content_def)

lemma pad_next [simp]: "pad_content (length bs) bs = bs @ [empty_text_block]"
  by (simp add: pad_content_def)

lemma block_kind_simps [simp]:
  "block_kind empty_text_block = ''text''" "block_kind (extend_field ''text'' d b) = block_kind b"
  "block_kind (extend_field ''thinking'' d b) = block_kind b"
  "block_kind (extend_field ''signature'' d b) = block_kind b"
proof -
  have "trimmed ''text''" by code_simp
  then show "block_kind empty_text_block = ''text''" by (simp add: block_kind_def empty_text_block_def)
qed (simp_all add: block_kind_def extend_field_def)

lemma delta_field_in: "delta_field kind t = Some k \<Longrightarrow> k \<in> {''text'', ''thinking'', ''signature''}"
  by (auto simp: delta_field_def split: if_splits)

lemma kind_extended: "delta_field kind t = Some k \<Longrightarrow> block_kind (extend_field k d b) = block_kind b"
  using delta_field_in[of kind t k] by auto

text \<open>Resolving an index keeps its position or takes the one behind the content.\<close>

lemma resolve_cases:
  assumes "resolve_logical_index i kind s = (s', l)"
  obtains (kept) "s' = s" "map_of (seg_slots s) i = Some l" "l < length (seg_content s)"
  | (fresh) "s' = s\<lparr>seg_slots := AList.update i l (seg_slots s)\<rparr>" "l = length (seg_content s)"
proof -
  have "s' = s \<and> map_of (seg_slots s) i = Some l \<and> l < length (seg_content s) \<or>
      s' = s\<lparr>seg_slots := AList.update i l (seg_slots s)\<rparr> \<and> l = length (seg_content s)"
    using assms by (simp add: resolve_logical_index_def split: option.splits if_splits) blast+
  then show thesis using kept fresh by blast
qed

lemma segment_okI:
  assumes "\<And>i l. map_of (seg_slots s) i = Some l \<Longrightarrow> l < length (seg_content s)"
    and "\<And>i j l. map_of (seg_slots s) i = Some l \<Longrightarrow> map_of (seg_slots s) j = Some l \<Longrightarrow> i = j"
  shows "segment_ok s"
  using assms unfolding segment_ok_def by blast

lemma segment_ok_fresh:
  assumes ok: "segment_ok s" and more: "length (seg_content s) < length cs"
  shows "segment_ok (s\<lparr>seg_slots := AList.update i (length (seg_content s)) (seg_slots s), seg_content := cs\<rparr>)"
proof (rule segment_okI; clarsimp split: if_splits)
  fix j l
  assume "j \<noteq> i" "map_of (seg_slots s) j = Some l"
  then show "l < length cs" using segment_okD(1)[OF ok] more by fastforce
next
  fix j j' l
  assume h: "map_of (seg_slots s) j = Some l" "map_of (seg_slots s) j' = Some l"
  then show "j = j'" using segment_okD(2)[OF ok] by metis
qed (use more segment_okD(1)[OF ok] in \<open>fastforce+\<close>)

lemma segment_ok_content:
  assumes ok: "segment_ok s" and more: "length (seg_content s) \<le> length cs"
  shows "segment_ok (s\<lparr>seg_content := cs\<rparr>)"
proof (rule segment_okI)
  fix j l
  assume "map_of (seg_slots (s\<lparr>seg_content := cs\<rparr>)) j = Some l"
  then show "l < length (seg_content (s\<lparr>seg_content := cs\<rparr>))"
    using segment_okD(1)[OF ok, of j l] more by simp
next
  fix j j' l
  assume "map_of (seg_slots (s\<lparr>seg_content := cs\<rparr>)) j = Some l"
    and "map_of (seg_slots (s\<lparr>seg_content := cs\<rparr>)) j' = Some l"
  then show "j = j'" using segment_okD(2)[OF ok, of j' l j] by simp
qed

lemma resolve_ok:
  assumes "segment_ok s" and r: "resolve_logical_index i kind s = (s', l)"
  shows "seg_content s' = seg_content s \<and> seg_id s' = seg_id s \<and> map_of (seg_slots s') i = Some l \<and>
     segment_ok (s'\<lparr>seg_content := pad_content l (seg_content s')\<rparr>) \<and> l \<le> length (seg_content s)"
  using r
proof (cases rule: resolve_cases)
  case kept
  then show ?thesis using assms(1) by simp
next
  case fresh
  then show ?thesis using segment_ok_fresh[OF assms(1)] by simp
qed

lemma resolve_other:
  "resolve_logical_index i kind s = (s', l) \<Longrightarrow> j \<noteq> i \<Longrightarrow> map_of (seg_slots s') j = map_of (seg_slots s) j"
  by (auto elim!: resolve_cases)
section \<open>Deltas\<close>

text \<open>The state in which a delta finds its block.\<close>

definition delta_target :: "int \<Rightarrow> dict_value \<Rightarrow> assistant_segment \<Rightarrow> assistant_segment \<times> nat" where
  "delta_target j d s =
     (let (s, l) = (case resolve_existing j s of
                      Some l \<Rightarrow> (s, l)
                    | None \<Rightarrow> resolve_logical_index j (infer_block_type d) s)
      in (s\<lparr>seg_content := pad_content l (seg_content s)\<rparr>, l))"

lemma apply_delta_target:
  "apply_delta now j d s =
     (case delta_target j d (ensure_started now s) of (s, l) \<Rightarrow>
        case delta_field (block_kind (seg_content s ! l)) (get_str d ''type'') of
          None \<Rightarrow> (s, l, False)
        | Some k \<Rightarrow> (s\<lparr>seg_content := (seg_content s)[l := extend_field k d (seg_content s ! l)]\<rparr>, l, True))"
  by (simp add: apply_delta_def delta_target_def Let_def case_prod_beta cong: option.case_cong)

lemma delta_target_ok:
  assumes ok: "segment_ok s" and t: "delta_target j d s = (s', l)"
  shows "segment_ok s' \<and> seg_id s' = seg_id s \<and> map_of (seg_slots s') j = Some l \<and>
     (\<exists>xs. seg_content s' = seg_content s @ xs) \<and>
     (\<forall>i. map_of (seg_slots s) i \<noteq> None \<longrightarrow> map_of (seg_slots s') i = map_of (seg_slots s) i)"
proof (cases "map_of (seg_slots s) j")
  case None
  obtain s1 where r: "resolve_logical_index j (infer_block_type d) s = (s1, l)"
    and s': "s' = s1\<lparr>seg_content := pad_content l (seg_content s1)\<rparr>"
    using t None by (auto simp: delta_target_def resolve_existing_def split: prod.splits)
  have "map_of (seg_slots s1) i = map_of (seg_slots s) i" if "map_of (seg_slots s) i \<noteq> None" for i
    using resolve_other[OF r, of i] None that by metis
  moreover have "\<exists>xs. pad_content l bs = bs @ xs" for bs
    by (simp add: pad_content_def)
  ultimately show ?thesis
    using resolve_ok[OF ok r] unfolding s' by auto
next
  case (Some l0)
  then show ?thesis using t ok segment_okD(1)[OF ok Some] by (auto simp: delta_target_def resolve_existing_def)
qed

lemma segment_ok_update: "segment_ok s \<Longrightarrow> segment_ok (s\<lparr>seg_content := (seg_content s)[l := b]\<rparr>)"
  by (rule segment_ok_content) simp_all

lemma apply_delta_ok:
  assumes "segment_ok s"
  shows "segment_ok (fst (apply_delta now j d s))"
proof -
  obtain s1 l1 where t: "delta_target j d (ensure_started now s) = (s1, l1)" by fastforce
  have "segment_ok s1" using delta_target_ok[OF _ t] assms by simp
  then show ?thesis by (auto simp: apply_delta_target t segment_ok_update split: option.split)
qed

lemma raw_extended:
  "raw_string (get_any (extend_field k' d b) k) =
     raw_string (get_any b k) @ (if k = k' then raw_string (get_any d k) else [])"
  by (simp add: extend_field_def)

text \<open>One delta extends one field of the block of its index and leaves every other block alone.\<close>

lemma apply_delta_step:
  fixes s :: assistant_segment and now j :: int and d :: dict_value and l :: nat
  assumes ok: "segment_ok s" and started: "is_started s" and slot: "map_of (seg_slots s) i = Some l"
  defines "s' \<equiv> fst (apply_delta now j d s)" and "kind \<equiv> block_kind (seg_content s ! l)"
  shows "segment_ok s' \<and> is_started s' \<and> map_of (seg_slots s') i = Some l \<and>
     block_kind (seg_content s' ! l) = kind \<and>
     raw_string (get_any (seg_content s' ! l) k) = raw_string (get_any (seg_content s ! l) k) @
       (if j = i \<and> delta_field kind (get_str d ''type'') = Some k then raw_string (get_any d k) else [])"
proof -
  obtain s1 l1 where t: "delta_target j d s = (s1, l1)" by fastforce
  note T = delta_target_ok[OF ok t]
  have l: "l < length (seg_content s)" using segment_okD(1)[OF ok slot] .
  obtain xs where xs: "seg_content s1 = seg_content s @ xs" using T by blast
  then have same: "seg_content s1 ! l = seg_content s ! l" using l by (simp add: nth_append)
  have slot1: "map_of (seg_slots s1) i = Some l" using T slot by simp
  have target: "l1 = l \<longleftrightarrow> j = i"
    using T slot1 segment_okD(2)[of s1] by (metis option.inject)
  have id1: "is_started s1" using T started by (simp add: is_started_def)
  show ?thesis
  proof (cases "delta_field (block_kind (seg_content s1 ! l1)) (get_str d ''type'')")
    case None
    then have "s' = s1" using started by (simp add: s'_def apply_delta_target t)
    then show ?thesis using T id1 slot1 same target None by (auto simp: kind_def)
  next
    case (Some k')
    then have s': "s' = s1\<lparr>seg_content := (seg_content s1)[l1 := extend_field k' d (seg_content s1 ! l1)]\<rparr>"
      using started by (simp add: s'_def apply_delta_target t)
    have "l1 < length (seg_content s1)" using T segment_okD(1) by blast
    then show ?thesis
      using T id1 slot1 same target Some kind_extended[OF Some] unfolding s' kind_def
      by (auto simp: nth_list_update is_started_def segment_ok_update raw_extended)
  qed
qed

definition stream_deltas :: "int \<Rightarrow> (int \<times> dict_value) list \<Rightarrow> assistant_segment \<Rightarrow> assistant_segment" where
  "stream_deltas now ds s = foldl (\<lambda>s (j, d). fst (apply_delta now j d s)) s ds"

text \<open>C12. Whatever the interleaving of a stream, the block of an index holds what it held and then, in the
  order of arrival, the texts of exactly the deltas of that index that fit its type.\<close>
theorem deltas_accumulate:
  assumes "segment_ok s" and "is_started s" and "map_of (seg_slots s) i = Some l"
  shows "raw_string (get_any (seg_content (stream_deltas now ds s) ! l) k) =
     raw_string (get_any (seg_content s ! l) k) @
       concat (map (\<lambda>(j, d). if j = i \<and>
           delta_field (block_kind (seg_content s ! l)) (get_str d ''type'') = Some k
         then raw_string (get_any d k) else []) ds)"
  using assms
proof (induction ds arbitrary: s)
  case (Cons jd ds)
  obtain j d where jd: "jd = (j, d)" by fastforce
  note S = apply_delta_step[OF Cons.prems, of now j d k]
  have "stream_deltas now (jd # ds) s = stream_deltas now ds (fst (apply_delta now j d s))"
    by (simp add: stream_deltas_def jd)
  then show ?case using S Cons.IH[of "fst (apply_delta now j d s)"] by (simp add: jd)
qed (simp add: stream_deltas_def)

definition sample_delta :: "string \<Rightarrow> dict_value" where
  "sample_delta t = [(''type'', AStr ''text_delta''), (''text'', AStr t)]"

definition sample_segment :: assistant_segment where
  "sample_segment = fst (apply_block 1 1 empty_text_block
     (fst (apply_block 1 0 empty_text_block (start_segment 1 ''m'' [] [] 1))))"

lemma sample_segment_ok:
  "segment_ok sample_segment" "is_started sample_segment" "map_of (seg_slots sample_segment) 0 = Some 0"
proof -
  have "seg_slots sample_segment = [(0, 0), (1, 1)] \<and> length (seg_content sample_segment) = 2"
    by code_simp
  then show "segment_ok sample_segment" "map_of (seg_slots sample_segment) 0 = Some 0"
    by (auto simp: segment_ok_def)
  show "is_started sample_segment" by code_simp
qed

theorem deltas_accumulate_witness:
  "raw_string (get_any (seg_content (stream_deltas 1
      [(0, sample_delta ''a''), (1, sample_delta ''x''), (0, sample_delta ''b'')] sample_segment) ! 0) ''text'') = ''ab''"
proof -
  have "raw_string (get_any (seg_content sample_segment ! 0) ''text'') @
     concat (map (\<lambda>(j, d). if j = 0 \<and>
         delta_field (block_kind (seg_content sample_segment ! 0)) (get_str d ''type'') = Some ''text''
       then raw_string (get_any d ''text'') else [])
       [(0::int, sample_delta ''a''), (1, sample_delta ''x''), (0, sample_delta ''b'')]) = ''ab''"
    by code_simp
  then show ?thesis using deltas_accumulate[OF sample_segment_ok] by simp
qed

text \<open>
  The position of a block is read as a raw index again: when the blocks of a stream start in another
  order than their indices, the block shown for a delta is another one.
\<close>

lemma delta_shows_other_block:
  "let s = fst (apply_block 1 0 [(''type'', AStr ''text''), (''text'', AStr ''other'')]
             (fst (apply_block 1 1 empty_text_block (start_segment 1 ''m'' [] [] 1))));
       (s', l, applied) = apply_delta 1 1 (sample_delta ''x'') s
   in l = 0 \<and> applied \<and> get_str (seg_content s' ! l) ''text'' = ''x'' \<and>
      get_str (current_block (int l) s') ''text'' = ''other''"
  by code_simp

section \<open>Snapshots\<close>

text \<open>
  A list of blocks is keyed when every block is found again by \<open>same_block\<close> and by no other:
  no image, one thinking block, distinct ids and distinct texts.
\<close>

definition keyed :: "block list \<Rightarrow> bool" where
  "keyed bs \<longleftrightarrow> (\<forall>b \<in> set bs. same_block b b) \<and>
     sorted_wrt (\<lambda>c b. \<not> same_block c b \<and> \<not> same_block b c) bs"

lemma upsert_known: "keyed cs \<Longrightarrow> b \<in> set cs \<Longrightarrow> upsert b cs = cs"
  by (induction cs) (auto simp: keyed_def)

lemma upsert_all_known: "keyed cs \<Longrightarrow> set bs \<subseteq> set cs \<Longrightarrow> upsert_all bs cs = cs"
  by (induction bs) (simp_all add: upsert_all_def upsert_known)

lemma upsert_all_Cons [simp]:
  "upsert_all [] cs = cs" "upsert_all (b # bs) cs = upsert_all bs (upsert b cs)"
  by (simp_all add: upsert_all_def)

text \<open>No block is lost: an upsert keeps the number of blocks or adds one.\<close>

lemma length_upsert: "length cs \<le> length (upsert b cs) \<and> length (upsert b cs) \<le> Suc (length cs)"
  by (induction cs) auto

lemma length_upsert_all: "length cs \<le> length (upsert_all bs cs)"
proof (induction bs arbitrary: cs)
  case (Cons b bs)
  have "length cs \<le> length (upsert b cs)" using length_upsert by blast
  then show ?case using Cons[of "upsert b cs"] by simp
qed simp

lemma upsert_mem: "b \<in> set (upsert b cs)"
  by (induction cs) auto

lemma update_meta_content [simp]:
  "seg_content (update_meta m u r s) = seg_content s" "seg_id (update_meta m u r s) = seg_id s"
  "seg_slots (update_meta m u r s) = seg_slots s"
  by (simp_all add: update_meta_def Let_def)

lemma update_meta_twice [simp]: "update_meta m u r (update_meta m u r s) = update_meta m u r s"
  by (simp add: update_meta_def Let_def)

lemma update_meta_set_content:
  "update_meta m u r (s\<lparr>seg_content := cs\<rparr>) = (update_meta m u r s)\<lparr>seg_content := cs\<rparr>"
  by (simp add: update_meta_def Let_def)

text \<open>A keyed snapshot that arrives twice changes nothing the second time.\<close>

lemma snapshot_idempotent:
  assumes "keyed content" and "seg_content (ensure_started now s) = []"
  shows "replace_from_snapshot now' content model usage stop (replace_from_snapshot now content model usage stop s) =
     replace_from_snapshot now content model usage stop s"
proof -
  let ?s = "replace_from_snapshot now content model usage stop s"
  have c: "seg_content ?s = content" using assms(2) by (simp add: replace_from_snapshot_def)
  have started: "is_started ?s"
    using ensure_started(1)[of now s] by (simp add: replace_from_snapshot_def is_started_def Let_def)
  have "replace_from_snapshot now' content model usage stop ?s =
      update_meta model usage stop (?s\<lparr>seg_content := content\<rparr>)"
    using c started upsert_all_known[OF assms(1), of content] by (simp add: replace_from_snapshot_def Let_def)
  also have "\<dots> = (update_meta model usage stop ?s)\<lparr>seg_content := content\<rparr>"
    by (rule update_meta_set_content)
  also have "update_meta model usage stop ?s = ?s"
    by (simp add: replace_from_snapshot_def Let_def)
  finally show ?thesis using c by simp
qed

text \<open>
  A snapshot with two thinking blocks is not keyed: on its second arrival the last thinking block
  takes the place of the first and is there twice.
\<close>

definition thinking_block :: "string \<Rightarrow> block" where
  "thinking_block t = [(''type'', AStr ''thinking''), (''thinking'', AStr t)]"

lemma second_thinking_lost:
  assumes "block_kind b = ''thinking''" "block_kind c = ''thinking''"
  shows "upsert_all [b, c] [b, c] = [c, c]"
  using assms by (simp add: same_block_def)

section \<open>The order of the content\<close>

text \<open>
  The content is sent as a permutation of the blocks: the first thinking block leads, the others
  keep their order.
\<close>

lemma thinking_leads:
  "(\<exists>b \<in> set bs. block_kind b = ''thinking'') \<longrightarrow> block_kind (hd (normalized_content bs)) = ''thinking''"
  "\<exists>t. normalized_content bs = bs \<or>
      normalized_content bs = t # remove1 t bs \<and> block_kind t = ''thinking'' \<and> t \<in> set bs"
proof -
  let ?P = "\<lambda>b. block_kind b \<noteq> ''thinking''"
  consider (none) "dropWhile ?P bs = []" | (some) t rest where "dropWhile ?P bs = t # rest"
    by (cases "dropWhile ?P bs") auto
  then have "((\<exists>b \<in> set bs. \<not> ?P b) \<longrightarrow> \<not> ?P (hd (normalized_content bs))) \<and>
    (\<exists>t. normalized_content bs = bs \<or>
      normalized_content bs = t # remove1 t bs \<and> \<not> ?P t \<and> t \<in> set bs)"
  proof cases
    case none
    have "normalized_content bs = bs" by (simp only: normalized_content_def none list.case if_cancel)
    moreover have "\<forall>b \<in> set bs. ?P b" using none by (simp add: dropWhile_eq_Nil_conv)
    ultimately show ?thesis by simp
  next
    case some
    have t: "\<not> ?P t" using some hd_dropWhile[of ?P bs] by simp
    have bs: "bs = takeWhile ?P bs @ t # rest" using takeWhile_dropWhile_id[of ?P bs] some by simp
    have "t \<notin> set (takeWhile ?P bs)" using t by (auto dest: set_takeWhileD)
    then have r: "remove1 t bs = takeWhile ?P bs @ rest"
      by (subst bs) (simp add: remove1_append)
    show ?thesis
    proof (cases "length bs \<le> 1")
      case True
      then obtain b where b: "bs = [b]" using some by (cases bs) auto
      then have "b = t" using some by (simp split: if_splits)
      then show ?thesis using t b by (simp add: normalized_content_def)
    next
      case False
      then have "normalized_content bs = t # remove1 t bs"
        using some r by (simp add: normalized_content_def)
      moreover have "t \<in> set bs" by (subst bs) simp
      ultimately show ?thesis using t by simp
    qed
  qed
  then show "(\<exists>b \<in> set bs. block_kind b = ''thinking'') \<longrightarrow> block_kind (hd (normalized_content bs)) = ''thinking''"
    "\<exists>t. normalized_content bs = bs \<or>
      normalized_content bs = t # remove1 t bs \<and> block_kind t = ''thinking'' \<and> t \<in> set bs"
    by auto
qed

text \<open>
  A thinking delta whose index has no block yet is lost, and an empty text block takes the index.
\<close>

lemma unstarted_thinking_lost:
  assumes "is_started s" and "map_of (seg_slots s) i = None" and "get_str d ''type'' = ''thinking_delta''"
  shows "apply_delta now i d s =
     (s\<lparr>seg_slots := AList.update i (length (seg_content s)) (seg_slots s),
        seg_content := seg_content s @ [empty_text_block]\<rparr>, length (seg_content s), False)"
  using assms
  by (simp add: apply_delta_def resolve_existing_def resolve_logical_index_def delta_field_def Let_def)

end
