(* ===== verification/WorkspaceArtifact.thy ===== *)
theory WorkspaceArtifact
  imports MessageSegment SessionPaths
begin

text \<open>
  Files an agent writes, as blocks of its message: \<open>message/processor_workspace_artifact.go\<close> and
  \<open>protocol/model_workspace_file_artifact.go\<close>. Paths are those of Unix; decoding JSON text is the
  parameter \<open>unmarshal\<close>.
\<close>

section \<open>Paths\<close>

definition is_abs :: "string \<Rightarrow> bool" where
  "is_abs p \<longleftrightarrow> prefix ''/'' p"

definition path_segments :: "string \<Rightarrow> string list" where
  "path_segments p = clean_segments (is_abs p) [] (split_on (CHR ''/'') p)"

text \<open>\<open>filepath.Rel\<close> for an absolute target: it fails on a relative base.\<close>

fun rel_segments :: "string list \<Rightarrow> string list \<Rightarrow> string list" where
  "rel_segments (b # bs) (t # ts) =
     (if b = t then rel_segments bs ts else replicate (Suc (length bs)) ''..'' @ t # ts)"
| "rel_segments bs ts = replicate (length bs) ''..'' @ ts"

definition file_rel :: "string \<Rightarrow> string \<Rightarrow> string option" where
  "file_rel base target =
     (if clean_path base = clean_path target then Some ''.''
      else if \<not> is_abs base then None
      else Some (join ''/'' (rel_segments (path_segments base) (path_segments target))))"

definition file_base :: "string \<Rightarrow> string" where
  "file_base p =
     (if p = [] then ''.''
      else (let q = rev (dropWhile (\<lambda>c. c = CHR ''/'') (rev p))
            in if q = [] then ''/'' else rev (takeWhile (\<lambda>c. c \<noteq> CHR ''/'') (rev q))))"

definition file_ext :: "string \<Rightarrow> string" where
  "file_ext p =
     (let tail = takeWhile (\<lambda>c. c \<noteq> CHR ''/'' \<and> c \<noteq> CHR ''.'') (rev p);
          rest = drop (length tail) (rev p)
      in if rest \<noteq> [] \<and> hd rest = CHR ''.'' then CHR ''.'' # rev tail else [])"

definition is_safe_relative_path :: "string \<Rightarrow> bool" where
  "is_safe_relative_path p \<longleftrightarrow>
     (let n = clean_path p
      in n \<noteq> ''.'' \<and> n \<noteq> ''..'' \<and> \<not> prefix ''../'' n \<and> \<not> prefix ''/'' n)"

text \<open>
  The scan for \<open>.nexus/workspace/<agent>/...\<close>: the loop stops two parts before the end, so the
  agent's part is there and is skipped.
\<close>

fun nexus_relative :: "string list \<Rightarrow> string" where
  "nexus_relative (a # b # c # rest) =
     (if a = ''.nexus'' \<and> b = ''workspace'' then join ''/'' rest else nexus_relative (b # c # rest))"
| "nexus_relative ps = []"

definition relative_path_from_nexus :: "string \<Rightarrow> string" where
  "relative_path_from_nexus p = nexus_relative (split_on (CHR ''/'') (clean_path p))"

definition relative_workspace_path :: "string \<Rightarrow> string \<Rightarrow> string" where
  "relative_workspace_path workspace absolute =
     (let ws = trim_space workspace;
          rel = (if ws = [] then None else file_rel (clean_path ws) absolute)
      in case rel of
           Some r \<Rightarrow> if is_safe_relative_path r then r else relative_path_from_nexus absolute
         | None \<Rightarrow> relative_path_from_nexus absolute)"

definition trim_prefix :: "string \<Rightarrow> string \<Rightarrow> string" where
  "trim_prefix pre s = (if prefix pre s then drop (length pre) s else s)"

definition normalize_artifact_path :: "string \<Rightarrow> string \<Rightarrow> string" where
  "normalize_artifact_path workspace raw =
     (let n = trim_space raw in
      if n = [] then []
      else (let n = clean_path n in
            if is_abs n then relative_workspace_path workspace n
            else if prefix ''~'' n then []
            else (let r = trim_prefix ''./'' n in if is_safe_relative_path r then r else [])))"

section \<open>Blocks\<close>

record artifact_block =
  ab_id :: string
  ab_path :: string
  ab_display :: string
  ab_label :: string
  ab_title :: string
  ab_kind :: string
  ab_mime :: string
  ab_operation :: string
  ab_scope :: string
  ab_agent :: string
  ab_tool_use :: string
  ab_tool_name :: string

definition artifact_map :: "artifact_block \<Rightarrow> block" where
  "artifact_map b =
     foldl (\<lambda>m (k, v). put_text k v m)
       [(''type'', AStr workspace_file_artifact_type), (''path'', AStr (trim_space (ab_path b)))]
       [(''id'', ab_id b), (''display_path'', ab_display b), (''label'', ab_label b), (''title'', ab_title b),
        (''artifact_kind'', ab_kind b), (''mime_type'', ab_mime b), (''operation'', ab_operation b),
        (''scope'', ab_scope b), (''workspace_agent_id'', ab_agent b), (''source_tool_use_id'', ab_tool_use b),
        (''source_tool_name'', ab_tool_name b)]"

definition artifact_operation :: "string \<Rightarrow> (string \<times> string) option" where
  "artifact_operation tool_name =
     (let t = trim_space tool_name in
      if t = ''Write'' then
        Some (''write'', [CHR 0xE7, CHR 0x94, CHR 0x9F, CHR 0xE6, CHR 0x88, CHR 0x90, CHR 0xE6, CHR 0x88, CHR 0x96,
      CHR 0xE6, CHR 0x9B, CHR 0xB4, CHR 0xE6, CHR 0x96, CHR 0xB0, CHR 0xE6, CHR 0x96, CHR 0x87,
      CHR 0xE4, CHR 0xBB, CHR 0xB6])
      else if t \<in> {''Edit'', ''MultiEdit'', ''NotebookEdit''} then
        Some (''update'', [CHR 0xE6, CHR 0x9B, CHR 0xB4, CHR 0xE6, CHR 0x96, CHR 0xB0, CHR 0xE6, CHR 0x96, CHR 0x87,
      CHR 0xE4, CHR 0xBB, CHR 0xB6])
      else None)"

definition first_artifact_path :: "dict_value \<Rightarrow> string" where
  "first_artifact_path input =
     (case filter (\<lambda>s. trim_space s \<noteq> []) (map (\<lambda>k. raw_string (get_any input k)) [''file_path'', ''path'']) of
        [] \<Rightarrow> [] | s # _ \<Rightarrow> s)"

definition artifact_kind_and_mime :: "string \<Rightarrow> string \<Rightarrow> string \<times> string" where
  "artifact_kind_and_mime path mime_type =
     (let m = to_lower (trim_space mime_type); e = to_lower (file_ext path) in
      if prefix ''image/'' m then (if m = ''image/svg+xml'' then ''svg'' else ''image'', m)
      else if m = ''application/pdf'' then (''pdf'', m)
      else if m = ''text/html'' then (''html'', m)
      else if m = ''text/markdown'' then (''markdown'', m)
      else if e = ''.png'' then (''image'', ''image/png'')
      else if e \<in> {''.jpg'', ''.jpeg''} then (''image'', ''image/jpeg'')
      else if e = ''.webp'' then (''image'', ''image/webp'')
      else if e = ''.gif'' then (''image'', ''image/gif'')
      else if e = ''.avif'' then (''image'', ''image/avif'')
      else if e = ''.svg'' then (''svg'', ''image/svg+xml'')
      else if e = ''.pdf'' then (''pdf'', ''application/pdf'')
      else if e \<in> {''.md'', ''.markdown''} then (''markdown'', ''text/markdown'')
      else if e \<in> {''.html'', ''.htm''} then (''html'', ''text/html'')
      else if e \<in> {''.mmd'', ''.mermaid''} then (''mermaid'', ''text/plain'')
      else (''file'', m))"

definition artifact_title :: "string \<Rightarrow> string" where
  "artifact_title path =
     (let n = trim_space (file_base path) in if n = ''.'' \<or> n = ''/'' then [] else n)"

definition build_artifact ::
  "string \<Rightarrow> string \<Rightarrow> string \<Rightarrow> string \<Rightarrow> string \<Rightarrow> string \<Rightarrow> string \<Rightarrow> string \<Rightarrow> artifact_block" where
  "build_artifact agent tool_use_id tool_name path label operation kind mime =
     \<lparr>ab_id = ''workspace_file:'' @ tool_use_id @ '':'' @ path, ab_path = path, ab_display = path, ab_label = label,
      ab_title = artifact_title path, ab_kind = kind, ab_mime = mime, ab_operation = operation,
      ab_scope = ''agent_workspace'', ab_agent = agent, ab_tool_use = tool_use_id, ab_tool_name = tool_name\<rparr>"

section \<open>Generated images\<close>

definition imagegen_label :: "dict_value \<Rightarrow> string" where
  "imagegen_label payload =
     (if get_str payload ''action'' \<in> {''edit'', ''edit_image''}
      then [CHR 0xE7, CHR 0xBC, CHR 0x96, CHR 0xE8, CHR 0xBE, CHR 0x91, CHR 0xE5, CHR 0x9B, CHR 0xBE,
      CHR 0xE7, CHR 0x89, CHR 0x87]
      else [CHR 0xE7, CHR 0x94, CHR 0x9F, CHR 0xE6, CHR 0x88, CHR 0x90, CHR 0xE5, CHR 0x9B, CHR 0xBE,
      CHR 0xE7, CHR 0x89, CHR 0x87])"

definition is_imagegen_tool :: "string \<Rightarrow> bool" where
  "is_imagegen_tool tool_name \<longleftrightarrow>
     (let t = trim_space tool_name in
      t \<in> {''Bash'', ''generate_image'', ''edit_image'', ''nexus_imagegen''} \<or>
      prefix ''mcp__nexus_imagegen__'' t \<or> prefix ''nexus_imagegen__'' t \<or> prefix ''nexus_imagegen.'' t)"

definition starts_json :: "string \<Rightarrow> bool" where
  "starts_json s \<longleftrightarrow> prefix ''{'' s \<or> prefix ''['' s"

definition imagegen_json_candidates :: "string \<Rightarrow> string list" where
  "imagegen_json_candidates content =
     (let c = trim_space content in
      if c = [] then []
      else filter starts_json (c # map trim_space (split_on (CHR 0x0A) c)))"

definition first_imagegen_payload :: "(string \<Rightarrow> dict_value option) \<Rightarrow> string \<Rightarrow> dict_value" where
  "first_imagegen_payload unmarshal content =
     (case filter (\<lambda>p. get_str p ''domain'' = ''imagegen'')
             (List.map_filter unmarshal (imagegen_json_candidates content)) of
        [] \<Rightarrow> [] | p # _ \<Rightarrow> p)"

fun tool_result_text :: "any \<Rightarrow> string" where
  "tool_result_text (AStr s) = s"
| "tool_result_text (AList xs) = join [CHR 0x0A] (filter (\<lambda>t. trim_space t \<noteq> []) (map tool_result_text xs))"
| "tool_result_text (AMap m) =
     first_non_empty [raw_string (get_any m ''text''), raw_string (get_any m ''content''), raw_string (get_any m ''data'')]"
| "tool_result_text _ = []"

definition imagegen_artifact ::
  "(string \<Rightarrow> dict_value option) \<Rightarrow> message_context \<Rightarrow> block \<Rightarrow> string \<Rightarrow> string \<Rightarrow> artifact_block option" where
  "imagegen_artifact unmarshal ctx tool_result tool_use_id tool_name =
     (if \<not> is_imagegen_tool tool_name then None
      else (let payload = first_imagegen_payload unmarshal (tool_result_text (get_any tool_result ''content'')) in
            if payload = [] \<or> get_str payload ''domain'' \<noteq> ''imagegen'' then None
            else (let item = map_value (get_any payload ''item'');
                      path = normalize_artifact_path (mc_workspace ctx) (get_str item ''path'');
                      mime = get_str item ''mime_type'';
                      (kind, inferred) = artifact_kind_and_mime path mime
                  in if item = [] \<or> path = [] then None
                     else Some (build_artifact (mc_agent ctx) tool_use_id tool_name path (imagegen_label payload)
                                  ''write'' kind (if mime = [] then inferred else mime)))))"

definition artifacts_for_tool_result ::
  "(string \<Rightarrow> dict_value option) \<Rightarrow> message_context \<Rightarrow> assistant_segment \<Rightarrow> block \<Rightarrow> block list" where
  "artifacts_for_tool_result unmarshal ctx seg tool_result =
     (if bool_from_any (get_any tool_result ''is_error'') then []
      else (let tool_use_id = get_str tool_result ''tool_use_id'' in
            if tool_use_id = [] then []
            else (let tool_use = find_tool_use tool_use_id seg; tool_name = get_str tool_use ''name'' in
                  if tool_use = [] then []
                  else case imagegen_artifact unmarshal ctx tool_result tool_use_id tool_name of
                    Some artifact \<Rightarrow> [artifact_map artifact]
                  | None \<Rightarrow>
                      case artifact_operation tool_name of
                        None \<Rightarrow> []
                      | Some (operation, label) \<Rightarrow>
                          (let input = map_value (get_any tool_use ''input'');
                               path = normalize_artifact_path (mc_workspace ctx) (first_artifact_path input);
                               (kind, mime) = artifact_kind_and_mime path []
                           in if input = [] \<or> path = [] then []
                              else [artifact_map (build_artifact (mc_agent ctx) tool_use_id tool_name path label
                                      operation kind mime)]))))"

section \<open>Artifacts stay in the workspace\<close>

text \<open>The shape of cleaned segments: plain ones, behind \<open>..\<close> steps if the path is relative.\<close>

lemma clean_rooted_plain:
  "\<forall>s \<in> set ss. CHR ''/'' \<notin> set s \<Longrightarrow> list_all plain_segment acc \<Longrightarrow>
   list_all plain_segment (clean_segments True acc ss)"
proof (induction ss arbitrary: acc)
  case (Cons s ss)
  consider "s = [] \<or> s = ''.''" | "s = ''..''" | "plain_segment s"
    using Cons.prems(1) by (auto simp: plain_segment_def)
  then show ?case
  proof cases
    case 2
    then show ?thesis using Cons by (cases acc) (auto simp: plain_segment_def)
  qed (use Cons in \<open>auto simp: plain_segment_def\<close>)
qed (simp add: list_all_iff)

definition steps_then_plain :: "string list \<Rightarrow> bool" where
  "steps_then_plain ss \<longleftrightarrow> (\<exists>k ns. ss = replicate k ''..'' @ ns \<and> list_all plain_segment ns)"

lemma steps_then_plainI: "list_all plain_segment ns \<Longrightarrow> steps_then_plain (replicate k ''..'' @ ns)"
  by (auto simp: steps_then_plain_def)

lemma replicate_snoc: "x # replicate k x = replicate k x @ [x]"
  by (induction k) auto

lemma clean_relative_shape:
  "\<forall>s \<in> set ss. CHR ''/'' \<notin> set s \<Longrightarrow> list_all plain_segment ns \<Longrightarrow>
   steps_then_plain (clean_segments False (ns @ replicate k ''..'') ss)"
proof (induction ss arbitrary: ns k)
  case Nil
  then have "list_all plain_segment (rev ns)" by (simp add: list_all_iff)
  then show ?case using steps_then_plainI[of "rev ns" k] by simp
next
  case (Cons s ss)
  consider "s = [] \<or> s = ''.''" | "s = ''..''" | "plain_segment s"
    using Cons.prems(1) by (auto simp: plain_segment_def)
  then show ?case
  proof cases
    case 1
    then show ?thesis using Cons by auto
  next
    case 2
    show ?thesis
    proof (cases ns)
      case Nil
      have "clean_segments False (replicate k ''..'') (s # ss) = clean_segments False (replicate (Suc k) ''..'') ss"
        using 2 by (cases k) auto
      then show ?thesis using Cons.IH[of "[]" "Suc k"] Cons.prems Nil by simp
    next
      case (Cons n ns')
      then show ?thesis using Cons.prems Cons.IH[of ns' k] 2 by (auto simp: plain_segment_def)
    qed
  next
    case 3
    then show ?thesis using Cons.IH[of "s # ns" k] Cons.prems by (auto simp: plain_segment_def)
  qed
qed

lemma split_no_slash: "\<forall>s \<in> set (split_on (CHR ''/'') p). CHR ''/'' \<notin> set s"
  using split_on_parts by fast

lemma path_segments_shape:
  "is_abs p \<Longrightarrow> list_all plain_segment (path_segments p)"
  "\<not> is_abs p \<Longrightarrow> steps_then_plain (path_segments p)"
  using clean_rooted_plain[OF split_no_slash, of "[]" p] clean_relative_shape[OF split_no_slash, of "[]" 0 p]
  by (simp_all add: path_segments_def)

lemma clean_steps_plain:
  "list_all plain_segment ns \<Longrightarrow> clean_segments False [] (replicate k ''..'' @ ns) = replicate k ''..'' @ ns"
proof -
  assume ns: "list_all plain_segment ns"
  have "clean_segments False (replicate j ''..'') (replicate k ''..'' @ ns) = replicate (j + k) ''..'' @ ns" for j
  proof (induction k arbitrary: j)
    case 0
    show ?case using clean_segments_plain[OF ns] by simp
  next
    case (Suc k)
    have "clean_segments False (replicate j ''..'') (''..'' # replicate k ''..'' @ ns) =
      clean_segments False (replicate (Suc j) ''..'') (replicate k ''..'' @ ns)"
      by (cases j) auto
    then show ?case using Suc[of "Suc j"] by simp
  qed
  from this[of 0] show ?thesis by simp
qed

lemma join_slash_head:
  assumes "ss \<noteq> []" "hd ss \<noteq> []" "CHR ''/'' \<notin> set (hd ss)"
  shows "\<not> prefix ''/'' (join ''/'' ss)" "join ''/'' ss \<noteq> []"
  using assms by (cases ss rule: list.exhaust; cases "tl ss"; cases "hd ss"; auto)+

text \<open>A safe path that is joined from such segments has no step up.\<close>

lemma safe_joined_plain:
  assumes "steps_then_plain ss" and "is_safe_relative_path (join ''/'' ss)"
  shows "list_all plain_segment ss \<and> ss \<noteq> []"
proof -
  obtain k ns where ss: "ss = replicate k ''..'' @ ns" and ns: "list_all plain_segment ns"
    using assms(1) by (auto simp: steps_then_plain_def)
  have ne: "ss \<noteq> []" using assms(2) by (auto simp: is_safe_relative_path_def clean_path_def)
  have each: "s \<noteq> [] \<and> CHR ''/'' \<notin> set s" if h: "s \<in> set ss" for s
  proof (cases "s \<in> set ns")
    case True
    then show ?thesis using ns by (simp add: list_all_iff plain_segment_def)
  next
    case False
    then have "s = ''..''" using h unfolding ss by simp
    then show ?thesis by simp
  qed
  have split: "split_on (CHR ''/'') (join ''/'' ss) = ss"
    using ne each by (intro split_on_join) auto
  have "clean_path (join ''/'' ss) = join ''/'' ss"
    using join_slash_head[OF ne] each[of "hd ss"] ne clean_steps_plain[OF ns, of k]
    by (simp add: clean_path_def split ss[symmetric])
  then have safe: "join ''/'' ss \<noteq> ''..''" "\<not> prefix ''../'' (join ''/'' ss)"
    using assms(2) by (simp_all add: is_safe_relative_path_def Let_def)
  have "k = 0"
  proof (rule ccontr)
    assume "k \<noteq> 0"
    then obtain rest where "ss = ''..'' # rest" using ss by (cases k) auto
    then show False using safe by (cases rest) (auto simp: join_Cons prefix_def)
  qed
  then show ?thesis using ss ns ne by simp
qed
lemma split_joined:
  assumes "list_all plain_segment ns" "ns \<noteq> []"
  shows "split_on (CHR ''/'') (join ''/'' ns) = ns"
  using assms by (intro split_on_join) (auto simp: list_all_iff plain_segment_def)

lemma rel_segments_end:
  "rel_segments [] ts = replicate 0 ''..'' @ drop 0 ts" "rel_segments bs [] = replicate (length bs) ''..'' @ drop 0 []"
  by simp (cases bs; simp)

lemma rel_segments_shape: "\<exists>k m. rel_segments bs ts = replicate k ''..'' @ drop m ts"
proof (induction bs ts rule: rel_segments.induct)
  case (1 b bs t ts)
  show ?case
  proof (cases "b = t")
    case True
    with 1 obtain k m where "rel_segments bs ts = replicate k ''..'' @ drop m ts" by blast
    then have "rel_segments (b # bs) (t # ts) = replicate k ''..'' @ drop (Suc m) (t # ts)"
      using True by simp
    then show ?thesis by blast
  next
    case False
    then have "rel_segments (b # bs) (t # ts) = replicate (Suc (length bs)) ''..'' @ drop 0 (t # ts)" by simp
    then show ?thesis by blast
  qed
qed (use rel_segments_end in blast)+

lemma rel_segments_steps: "list_all plain_segment ts \<Longrightarrow> steps_then_plain (rel_segments bs ts)"
proof -
  assume ts: "list_all plain_segment ts"
  obtain k m where r: "rel_segments bs ts = replicate k ''..'' @ drop m ts"
    using rel_segments_shape by blast
  have "list_all plain_segment (drop m ts)" using ts by (auto simp: list_all_iff dest: in_set_dropD)
  then show ?thesis unfolding r by (rule steps_then_plainI)
qed

lemma nexus_relative_parts:
  "nexus_relative ps \<noteq> [] \<Longrightarrow> \<exists>rest. nexus_relative ps = join ''/'' rest \<and> set rest \<subseteq> set (tl ps)"
proof (induction ps rule: nexus_relative.induct)
  case (1 a b c rest)
  show ?case
  proof (cases "a = ''.nexus'' \<and> b = ''workspace''")
    case True
    then have "nexus_relative (a # b # c # rest) = join ''/'' rest" by simp
    then show ?thesis by auto
  next
    case False
    then have e: "nexus_relative (a # b # c # rest) = nexus_relative (b # c # rest)" by auto
    then obtain r where "nexus_relative (b # c # rest) = join ''/'' r" "set r \<subseteq> set (tl (b # c # rest))"
      using 1 False by metis
    then show ?thesis unfolding e by auto
  qed
qed auto

lemma split_clean_abs:
  "is_abs p \<Longrightarrow> split_on (CHR ''/'') (clean_path p) =
     [] # (if path_segments p = [] then [[]] else path_segments p)"
  using split_joined[OF path_segments_shape(1), of p]
  by (simp add: clean_path_def path_segments_def is_abs_def Let_def)

definition inside :: "string \<Rightarrow> bool" where
  "inside p \<longleftrightarrow> list_all plain_segment (split_on (CHR ''/'') p)"

lemma inside_joined: "list_all plain_segment ns \<Longrightarrow> ns \<noteq> [] \<Longrightarrow> inside (join ''/'' ns)"
  by (simp add: inside_def split_joined)

lemma nexus_inside:
  assumes "is_abs p" and "relative_path_from_nexus p \<noteq> []"
  shows "inside (relative_path_from_nexus p)"
proof -
  let ?ps = "split_on (CHR ''/'') (clean_path p)"
  obtain rest where r: "nexus_relative ?ps = join ''/'' rest" "set rest \<subseteq> set (tl ?ps)"
    using nexus_relative_parts[of ?ps] assms(2) by (auto simp: relative_path_from_nexus_def)
  have "path_segments p \<noteq> []"
    using assms split_clean_abs[OF assms(1)] by (auto simp: relative_path_from_nexus_def)
  then have "set rest \<subseteq> set (path_segments p)" using r(2) split_clean_abs[OF assms(1)] by simp
  then have "list_all plain_segment rest"
    using path_segments_shape(1)[OF assms(1)] by (auto simp: list_all_iff)
  moreover have "rest \<noteq> []" using r(1) assms(2) by (auto simp: relative_path_from_nexus_def)
  ultimately show ?thesis using r(1) inside_joined by (simp add: relative_path_from_nexus_def)
qed

lemma dot_unsafe: "\<not> is_safe_relative_path ''.''"
  by code_simp

lemma relative_inside:
  assumes "is_abs p" and "relative_workspace_path ws p \<noteq> []"
  shows "inside (relative_workspace_path ws p)"
proof (cases "\<exists>r. trim_space ws \<noteq> [] \<and> file_rel (clean_path (trim_space ws)) p = Some r \<and> is_safe_relative_path r")
  case True
  then obtain r where r: "trim_space ws \<noteq> []" "file_rel (clean_path (trim_space ws)) p = Some r" "is_safe_relative_path r"
    by blast
  then have e: "r = join ''/'' (rel_segments (path_segments (clean_path (trim_space ws))) (path_segments p))"
    using dot_unsafe by (auto simp: file_rel_def split: if_splits)
  have "inside r"
    using safe_joined_plain[OF rel_segments_steps[OF path_segments_shape(1)[OF assms(1)]]] r(3) inside_joined
    unfolding e by blast
  moreover have "relative_workspace_path ws p = r" using r by (simp add: relative_workspace_path_def Let_def)
  ultimately show ?thesis by simp
next
  case False
  then have "relative_workspace_path ws p = relative_path_from_nexus p"
    by (auto simp: relative_workspace_path_def Let_def split: option.split)
  then show ?thesis using nexus_inside[OF assms(1)] assms(2) by simp
qed

lemma steps_not_dot: "steps_then_plain ss \<Longrightarrow> s \<in> set ss \<Longrightarrow> s \<noteq> ''.'' \<and> s \<noteq> [] \<and> CHR ''/'' \<notin> set s"
proof -
  assume "steps_then_plain ss" and h: "s \<in> set ss"
  then obtain k ns where ss: "ss = replicate k ''..'' @ ns" "list_all plain_segment ns"
    by (auto simp: steps_then_plain_def)
  then consider "s = ''..''" | "plain_segment s" using h by (auto simp: list_all_iff)
  then show ?thesis by cases (auto simp: plain_segment_def)
qed

lemma clean_relative_inside:
  assumes "\<not> is_abs p" and "is_safe_relative_path (trim_prefix ''./'' (clean_path p))"
  shows "inside (trim_prefix ''./'' (clean_path p))"
proof -
  let ?ss = "path_segments p"
  note shape = path_segments_shape(2)[OF assms(1)]
  have c: "clean_path p = (if join ''/'' ?ss = [] then ''.'' else join ''/'' ?ss)"
    using assms(1) by (simp add: clean_path_def path_segments_def is_abs_def Let_def)
  have ne: "?ss \<noteq> []"
  proof
    assume "?ss = []"
    then have "trim_prefix ''./'' (clean_path p) = ''.''" by (simp add: c trim_prefix_def)
    then show False using assms(2) dot_unsafe by simp
  qed
  then have e: "clean_path p = join ''/'' ?ss"
    using join_slash_head(2)[OF ne] steps_not_dot[OF shape, of "hd ?ss"] by (simp add: c)
  have split: "split_on (CHR ''/'') (clean_path p) = ?ss"
    unfolding e using ne steps_not_dot[OF shape] by (intro split_on_join) auto
  have "\<not> prefix ''./'' (clean_path p)"
  proof
    assume "prefix ''./'' (clean_path p)"
    then obtain zs where "clean_path p = ''.'' @ CHR ''/'' # zs" by (auto simp: prefix_def)
    then have "?ss = ''.'' # split_on (CHR ''/'') zs" using split by simp
    then show False using steps_not_dot[OF shape, of "''.''"] by simp
  qed
  then have "trim_prefix ''./'' (clean_path p) = join ''/'' ?ss" by (simp add: trim_prefix_def e)
  then show ?thesis using safe_joined_plain[OF shape] inside_joined assms(2) by simp
qed

lemma artifact_path_inside:
  assumes "normalize_artifact_path ws raw \<noteq> []"
  shows "inside (normalize_artifact_path ws raw)"
proof -
  let ?n = "clean_path (trim_space raw)"
  have ne: "trim_space raw \<noteq> []" using assms by (auto simp: normalize_artifact_path_def)
  show ?thesis
  proof (cases "is_abs ?n")
    case True
    then show ?thesis using relative_inside[OF True, of ws] assms ne by (simp add: normalize_artifact_path_def Let_def)
  next
    case False
    then have "\<not> is_abs (trim_space raw)" by (auto simp: is_abs_def clean_path_def Let_def)
    then show ?thesis
      using False assms ne clean_relative_inside[of "trim_space raw"]
      by (simp add: normalize_artifact_path_def Let_def split: if_splits)
  qed
qed

text \<open>Joined to any directory, an inside path appends its segments: it stays below it.\<close>

lemma inside_joins:
  assumes "inside p" and "base \<noteq> []"
  shows "path_segments (file_join [base, p]) = path_segments base @ split_on (CHR ''/'') p"
proof -
  let ?ns = "split_on (CHR ''/'') p"
  have ns: "list_all plain_segment ?ns" using assms(1) by (simp add: inside_def)
  have ne: "?ns \<noteq> []" by simp
  have p: "p \<noteq> []" using assms(1) by (auto simp: inside_def plain_segment_def)
  have f: "filter (\<lambda>e. e \<noteq> []) ?ns = ?ns" using ns by (auto simp: filter_id_conv list_all_iff plain_segment_def)
  have "join ''/'' (base # ?ns) = join ''/'' [base, p]" by (simp add: join_Cons join_split_on)
  then have "file_join [base, p] = file_join (base # ?ns)"
    using p assms(2) f by (simp add: file_join_def)
  also have "\<dots> = (if is_abs base then ''/'' else []) @ join ''/'' (path_segments base @ ?ns)"
    unfolding path_segments_def is_abs_def using file_join_plain[OF ns ne assms(2)] .
  finally have e: "file_join [base, p] = (if is_abs base then ''/'' else []) @ join ''/'' (path_segments base @ ?ns)" .
  have steps: "steps_then_plain (path_segments base @ ?ns)"
  proof -
    have "steps_then_plain (path_segments base)"
      using path_segments_shape[of base] steps_then_plainI[of "path_segments base" 0] by (cases "is_abs base") auto
    then obtain k ms where "path_segments base = replicate k ''..'' @ ms" "list_all plain_segment ms"
      by (auto simp: steps_then_plain_def)
    then show ?thesis using steps_then_plainI[of "ms @ ?ns" k] ns by simp
  qed
  have ne2: "path_segments base @ ?ns \<noteq> []" by simp
  have split: "split_on (CHR ''/'') (join ''/'' (path_segments base @ ?ns)) = path_segments base @ ?ns"
    using steps_not_dot[OF steps] ne2 by (intro split_on_join) auto
  show ?thesis
  proof (cases "is_abs base")
    case True
    then have "list_all plain_segment (path_segments base @ ?ns)" using path_segments_shape(1) ns by simp
    from clean_segments_plain[OF this, of True "[]"] True show ?thesis
      using e split by (simp add: path_segments_def is_abs_def)
  next
    case False
    then have "\<not> is_abs (file_join [base, p])"
      using e join_slash_head(1)[OF ne2] steps_not_dot[OF steps hd_in_set[OF ne2]] False
      by (simp add: is_abs_def)
    moreover obtain k ms where "path_segments base @ ?ns = replicate k ''..'' @ ms" "list_all plain_segment ms"
      using steps by (auto simp: steps_then_plain_def)
    ultimately show ?thesis
      using e split False clean_steps_plain[of ms k] by (simp add: path_segments_def)
  qed
qed

text \<open>
  The block trims the path once more. A first segment that begins with a space is an ordinary name
  to the check, and the trimmed path leaves the workspace.
\<close>

lemma trimmed_artifact_escapes:
  "let p = normalize_artifact_path ''/w'' ''./ ../secret''
   in p = '' ../secret'' \<and> inside p \<and>
      get_str (artifact_map (build_artifact ''a'' ''t'' ''Write'' p [] ''write'' ''file'' [])) ''path'' = ''../secret''"
  by code_simp

text \<open>
  A file below another agent's directory is reported as a file of this one: the scan skips the
  agent's part of the path without comparing it.
\<close>

lemma foreign_file_claimed:
  "normalize_artifact_path ''/h/.nexus/workspace/amy'' ''/h/.nexus/workspace/ben/notes.md'' = ''notes.md''"
  by code_simp



end
