(* ===== verification/MessageProcessor.thy ===== *)
theory MessageProcessor
  imports WorkspaceArtifact Events
begin

text \<open>
  From messages of the agent SDK to messages and stream events: \<open>message/processor.go\<close>,
  \<open>event_mapper.go\<close> and \<open>codes_permission_error.go\<close>, with the mappers of direct messages and
  rooms. A message of the SDK is a record of what the code reads of it; a nil part is \<open>None\<close>.
  A nil dereference is the outcome \<open>Panicked\<close>. One reading of the clock serves a whole message;
  \<open>env\<close> holds that reading, JSON decoding and the printing of a value that is no string.
\<close>

section \<open>Messages of the SDK\<close>

record sdk_assistant =
  sa_id :: string
  sa_model :: string
  sa_usage :: dict_value
  sa_content :: "sdk_block list"
  sa_stop :: any
  sa_parent :: "string option"

record sdk_denial =
  pd_tool :: string
  pd_tool_use :: string
  pd_input :: dict_value

record sdk_result =
  sr_subtype :: string
  sr_is_error :: bool
  sr_duration :: int
  sr_api :: int
  sr_turns :: int
  sr_cost :: rat
  sr_usage :: dict_value
  sr_result :: string
  sr_terminal :: string
  sr_stop :: any
  sr_denials :: "sdk_denial list"
  sr_errors :: "string list"

record sdk_progress =
  sp_task :: string
  sp_summary :: string
  sp_description :: string
  sp_tool_use :: string
  sp_tool :: string
  sp_tokens :: int
  sp_uses :: int
  sp_duration :: int

record sdk_started =
  st_task :: string
  st_type :: string
  st_description :: string
  st_prompt :: string
  st_tool_use :: string

record sdk_system =
  ss_subtype :: string
  ss_data :: dict_value
  ss_progress :: "sdk_progress option"
  ss_started :: "sdk_started option"

datatype message_kind =
    StreamEventKind | AssistantKind | SystemKind | ResultKind | TaskProgressKind | UserKind | OtherKind string

record sdk_message =
  sm_type :: message_kind
  sm_uuid :: string
  sm_session :: string
  sm_stream :: "(any \<times> dict_value) option"
  sm_assistant :: "sdk_assistant option"
  sm_user :: "sdk_block list option"
  sm_system :: "sdk_system option"
  sm_result :: "sdk_result option"
  sm_progress :: "sdk_progress option"

section \<open>State and output\<close>

record stream_payload =
  sp_message :: string
  sp_data :: dict_value

record process_output =
  out_stream :: "stream_payload list"
  out_durable :: "dict_value list"
  out_ephemeral :: "dict_value list"
  out_session :: string
  out_status :: string
  out_subtype :: string
  out_started :: bool
  out_completed :: bool

definition no_output :: process_output where
  "no_output = \<lparr>out_stream = [], out_durable = [], out_ephemeral = [], out_session = [], out_status = [],
     out_subtype = [], out_started = False, out_completed = False\<rparr>"

datatype outcome = Produced process_output | Refused string | Panicked

record processor =
  pr_ctx :: message_context
  pr_session :: string
  pr_segment :: assistant_segment
  pr_started :: bool
  pr_terminal :: bool
  pr_last :: dict_value

record process_env =
  pe_now :: int
  pe_unmarshal :: "string \<Rightarrow> dict_value option"
  pe_sprint :: "any \<Rightarrow> string"

definition new_processor :: "message_context \<Rightarrow> string \<Rightarrow> processor" where
  "new_processor ctx session_id =
     \<lparr>pr_ctx = ctx, pr_session = trim_space session_id, pr_segment = reset_segment, pr_started = False,
      pr_terminal = False, pr_last = []\<rparr>"

definition started_segment :: "process_env \<Rightarrow> processor \<Rightarrow> processor" where
  "started_segment env p = p\<lparr>pr_segment := ensure_started (pe_now env) (pr_segment p)\<rparr>"

section \<open>The session id\<close>

definition session_candidates :: "sdk_message \<Rightarrow> string list" where
  "session_candidates m =
     trim_space (sm_session m) #
       (case sm_system m of
          Some sys \<Rightarrow> if sm_type m = SystemKind then [get_str (ss_data sys) ''session_id''] else []
        | None \<Rightarrow> [])"

definition session_changed :: "processor \<Rightarrow> string \<Rightarrow> string" where
  "session_changed p candidate =
     ''processor session_id changed: current='' @ trim_space (pr_session p) @ '' incoming='' @ candidate @
       '' round_id='' @ mc_round (pr_ctx p)"

fun register_candidates :: "processor \<Rightarrow> string list \<Rightarrow> (string + string) \<times> processor" where
  "register_candidates p [] = (Inr [], p)"
| "register_candidates p (c # cs) =
     (if c = [] then register_candidates p cs
      else if trim_space (pr_session p) = [] then (Inr c, p\<lparr>pr_session := c\<rparr>)
      else if trim_space (pr_session p) \<noteq> c then (Inl (session_changed p c), p)
      else register_candidates p cs)"

definition register_session_id :: "sdk_message \<Rightarrow> processor \<Rightarrow> (string + string) \<times> processor" where
  "register_session_id m p = register_candidates p (session_candidates m)"

section \<open>Durable assistant messages\<close>

text \<open>
  \<open>reflect.DeepEqual\<close> on decoded values: maps are compared by their keys.
\<close>

fun deep_equal :: "any \<Rightarrow> any \<Rightarrow> bool" where
  "deep_equal (AMap m) v =
     (case v of
        AMap n \<Rightarrow> length m = length n \<and>
          list_all (\<lambda>(k, x). case map_of n k of None \<Rightarrow> False | Some y \<Rightarrow> deep_equal x y) m
      | _ \<Rightarrow> False)"
| "deep_equal (AList xs) v = (case v of AList ys \<Rightarrow> list_all2 deep_equal xs ys | _ \<Rightarrow> False)"
| "deep_equal u v = (u = v)"

definition assistant_messages_equal :: "dict_value \<Rightarrow> dict_value \<Rightarrow> bool" where
  "assistant_messages_equal a b \<longleftrightarrow>
     a \<noteq> [] \<and> b \<noteq> [] \<and>
     list_all (\<lambda>k. get_str a k = get_str b k)
       [''message_id'', ''parent_id'', ''model'', ''stop_reason'', ''session_id'', ''round_id''] \<and>
     bool_from_any (get_any a ''is_complete'') = bool_from_any (get_any b ''is_complete'') \<and>
     deep_equal (get_any a ''content'') (get_any b ''content'')"

definition build_durable ::
  "process_env \<Rightarrow> bool \<Rightarrow> bool \<Rightarrow> string \<Rightarrow> processor \<Rightarrow> dict_value option \<times> processor" where
  "build_durable env is_complete include_stop parent p =
     (case build_assistant_message (pe_now env) (pr_ctx p) (pr_session p) is_complete (pr_segment p) of
        (seg, m) \<Rightarrow>
          let p = p\<lparr>pr_segment := seg\<rparr>;
              m = (if include_stop then m
                   else AList.update ''is_complete'' (ABool False) (AList.delete ''stop_reason'' m));
              m = put_text ''parent_id'' parent m
          in if assistant_messages_equal (pr_last p) m then (None, p) else (Some m, p\<lparr>pr_last := m\<rparr>))"

section \<open>Stream events\<close>

definition stream_base :: "process_env \<Rightarrow> string \<Rightarrow> processor \<Rightarrow> dict_value" where
  "stream_base env kind p =
     [(''message_id'', AStr (seg_id (pr_segment p))), (''session_key'', AStr (mc_session (pr_ctx p))),
      (''room_id'', empty_to_nil (mc_room (pr_ctx p))),
      (''conversation_id'', empty_to_nil (mc_conversation (pr_ctx p))),
      (''agent_id'', AStr (mc_agent (pr_ctx p))), (''round_id'', AStr (mc_round (pr_ctx p))),
      (''session_id'', empty_to_nil (pr_session p)), (''type'', AStr kind)]"

definition stream_event :: "process_env \<Rightarrow> string \<Rightarrow> dict_value \<Rightarrow> processor \<Rightarrow> stream_payload" where
  "stream_event env kind extra p =
     \<lparr>sp_message = seg_id (pr_segment p),
      sp_data = stream_base env kind p @ extra @ [(''timestamp'', AInt (pe_now env))]\<rparr>"

definition block_stream_payload :: "process_env \<Rightarrow> string \<Rightarrow> nat \<Rightarrow> block \<Rightarrow> processor \<Rightarrow> stream_payload" where
  "block_stream_payload env kind index b p =
     stream_event env kind [(''index'', AInt (int index)), (''content_block'', AMap b)] p"

definition message_start_payload :: "process_env \<Rightarrow> processor \<Rightarrow> stream_payload" where
  "message_start_payload env p =
     stream_event env ''message_start''
       [(''message'', AMap [(''model'', empty_to_nil (seg_model (pr_segment p)))]),
        (''usage'', AMap (seg_usage (pr_segment p)))] p"

definition message_meta_payload :: "process_env \<Rightarrow> string \<Rightarrow> processor \<Rightarrow> stream_payload" where
  "message_meta_payload env kind p =
     stream_event env kind
       [(''message'', AMap [(''model'', empty_to_nil (seg_model (pr_segment p))),
                            (''stop_reason'', empty_to_nil (seg_stop (pr_segment p)))]),
        (''usage'', AMap (seg_usage (pr_segment p)))] p"

definition emit_stream :: "stream_payload \<Rightarrow> process_output \<Rightarrow> process_output" where
  "emit_stream e out = out\<lparr>out_stream := out_stream out @ [e]\<rparr>"

definition emit_durable :: "dict_value option \<Rightarrow> process_output \<Rightarrow> process_output" where
  "emit_durable m out = (case m of None \<Rightarrow> out | Some m \<Rightarrow> out\<lparr>out_durable := out_durable out @ [m]\<rparr>)"

definition on_message_start :: "process_env \<Rightarrow> dict_value \<Rightarrow> processor \<Rightarrow> process_output \<Rightarrow> process_output \<times> processor" where
  "on_message_start env payload p out =
     (let message = map_value (get_any payload ''message'');
          p = p\<lparr>pr_segment := start_segment (pe_now env) (get_str message ''id'') (get_str message ''model'')
                  (map_value (get_any message ''usage'')) (pe_now env),
                pr_started := True, pr_terminal := False, pr_last := []\<rparr>
      in (emit_stream (message_start_payload env p) (out\<lparr>out_started := True\<rparr>), p))"

definition on_block_start :: "process_env \<Rightarrow> dict_value \<Rightarrow> processor \<Rightarrow> process_output \<Rightarrow> process_output \<times> processor" where
  "on_block_start env payload p out =
     (let b = normalize_content_block (get_any payload ''content_block'') in
      if b = [] then (out, p)
      else case apply_block (pe_now env) (int64_from_any (get_any payload ''index'')) b (pr_segment p) of
             (seg, l) \<Rightarrow>
               let p = p\<lparr>pr_segment := seg\<rparr>
               in if block_kind b = ''tool_use'' then (out, p)
                  else (emit_stream (block_stream_payload env ''content_block_start'' l b p) out, p))"

definition on_block_delta :: "process_env \<Rightarrow> dict_value \<Rightarrow> processor \<Rightarrow> process_output \<Rightarrow> process_output \<times> processor" where
  "on_block_delta env payload p out =
     (case apply_delta (pe_now env) (int64_from_any (get_any payload ''index''))
             (map_value (get_any payload ''delta'')) (pr_segment p) of
        (seg, l, applied) \<Rightarrow>
          let p = p\<lparr>pr_segment := seg\<rparr>; b = current_block (int l) seg
          in if \<not> applied \<or> block_kind b = ''tool_use'' then (out, p)
             else (emit_stream (block_stream_payload env ''content_block_delta'' l b p) out, p))"

definition on_message_delta :: "process_env \<Rightarrow> dict_value \<Rightarrow> processor \<Rightarrow> process_output \<Rightarrow> process_output \<times> processor" where
  "on_message_delta env payload p out =
     (let delta = map_value (get_any payload ''delta'');
          p = p\<lparr>pr_segment := update_meta [] (map_value (get_any payload ''usage'')) (get_str delta ''stop_reason'')
                  (pr_segment p)\<rparr>;
          p = started_segment env p;
          out = emit_stream (message_meta_payload env ''message_delta'' p) out
      in if seg_content (pr_segment p) = [] \<or> trim_space (seg_stop (pr_segment p)) = [] then (out, p)
         else case build_durable env True True [] (p\<lparr>pr_terminal := True\<rparr>) of
                (None, p) \<Rightarrow> (out, p)
              | (Some m, p) \<Rightarrow> ((emit_durable (Some m) out)\<lparr>out_completed := True\<rparr>, p))"

definition process_stream_event :: "process_env \<Rightarrow> sdk_message \<Rightarrow> processor \<Rightarrow> process_output \<Rightarrow> process_output \<times> processor" where
  "process_stream_event env m p out =
     (case sm_stream m of
        None \<Rightarrow> (out, p)
      | Some (event, data) \<Rightarrow>
          (let payload = (if is_map event then map_value event else data); kind = get_str payload ''type'' in
           if kind = ''message_start'' then on_message_start env payload p out
           else if kind = ''content_block_start'' then on_block_start env payload p out
           else if kind = ''content_block_delta'' then on_block_delta env payload p out
           else if kind = ''message_delta'' then on_message_delta env payload p out
           else if kind = ''message_stop'' then
             (let p = started_segment env p in (emit_stream (message_meta_payload env ''message_stop'' p) out, p))
           else (out, p)))"

section \<open>Assistant snapshots\<close>

definition normalize_any_string :: "process_env \<Rightarrow> any \<Rightarrow> string" where
  "normalize_any_string env v =
     (case v of
        AStr s \<Rightarrow> trim_space s
      | ANil \<Rightarrow> []
      | _ \<Rightarrow> (let raw = trim_space (pe_sprint env v) in if raw = ''<nil>'' then [] else raw))"

definition normalize_pointer_string :: "string option \<Rightarrow> string" where
  "normalize_pointer_string v = (case v of None \<Rightarrow> [] | Some s \<Rightarrow> trim_space s)"

definition process_assistant :: "process_env \<Rightarrow> sdk_assistant \<Rightarrow> processor \<Rightarrow> dict_value option \<times> processor" where
  "process_assistant env a p =
     (let p = (if is_started (pr_segment p) then p
               else p\<lparr>pr_segment := start_segment (pe_now env) (sa_id a) (sa_model a) (sa_usage a) (pe_now env),
                      pr_started := False, pr_terminal := False, pr_last := []\<rparr>);
          p = p\<lparr>pr_segment :=
                  replace_from_snapshot (pe_now env) (normalize_content_blocks (sa_content a)) (sa_model a)
                    (first_non_nil_map [sa_usage a, seg_usage (pr_segment p)]) (normalize_any_string env (sa_stop a))
                    (pr_segment p)\<rparr>;
          include_stop = (\<not> pr_started p \<or> pr_terminal p);
          is_complete = (include_stop \<and> trim_space (seg_stop (pr_segment p)) \<noteq> [])
      in build_durable env is_complete include_stop (normalize_pointer_string (sa_parent a)) p)"

section \<open>Tool results\<close>

definition infer_permission_error_code :: "string \<Rightarrow> string \<Rightarrow> string" where
  "infer_permission_error_code tool_name message =
     (let m = trim_space message in
      if tool_name \<noteq> ''AskUserQuestion'' \<or> m = [] then []
      else if m = ''Permission request timeout'' then ''permission_request_timeout''
      else if m = ''Permission channel unavailable'' then ''permission_channel_unavailable''
      else [])"

definition should_keep_tool_result :: "processor \<Rightarrow> block \<Rightarrow> bool" where
  "should_keep_tool_result p b \<longleftrightarrow>
     has_tool_use (get_str b ''tool_use_id'') (pr_segment p) \<or> bool_from_any (get_any b ''is_error'')"

definition enrich_tool_result :: "processor \<Rightarrow> block \<Rightarrow> block" where
  "enrich_tool_result p b =
     (let b = (if b = [] then [(''type'', AStr ''tool_result'')] else b);
          tool_use_id = get_str b ''tool_use_id'';
          code = infer_permission_error_code (find_tool_name tool_use_id (pr_segment p)) (get_str b ''content'')
      in if bool_from_any (get_any b ''is_error'') \<and> tool_use_id \<noteq> [] \<and> code \<noteq> []
         then AList.update ''error_code'' (AStr code) b else b)"

definition enriched_blocks :: "process_env \<Rightarrow> processor \<Rightarrow> block list \<Rightarrow> block list" where
  "enriched_blocks env p content =
     concat (map (\<lambda>b. let e = enrich_tool_result p b
                      in e # artifacts_for_tool_result (pe_unmarshal env) (pr_ctx p) (pr_segment p) e)
       (filter (should_keep_tool_result p) content))"

definition process_tool_result :: "process_env \<Rightarrow> sdk_message \<Rightarrow> processor \<Rightarrow> dict_value option \<times> processor" where
  "process_tool_result env m p =
     (case sm_user m of
        None \<Rightarrow> (None, p)
      | Some blocks \<Rightarrow>
          (let content = normalize_content_blocks blocks; enriched = enriched_blocks env p content in
           if content = [] \<or> list_ex (\<lambda>b. block_kind b \<noteq> ''tool_result'') content \<or> enriched = [] then (None, p)
           else build_durable env True True []
                  (p\<lparr>pr_segment := append_tool_results (pe_now env) enriched (pr_segment p)\<rparr>)))"

section \<open>Progress and system messages\<close>

definition build_task_progress ::
  "process_env \<Rightarrow> string \<Rightarrow> string \<Rightarrow> string \<Rightarrow> string \<Rightarrow> dict_value \<Rightarrow> processor \<Rightarrow> dict_value option \<times> processor" where
  "build_task_progress env task_id description tool_use_id last_tool usage p =
     (if trim_space task_id = [] then (None, p)
      else build_durable env False False []
             (p\<lparr>pr_segment := append_task_progress (pe_now env)
                  [(''type'', AStr ''task_progress''), (''task_id'', AStr task_id),
                   (''description'', AStr description), (''tool_use_id'', empty_to_nil tool_use_id),
                   (''last_tool_name'', empty_to_nil last_tool), (''usage'', AMap (first_non_nil_map [usage, []]))]
                  (pr_segment p)\<rparr>))"

definition process_task_progress :: "process_env \<Rightarrow> sdk_message \<Rightarrow> processor \<Rightarrow> dict_value option \<times> processor" where
  "process_task_progress env m p =
     (case sm_progress m of
        None \<Rightarrow> (None, p)
      | Some g \<Rightarrow>
          build_task_progress env (first_non_empty [trim_space (sp_task g), trim_space (sp_tool_use g)])
            (first_non_empty [trim_space (sp_tool g) @ [CHR 0x20, CHR 0xE6, CHR 0xAD, CHR 0xA3, CHR 0xE5, CHR 0x9C, CHR 0xA8, CHR 0xE6, CHR 0x89,
      CHR 0xA7, CHR 0xE8, CHR 0xA1, CHR 0x8C], [CHR 0xE5, CHR 0x90, CHR 0x8E, CHR 0xE5, CHR 0x8F, CHR 0xB0, CHR 0xE4, CHR 0xBB, CHR 0xBB,
      CHR 0xE5, CHR 0x8A, CHR 0xA1, CHR 0xE6, CHR 0xAD, CHR 0xA3, CHR 0xE5, CHR 0x9C, CHR 0xA8,
      CHR 0xE6, CHR 0x89, CHR 0xA7, CHR 0xE8, CHR 0xA1, CHR 0x8C]])
            (trim_space (sp_tool_use g)) (trim_space (sp_tool g)) [] p)"

definition progress_field :: "(sdk_progress \<Rightarrow> string) \<Rightarrow> sdk_system \<Rightarrow> string" where
  "progress_field f sys = (case ss_progress sys of None \<Rightarrow> [] | Some g \<Rightarrow> trim_space (f g))"

definition progress_description :: "sdk_system \<Rightarrow> string" where
  "progress_description sys =
     (case ss_progress sys of None \<Rightarrow> [] | Some g \<Rightarrow> first_non_empty [sp_summary g, sp_description g])"

definition first_task_usage :: "sdk_system \<Rightarrow> dict_value" where
  "first_task_usage sys =
     (case ss_progress sys of
        None \<Rightarrow> []
      | Some g \<Rightarrow>
          (if sp_tokens g > 0 then [(''total_tokens'', AInt (sp_tokens g))] else []) @
          (if sp_uses g > 0 then [(''tool_uses'', AInt (sp_uses g))] else []) @
          (if sp_duration g > 0 then [(''duration_ms'', AInt (sp_duration g))] else []))"

definition started_field :: "(sdk_started \<Rightarrow> string) \<Rightarrow> sdk_system \<Rightarrow> string" where
  "started_field f sys = (case ss_started sys of None \<Rightarrow> [] | Some t \<Rightarrow> trim_space (f t))"

definition started_description :: "sdk_system \<Rightarrow> string" where
  "started_description sys =
     (case ss_started sys of None \<Rightarrow> [] | Some t \<Rightarrow> first_non_empty [st_description t, st_prompt t])"

definition visible_system_envelope :: "process_env \<Rightarrow> processor \<Rightarrow> string \<Rightarrow> string \<Rightarrow> dict_value \<Rightarrow> dict_value" where
  "visible_system_envelope env p explicit content metadata =
     AList.update ''metadata'' (AMap metadata)
       (AList.update ''content'' (AStr content)
         (base_message_envelope (pe_now env) (pr_ctx p) (pr_session p)
           (first_non_empty [explicit, ''system_'' @ mc_round (pr_ctx p) @ ''_'' @ decimal (nat (pe_now env))]) ''system''))"

text \<open>A visible system message and whether it is ephemeral.\<close>

definition build_visible_system :: "process_env \<Rightarrow> sdk_system \<Rightarrow> processor \<Rightarrow> (dict_value \<times> bool) option" where
  "build_visible_system env sys p =
     (let subtype = trim_space (ss_subtype sys); data = ss_data sys in
      if subtype = ''task_started'' then
        Some (visible_system_envelope env p []
          (first_non_empty [get_str data ''description'', get_str data ''prompt'', started_description sys, [CHR 0xE4, CHR 0xBB, CHR 0xBB, CHR 0xE5, CHR 0x8A, CHR 0xA1, CHR 0xE5, CHR 0xB7, CHR 0xB2,
      CHR 0xE5, CHR 0xBC, CHR 0x80, CHR 0xE5, CHR 0xA7, CHR 0x8B]])
          [(''subtype'', AStr ''task_started''),
           (''task_id'', AStr (first_non_empty [get_str data ''task_id'', started_field st_task sys])),
           (''task_type'', AStr (first_non_empty [get_str data ''task_type'', started_field st_type sys])),
           (''tool_use_id'', AStr (first_non_empty [get_str data ''tool_use_id'', started_field st_tool_use sys]))], False)
      else if subtype = ''api_retry'' then
        Some (visible_system_envelope env p (''system_api_retry_'' @ mc_round (pr_ctx p))
          (first_non_empty [get_str data ''message'', [CHR 0x41, CHR 0x50, CHR 0x49, CHR 0x20, CHR 0xE6, CHR 0xAD, CHR 0xA3, CHR 0xE5, CHR 0x9C,
      CHR 0xA8, CHR 0xE9, CHR 0x87, CHR 0x8D, CHR 0xE8, CHR 0xAF, CHR 0x95]])
          (AList.update ''subtype'' (AStr ''api_retry'') data), True)
      else None)"

definition process_system :: "process_env \<Rightarrow> sdk_system \<Rightarrow> processor \<Rightarrow> (dict_value list \<times> dict_value list) \<times> processor" where
  "process_system env sys p =
     (let data = ss_data sys in
      if trim_space (ss_subtype sys) = ''task_progress'' then
        (case build_task_progress env
                (first_non_empty [get_str data ''task_id'', progress_field sp_task sys])
                (first_non_empty [get_str data ''description'', progress_description sys])
                (first_non_empty [get_str data ''tool_use_id'', progress_field sp_tool_use sys])
                (first_non_empty [get_str data ''last_tool_name'', progress_field sp_tool sys])
                (first_non_nil_map [map_value (get_any data ''usage''), first_task_usage sys]) p of
           (None, p) \<Rightarrow> (([], []), p)
         | (Some m, p) \<Rightarrow> (([m], []), p))
      else case build_visible_system env sys p of
             None \<Rightarrow> (([], []), p)
           | Some (m, ephemeral) \<Rightarrow> (if ephemeral then ([], [m]) else ([m], []), p))"

section \<open>Results\<close>

definition normalize_result_subtype :: "sdk_result option \<Rightarrow> string" where
  "normalize_result_subtype r =
     (case r of
        None \<Rightarrow> ''error''
      | Some r \<Rightarrow>
          (let s = trim_space (sr_subtype r) in
           if s \<in> {''success'', ''error'', ''interrupted''} then s
           else if sr_is_error r then ''error'' else ''success''))"

definition status_from_subtype :: "string \<Rightarrow> string" where
  "status_from_subtype s =
     (if s = ''interrupted'' then ''interrupted'' else if s = ''error'' then ''error'' else ''finished'')"

definition project_denial :: "sdk_denial \<Rightarrow> dict_value" where
  "project_denial d =
     (let m = put_text ''tool_use_id'' (pd_tool_use d) (put_text ''tool_name'' (pd_tool d) [])
      in if pd_input d \<noteq> [] then AList.update ''tool_input'' (AMap (pd_input d)) m else m)"

definition project_denials :: "sdk_denial list \<Rightarrow> dict_value list" where
  "project_denials ds = filter (\<lambda>m. m \<noteq> []) (map project_denial ds)"

definition build_result_message :: "process_env \<Rightarrow> string \<Rightarrow> sdk_result \<Rightarrow> string \<Rightarrow> processor \<Rightarrow> dict_value" where
  "build_result_message env uuid r subtype p =
     (let m = base_message_envelope (pe_now env) (pr_ctx p) (pr_session p)
                (first_non_empty [trim_space uuid, ''result_'' @ mc_round (pr_ctx p)]) ''result'';
          m = foldl (\<lambda>m (k, v). AList.update k v m) m
                [(''subtype'', AStr subtype), (''duration_ms'', AInt (sr_duration r)),
                 (''duration_api_ms'', AInt (sr_api r)), (''num_turns'', AInt (sr_turns r)),
                 (''total_cost_usd'', AFloat (sr_cost r)), (''usage'', AMap (first_non_nil_map [sr_usage r, []])),
                 (''result'', AStr (sr_result r)), (''is_error'', ABool (subtype = ''error''))];
          m = put_text ''terminal_reason'' (sr_terminal r) m;
          m = put_any ''stop_reason'' (sr_stop r) m;
          denials = project_denials (sr_denials r);
          m = (if denials \<noteq> [] then AList.update ''permission_denials'' (AList (map AMap denials)) m else m)
      in if sr_errors r \<noteq> [] then AList.update ''errors'' (AList (map AStr (sr_errors r))) m else m)"

section \<open>One message\<close>

definition complete_assistant :: "dict_value \<Rightarrow> bool" where
  "complete_assistant m \<longleftrightarrow> get_any m ''is_complete'' = ABool True"

definition process :: "process_env \<Rightarrow> sdk_message \<Rightarrow> processor \<Rightarrow> outcome \<times> processor" where
  "process env m p =
     (case register_session_id m p of
        (Inl err, p) \<Rightarrow> (Refused err, p)
      | (Inr updated, p) \<Rightarrow>
          (let out = no_output\<lparr>out_session := updated\<rparr>; kind = sm_type m in
           if kind = StreamEventKind then
             (case process_stream_event env m p out of (out, p) \<Rightarrow> (Produced out, p))
           else if kind = AssistantKind then
             (case sm_assistant m of
                None \<Rightarrow> (Panicked, p)
              | Some a \<Rightarrow>
                  (case process_assistant env a p of
                     (None, p) \<Rightarrow> (Produced out, p)
                   | (Some d, p) \<Rightarrow> (Produced ((emit_durable (Some d) out)\<lparr>out_completed := complete_assistant d\<rparr>), p)))
           else if kind = SystemKind then
             (case sm_system m of
                None \<Rightarrow> (Produced out, p)
              | Some sys \<Rightarrow>
                  (case process_system env sys p of
                     ((ds, es), p) \<Rightarrow> (Produced (out\<lparr>out_durable := ds, out_ephemeral := es\<rparr>), p)))
           else if kind = ResultKind then
             (case sm_result m of
                None \<Rightarrow> (Panicked, p)
              | Some r \<Rightarrow>
                  (let subtype = normalize_result_subtype (Some r)
                   in (Produced ((emit_durable (Some (build_result_message env (sm_uuid m) r subtype p)) out)
                         \<lparr>out_subtype := subtype, out_status := status_from_subtype subtype\<rparr>), p)))
           else if kind = TaskProgressKind then
             (case process_task_progress env m p of (d, p) \<Rightarrow> (Produced (emit_durable d out), p))
           else if kind = UserKind then
             (case process_tool_result env m p of
                (None, p) \<Rightarrow> (Produced out, p)
              | (Some d, p) \<Rightarrow> (Produced ((emit_durable (Some d) out)\<lparr>out_completed := True\<rparr>), p))
           else (Produced out, p)))"

section \<open>Interrupted rounds\<close>

definition interrupt_message :: "string \<Rightarrow> dict_value \<Rightarrow> dict_value" where
  "interrupt_message result_text m =
     (if message_role m \<noteq> ''result'' then m
      else (let m = AList.update ''is_error'' (ABool False) (AList.update ''subtype'' (AStr ''interrupted'') m)
            in if result_text = [] then AList.delete ''result'' m else AList.update ''result'' (AStr result_text) m))"

definition normalize_interrupted :: "string \<Rightarrow> process_output \<Rightarrow> process_output" where
  "normalize_interrupted reason out =
     (if out_subtype out \<noteq> ''error'' \<and> out_status out \<noteq> ''error'' then out
      else out\<lparr>out_subtype := ''interrupted'', out_status := ''interrupted'',
               out_durable := map (interrupt_message (trim_space reason)) (out_durable out)\<rparr>)"


section \<open>The event mapper\<close>

record event_mapper =
  em_ctx :: message_context
  em_caused :: string
  em_lifecycle :: bool
  em_processor :: processor
  em_last :: dict_value

record event_map_result =
  mr_events :: "event_message list"
  mr_durable :: "dict_value list"
  mr_status :: string
  mr_subtype :: string

datatype map_outcome = Mapped event_map_result | MapRefused string | MapPanicked

definition new_event_mapper :: "message_context \<Rightarrow> string \<Rightarrow> string \<Rightarrow> bool \<Rightarrow> event_mapper" where
  "new_event_mapper ctx session_id caused lifecycle =
     \<lparr>em_ctx = ctx, em_caused = caused, em_lifecycle = lifecycle, em_processor = new_processor ctx session_id,
      em_last = []\<rparr>"

definition new_slot_mapper ::
  "string \<Rightarrow> string \<Rightarrow> string \<Rightarrow> string \<Rightarrow> string \<Rightarrow> string \<Rightarrow> string list \<Rightarrow> event_mapper" where
  "new_slot_mapper key room conversation agent slot_message agent_round workspaces =
     new_event_mapper
       \<lparr>mc_session = key, mc_room = room, mc_conversation = conversation, mc_agent = agent,
        mc_workspace = first_non_empty workspaces, mc_round = agent_round, mc_parent = slot_message\<rparr>
       [] agent_round False"

definition new_dm_mapper :: "string \<Rightarrow> string \<Rightarrow> string \<Rightarrow> string list \<Rightarrow> event_mapper" where
  "new_dm_mapper key agent round_id workspaces =
     new_event_mapper
       \<lparr>mc_session = key, mc_room = [], mc_conversation = [], mc_agent = agent,
        mc_workspace = first_non_empty workspaces, mc_round = round_id, mc_parent = round_id\<rparr>
       [] [] True"

definition mapper_session_id :: "event_mapper \<Rightarrow> string" where
  "mapper_session_id m = trim_space (pr_session (em_processor m))"

definition wrap_event :: "int \<Rightarrow> event_mapper \<Rightarrow> string \<Rightarrow> dict_value \<Rightarrow> string \<Rightarrow> event_message" where
  "wrap_event now m kind data message_id =
     (new_event now kind (AMap data))
       \<lparr>ev_session := mc_session (em_ctx m), ev_room := mc_room (em_ctx m),
        ev_conversation := mc_conversation (em_ctx m), ev_agent := mc_agent (em_ctx m),
        ev_message := trim_space message_id, ev_caused_by := em_caused m,
        ev_session_id := get_str data ''session_id''\<rparr>"

definition wrap_message_event :: "int \<Rightarrow> event_mapper \<Rightarrow> dict_value \<Rightarrow> bool \<Rightarrow> event_message" where
  "wrap_message_event now m message durable =
     (let e = wrap_event now m ''message'' message (get_str message ''message_id'')
      in if durable then e\<lparr>ev_delivery := ''durable''\<rparr> else e)"

definition project_durable :: "event_mapper \<Rightarrow> dict_value \<Rightarrow> dict_value \<times> event_mapper" where
  "project_durable m message =
     (if get_any message ''role'' = AStr ''assistant'' then (message, m\<lparr>em_last := message\<rparr>)
      else if get_any message ''role'' \<noteq> AStr ''result'' then (message, m)
      else (let projected = project_result_message (em_last m) message
            in (projected, m\<lparr>em_last := projected\<rparr>)))"

definition durable_events :: "int \<Rightarrow> event_mapper \<Rightarrow> dict_value \<Rightarrow> event_message list \<times> event_mapper" where
  "durable_events now m message =
     (case project_durable m message of
        (projected, m) \<Rightarrow>
          (wrap_message_event now m projected True #
             (if em_lifecycle m \<and> get_any message ''role'' = AStr ''assistant'' \<and> complete_assistant message
              then [wrap_event now m ''stream_end''
                      [(''msg_id'', get_any message ''message_id''), (''round_id'', AStr (mc_round (em_ctx m)))]
                      (get_str message ''message_id'')]
              else []), m))"

fun map_durables :: "int \<Rightarrow> event_mapper \<Rightarrow> dict_value list \<Rightarrow> event_message list \<times> event_mapper" where
  "map_durables now m [] = ([], m)"
| "map_durables now m (d # ds) =
     (case durable_events now m d of
        (es, m) \<Rightarrow> case map_durables now m ds of (es', m) \<Rightarrow> (es @ es', m))"

definition map_message :: "process_env \<Rightarrow> string list \<Rightarrow> sdk_message \<Rightarrow> event_mapper \<Rightarrow> map_outcome \<times> event_mapper" where
  "map_message env reasons incoming m =
     (case process env incoming (em_processor m) of
        (Refused err, p) \<Rightarrow> (MapRefused err, m\<lparr>em_processor := p\<rparr>)
      | (Panicked, p) \<Rightarrow> (MapPanicked, m\<lparr>em_processor := p\<rparr>)
      | (Produced out, p) \<Rightarrow>
          (let out = normalize_interrupted (first_non_empty reasons) out;
               m = m\<lparr>em_processor := p\<rparr>;
               current = seg_id (pr_segment p);
               lifecycle = (if em_lifecycle m \<and> out_started out
                            then [wrap_event (pe_now env) m ''stream_start''
                                    [(''msg_id'', AStr current), (''round_id'', AStr (mc_round (em_ctx m)))] current]
                            else []);
               streams = map (\<lambda>e. wrap_event (pe_now env) m ''stream'' (sp_data e) (sp_message e)) (out_stream out);
               (durables, m) = map_durables (pe_now env) m (out_durable out);
               ephemerals = map (\<lambda>e. wrap_message_event (pe_now env) m e False) (out_ephemeral out)
           in (Mapped \<lparr>mr_events = lifecycle @ streams @ durables @ ephemerals, mr_durable = out_durable out,
                       mr_status = out_status out, mr_subtype = out_subtype out\<rparr>, m)))"

section \<open>Every message belongs to the round\<close>

definition in_scope :: "message_context \<Rightarrow> dict_value \<Rightarrow> bool" where
  "in_scope ctx m \<longleftrightarrow>
     get_any m ''session_key'' = AStr (mc_session ctx) \<and> get_any m ''agent_id'' = AStr (mc_agent ctx) \<and>
     get_any m ''round_id'' = AStr (mc_round ctx)"

lemma in_scope_update [simp]:
  "k \<notin> {''session_key'', ''agent_id'', ''round_id''} \<Longrightarrow> in_scope ctx (AList.update k v m) = in_scope ctx m"
  "k \<notin> {''session_key'', ''agent_id'', ''round_id''} \<Longrightarrow> in_scope ctx (AList.delete k m) = in_scope ctx m"
  "k \<notin> {''session_key'', ''agent_id'', ''round_id''} \<Longrightarrow> in_scope ctx (put_text k s m) = in_scope ctx m"
  "k \<notin> {''session_key'', ''agent_id'', ''round_id''} \<Longrightarrow> in_scope ctx (put_any k v m) = in_scope ctx m"
  by (auto simp: in_scope_def put_text_def put_any_def)

lemma in_scope_base [simp]: "in_scope ctx (base_message_envelope now ctx session_id message_id role)"
proof -
  have "in_scope ctx [(''message_id'', AStr i), (''session_key'', AStr (mc_session ctx)), (''agent_id'', AStr (mc_agent ctx)),
     (''round_id'', AStr (mc_round ctx)), (''role'', AStr r), (''timestamp'', AInt now)]" for i r
    by (simp add: in_scope_def)
  then show ?thesis by (simp add: base_message_envelope_def Let_def)
qed

lemma in_scope_ne: "in_scope ctx m \<Longrightarrow> m \<noteq> []"
  by (auto simp: in_scope_def)

lemma in_scope_assistant: "build_assistant_message now ctx sid c s = (s', m) \<Longrightarrow> in_scope ctx m"
  by (auto simp: build_assistant_message_def Let_def)

text \<open>What the steps of the processor keep: its context.\<close>

lemma build_durable_scope:
  assumes "build_durable env c i parent p = (r, p')"
  shows "pr_ctx p' = pr_ctx p \<and> pr_session p' = pr_session p \<and> (\<forall>m. r = Some m \<longrightarrow> in_scope (pr_ctx p) m)"
  using assms
  by (auto simp: build_durable_def Let_def in_scope_assistant split: prod.splits if_splits)

lemma build_task_progress_scope:
  assumes "build_task_progress env t d u l usage p = (r, p')"
  shows "pr_ctx p' = pr_ctx p \<and> pr_session p' = pr_session p \<and> (\<forall>m. r = Some m \<longrightarrow> in_scope (pr_ctx p) m)"
  using assms unfolding build_task_progress_def
  by (auto split: if_splits dest: build_durable_scope)

lemma process_assistant_scope:
  assumes "process_assistant env a p = (r, p')"
  shows "pr_ctx p' = pr_ctx p \<and> pr_session p' = pr_session p \<and> (\<forall>m. r = Some m \<longrightarrow> in_scope (pr_ctx p) m)"
  using build_durable_scope[OF assms[unfolded process_assistant_def Let_def]] by (simp split: if_splits)

lemma process_tool_result_scope:
  assumes "process_tool_result env m p = (r, p')"
  shows "pr_ctx p' = pr_ctx p \<and> pr_session p' = pr_session p \<and> (\<forall>m. r = Some m \<longrightarrow> in_scope (pr_ctx p) m)"
  using assms unfolding process_tool_result_def
  by (auto simp: Let_def split: if_splits option.splits dest: build_durable_scope)

lemma process_progress_scope:
  assumes "process_task_progress env m p = (r, p')"
  shows "pr_ctx p' = pr_ctx p \<and> pr_session p' = pr_session p \<and> (\<forall>m. r = Some m \<longrightarrow> in_scope (pr_ctx p) m)"
  using assms unfolding process_task_progress_def
  by (auto split: option.splits dest: build_task_progress_scope)

lemma envelope_scope [simp]: "in_scope (pr_ctx p) (visible_system_envelope env p explicit content metadata)"
  by (simp add: visible_system_envelope_def)

lemma visible_scope:
  assumes "build_visible_system env sys p = Some (m, e)"
  shows "in_scope (pr_ctx p) m"
  using assms unfolding build_visible_system_def Let_def
  by (auto simp only: option.inject prod.inject option.distinct envelope_scope split: if_split_asm)

lemma process_system_scope:
  assumes "process_system env sys p = ((ds, es), p')"
  shows "pr_ctx p' = pr_ctx p \<and> pr_session p' = pr_session p \<and> (\<forall>m \<in> set ds \<union> set es. in_scope (pr_ctx p) m)"
proof (cases "trim_space (ss_subtype sys) = ''task_progress''")
  case True
  obtain r q where b: "build_task_progress env
      (first_non_empty [get_str (ss_data sys) ''task_id'', progress_field sp_task sys])
      (first_non_empty [get_str (ss_data sys) ''description'', progress_description sys])
      (first_non_empty [get_str (ss_data sys) ''tool_use_id'', progress_field sp_tool_use sys])
      (first_non_empty [get_str (ss_data sys) ''last_tool_name'', progress_field sp_tool sys])
      (first_non_nil_map [map_value (get_any (ss_data sys) ''usage''), first_task_usage sys]) p = (r, q)"
    by fastforce
  have "p' = q \<and> set ds \<union> set es = set_option r"
    using assms True by (cases r) (auto simp only: process_system_def Let_def b if_True prod.case option.case
        prod.inject list.set Un_empty_right option.set simp_thms if_True)
  then show ?thesis using build_task_progress_scope[OF b] by (cases r) auto
next
  case False
  then show ?thesis
  proof (cases "build_visible_system env sys p")
    case None
    then show ?thesis using assms False by (simp add: process_system_def Let_def)
  next
    case (Some v)
    obtain m e where v: "v = (m, e)" by fastforce
    have "p' = p \<and> set ds \<union> set es = {m}"
      using assms False Some v by (simp add: process_system_def Let_def split: if_splits) auto
    then show ?thesis using visible_scope[OF Some[unfolded v]] by auto
  qed
qed

lemma stream_scope:
  assumes "process_stream_event env m p out = (out', p')"
  shows "pr_ctx p' = pr_ctx p \<and> pr_session p' = pr_session p \<and> out_status out' = out_status out \<and>
     out_subtype out' = out_subtype out \<and> out_ephemeral out' = out_ephemeral out \<and>
     (\<forall>m \<in> set (out_durable out'). m \<in> set (out_durable out) \<or> in_scope (pr_ctx p) m)"
proof -
  have start: "on_message_start env payload p out = (out', p') \<Longrightarrow> ?thesis" for payload
    by (auto simp: on_message_start_def emit_stream_def Let_def)
  have block: "on_block_start env payload p out = (out', p') \<Longrightarrow> ?thesis" for payload
    by (auto simp: on_block_start_def emit_stream_def Let_def split: if_splits prod.splits)
  have delta: "on_block_delta env payload p out = (out', p') \<Longrightarrow> ?thesis" for payload
    by (auto simp: on_block_delta_def emit_stream_def Let_def split: if_splits prod.splits)
  have meta: "on_message_delta env payload p out = (out', p') \<Longrightarrow> ?thesis" for payload
    by (auto simp: on_message_delta_def emit_stream_def emit_durable_def started_segment_def Let_def
        split: if_splits prod.splits option.splits dest!: build_durable_scope)
  have "\<exists>payload. on_message_start env payload p out = (out', p') \<or> on_block_start env payload p out = (out', p') \<or>
      on_block_delta env payload p out = (out', p') \<or> on_message_delta env payload p out = (out', p') \<or>
      (out' = emit_stream (message_meta_payload env ''message_stop'' (started_segment env p)) out \<and>
       p' = started_segment env p) \<or> out' = out \<and> p' = p"
    using assms by (auto simp: process_stream_event_def Let_def split: option.splits if_splits)
  then obtain payload where "on_message_start env payload p out = (out', p') \<or> on_block_start env payload p out = (out', p') \<or>
      on_block_delta env payload p out = (out', p') \<or> on_message_delta env payload p out = (out', p') \<or>
      (out' = emit_stream (message_meta_payload env ''message_stop'' (started_segment env p)) out \<and>
       p' = started_segment env p) \<or> out' = out \<and> p' = p" by blast
  then show ?thesis
    using start[of payload] block[of payload] delta[of payload] meta[of payload]
    by (elim disjE) (simp_all add: emit_stream_def started_segment_def)
qed
section \<open>The session id\<close>

text \<open>Registering takes the first candidate for an empty id and refuses any other id later.\<close>

lemma register_known:
  assumes "trim_space (pr_session p) \<noteq> []"
  shows "snd (register_candidates p cs) = p \<and>
     ((\<exists>r. fst (register_candidates p cs) = Inr r) \<longleftrightarrow> (\<forall>c \<in> set cs. c = [] \<or> c = trim_space (pr_session p)))"
  using assms by (induction cs) auto

lemma register_scope:
  "pr_ctx (snd (register_candidates p cs)) = pr_ctx p \<and> pr_segment (snd (register_candidates p cs)) = pr_segment p \<and>
   (trim_space (pr_session p) \<noteq> [] \<longrightarrow> snd (register_candidates p cs) = p)"
  by (induction p cs rule: register_candidates.induct) auto

lemma register_kept: "register_session_id m p = (r, q) \<Longrightarrow>
    pr_ctx q = pr_ctx p \<and> pr_segment q = pr_segment p \<and> (trim_space (pr_session p) \<noteq> [] \<longrightarrow> q = p)"
  using register_scope[of p "session_candidates m"] by (simp add: register_session_id_def)

text \<open>The outcome of one message, by cases of its kind.\<close>

lemma process_scope:
  assumes "process env m p = (r, p')"
  shows "pr_ctx p' = pr_ctx p \<and> (trim_space (pr_session p) \<noteq> [] \<longrightarrow> pr_session p' = pr_session p) \<and>
     (\<forall>out. r = Produced out \<longrightarrow>
        (\<forall>d \<in> set (out_durable out) \<union> set (out_ephemeral out). in_scope (pr_ctx p) d) \<and>
        (out_status out, out_subtype out) \<in>
          {([], [])} \<union> (\<lambda>s. (status_from_subtype s, s)) ` {''success'', ''error'', ''interrupted''})"
proof -
  obtain u q where g: "register_session_id m p = (u, q)" by fastforce
  note q = register_kept[OF g]
  show ?thesis
  proof (cases u)
    case (Inl err)
    then show ?thesis using assms g q by (auto simp: process_def)
  next
    case (Inr updated)
    let ?out = "no_output\<lparr>out_session := updated\<rparr>"
    have empty: "out_durable ?out = []" "out_ephemeral ?out = []" "out_status ?out = []" "out_subtype ?out = []"
      by (simp_all add: no_output_def)
    note run = assms[unfolded process_def g Inr prod.case sum.case Let_def]
    show ?thesis
    proof (cases "sm_type m")
      case StreamEventKind
      obtain out' q' where s: "process_stream_event env m q ?out = (out', q')" by fastforce
      have "r = Produced out' \<and> p' = q'" using run StreamEventKind s by simp
      then show ?thesis using stream_scope[OF s] q empty by auto
    next
      case AssistantKind
      show ?thesis
      proof (cases "sm_assistant m")
        case (Some a)
        obtain d q' where s: "process_assistant env a q = (d, q')" by fastforce
        have "p' = q' \<and> (\<exists>out. r = Produced out \<and> out_durable out = (case d of None \<Rightarrow> [] | Some x \<Rightarrow> [x]) \<and>
            out_ephemeral out = [] \<and> out_status out = [] \<and> out_subtype out = [])"
          using run AssistantKind Some s empty by (cases d) (auto simp: emit_durable_def)
        then show ?thesis using process_assistant_scope[OF s] q by (cases d) auto
      qed (use run AssistantKind q in auto)
    next
      case SystemKind
      show ?thesis
      proof (cases "sm_system m")
        case None
        then show ?thesis using run SystemKind q empty by auto
      next
        case (Some sys)
        obtain ds es q' where s: "process_system env sys q = ((ds, es), q')" by (metis prod.exhaust)
        have "p' = q' \<and> r = Produced (?out\<lparr>out_durable := ds, out_ephemeral := es\<rparr>)"
          using run SystemKind Some s by simp
        then show ?thesis using process_system_scope[OF s] q empty by auto
      qed
    next
      case ResultKind
      show ?thesis
      proof (cases "sm_result m")
        case (Some res)
        have "normalize_result_subtype (Some res) \<in> {''success'', ''error'', ''interrupted''}"
          by (simp add: normalize_result_subtype_def Let_def)
        moreover have "in_scope (pr_ctx q) (build_result_message env (sm_uuid m) res s q)" for s
          by (simp add: build_result_message_def Let_def)
        moreover have "p' = q \<and> (\<exists>s. s = normalize_result_subtype (Some res) \<and>
            r = Produced ((emit_durable (Some (build_result_message env (sm_uuid m) res s q)) ?out)
                  \<lparr>out_subtype := s, out_status := status_from_subtype s\<rparr>))"
          using run ResultKind Some by auto
        ultimately show ?thesis using q empty by (auto simp: emit_durable_def)
      qed (use run ResultKind q in auto)
    next
      case TaskProgressKind
      obtain d q' where s: "process_task_progress env m q = (d, q')" by fastforce
      have "p' = q' \<and> r = Produced (emit_durable d ?out)" using run TaskProgressKind s by simp
      then show ?thesis
        using process_progress_scope[OF s] q empty by (cases d) (auto simp: emit_durable_def)
    next
      case UserKind
      obtain d q' where s: "process_tool_result env m q = (d, q')" by fastforce
      have "p' = q' \<and> (\<exists>out. r = Produced out \<and> out_durable out = (case d of None \<Rightarrow> [] | Some x \<Rightarrow> [x]) \<and>
          out_ephemeral out = [] \<and> out_status out = [] \<and> out_subtype out = [])"
        using run UserKind s empty by (cases d) (auto simp: emit_durable_def)
      then show ?thesis using process_tool_result_scope[OF s] q by (cases d) auto
    next
      case (OtherKind k)
      then show ?thesis using run q empty by auto
    qed
  qed
qed

text \<open>Once the processor knows its session, the session stays; a message of another session is refused and
  changes nothing.\<close>

lemma session_id_fixed:
  assumes known: "trim_space (pr_session p) \<noteq> []"
  shows "pr_session (snd (process env m p)) = pr_session p \<and>
     (trim_space (sm_session m) \<notin> {[], trim_space (pr_session p)} \<longrightarrow>
       (\<exists>err. process env m p = (Refused err, p)))"
proof (intro conjI impI)
  show "pr_session (snd (process env m p)) = pr_session p"
    using process_scope[of env m p "fst (process env m p)" "snd (process env m p)"] known by simp
next
  assume other: "trim_space (sm_session m) \<notin> {[], trim_space (pr_session p)}"
  then have "\<not> (\<exists>r. fst (register_session_id m p) = Inr r)"
    using register_known[OF known, of "session_candidates m"]
    by (auto simp: register_session_id_def session_candidates_def)
  then obtain err where "register_session_id m p = (Inl err, p)"
    using register_known[OF known, of "session_candidates m"]
    by (cases "register_session_id m p"; cases "fst (register_session_id m p)")
       (auto simp: register_session_id_def)
  then show "\<exists>err. process env m p = (Refused err, p)" by (simp add: process_def)
qed

definition sample_message :: "sdk_assistant option \<Rightarrow> string \<Rightarrow> sdk_message" where
  "sample_message a session_id =
     \<lparr>sm_type = AssistantKind, sm_uuid = [], sm_session = session_id, sm_stream = None, sm_assistant = a,
      sm_user = None, sm_system = None, sm_result = None, sm_progress = None\<rparr>"

definition sample_context :: message_context where
  "sample_context = \<lparr>mc_session = ''k'', mc_room = [], mc_conversation = [], mc_agent = ''a'', mc_workspace = ''/w'',
     mc_round = ''r'', mc_parent = ''r''\<rparr>"

definition sample_process_env :: process_env where
  "sample_process_env = \<lparr>pe_now = 5, pe_unmarshal = (\<lambda>_. None), pe_sprint = (\<lambda>_. [])\<rparr>"

lemma session_id_fixed_witness:
  "\<exists>err. process sample_process_env (sample_message None ''other'') (new_processor sample_context ''mine'') =
     (Refused err, new_processor sample_context ''mine'')"
proof -
  have "trim_space (pr_session (new_processor sample_context ''mine'')) \<noteq> []" by code_simp
  moreover have "trim_space (sm_session (sample_message None ''other'')) \<notin>
      {[], trim_space (pr_session (new_processor sample_context ''mine''))}" by code_simp
  ultimately show ?thesis using session_id_fixed by blast
qed

section \<open>A snapshot that arrives twice\<close>

fun tidy :: "any \<Rightarrow> bool" where
  "tidy (AMap m) \<longleftrightarrow> distinct (map fst m) \<and> list_all (\<lambda>(k, v). tidy v) m"
| "tidy (AList xs) \<longleftrightarrow> list_all tidy xs"
| "tidy v \<longleftrightarrow> True"

lemma deep_equal_refl: "tidy v \<Longrightarrow> deep_equal v v"
proof (induction v rule: tidy.induct)
  case (1 m)
  have "case map_of m k of None \<Rightarrow> False | Some y \<Rightarrow> deep_equal x y" if h: "(k, x) \<in> set m" for k x
  proof -
    have "map_of m k = Some x" using 1(2) h by simp
    moreover have "tidy x" using 1(2) h by (auto simp: list_all_iff)
    then have "deep_equal x x" using 1(1) h by blast
    ultimately show ?thesis by simp
  qed
  then show ?case by (auto simp: list_all_iff)
next
  case (2 xs)
  then show ?case by (auto simp: list_all_iff list_all2_conv_all_nth)
qed auto

definition durable_value :: "process_env \<Rightarrow> bool \<Rightarrow> bool \<Rightarrow> string \<Rightarrow> processor \<Rightarrow> dict_value" where
  "durable_value env c i parent p =
     (let m = snd (build_assistant_message (pe_now env) (pr_ctx p) (pr_session p) c (pr_segment p));
          m = (if i then m else AList.update ''is_complete'' (ABool False) (AList.delete ''stop_reason'' m))
      in put_text ''parent_id'' parent m)"

lemma build_durable_value:
  assumes "is_started (pr_segment p)"
  shows "build_durable env c i parent p =
     (if assistant_messages_equal (pr_last p) (durable_value env c i parent p) then (None, p)
      else (Some (durable_value env c i parent p), p\<lparr>pr_last := durable_value env c i parent p\<rparr>))"
  using assms by (simp add: build_durable_def durable_value_def build_assistant_message_def Let_def)

text \<open>Two readings of the clock give messages that agree but for the time.\<close>

definition agree :: "dict_value \<Rightarrow> dict_value \<Rightarrow> bool" where
  "agree m n \<longleftrightarrow> (\<forall>k. k \<noteq> ''timestamp'' \<longrightarrow> get_any m k = get_any n k)"

lemma agree_steps:
  "agree m m"
  "agree m n \<Longrightarrow> agree (AList.update k v m) (AList.update k v n)"
  "agree m n \<Longrightarrow> agree (AList.delete k m) (AList.delete k n)"
  "agree m n \<Longrightarrow> agree (put_text k s m) (put_text k s n)"
  by (simp_all add: agree_def put_text_def)

lemma agree_if: "agree m n \<Longrightarrow> agree m' n' \<Longrightarrow> agree (if b then m else m') (if b then n else n')"
  by simp

lemma agree_base: "agree (base_message_envelope now ctx sid i r) (base_message_envelope now' ctx sid i r)"
proof -
  have "agree [(''message_id'', a), (''session_key'', b), (''agent_id'', c), (''round_id'', d), (''role'', e), (''timestamp'', t)]
      [(''message_id'', a), (''session_key'', b), (''agent_id'', c), (''round_id'', d), (''role'', e), (''timestamp'', t')]"
    for a b c d e t t' by (simp add: agree_def)
  then show ?thesis unfolding base_message_envelope_def Let_def by (intro agree_steps agree_if)
qed

lemma durable_value_time:
  assumes "is_started (pr_segment p)"
  shows "agree (durable_value env c i parent (p\<lparr>pr_last := l\<rparr>)) (durable_value env' c i parent p)"
proof -
  have "agree (snd (build_assistant_message (pe_now env) (pr_ctx p) (pr_session p) c (pr_segment p)))
      (snd (build_assistant_message (pe_now env') (pr_ctx p) (pr_session p) c (pr_segment p)))"
    unfolding build_assistant_message_def Let_def snd_conv ensure_started(2)[OF assms]
    by (intro agree_steps agree_if agree_base)
  then show ?thesis unfolding durable_value_def Let_def by simp (intro agree_steps agree_if conjI impI)
qed

lemma get_put_text: "k \<noteq> j \<Longrightarrow> get_any (put_text k s m) j = get_any m j"
  by (simp add: put_text_def)

lemma durable_value_content:
  "is_started (pr_segment p) \<Longrightarrow>
   get_any (durable_value env c i parent p) ''content'' = AList (map AMap (normalized_content (seg_content (pr_segment p))))"
  by (simp add: durable_value_def build_assistant_message_def Let_def get_put_text)

lemma durable_value_ne: "is_started (pr_segment p) \<Longrightarrow> durable_value env c i parent p \<noteq> []"
  using durable_value_content[of p env c i parent] by auto

lemma equal_by_fields:
  assumes "agree b' b" and "b' \<noteq> []" and "assistant_messages_equal a b"
  shows "assistant_messages_equal a b'"
  using assms by (simp add: assistant_messages_equal_def get_str_def agree_def)

lemma equal_refl: "a \<noteq> [] \<Longrightarrow> tidy (get_any a ''content'') \<Longrightarrow> assistant_messages_equal a a"
  by (simp add: assistant_messages_equal_def deep_equal_refl)

text \<open>The same assistant message is durable once.\<close>

lemma durable_once:
  assumes "is_started (pr_segment p)" and "list_all (\<lambda>b. tidy (AMap b)) (seg_content (pr_segment p))"
  shows "fst (build_durable env' c i parent (snd (build_durable env c i parent p))) = None"
proof -
  let ?m = "durable_value env c i parent p"
  have "list_all (\<lambda>b. tidy (AMap b)) (normalized_content (seg_content (pr_segment p)))"
    using assms(2) thinking_leads(2)[of "seg_content (pr_segment p)"] notin_set_remove1[of _ "seg_content (pr_segment p)"]
    by (force simp: list_all_iff)
  then have tidy: "tidy (get_any ?m ''content'')"
    using durable_value_content[OF assms(1)] by (simp add: list_all_iff)
  define q where "q = snd (build_durable env c i parent p)"
  have "assistant_messages_equal (pr_last q) ?m \<and> (\<exists>l. q = p\<lparr>pr_last := l\<rparr>)"
  proof (cases "assistant_messages_equal (pr_last p) ?m")
    case True
    then have "q = p" using build_durable_value[OF assms(1)] by (simp add: q_def)
    moreover have "p = p\<lparr>pr_last := pr_last p\<rparr>" by simp
    ultimately show ?thesis using True by metis
  next
    case False
    then have "q = p\<lparr>pr_last := ?m\<rparr>" using build_durable_value[OF assms(1)] by (simp add: q_def)
    then show ?thesis using equal_refl[OF durable_value_ne[OF assms(1)] tidy] by auto
  qed
  then obtain l where eq: "assistant_messages_equal (pr_last q) ?m" and l: "q = p\<lparr>pr_last := l\<rparr>" by blast
  then have started: "is_started (pr_segment q)" using assms(1) by simp
  have "agree (durable_value env' c i parent q) ?m"
    using durable_value_time[OF assms(1)] by (simp add: l)
  then have "assistant_messages_equal (pr_last q) (durable_value env' c i parent q)"
    using equal_by_fields durable_value_ne[OF started] eq by blast
  then show ?thesis using build_durable_value[OF started] by (simp add: q_def)
qed

definition clean_snapshot :: "sdk_assistant \<Rightarrow> bool" where
  "clean_snapshot a \<longleftrightarrow>
     keyed (normalize_content_blocks (sa_content a)) \<and>
     list_all (\<lambda>b. tidy (AMap b)) (normalize_content_blocks (sa_content a))"

lemma usage_of_meta: "seg_usage (update_meta m w r s) = (if w \<noteq> [] then w else seg_usage s)"
  by (simp add: update_meta_def Let_def)

lemma first_non_nil_two: "first_non_nil_map [u, v] = (if u \<noteq> [] then u else v)"
  by (simp add: first_non_nil_map_def)

lemma first_non_nil_twice:
  assumes "is_started s"
  shows "first_non_nil_map [u, seg_usage (replace_from_snapshot now c m (first_non_nil_map [u, seg_usage s]) r s)] =
     first_non_nil_map [u, seg_usage s]"
  using assms by (simp add: replace_from_snapshot_def Let_def usage_of_meta first_non_nil_two)

lemma normalize_any_now [simp]: "normalize_any_string (env\<lparr>pe_now := now'\<rparr>) v = normalize_any_string env v"
  by (cases v) (simp_all add: normalize_any_string_def)

lemma started_content [simp]: "seg_content (start_segment now i m u t) = []"
  by (simp add: start_segment_def reset_segment_def)

lemma assistant_twice:
  assumes clean: "clean_snapshot a" and fresh: "\<not> is_started (pr_segment p) \<or> seg_content (pr_segment p) = []"
  shows "fst (process_assistant (env\<lparr>pe_now := now'\<rparr>) a (snd (process_assistant env a p))) = None"
proof -
  define p0 where "p0 = (if is_started (pr_segment p) then p
      else p\<lparr>pr_segment := start_segment (pe_now env) (sa_id a) (sa_model a) (sa_usage a) (pe_now env),
             pr_started := False, pr_terminal := False, pr_last := []\<rparr>)"
  define content where "content = normalize_content_blocks (sa_content a)"
  define usage where "usage = first_non_nil_map [sa_usage a, seg_usage (pr_segment p0)]"
  define stop where "stop = normalize_any_string env (sa_stop a)"
  define s1 where "s1 = replace_from_snapshot (pe_now env) content (sa_model a) usage stop (pr_segment p0)"
  define inc where "inc = (\<not> pr_started p0 \<or> pr_terminal p0)"
  define com where "com = (inc \<and> trim_space (seg_stop s1) \<noteq> [])"
  define par where "par = normalize_pointer_string (sa_parent a)"
  have s0: "is_started (pr_segment p0)" "seg_content (pr_segment p0) = []"
    using fresh by (auto simp: p0_def)
  have first: "process_assistant env a p = build_durable env com inc par (p0\<lparr>pr_segment := s1\<rparr>)"
    unfolding process_assistant_def Let_def p0_def[symmetric]
    by (simp add: com_def inc_def par_def s1_def content_def usage_def stop_def)
  have started: "is_started s1" using s0(1) by (simp add: s1_def replace_from_snapshot_def is_started_def Let_def)
  have again: "replace_from_snapshot now' content (sa_model a) usage stop s1 = s1"
    unfolding s1_def using clean s0
    by (intro snapshot_idempotent) (simp_all add: clean_snapshot_def content_def)
  have usage: "first_non_nil_map [sa_usage a, seg_usage s1] = usage"
    unfolding s1_def usage_def by (rule first_non_nil_twice[OF s0(1)])
  define p1 where "p1 = snd (process_assistant env a p)"
  have p1: "\<exists>l. p1 = p0\<lparr>pr_segment := s1, pr_last := l\<rparr>"
  proof (cases "assistant_messages_equal (pr_last p0) (durable_value env com inc par (p0\<lparr>pr_segment := s1\<rparr>))")
    case True
    then have "p1 = p0\<lparr>pr_segment := s1\<rparr>" using started by (simp add: p1_def first build_durable_value)
    then have "p1 = p0\<lparr>pr_segment := s1, pr_last := pr_last p0\<rparr>" by simp
    then show ?thesis by blast
  next
    case False
    then show ?thesis using started by (auto simp: p1_def first build_durable_value)
  qed
  then obtain l where l: "p1 = p0\<lparr>pr_segment := s1, pr_last := l\<rparr>" by blast
  have swap: "p0\<lparr>pr_last := l, pr_segment := s1\<rparr> = p0\<lparr>pr_segment := s1, pr_last := l\<rparr>"
    by (cases p0) simp
  have "process_assistant (env\<lparr>pe_now := now'\<rparr>) a p1 = build_durable (env\<lparr>pe_now := now'\<rparr>) com inc par p1"
    using started again usage
    by (simp add: process_assistant_def Let_def l com_def inc_def par_def content_def[symmetric] stop_def swap)
  moreover have "list_all (\<lambda>b. tidy (AMap b)) (seg_content s1)"
    using clean s0 by (simp add: s1_def replace_from_snapshot_def clean_snapshot_def content_def)
  ultimately show ?thesis
    using durable_once[of "p0\<lparr>pr_segment := s1\<rparr>" "env\<lparr>pe_now := now'\<rparr>" com inc par env] started
    by (simp add: p1_def first)
qed

lemma register_again:
  assumes "register_session_id m p = (Inr u, q)" and "sm_type m \<noteq> SystemKind" and "pr_session q' = pr_session q"
  shows "\<exists>u'. register_session_id m q' = (Inr u', q')"
  using assms by (auto simp: register_session_id_def session_candidates_def split: if_splits option.splits)


definition sample_assistant :: sdk_assistant where
  "sample_assistant =
     \<lparr>sa_id = ''m'', sa_model = [], sa_usage = [],
      sa_content = [\<lparr>sb_raw = [], sb_type = ''text'', sb_text = Some ''hi'', sb_thinking = None, sb_image = None,
                      sb_tool_use = None, sb_tool_result = None\<rparr>],
      sa_stop = AStr ''end_turn'', sa_parent = None\<rparr>"

lemma sample_clean: "clean_snapshot sample_assistant"
  by code_simp

fun durables_of :: "outcome \<Rightarrow> dict_value list" where
  "durables_of (Produced out) = out_durable out"
| "durables_of _ = []"


section \<open>Mapped messages\<close>

lemma mapped_from:
  assumes "map_message env reasons incoming m = (Mapped r, m')"
  obtains out p where "process env incoming (em_processor m) = (Produced out, p)"
    "mr_durable r = out_durable (normalize_interrupted (first_non_empty reasons) out)"
    "mr_status r = out_status (normalize_interrupted (first_non_empty reasons) out)"
    "mr_subtype r = out_subtype (normalize_interrupted (first_non_empty reasons) out)"
  using assms by (auto simp: map_message_def Let_def split: prod.splits outcome.splits)

lemma normalize_interrupted_scope:
  "\<forall>d \<in> set (out_durable out). in_scope ctx d \<Longrightarrow> \<forall>d \<in> set (out_durable (normalize_interrupted reason out)). in_scope ctx d"
  by (auto simp: normalize_interrupted_def interrupt_message_def Let_def)

lemma mapped_scope:
  assumes "map_message env reasons incoming m = (Mapped r, m')" and "d \<in> set (mr_durable r)"
  shows "in_scope (pr_ctx (em_processor m)) d"
  using assms(1)
proof (rule mapped_from)
  fix out p
  assume run: "process env incoming (em_processor m) = (Produced out, p)"
    and d: "mr_durable r = out_durable (normalize_interrupted (first_non_empty reasons) out)"
  show ?thesis
    using process_scope[OF run] normalize_interrupted_scope[of out] assms(2) unfolding d by auto
qed

text \<open>No mapped message ends a round in an error.\<close>

lemma mapped_status:
  assumes "map_message env reasons incoming m = (Mapped r, m')"
  shows "(mr_status r, mr_subtype r) \<in> {([], []), (''finished'', ''success''), (''interrupted'', ''interrupted'')}"
  using assms
proof (rule mapped_from)
  fix out p
  assume run: "process env incoming (em_processor m) = (Produced out, p)"
    and "mr_status r = out_status (normalize_interrupted (first_non_empty reasons) out)"
    and "mr_subtype r = out_subtype (normalize_interrupted (first_non_empty reasons) out)"
  then show ?thesis
    using process_scope[OF run] by (auto simp: normalize_interrupted_def status_from_subtype_def)
qed

text \<open>
  A result the SDK reports as an error is turned into an interruption even when nobody has
  interrupted the round: without a reason its text is deleted and it is no error any more.
\<close>

lemma error_becomes_interrupted:
  assumes "sm_type i = ResultKind" and "sm_result i = Some res" and "trim_space (sr_subtype res) = ''error''"
    and "register_session_id i (em_processor m) = (Inr u, p)"
  shows "\<exists>r d. fst (map_message env [] i m) = Mapped r \<and> mr_status r = ''interrupted'' \<and> mr_durable r = [d] \<and>
     get_any d ''subtype'' = AStr ''interrupted'' \<and> get_any d ''is_error'' = ABool False \<and> get_any d ''result'' = ANil"
proof -
  have sub: "normalize_result_subtype (Some res) = ''error''"
    using assms(3) by (simp add: normalize_result_subtype_def Let_def)
  have "trimmed ''result''" by code_simp
  then have role: "message_role (build_result_message env (sm_uuid i) res s q) = ''result''" for s q
    by (simp add: message_role_def build_result_message_def base_message_envelope_def put_text_def put_any_def Let_def)
  show ?thesis
    using assms(1,2,4) role
    by (simp add: map_message_def process_def sub Let_def emit_durable_def no_output_def normalize_interrupted_def
        status_from_subtype_def interrupt_message_def case_prod_beta)
qed

text \<open>An event that is sent as durable comes from a durable message: its data, or a result's projection.\<close>

lemma wrap_ephemeral [simp]: "ev_delivery (wrap_event now m k d i) = ''ephemeral''"
  by (simp add: wrap_event_def new_event_def)

lemma wrap_data [simp]: "ev_data (wrap_event now m k d i) = AMap d"
  by (simp add: wrap_event_def new_event_def)

lemma durable_event_source:
  assumes "e \<in> set (fst (durable_events now m d))" and "ev_delivery e = ''durable''"
  shows "ev_data e = AMap d \<or> get_any d ''role'' = AStr ''result''"
  using assms by (auto simp: durable_events_def project_durable_def wrap_message_event_def Let_def split: if_splits)

lemma map_durables_source:
  "e \<in> set (fst (map_durables now m ds)) \<Longrightarrow> ev_delivery e = ''durable'' \<Longrightarrow>
   \<exists>d \<in> set ds. ev_data e = AMap d \<or> get_any d ''role'' = AStr ''result''"
proof (induction now m ds rule: map_durables.induct)
  case (2 now m d ds)
  obtain es m1 where d: "durable_events now m d = (es, m1)" by fastforce
  obtain es' m2 where ds: "map_durables now m1 ds = (es', m2)" by fastforce
  consider "e \<in> set es" | "e \<in> set es'" using 2(2) by (auto simp: d ds)
  then show ?case
  proof cases
    case 1
    then show ?thesis using durable_event_source[of e now m d] 2(3) d by auto
  next
    case 2
    have "\<exists>d \<in> set ds. ev_data e = AMap d \<or> get_any d ''role'' = AStr ''result''"
      using "2.IH"[OF d[symmetric]] 2 "2.prems"(2) ds by simp
    then show ?thesis by auto
  qed
qed simp

lemma mapped_event_source:
  assumes "map_message env reasons incoming m = (Mapped r, m')" and "e \<in> set (mr_events r)"
    and "ev_delivery e = ''durable''"
  shows "\<exists>d \<in> set (mr_durable r). ev_data e = AMap d \<or> get_any d ''role'' = AStr ''result''"
proof -
  obtain out p where run: "process env incoming (em_processor m) = (Produced out, p)"
    using assms(1) by (rule mapped_from)
  let ?out = "normalize_interrupted (first_non_empty reasons) out"
  have r: "mr_durable r = out_durable ?out"
    using assms(1) run by (auto simp: map_message_def Let_def split: prod.splits)
  have "e \<in> set (fst (map_durables (pe_now env) (m\<lparr>em_processor := p\<rparr>) (out_durable ?out)))"
    using assms run by (auto simp: map_message_def Let_def wrap_message_event_def split: prod.splits if_splits)
  then show ?thesis using map_durables_source assms(3) unfolding r by blast
qed

end
