(* ===== verification/RoundExecutor.thy ===== *)
theory RoundExecutor
  imports MessageProcessor
begin

text \<open>
  One round, from the query to its result: \<open>runtime/executor_round.go\<close>. The loop's
  \<open>select\<close> is a list of what it picks, each pick with what the environment holds then: the
  interruption reason, whether the context is cancelled, the client's session id and the clock. The
  loop is a recursion over that list; a list that runs out leaves the round waiting (\<open>None\<close>).
  The callbacks may fail, depending on everything done before them; what is done is a list of actions.
\<close>

section \<open>Picks, actions and results\<close>

datatype round_event = Incoming sdk_message | StreamClosed | ContextDone | IdleFired | GraceFired

record round_pick =
  pk_event :: round_event
  pk_reason :: string
  pk_cancelled :: bool
  pk_client_session :: string
  pk_env :: process_env

datatype round_action =
    Observed sdk_message
  | Synced string
  | Persisted dict_value
  | Emitted event_message
  | ClientAborted

record stream_report =
  rp_seen :: nat
  rp_type :: "message_kind option"
  rp_session :: string
  rp_message :: string
  rp_read_error :: string
  rp_wait_error :: string

datatype round_error =
    ClientRequired
  | MapperRequired
  | RoundInterrupted
  | StreamClosedEarly stream_report
  | IdleTimedOut stream_report
  | RoundFailed string
  | RoundPanicked

record round_result =
  rs_status :: string
  rs_subtype :: string
  rs_by_assistant :: bool

record round_callbacks =
  cb_sync :: "round_action list \<Rightarrow> string \<Rightarrow> string option"
  cb_persist :: "round_action list \<Rightarrow> dict_value \<Rightarrow> string option"
  cb_emit :: "round_action list \<Rightarrow> event_message \<Rightarrow> string option"
  cb_read_error :: string
  cb_wait_error :: string

record round_state =
  xs_mapper :: event_mapper
  xs_seen :: nat
  xs_last :: "sdk_message option"
  xs_terminal :: "round_result option"
  xs_trace :: "round_action list"

section \<open>Results\<close>

definition message_string :: "any \<Rightarrow> string" where
  "message_string v = raw_string v"

definition is_terminal_stop_reason :: "string \<Rightarrow> bool" where
  "is_terminal_stop_reason s \<longleftrightarrow> trim_space s \<in> {''end_turn'', ''stop_sequence'', ''max_tokens''}"

definition terminal_assistant :: "dict_value \<Rightarrow> bool" where
  "terminal_assistant m \<longleftrightarrow>
     message_role m = ''assistant'' \<and> complete_assistant m \<and>
     is_terminal_stop_reason (message_string (get_any m ''stop_reason''))"

definition terminal_assistant_result :: "event_map_result \<Rightarrow> round_result option" where
  "terminal_assistant_result r =
     (if list_ex terminal_assistant (mr_durable r)
      then Some \<lparr>rs_status = ''finished'', rs_subtype = ''success'', rs_by_assistant = True\<rparr> else None)"

definition is_successful_result :: "round_result \<Rightarrow> bool" where
  "is_successful_result r \<longleftrightarrow> rs_status r = ''finished'' \<and> rs_subtype r \<in> {[], ''success''}"

definition has_successful_result :: "event_map_result \<Rightarrow> bool" where
  "has_successful_result r \<longleftrightarrow>
     list_ex (\<lambda>m. message_role m = ''result'' \<and> message_string (get_any m ''subtype'') \<noteq> ''error'' \<and>
                  get_any m ''is_error'' \<noteq> ABool True) (mr_durable r)"

definition terminal_round_result :: "event_map_result \<Rightarrow> round_result option \<Rightarrow> round_result" where
  "terminal_round_result r terminal =
     (let result = \<lparr>rs_status = trim_space (mr_status r), rs_subtype = trim_space (mr_subtype r), rs_by_assistant = False\<rparr>;
          by_assistant = (terminal_assistant_result r \<noteq> None \<or> has_successful_result r \<or>
                          (case terminal of None \<Rightarrow> False | Some t \<Rightarrow> rs_by_assistant t))
      in if is_successful_result result then result\<lparr>rs_by_assistant := by_assistant\<rparr> else result)"

definition received_message_id :: "sdk_message \<Rightarrow> string" where
  "received_message_id m =
     (let assistant_id = (case sm_assistant m of None \<Rightarrow> [] | Some a \<Rightarrow> trim_space (sa_id a)) in
      if trim_space (sm_uuid m) \<noteq> [] then trim_space (sm_uuid m)
      else if assistant_id \<noteq> [] then assistant_id
      else case sm_stream m of
             None \<Rightarrow> []
           | Some (event, data) \<Rightarrow>
               if is_map event \<and> is_map (get_any (map_value event) ''message'')
               then get_str (map_value (get_any (map_value event) ''message'')) ''id''
               else get_str (map_value (get_any data ''message'')) ''id'')"

definition build_stream_report :: "round_callbacks \<Rightarrow> bool \<Rightarrow> round_state \<Rightarrow> stream_report" where
  "build_stream_report cb at_end s =
     \<lparr>rp_seen = xs_seen s, rp_type = map_option sm_type (xs_last s),
      rp_session = (case xs_last s of None \<Rightarrow> [] | Some m \<Rightarrow> trim_space (sm_session m)),
      rp_message = (case xs_last s of None \<Rightarrow> [] | Some m \<Rightarrow> received_message_id m),
      rp_read_error = (if at_end then cb_read_error cb else []),
      rp_wait_error = (if at_end then cb_wait_error cb else [])\<rparr>"

definition treat_as_interrupted :: "round_pick \<Rightarrow> bool" where
  "treat_as_interrupted k \<longleftrightarrow> pk_cancelled k \<or> trim_space (pk_reason k) \<noteq> []"

definition resolve_session_id :: "string list \<Rightarrow> string" where
  "resolve_session_id vs = first_non_empty vs"

section \<open>One incoming message\<close>

text \<open>
  A durable message without a session id gets the round's. The event made from it carries the same
  map, so the id is in the event's data too.
\<close>

definition stamp_session :: "string \<Rightarrow> dict_value \<Rightarrow> dict_value" where
  "stamp_session session_id m =
     (if session_id \<noteq> [] \<and> trim_space (message_string (get_any m ''session_id'')) = []
      then AList.update ''session_id'' (AStr session_id) m else m)"

definition stamp_event :: "string \<Rightarrow> dict_value list \<Rightarrow> event_message \<Rightarrow> event_message" where
  "stamp_event session_id durables e =
     (case ev_data e of
        AMap d \<Rightarrow> if d \<in> set durables then e\<lparr>ev_data := AMap (stamp_session session_id d)\<rparr> else e
      | _ \<Rightarrow> e)"

definition act :: "round_action \<Rightarrow> round_state \<Rightarrow> round_state" where
  "act a s = s\<lparr>xs_trace := xs_trace s @ [a]\<rparr>"

fun persist_all :: "round_callbacks \<Rightarrow> dict_value list \<Rightarrow> round_state \<Rightarrow> string option \<times> round_state" where
  "persist_all cb [] s = (None, s)"
| "persist_all cb (m # ms) s =
     (case cb_persist cb (xs_trace s) m of
        Some err \<Rightarrow> (Some err, s)
      | None \<Rightarrow> persist_all cb ms (act (Persisted m) s))"

fun emit_all :: "round_callbacks \<Rightarrow> event_message list \<Rightarrow> round_state \<Rightarrow> string option \<times> round_state" where
  "emit_all cb [] s = (None, s)"
| "emit_all cb (e # es) s =
     (case cb_emit cb (xs_trace s) e of
        Some err \<Rightarrow> (Some err, s)
      | None \<Rightarrow> emit_all cb es (act (Emitted e) s))"

definition sync_session :: "round_callbacks \<Rightarrow> string \<Rightarrow> round_state \<Rightarrow> string option \<times> round_state" where
  "sync_session cb session_id s =
     (if session_id = [] then (None, s)
      else case cb_sync cb (xs_trace s) session_id of
             Some err \<Rightarrow> (Some err, s)
           | None \<Rightarrow> (None, act (Synced session_id) s))"

definition deliver :: "round_callbacks \<Rightarrow> string \<Rightarrow> event_map_result \<Rightarrow> round_state \<Rightarrow> string option \<times> round_state" where
  "deliver cb session_id r s =
     (case sync_session cb session_id s of
        (Some err, s) \<Rightarrow> (Some err, s)
      | (None, s) \<Rightarrow>
          (case persist_all cb (map (stamp_session session_id) (filter (\<lambda>m. m \<noteq> []) (mr_durable r))) s of
             (Some err, s) \<Rightarrow> (Some err, s)
           | (None, s) \<Rightarrow> emit_all cb (map (stamp_event session_id (mr_durable r)) (mr_events r)) s))"

definition on_incoming ::
  "round_callbacks \<Rightarrow> round_pick \<Rightarrow> sdk_message \<Rightarrow> round_state \<Rightarrow> (round_error + round_result) option \<times> round_state" where
  "on_incoming cb k m s =
     (let s = act (Observed m) (s\<lparr>xs_seen := Suc (xs_seen s), xs_last := Some m\<rparr>) in
      case map_message (pk_env k) [trim_space (pk_reason k)] m (xs_mapper s) of
        (MapRefused err, mapper) \<Rightarrow> (Some (Inl (RoundFailed err)), s\<lparr>xs_mapper := mapper\<rparr>)
      | (MapPanicked, mapper) \<Rightarrow> (Some (Inl RoundPanicked), s\<lparr>xs_mapper := mapper\<rparr>)
      | (Mapped r, mapper) \<Rightarrow>
          (let s = s\<lparr>xs_mapper := mapper\<rparr>;
               session_id = resolve_session_id [mapper_session_id mapper, sm_session m, pk_client_session k]
           in case deliver cb session_id r s of
                (Some err, s) \<Rightarrow> (Some (Inl (RoundFailed err)), s)
              | (None, s) \<Rightarrow>
                  if trim_space (mr_status r) \<noteq> [] then (Some (Inr (terminal_round_result r (xs_terminal s))), s)
                  else case terminal_assistant_result r of
                         Some t \<Rightarrow> (None, s\<lparr>xs_terminal := Some t\<rparr>)
                       | None \<Rightarrow> (None, s)))"

section \<open>The loop\<close>

text \<open>
  \<open>idle\<close> is the effective idle timeout: without one the idle timer never fires. The grace timer
  runs once a terminal assistant message has been seen.
\<close>

definition on_pick ::
  "round_callbacks \<Rightarrow> int \<Rightarrow> round_pick \<Rightarrow> round_state \<Rightarrow> (round_error + round_result) option \<times> round_state" where
  "on_pick cb idle k s =
     (case pk_event k of
        ContextDone \<Rightarrow> (Some (Inl RoundInterrupted), s)
      | GraceFired \<Rightarrow> (map_option Inr (xs_terminal s), s)
      | IdleFired \<Rightarrow>
          if idle \<le> 0 then (None, s)
          else if treat_as_interrupted k then (Some (Inl RoundInterrupted), s)
          else (Some (Inl (IdleTimedOut (build_stream_report cb False s))), act ClientAborted s)
      | StreamClosed \<Rightarrow>
          if treat_as_interrupted k then (Some (Inl RoundInterrupted), s)
          else (case xs_terminal s of
                  Some t \<Rightarrow> (Some (Inr t), s)
                | None \<Rightarrow> (Some (Inl (StreamClosedEarly (build_stream_report cb True s))), s))
      | Incoming m \<Rightarrow> on_incoming cb k m s)"

fun round_loop ::
  "round_callbacks \<Rightarrow> int \<Rightarrow> round_pick list \<Rightarrow> round_state \<Rightarrow> (round_error + round_result) option \<times> round_state" where
  "round_loop cb idle [] s = (None, s)"
| "round_loop cb idle (k # ks) s =
     (case on_pick cb idle k s of
        (Some r, s) \<Rightarrow> (Some r, s)
      | (None, s) \<Rightarrow> round_loop cb idle ks s)"

definition normalize_idle_timeout :: "int \<Rightarrow> int" where
  "normalize_idle_timeout t = (if t < 0 then 0 else if t = 0 then 300000000000 else t)"

definition normalize_assistant_grace :: "int \<Rightarrow> int" where
  "normalize_assistant_grace t = (if t > 0 then t else 1500000000)"

definition new_round_state :: "event_mapper \<Rightarrow> round_state" where
  "new_round_state mapper =
     \<lparr>xs_mapper = mapper, xs_seen = 0, xs_last = None, xs_terminal = None, xs_trace = []\<rparr>"

text \<open>
  \<open>query\<close> is the failure of the query, if any, and whether it is an abort; \<open>after\<close> that of
  the work behind it. Without a client or a mapper the round does not start.
\<close>

definition execute_round ::
  "bool \<Rightarrow> event_mapper option \<Rightarrow> (string \<times> bool) option \<Rightarrow> string option \<Rightarrow> round_callbacks \<Rightarrow> int \<Rightarrow>
   round_pick list \<Rightarrow> (round_error + round_result) option \<times> round_action list" where
  "execute_round has_client mapper query after cb idle ks =
     (if \<not> has_client then (Some (Inl ClientRequired), [])
      else case mapper of
        None \<Rightarrow> (Some (Inl MapperRequired), [])
      | Some mapper \<Rightarrow>
          (case query of
             Some (err, abort) \<Rightarrow> (Some (Inl (if abort then RoundInterrupted else RoundFailed err)), [])
           | None \<Rightarrow>
               (case after of
                  Some err \<Rightarrow> (Some (Inl (RoundFailed err)), [])
                | None \<Rightarrow>
                    (case round_loop cb (normalize_idle_timeout idle) ks (new_round_state mapper) of
                       (r, s) \<Rightarrow> (r, xs_trace s)))))"

section \<open>Stored before shown\<close>

text \<open>
  A durable event has a source among the messages persisted before it: its own data, or the result
  it projects.
\<close>

definition source_in :: "round_action list \<Rightarrow> event_message \<Rightarrow> bool" where
  "source_in t e \<longleftrightarrow> (\<exists>d. Persisted d \<in> set t \<and> (ev_data e = AMap d \<or> get_any d ''role'' = AStr ''result''))"

definition sourced :: "round_action list \<Rightarrow> bool" where
  "sourced t \<longleftrightarrow>
     (\<forall>i < length t. \<forall>e. t ! i = Emitted e \<longrightarrow> ev_delivery e = ''durable'' \<longrightarrow> source_in (take i t) e)"

lemma sourced_Nil [simp]: "sourced []"
  by (simp add: sourced_def)

lemma sourced_snoc:
  "sourced (t @ [a]) \<longleftrightarrow> sourced t \<and> (\<forall>e. a = Emitted e \<longrightarrow> ev_delivery e = ''durable'' \<longrightarrow> source_in t e)"
  by (auto simp: sourced_def nth_append less_Suc_eq)

lemma act_trace [simp]: "xs_trace (act a s) = xs_trace s @ [a]" "xs_mapper (act a s) = xs_mapper s"
  "xs_terminal (act a s) = xs_terminal s"
  by (simp_all add: act_def)

lemma persist_all_trace:
  "persist_all cb ms s = (r, s') \<Longrightarrow>
   xs_mapper s' = xs_mapper s \<and> xs_terminal s' = xs_terminal s \<and>
   (sourced (xs_trace s) \<longrightarrow> sourced (xs_trace s')) \<and> set (xs_trace s) \<subseteq> set (xs_trace s') \<and>
   set (xs_trace s') \<subseteq> set (xs_trace s) \<union> Persisted ` set ms \<and>
   (r = None \<longrightarrow> Persisted ` set ms \<subseteq> set (xs_trace s'))"
proof (induction cb ms s rule: persist_all.induct)
  case (2 cb m ms s)
  show ?case
  proof (cases "cb_persist cb (xs_trace s) m")
    case None
    then show ?thesis using 2 by (auto simp: sourced_snoc)
  qed (use 2(2) in auto)
qed simp

lemma source_mono: "source_in t e \<Longrightarrow> set t \<subseteq> set u \<Longrightarrow> source_in u e"
  by (auto simp: source_in_def)

lemma emit_all_trace:
  "emit_all cb es s = (r, s') \<Longrightarrow>
   \<forall>e \<in> set es. ev_delivery e = ''durable'' \<longrightarrow> source_in (xs_trace s) e \<Longrightarrow>
   xs_mapper s' = xs_mapper s \<and> xs_terminal s' = xs_terminal s \<and>
   (sourced (xs_trace s) \<longrightarrow> sourced (xs_trace s')) \<and>
   set (xs_trace s') \<subseteq> set (xs_trace s) \<union> Emitted ` set es"
proof (induction cb es s rule: emit_all.induct)
  case (2 cb e es s)
  show ?case
  proof (cases "cb_emit cb (xs_trace s) e")
    case None
    have "\<forall>x \<in> set es. ev_delivery x = ''durable'' \<longrightarrow> source_in (xs_trace (act (Emitted e) s)) x"
      using 2(3) source_mono[of "xs_trace s" _ "xs_trace s @ [Emitted e]"] by auto
    then show ?thesis using 2 None by (auto simp: sourced_snoc)
  qed (use 2(2) in auto)
qed simp

lemma sync_session_trace:
  "sync_session cb sid s = (r, s') \<Longrightarrow>
   xs_mapper s' = xs_mapper s \<and> xs_terminal s' = xs_terminal s \<and>
   (sourced (xs_trace s) \<longrightarrow> sourced (xs_trace s')) \<and> set (xs_trace s') \<subseteq> set (xs_trace s) \<union> {Synced sid}"
  by (auto simp: sync_session_def sourced_snoc split: if_splits option.splits)

lemma stamp_role: "get_any (stamp_session sid d) ''role'' = get_any d ''role''"
  by (simp add: stamp_session_def)

lemma stamp_scope [simp]: "in_scope ctx (stamp_session sid d) = in_scope ctx d"
  by (simp add: stamp_session_def)

lemma stamp_event_delivery [simp]: "ev_delivery (stamp_event sid ds e) = ev_delivery e"
  by (simp add: stamp_event_def split: any.split)

text \<open>One delivery: the events follow the messages they come from.\<close>

lemma deliver_trace:
  assumes run: "deliver cb sid r s = (x, s')"
    and durables: "\<forall>d \<in> set (mr_durable r). in_scope ctx d"
    and events: "\<And>e. e \<in> set (mr_events r) \<Longrightarrow> ev_delivery e = ''durable'' \<Longrightarrow>
      \<exists>d \<in> set (mr_durable r). ev_data e = AMap d \<or> get_any d ''role'' = AStr ''result''"
  shows "xs_mapper s' = xs_mapper s \<and> xs_terminal s' = xs_terminal s \<and>
     (sourced (xs_trace s) \<longrightarrow> sourced (xs_trace s')) \<and> (ClientAborted \<in> set (xs_trace s') \<longrightarrow> ClientAborted \<in> set (xs_trace s)) \<and>
     (\<forall>d. Persisted d \<in> set (xs_trace s') \<longrightarrow> Persisted d \<in> set (xs_trace s) \<or> in_scope ctx d)"
proof -
  have f: "filter (\<lambda>m. m \<noteq> []) (mr_durable r) = mr_durable r"
    using durables by (auto simp: filter_id_conv dest: in_scope_ne)
  obtain x1 s1 where sy: "sync_session cb sid s = (x1, s1)" by fastforce
  obtain x2 s2 where pe: "persist_all cb (map (stamp_session sid) (mr_durable r)) s1 = (x2, s2)" by fastforce
  obtain x3 s3 where em: "emit_all cb (map (stamp_event sid (mr_durable r)) (mr_events r)) s2 = (x3, s3)" by fastforce
  note SY = sync_session_trace[OF sy] and PE = persist_all_trace[OF pe]
  consider (one) "s' = s1" | (two) "s' = s2" | (three) "x1 = None" "x2 = None" "s' = s3"
    using run by (cases x1; cases x2) (auto simp: deliver_def sy f pe em)
  then show ?thesis
  proof cases
    case one
    then show ?thesis using SY by auto
  next
    case two
    then show ?thesis using SY PE durables by auto
  next
    case three
    have "source_in (xs_trace s2) e'"
      if h: "e' \<in> set (map (stamp_event sid (mr_durable r)) (mr_events r))" "ev_delivery e' = ''durable''" for e'
    proof -
      obtain e where e: "e \<in> set (mr_events r)" "e' = stamp_event sid (mr_durable r) e" using h(1) by auto
      obtain d where d: "d \<in> set (mr_durable r)" "ev_data e = AMap d \<or> get_any d ''role'' = AStr ''result''"
        using events[OF e(1)] h(2) e(2) by auto
      have "Persisted (stamp_session sid d) \<in> set (xs_trace s2)" using PE three(2) d(1) by auto
      moreover have "ev_data e' = AMap (stamp_session sid d) \<or> get_any (stamp_session sid d) ''role'' = AStr ''result''"
        using d e(2) by (auto simp: stamp_event_def stamp_role)
      ultimately show ?thesis unfolding source_in_def by blast
    qed
    then have EM: "xs_mapper s3 = xs_mapper s2 \<and> xs_terminal s3 = xs_terminal s2 \<and>
        (sourced (xs_trace s2) \<longrightarrow> sourced (xs_trace s3)) \<and>
        set (xs_trace s3) \<subseteq> set (xs_trace s2) \<union> Emitted ` set (map (stamp_event sid (mr_durable r)) (mr_events r))"
      using emit_all_trace[OF em] by blast
    then show ?thesis using SY PE durables three(3) by auto
  qed
qed
section \<open>The state of a round\<close>

lemma map_durables_processor: "em_processor (snd (map_durables now m ds)) = em_processor m"
  by (induction now m ds rule: map_durables.induct)
     (auto simp: durable_events_def project_durable_def Let_def split: prod.splits if_splits)

lemma map_message_ctx:
  assumes "map_message env reasons i m = (x, m')"
  shows "pr_ctx (em_processor m') = pr_ctx (em_processor m)"
proof -
  obtain o1 p where run: "process env i (em_processor m) = (o1, p)" by fastforce
  have "em_processor m' = p"
    using assms run map_durables_processor by (cases o1) (auto simp: map_message_def Let_def case_prod_beta)
  then show ?thesis using process_scope[OF run] by simp
qed

definition reported :: "round_result \<Rightarrow> bool" where
  "reported r \<longleftrightarrow> (rs_status r, rs_subtype r) \<in> {(''finished'', ''success''), (''interrupted'', ''interrupted'')}"

definition round_ok :: "message_context \<Rightarrow> round_state \<Rightarrow> bool" where
  "round_ok ctx s \<longleftrightarrow>
     pr_ctx (em_processor (xs_mapper s)) = ctx \<and> sourced (xs_trace s) \<and> ClientAborted \<notin> set (xs_trace s) \<and>
     (\<forall>d. Persisted d \<in> set (xs_trace s) \<longrightarrow> in_scope ctx d) \<and>
     (\<forall>t. xs_terminal s = Some t \<longrightarrow> reported t)"

lemma status_trimmed: "trim_space ''finished'' = ''finished''" "trim_space ''success'' = ''success''"
  "trim_space ''interrupted'' = ''interrupted''"
  by code_simp+

lemma terminal_reported:
  assumes "(mr_status r, mr_subtype r) \<in> {([], []), (''finished'', ''success''), (''interrupted'', ''interrupted'')}"
    and "trim_space (mr_status r) \<noteq> []"
  shows "reported (terminal_round_result r t)"
  using assms by (auto simp: terminal_round_result_def reported_def status_trimmed Let_def)

lemma on_incoming_ok:
  assumes ok: "round_ok ctx s" and run: "on_incoming cb k i s = (x, s')"
  shows "round_ok ctx s' \<and> (\<forall>r. x = Some (Inr r) \<longrightarrow> reported r) \<and> (\<forall>rp. x \<noteq> Some (Inl (IdleTimedOut rp)))"
proof -
  let ?s = "act (Observed i) (s\<lparr>xs_seen := Suc (xs_seen s), xs_last := Some i\<rparr>)"
  obtain y mapper where m: "map_message (pk_env k) [trim_space (pk_reason k)] i (xs_mapper s) = (y, mapper)" by fastforce
  have ctx: "pr_ctx (em_processor mapper) = ctx" using map_message_ctx[OF m] ok by (simp add: round_ok_def)
  have s: "round_ok ctx (?s\<lparr>xs_mapper := mapper\<rparr>)" using ok ctx by (auto simp: round_ok_def sourced_snoc)
  note run = run[unfolded on_incoming_def Let_def act_trace, simplified, unfolded m]
  show ?thesis
  proof (cases y)
    case (Mapped r)
    note m = m[unfolded Mapped]
    define sid where "sid = resolve_session_id [mapper_session_id mapper, sm_session i, pk_client_session k]"
    obtain d s2 where d: "deliver cb sid r (?s\<lparr>xs_mapper := mapper\<rparr>) = (d, s2)" by fastforce
    have durables: "\<forall>v \<in> set (mr_durable r). in_scope ctx v"
      using mapped_scope[OF m] ok by (simp add: round_ok_def)
    have s2: "round_ok ctx s2"
      using deliver_trace[OF d durables mapped_event_source[OF m]] s unfolding round_ok_def by auto
    note status = mapped_status[OF m]
    have t: "reported t" if "terminal_assistant_result r = Some t" for t
      using that by (auto simp: terminal_assistant_result_def reported_def split: if_splits)
    have "(x, s') = (case d of Some err \<Rightarrow> (Some (Inl (RoundFailed err)), s2)
        | None \<Rightarrow> if trim_space (mr_status r) \<noteq> [] then (Some (Inr (terminal_round_result r (xs_terminal s2))), s2)
                  else case terminal_assistant_result r of
                         Some t \<Rightarrow> (None, s2\<lparr>xs_terminal := Some t\<rparr>) | None \<Rightarrow> (None, s2))"
      using run Mapped d by (simp add: sid_def act_def)
    then show ?thesis
      using s2 t terminal_reported[OF status]
      by (auto simp: round_ok_def split: option.splits if_splits)
  next
    case (MapRefused err)
    then show ?thesis using run s by (auto simp: act_def)
  next
    case MapPanicked
    then show ?thesis using run s by (auto simp: act_def)
  qed
qed

lemma on_pick_ok:
  assumes ok: "round_ok ctx s" and run: "on_pick cb idle k s = (x, s')"
  shows "(round_ok ctx s' \<and> (\<forall>r. x = Some (Inr r) \<longrightarrow> reported r) \<and> (\<forall>rp. x \<noteq> Some (Inl (IdleTimedOut rp)))) \<or>
     ((\<exists>rp. x = Some (Inl (IdleTimedOut rp))) \<and> s' = act ClientAborted s)"
proof (cases "pk_event k")
  case (Incoming i)
  then show ?thesis using run on_incoming_ok[OF ok] by (simp add: on_pick_def)
qed (use ok run in \<open>auto simp: on_pick_def round_ok_def split: if_splits option.splits\<close>)

lemma round_loop_ok:
  "round_loop cb idle ks s = (x, s') \<Longrightarrow> round_ok ctx s \<Longrightarrow>
   sourced (xs_trace s') \<and> (\<forall>d. Persisted d \<in> set (xs_trace s') \<longrightarrow> in_scope ctx d) \<and>
   (\<forall>r. x = Some (Inr r) \<longrightarrow> reported r) \<and>
   (ClientAborted \<in> set (xs_trace s') \<longleftrightarrow> (\<exists>rp. x = Some (Inl (IdleTimedOut rp))))"
proof (induction cb idle ks s rule: round_loop.induct)
  case (1 cb idle s)
  then show ?case by (auto simp: round_ok_def)
next
  case (2 cb idle k ks s)
  obtain y s1 where p: "on_pick cb idle k s = (y, s1)" by fastforce
  consider (ok) "round_ok ctx s1" "\<forall>r. y = Some (Inr r) \<longrightarrow> reported r" "\<forall>rp. y \<noteq> Some (Inl (IdleTimedOut rp))"
    | (abort) rp where "y = Some (Inl (IdleTimedOut rp))" "s1 = act ClientAborted s"
    using on_pick_ok[OF "2.prems"(2) p] by blast
  then show ?case
  proof cases
    case ok
    show ?thesis
    proof (cases y)
      case None
      then show ?thesis using "2.IH"[OF p[symmetric] None _ ok(1)] "2.prems"(1) p by simp
    next
      case (Some r)
      then have "x = Some r" "s' = s1" using "2.prems"(1) p by auto
      then show ?thesis using ok Some by (auto simp: round_ok_def)
    qed
  next
    case abort
    then have "x = y" "s' = s1" using "2.prems"(1) p by auto
    then show ?thesis using abort "2.prems"(2) by (auto simp: round_ok_def sourced_snoc)
  qed
qed

lemma new_round_ok: "round_ok (pr_ctx (em_processor mapper)) (new_round_state mapper)"
  by (simp add: round_ok_def new_round_state_def)

lemma execute_round_cases:
  assumes "execute_round has_client mapper query after cb idle ks = (x, t)"
  obtains (early) err where "x = Some (Inl err)" "t = []" "\<forall>rp. err \<noteq> IdleTimedOut rp"
  | (run) m s where "mapper = Some m" "round_loop cb (normalize_idle_timeout idle) ks (new_round_state m) = (x, s)"
      "t = xs_trace s"
proof -
  have "(\<exists>err. x = Some (Inl err) \<and> t = [] \<and> (\<forall>rp. err \<noteq> IdleTimedOut rp)) \<or>
    (\<exists>m s. mapper = Some m \<and> round_loop cb (normalize_idle_timeout idle) ks (new_round_state m) = (x, s) \<and> t = xs_trace s)"
    using assms by (auto simp: execute_round_def split: if_splits option.splits prod.splits)
  then show thesis using early run by blast
qed

lemma closing_ends:
  "k \<in> set ks \<Longrightarrow> pk_event k \<in> {StreamClosed, ContextDone} \<Longrightarrow> \<exists>x s'. round_loop cb idle ks s = (Some x, s')"
proof (induction cb idle ks s rule: round_loop.induct)
  case (2 cb idle k' ks s)
  obtain y s1 where p: "on_pick cb idle k' s = (y, s1)" by fastforce
  show ?case
  proof (cases y)
    case None
    have "k \<noteq> k'"
    proof
      assume "k = k'"
      then show False using "2.prems"(2) p None by (auto simp: on_pick_def split: if_splits option.splits)
    qed
    then show ?thesis using "2.IH"[OF p[symmetric] None] "2.prems" p None by simp
  qed (use p in simp)
qed simp

section \<open>A round whose result is an error\<close>

text \<open>Concrete inputs: the SDK answers a query of a direct message with an error result.\<close>

definition sample_env :: process_env where
  "sample_env = \<lparr>pe_now = 7, pe_unmarshal = (\<lambda>_. None), pe_sprint = (\<lambda>_. [])\<rparr>"

definition sample_callbacks :: round_callbacks where
  "sample_callbacks = \<lparr>cb_sync = (\<lambda>_ _. None), cb_persist = (\<lambda>_ _. None), cb_emit = (\<lambda>_ _. None),
     cb_read_error = [], cb_wait_error = []\<rparr>"

definition sample_pick :: "round_event \<Rightarrow> round_pick" where
  "sample_pick e = \<lparr>pk_event = e, pk_reason = [], pk_cancelled = False, pk_client_session = [], pk_env = sample_env\<rparr>"

definition sample_error :: sdk_message where
  "sample_error =
     \<lparr>sm_type = ResultKind, sm_uuid = ''u'', sm_session = ''s'', sm_stream = None, sm_assistant = None, sm_user = None,
      sm_system = None,
      sm_result = Some \<lparr>sr_subtype = ''error'', sr_is_error = True, sr_duration = 0, sr_api = 0, sr_turns = 0, sr_cost = 0,
        sr_usage = [], sr_result = ''quota'', sr_terminal = [], sr_stop = ANil, sr_denials = [], sr_errors = []\<rparr>,
      sm_progress = None\<rparr>"

definition sample_round :: "(round_error + round_result) option \<times> round_action list" where
  "sample_round = execute_round True (Some (new_dm_mapper ''k'' ''a'' ''r'' [])) None None sample_callbacks 0
     [sample_pick (Incoming sample_error)]"

lemma sample_round_result:
  "fst sample_round = Some (Inr \<lparr>rs_status = ''interrupted'', rs_subtype = ''interrupted'', rs_by_assistant = False\<rparr>)"
  by code_simp

fun is_persisted :: "round_action \<Rightarrow> bool" where
  "is_persisted (Persisted d) = True"
| "is_persisted _ = False"

lemma is_persisted_iff: "is_persisted a \<longleftrightarrow> (\<exists>d. a = Persisted d)"
  by (cases a) auto

lemma sample_round_persists: "list_ex is_persisted (snd sample_round)"
  by code_simp

section \<open>Properties\<close>

text \<open>C3. Whatever the stream and wherever a callback fails, an event a round sends as durable has been stored
  before: among the messages persisted earlier is the one the event carries, or the result it
  projects; and every persisted message carries the round's session key, agent and round id.\<close>
theorem stored_before_shown:
  "sourced (snd (execute_round has_client (Some m) query after cb idle ks)) \<and>
   (\<forall>d. Persisted d \<in> set (snd (execute_round has_client (Some m) query after cb idle ks)) \<longrightarrow>
      in_scope (pr_ctx (em_processor m)) d)"
proof -
  obtain x t where e: "execute_round has_client (Some m) query after cb idle ks = (x, t)" by fastforce
  from e show ?thesis
  proof (cases rule: execute_round_cases)
    case (run m' s)
    then show ?thesis using round_loop_ok[OF run(2) new_round_ok] e by simp
  qed (use e in simp)
qed

theorem stored_before_shown_witness:
  "\<exists>d. Persisted d \<in> set (snd sample_round) \<and>
     in_scope (pr_ctx (em_processor (new_dm_mapper ''k'' ''a'' ''r'' []))) d"
proof -
  obtain d where "Persisted d \<in> set (snd sample_round)"
    using sample_round_persists by (auto simp: list_ex_iff is_persisted_iff)
  then show ?thesis
    using stored_before_shown[of True "new_dm_mapper ''k'' ''a'' ''r'' []" None None sample_callbacks 0
        "[sample_pick (Incoming sample_error)]"]
    unfolding sample_round_def by blast
qed

text \<open>C4. A round that ends without an error of its own ends as finished with success or as interrupted: no
  result of the SDK, not even one it reports as an error, ends a round in an error. The client is
  interrupted and disconnected exactly when the round ends by the idle timeout.\<close>
theorem round_never_reports_error:
  "(\<forall>r. fst (execute_round has_client mapper query after cb idle ks) = Some (Inr r) \<longrightarrow>
      (rs_status r, rs_subtype r) \<in> {(''finished'', ''success''), (''interrupted'', ''interrupted'')}) \<and>
   (ClientAborted \<in> set (snd (execute_round has_client mapper query after cb idle ks)) \<longleftrightarrow>
      (\<exists>rp. fst (execute_round has_client mapper query after cb idle ks) = Some (Inl (IdleTimedOut rp))))"
proof -
  obtain x t where e: "execute_round has_client mapper query after cb idle ks = (x, t)" by fastforce
  from e show ?thesis
  proof (cases rule: execute_round_cases)
    case (run m s)
    then show ?thesis using round_loop_ok[OF run(2) new_round_ok] e by (auto simp: reported_def)
  qed (use e in auto)
qed

theorem round_never_reports_error_witness:
  "\<exists>r. fst sample_round = Some (Inr r) \<and> (rs_status r, rs_subtype r) = (''interrupted'', ''interrupted'') \<and>
     ClientAborted \<notin> set (snd sample_round)"
  using sample_round_result
    round_never_reports_error[of True "Some (new_dm_mapper ''k'' ''a'' ''r'' [])" None None sample_callbacks 0
      "[sample_pick (Incoming sample_error)]"]
  by (simp add: sample_round_def)



end
