(* ===== verification/HistoryRows.thy ===== *)
theory HistoryRows
  imports MessageText "HOL-Library.Multiset"
begin

text \<open>
  Rows of a stored history, \<open>storage/workspace/store_session_file.go\<close> and the order of
  \<open>history_normalize.go\<close>: snapshots of one message are merged, and the rows are sorted by
  time. A row is a dictionary as the JSONL reader gives it, so a list of content blocks is an
  \<open>[]any\<close>.

  \<open>sort.SliceStable\<close> is insertion sort, as the library runs it on up to twenty rows; on
  more rows it merges sorted blocks, which gives the same list when the comparison is a weak
  order. The locale \<open>comparator\<close> holds what insertion needs of a comparison.
\<close>

section \<open>Insertion sort\<close>

text \<open>The sorted part is kept reversed, since an element moves to the left from its end.\<close>

fun sift :: "('a \<Rightarrow> 'a \<Rightarrow> bool) \<Rightarrow> 'a \<Rightarrow> 'a list \<Rightarrow> 'a list" where
  "sift before x [] = [x]"
| "sift before x (y # ys) = (if before x y then y # sift before x ys else x # y # ys)"

definition slice_stable :: "('a \<Rightarrow> 'a \<Rightarrow> bool) \<Rightarrow> 'a list \<Rightarrow> 'a list" where
  "slice_stable before xs = rev (foldl (\<lambda>ys x. sift before x ys) [] xs)"

lemma mset_sift [simp]: "mset (sift before x ys) = add_mset x (mset ys)"
  by (induction ys) auto

lemma mset_foldl_sift: "mset (foldl (\<lambda>ys x. sift before x ys) ys xs) = mset ys + mset xs"
  by (induction xs arbitrary: ys) auto

lemma mset_slice_stable [simp]: "mset (slice_stable before xs) = mset xs"
  by (simp add: slice_stable_def mset_foldl_sift)

lemma set_slice_stable [simp]: "set (slice_stable before xs) = set xs"
  by (metis mset_slice_stable set_mset_mset)

lemma slice_stable_Nil [simp]: "slice_stable before [] = []"
  by (simp add: slice_stable_def)

locale comparator =
  fixes before :: "'a \<Rightarrow> 'a \<Rightarrow> bool"
  assumes asym: "before x y \<Longrightarrow> \<not> before y x"
begin

definition ordered :: "'a list \<Rightarrow> bool" where
  "ordered xs \<longleftrightarrow> successively (\<lambda>x y. \<not> before y x) xs"

lemma sift_ordered:
  "successively (\<lambda>y x. \<not> before y x) ys \<Longrightarrow> successively (\<lambda>y x. \<not> before y x) (sift before x ys)"
proof (induction ys)
  case (Cons y ys)
  show ?case
  proof (cases "before x y")
    case True
    with Cons show ?thesis by (cases ys) (auto simp: asym)
  qed (use Cons.prems in simp)
qed simp

lemma foldl_sift_ordered:
  "successively (\<lambda>y x. \<not> before y x) ys \<Longrightarrow>
   successively (\<lambda>y x. \<not> before y x) (foldl (\<lambda>ys x. sift before x ys) ys xs)"
  by (induction xs arbitrary: ys) (auto simp: sift_ordered)

lemma slice_ordered: "ordered (slice_stable before xs)"
  using foldl_sift_ordered[of "[]" xs] by (simp add: ordered_def slice_stable_def)

lemma foldl_sift_id: "ordered (rev ys @ xs) \<Longrightarrow> foldl (\<lambda>ys x. sift before x ys) ys xs = rev xs @ ys"
proof (induction xs arbitrary: ys)
  case (Cons x xs)
  have "sift before x ys = x # ys"
    using Cons.prems by (cases ys) (auto simp: ordered_def successively_append_iff)
  with Cons show ?case by (simp add: ordered_def)
qed simp

lemma slice_fixed: "ordered xs \<Longrightarrow> slice_stable before xs = xs"
  using foldl_sift_id[of "[]" xs] by (simp add: slice_stable_def)

lemma slice_idem [simp]: "slice_stable before (slice_stable before xs) = slice_stable before xs"
  by (rule slice_fixed[OF slice_ordered])

end

section \<open>Time stamps\<close>

definition digit_value :: "char \<Rightarrow> int option" where
  "digit_value c = (if 48 \<le> (of_char c :: int) \<and> (of_char c :: int) \<le> 57 then Some (of_char c - 48) else None)"

fun read_digits :: "int \<Rightarrow> string \<Rightarrow> int option" where
  "read_digits n [] = Some n"
| "read_digits n (c # s) = (case digit_value c of None \<Rightarrow> None | Some d \<Rightarrow> read_digits (10 * n + d) s)"

text \<open>\<open>strconv.ParseInt(s, 10, 64)\<close> with its error dropped: 0 on a syntax error, the nearest bound
  on a number out of range.\<close>

definition parse_int64 :: "string \<Rightarrow> int" where
  "parse_int64 s =
     (let negative = (s \<noteq> [] \<and> hd s = CHR ''-'');
          digits = (if s \<noteq> [] \<and> hd s \<in> {CHR ''+'', CHR ''-''} then tl s else s)
      in if digits = [] then 0
         else case read_digits 0 digits of
           None \<Rightarrow> 0
         | Some n \<Rightarrow> if negative then max (- (2 ^ 63)) (- n) else min (2 ^ 63 - 1) n)"

fun timestamp_value :: "any \<Rightarrow> int" where
  "timestamp_value (AInt n) = n"
| "timestamp_value (AFloat r) = trunc_rat r"
| "timestamp_value (AStr s) = parse_int64 (trim_space s)"
| "timestamp_value _ = 0"

definition message_timestamp :: "dict_value \<Rightarrow> int" where
  "message_timestamp row = timestamp_value (get_any row ''timestamp'')"

section \<open>The order of rows\<close>

definition string_compare :: "string \<Rightarrow> string \<Rightarrow> int" where
  "string_compare a b = (if a = b then 0 else if a < b then -1 else 1)"

definition history_role_order :: "dict_value \<Rightarrow> int" where
  "history_role_order row =
     (let role = get_str row ''role'' in
      if role = ''user'' then 0
      else if role \<in> set [''assistant'', ''system'', ''task_progress''] then 1
      else if role = ''result'' then 2
      else 3)"

definition compare_rows :: "dict_value \<Rightarrow> dict_value \<Rightarrow> int" where
  "compare_rows left right =
     (if message_timestamp left \<noteq> message_timestamp right
      then (if message_timestamp left < message_timestamp right then -1 else 1)
      else if get_str left ''round_id'' \<noteq> [] \<and> get_str left ''round_id'' = get_str right ''round_id'' \<and>
              history_role_order left \<noteq> history_role_order right
      then (if history_role_order left < history_role_order right then -1 else 1)
      else string_compare (get_str left ''message_id'') (get_str right ''message_id''))"

definition row_before :: "dict_value \<Rightarrow> dict_value \<Rightarrow> bool" where
  "row_before left right \<longleftrightarrow> compare_rows left right < 0"

definition sort_history_rows :: "dict_value list \<Rightarrow> dict_value list" where
  "sort_history_rows rows = slice_stable row_before rows"

interpretation rows: comparator row_before
  by unfold_locales (auto simp: row_before_def compare_rows_def string_compare_def split: if_splits)

lemma mset_sort_rows [simp]: "mset (sort_history_rows rows) = mset rows"
  by (simp add: sort_history_rows_def)

lemma set_sort_rows [simp]: "set (sort_history_rows rows) = set rows"
  by (simp add: sort_history_rows_def)

lemma before_time: "\<not> row_before y x \<Longrightarrow> message_timestamp x \<le> message_timestamp y"
  by (auto simp: row_before_def compare_rows_def split: if_splits)

lemma ordered_times: "rows.ordered rows \<Longrightarrow> sorted (map message_timestamp rows)"
  unfolding rows.ordered_def sorted_map
  by (subst successively_conv_sorted_wrt[symmetric])
     (auto simp: transp_def intro: before_time elim: successively_mono)

lemma sorted_history_rows: "sorted (map message_timestamp (sort_history_rows rows))"
  unfolding sort_history_rows_def by (rule ordered_times[OF rows.slice_ordered])

lemma sort_rows_idem [simp]: "sort_history_rows (sort_history_rows rows) = sort_history_rows rows"
  by (simp add: sort_history_rows_def)


section \<open>Merging content blocks\<close>

text \<open>\<open>normalizeMessageContentBlocks\<close>: None is the nil slice. Entries that are no maps are dropped.\<close>

fun stored_blocks :: "any \<Rightarrow> dict_value list option" where
  "stored_blocks (AList xs) = Some (map map_value (filter is_map xs))"
| "stored_blocks _ = None"

definition same_stored_block :: "dict_value \<Rightarrow> dict_value \<Rightarrow> bool" where
  "same_stored_block current block \<longleftrightarrow>
     get_str current ''type'' = get_str block ''type'' \<and>
     (let t = get_str block ''type'' in
      if t = ''tool_use'' then get_str current ''id'' = get_str block ''id''
      else if t = ''tool_result'' then get_str current ''tool_use_id'' = get_str block ''tool_use_id''
      else if t = ''task_progress'' then get_str current ''task_id'' = get_str block ''task_id''
      else True)"

fun replace_block :: "dict_value list \<Rightarrow> dict_value \<Rightarrow> dict_value list" where
  "replace_block [] block = [block]"
| "replace_block (c # cs) block = (if same_stored_block c block then block # cs else c # replace_block cs block)"

definition upsert_content_block :: "dict_value list \<Rightarrow> dict_value \<Rightarrow> dict_value list" where
  "upsert_content_block blocks incoming = (if incoming = [] then blocks else replace_block blocks incoming)"

definition merge_content_blocks :: "any \<Rightarrow> any \<Rightarrow> dict_value list option" where
  "merge_content_blocks current next =
     (case (stored_blocks current, stored_blocks next) of
        (None, None) \<Rightarrow> None
      | (result, incoming) \<Rightarrow>
          (let result = (case result of None \<Rightarrow> [] | Some bs \<Rightarrow> bs);
               incoming = (case incoming of None \<Rightarrow> [] | Some bs \<Rightarrow> bs)
           in if result = [] then Some incoming
              else if incoming = [] then Some result
              else Some (foldl upsert_content_block result incoming)))"

section \<open>Merging snapshots of a message\<close>

definition identity_keys :: "string list" where
  "identity_keys =
     [''message_id'', ''session_key'', ''room_id'', ''conversation_id'', ''agent_id'', ''round_id'', ''parent_id'',
      ''session_id'', ''role'']"

definition merged_keys :: "string list" where
  "merged_keys =
     [''content''] @ identity_keys @ [''model'', ''stop_reason'', ''usage'', ''is_complete'', ''stream_status'', ''timestamp'']"

definition fill_identity :: "dict_value \<Rightarrow> dict_value \<Rightarrow> string \<Rightarrow> dict_value" where
  "fill_identity next merged k =
     (if get_str merged k = [] \<and> get_str next k \<noteq> [] then AList.update k (get_any next k) merged else merged)"

definition newer_text :: "dict_value \<Rightarrow> string \<Rightarrow> dict_value \<Rightarrow> dict_value" where
  "newer_text next k merged =
     (if get_str next k \<noteq> [] then AList.update k (AStr (get_str next k)) merged else merged)"

definition newer_field :: "string \<times> any \<Rightarrow> dict_value \<Rightarrow> dict_value" where
  "newer_field e merged = (if fst e \<in> set merged_keys then merged else AList.update (fst e) (snd e) merged)"

definition merge_assistant_snapshots :: "dict_value \<Rightarrow> dict_value \<Rightarrow> dict_value" where
  "merge_assistant_snapshots current next =
     (let merged = foldl (fill_identity next) current identity_keys;
          merged =
            (case merge_content_blocks (get_any merged ''content'') (get_any next ''content'') of
               Some bs \<Rightarrow> AList.update ''content'' (AList (map AMap bs)) merged
             | None \<Rightarrow> if get_any next ''content'' \<noteq> ANil
                       then AList.update ''content'' (get_any next ''content'') merged else merged);
          merged = newer_text next ''model'' merged;
          merged = newer_text next ''stop_reason'' merged;
          merged = (if map_value (get_any next ''usage'') \<noteq> []
                    then AList.update ''usage'' (AMap (map_value (get_any next ''usage''))) merged else merged);
          merged = (if bool_from_any (get_any current ''is_complete'') \<or> bool_from_any (get_any next ''is_complete'')
                    then AList.update ''is_complete'' (ABool True) merged else merged);
          merged = newer_text next ''stream_status'' merged;
          merged = (if message_timestamp current \<le> message_timestamp next
                    then AList.update ''timestamp'' (get_any next ''timestamp'') merged else merged)
      in foldr newer_field next merged)"

definition merge_compacted :: "dict_value \<Rightarrow> dict_value \<Rightarrow> dict_value" where
  "merge_compacted current next =
     (if get_str current ''role'' \<noteq> ''assistant'' \<or> get_str next ''role'' \<noteq> ''assistant'' then next
      else merge_assistant_snapshots current next)"

text \<open>\<open>latestByID\<close> and \<open>order\<close> are one association list, in the order of the first rows.\<close>

definition compact_row :: "(string \<times> dict_value) list \<Rightarrow> dict_value \<Rightarrow> (string \<times> dict_value) list" where
  "compact_row latest row =
     (let ident = get_str row ''message_id'' in
      if ident = [] then latest
      else case map_of latest ident of
        Some current \<Rightarrow> AList.update ident (merge_compacted current row) latest
      | None \<Rightarrow> AList.update ident row latest)"

definition compact_messages :: "dict_value list \<Rightarrow> dict_value list" where
  "compact_messages rows = sort_history_rows (map snd (foldl compact_row [] rows))"

subsection \<open>What a merge does to a field\<close>

lemma get_newer_text [simp]:
  "get_str (newer_text next k m) j = (if j = k \<and> get_str next k \<noteq> [] then get_str next k else get_str m j)"
  "get_any (newer_text next k m) j = (if j = k \<and> get_str next k \<noteq> [] then AStr (get_str next k) else get_any m j)"
  by (simp_all add: newer_text_def) (metis get_str_def trim_space_id trimmed_string_from_any)

lemma get_newer_fields [simp]:
  "j \<in> set merged_keys \<Longrightarrow> get_any (foldr newer_field es m) j = get_any m j"
  by (induction es) (auto simp: newer_field_def)

lemma get_str_newer_fields [simp]:
  "j \<in> set merged_keys \<Longrightarrow> get_str (foldr newer_field es m) j = get_str m j"
  by (simp add: get_str_def)

lemma fill_identity_other: "j \<notin> set ks \<Longrightarrow> get_any (foldl (fill_identity next) m ks) j = get_any m j"
  by (induction ks arbitrary: m) (auto simp: fill_identity_def)

lemma fill_identity_str:
  "get_str (foldl (fill_identity next) m ks) j =
     (if j \<in> set ks \<and> get_str m j = [] then get_str next j else get_str m j)"
proof (induction ks arbitrary: m)
  case (Cons k ks)
  then show ?case by (auto simp: fill_identity_def get_str_def)
qed simp

lemma merge_identity:
  assumes "k \<in> set identity_keys"
  shows "get_str (merge_assistant_snapshots current next) k =
         (if get_str current k = [] then get_str next k else get_str current k)"
proof -
  have "k \<in> set merged_keys" using assms by (simp add: merged_keys_def)
  moreover have "k \<notin> {''content'', ''model'', ''stop_reason'', ''usage'', ''is_complete'', ''stream_status'', ''timestamp''}"
    using assms by (auto simp: identity_keys_def)
  ultimately show ?thesis
    using assms by (simp add: merge_assistant_snapshots_def Let_def fill_identity_str split: option.split)
qed


lemma merge_stop_reason:
  "get_str (merge_assistant_snapshots current next) ''stop_reason'' =
     (if get_str next ''stop_reason'' \<noteq> [] then get_str next ''stop_reason'' else get_str current ''stop_reason'')"
proof -
  have "''stop_reason'' \<in> set merged_keys" "''stop_reason'' \<notin> set identity_keys"
    by (simp_all add: merged_keys_def identity_keys_def)
  then show ?thesis
    by (simp add: merge_assistant_snapshots_def Let_def fill_identity_str split: option.split)
qed

lemma merge_complete:
  "bool_from_any (get_any (merge_assistant_snapshots current next) ''is_complete'') \<longleftrightarrow>
     bool_from_any (get_any current ''is_complete'') \<or> bool_from_any (get_any next ''is_complete'')"
proof -
  have "''is_complete'' \<in> set merged_keys" "''is_complete'' \<notin> set identity_keys"
    by (simp_all add: merged_keys_def identity_keys_def)
  then show ?thesis
    by (simp add: merge_assistant_snapshots_def Let_def fill_identity_other split: option.split)
qed

lemma merge_ident:
  assumes "get_str current ''message_id'' = i" "get_str next ''message_id'' = i"
  shows "get_str (merge_compacted current next) ''message_id'' = i"
  using assms by (simp add: merge_compacted_def merge_identity identity_keys_def)

subsection \<open>Compaction\<close>

definition rows_of :: "string \<Rightarrow> dict_value list \<Rightarrow> dict_value list" where
  "rows_of i rows = filter (\<lambda>r. get_str r ''message_id'' = i) rows"

definition merge_rows :: "dict_value list \<Rightarrow> dict_value option" where
  "merge_rows rows = (case rows of [] \<Rightarrow> None | r # rs \<Rightarrow> Some (foldl merge_compacted r rs))"

lemma merge_rows_snoc:
  "merge_rows (rs @ [r]) = Some (case merge_rows rs of None \<Rightarrow> r | Some c \<Rightarrow> merge_compacted c r)"
  by (cases rs) (simp_all add: merge_rows_def)

definition latest_ok :: "(string \<times> dict_value) list \<Rightarrow> bool" where
  "latest_ok m \<longleftrightarrow> wf_dict m \<and> (\<forall>(i, row) \<in> set m. i \<noteq> [] \<and> get_str row ''message_id'' = i)"

lemma map_of_latest: "latest_ok m \<Longrightarrow> map_of m i = Some row \<Longrightarrow> i \<noteq> [] \<and> get_str row ''message_id'' = i"
  by (fastforce simp: latest_ok_def dest: map_of_SomeD)

lemma latest_update:
  "latest_ok m \<Longrightarrow> i \<noteq> [] \<Longrightarrow> get_str row ''message_id'' = i \<Longrightarrow> latest_ok (AList.update i row m)"
  unfolding latest_ok_def by (auto simp: go_map.wf_upd dest!: update_mem)

lemma compact_row_ok: "latest_ok m \<Longrightarrow> latest_ok (compact_row m row)"
  by (auto simp: compact_row_def Let_def intro!: latest_update merge_ident dest: map_of_latest split: option.split)

interpretation latest: machine compact_row latest_ok "[]"
  by unfold_locales (auto simp: compact_row_ok, simp add: latest_ok_def)

lemma latest_reachable: "latest_ok (foldl compact_row [] rows)"
  using latest.inv_reachable[of rows] by (simp only: run_foldl)

lemma compact_lookup:
  "i \<noteq> [] \<Longrightarrow> map_of (foldl compact_row [] rows) i = merge_rows (rows_of i rows)"
proof (induction rows rule: rev_induct)
  case Nil
  then show ?case by (simp add: rows_of_def merge_rows_def)
next
  case (snoc row rows)
  let ?j = "get_str row ''message_id''"
  show ?case
  proof (cases "?j = i")
    case True
    with snoc show ?thesis
      by (simp add: compact_row_def rows_of_def merge_rows_snoc split: option.split)
  next
    case False
    then have "rows_of i (rows @ [row]) = rows_of i rows" by (simp add: rows_of_def)
    with False snoc show ?thesis by (auto simp: compact_row_def Let_def split: option.split)
  qed
qed

lemma compact_mem:
  "row \<in> set (compact_messages rows) \<longleftrightarrow>
     get_str row ''message_id'' \<noteq> [] \<and> merge_rows (rows_of (get_str row ''message_id'') rows) = Some row"
proof -
  let ?m = "foldl compact_row [] rows" and ?i = "get_str row ''message_id''"
  have ok: "latest_ok ?m" by (rule latest_reachable)
  then have wf: "distinct (map fst ?m)" by (simp add: latest_ok_def wf_dict_def)
  have "row \<in> set (compact_messages rows) \<longleftrightarrow> (\<exists>i. (i, row) \<in> set ?m)"
    by (force simp: compact_messages_def)
  also have "\<dots> \<longleftrightarrow> (\<exists>i. map_of ?m i = Some row)" using wf by simp
  also have "\<dots> \<longleftrightarrow> ?i \<noteq> [] \<and> map_of ?m ?i = Some row"
    using map_of_latest[OF ok] by blast
  finally show ?thesis by (auto simp: compact_lookup)
qed

lemma compact_distinct: "distinct (map (\<lambda>r. get_str r ''message_id'') (compact_messages rows))"
proof -
  let ?m = "foldl compact_row [] rows"
  have "latest_ok ?m" by (rule latest_reachable)
  then have "map (\<lambda>r. get_str r ''message_id'') (map snd ?m) = map fst ?m" and "distinct (map fst ?m)"
    by (auto simp: latest_ok_def wf_dict_def)
  then have "distinct (map (\<lambda>r. get_str r ''message_id'') (map snd ?m))"
    by (simp only:)
  moreover have "mset (map (\<lambda>r. get_str r ''message_id'') (compact_messages rows)) =
                 mset (map (\<lambda>r. get_str r ''message_id'') (map snd ?m))"
    unfolding compact_messages_def by (simp only: mset_map mset_sort_rows)
  ultimately show ?thesis by (metis mset_eq_imp_distinct_iff)
qed

lemma compact_sorted: "sorted (map message_timestamp (compact_messages rows))"
  by (simp add: compact_messages_def sorted_history_rows)

lemma update_absent: "k \<notin> fst ` set m \<Longrightarrow> AList.update k v m = m @ [(k, v)]"
  by (induction m) auto

lemma compact_distinct_rows:
  assumes "distinct (map (\<lambda>r. get_str r ''message_id'') rows)" "\<forall>r \<in> set rows. get_str r ''message_id'' \<noteq> []"
  shows "map snd (foldl compact_row [] rows) = rows"
  using assms
proof (induction rows rule: rev_induct)
  case (snoc row rows)
  let ?m = "foldl compact_row [] rows"
  have fst_ids: "map fst ?m = map (\<lambda>r. get_str r ''message_id'') (map snd ?m)"
    using latest_reachable[of rows] by (auto simp: latest_ok_def)
  have ids: "map snd ?m = rows" using snoc by simp
  then have "get_str row ''message_id'' \<notin> set (map fst ?m)" using snoc.prems unfolding fst_ids ids by simp
  then have "map_of ?m (get_str row ''message_id'') = None" "AList.update (get_str row ''message_id'') row ?m = ?m @ [(get_str row ''message_id'', row)]"
    by (simp_all add: map_of_eq_None_iff update_absent)
  moreover have "get_str row ''message_id'' \<noteq> []" using snoc.prems by simp
  ultimately have "compact_row ?m row = ?m @ [(get_str row ''message_id'', row)]" by (simp add: compact_row_def)
  with ids show ?case by simp
qed simp

lemma compact_idem [simp]: "compact_messages (compact_messages rows) = compact_messages rows"
proof -
  have "map snd (foldl compact_row [] (compact_messages rows)) = compact_messages rows"
    by (rule compact_distinct_rows[OF compact_distinct]) (simp add: compact_mem)
  then show ?thesis by (simp add: compact_messages_def[of "compact_messages rows"]) (simp add: compact_messages_def)
qed

subsection \<open>Snapshots of one message\<close>

lemma first_non_empty_snoc:
  "trimmed v \<Longrightarrow> first_non_empty (vs @ [v]) = (if first_non_empty vs = [] then v else first_non_empty vs)"
  by (induction vs) auto

lemma merge_rows_assistants:
  assumes "merge_rows rs = Some row" "\<forall>r \<in> set rs. get_str r ''role'' = ''assistant''"
  shows "(\<forall>k \<in> set identity_keys. get_str row k = first_non_empty (map (\<lambda>r. get_str r k) rs)) \<and>
         get_str row ''stop_reason'' = first_non_empty (map (\<lambda>r. get_str r ''stop_reason'') (rev rs)) \<and>
         (bool_from_any (get_any row ''is_complete'') \<longleftrightarrow> (\<exists>r \<in> set rs. bool_from_any (get_any r ''is_complete'')))"
  using assms
proof (induction rs arbitrary: row rule: rev_induct)
  case Nil
  then show ?case by (simp add: merge_rows_def)
next
  case (snoc r rs)
  have tr: "trimmed (get_str x k)" for x k by (simp add: get_str_def)
  show ?case
  proof (cases "merge_rows rs")
    case None
    then have "rs = []" by (simp add: merge_rows_def split: list.splits)
    with snoc.prems show ?thesis by (simp add: merge_rows_def tr)
  next
    case (Some c)
    have ih: "\<forall>k \<in> set identity_keys. get_str c k = first_non_empty (map (\<lambda>r. get_str r k) rs)"
      and st: "get_str c ''stop_reason'' = first_non_empty (map (\<lambda>r. get_str r ''stop_reason'') (rev rs))"
      and co: "bool_from_any (get_any c ''is_complete'') \<longleftrightarrow> (\<exists>r \<in> set rs. bool_from_any (get_any r ''is_complete''))"
      using snoc.IH[OF Some] snoc.prems by auto
    obtain a as where rs: "rs = a # as" using Some by (cases rs) (auto simp: merge_rows_def)
    have "get_str c ''role'' = first_non_empty (map (\<lambda>r. get_str r ''role'') rs)"
      using ih by (simp add: identity_keys_def)
    also have "\<dots> = get_str a ''role''"
      using snoc.prems(2) tr[of a "''role''"] unfolding rs by simp
    finally have "get_str c ''role'' = ''assistant''" using snoc.prems(2) rs by simp
    then have row: "row = merge_assistant_snapshots c r"
      using snoc.prems Some by (simp add: merge_rows_snoc merge_compacted_def)
    show ?thesis
      using ih st co unfolding row
      by (simp add: merge_identity merge_stop_reason merge_complete first_non_empty_snoc[OF tr]
            trimmed_iff[THEN iffD1, OF tr]) auto
  qed
qed


definition sample_snapshot :: "string \<Rightarrow> string \<Rightarrow> int \<Rightarrow> bool \<Rightarrow> dict_value" where
  "sample_snapshot ident stop ts fin =
     [(''message_id'', AStr ident), (''role'', AStr ''assistant''), (''round_id'', AStr ''r''),
      (''stop_reason'', AStr stop), (''timestamp'', AInt ts), (''is_complete'', ABool fin)]"

lemma sample_snapshot_get [simp]:
  "get_str (sample_snapshot ident stop ts fin) ''message_id'' = trim_space ident"
  "get_str (sample_snapshot ident stop ts fin) ''role'' = trim_space ''assistant''"
  by (simp_all add: sample_snapshot_def)


section \<open>Where the code loses content\<close>

text \<open>
  A text block replaces the first text block there is, so that of two text blocks in a snapshot
  only the second is left, at the place of the first.
\<close>

lemma second_text_lost:
  assumes "get_str a ''type'' = ''text''" "get_str b ''type'' = ''text''" "get_str tool ''type'' = ''tool_use''"
  shows "merge_content_blocks (AList [AMap a, AMap tool]) (AList [AMap a, AMap tool, AMap b]) = Some [b, tool]"
proof -
  have "a \<noteq> []" "b \<noteq> []" "tool \<noteq> []" using assms by auto
  with assms show ?thesis by (simp add: merge_content_blocks_def upsert_content_block_def same_stored_block_def)
qed

text \<open>Rows of the same time are not in a weak order: three rows can each come before the next.\<close>

definition sample_row :: "string \<Rightarrow> string \<Rightarrow> string \<Rightarrow> int \<Rightarrow> dict_value" where
  "sample_row ident round_id role ts =
     [(''message_id'', AStr ident), (''round_id'', AStr round_id), (''role'', AStr role), (''timestamp'', AInt ts)]"

lemma row_order_cycle:
  "let user = sample_row ''z'' ''r'' ''user'' 5; answer = sample_row ''a'' ''r'' ''assistant'' 5; other = sample_row ''m'' ''s'' ''user'' 5
   in row_before user answer \<and> row_before answer other \<and> row_before other user"
proof -
  have t: "trim_space ''z'' = ''z''" "trim_space ''a'' = ''a''" "trim_space ''m'' = ''m''"
    "trim_space ''r'' = ''r''" "trim_space ''s'' = ''s''" "trim_space ''user'' = ''user''"
    "trim_space ''assistant'' = ''assistant''"
    by (simp_all add: plain_word_trim plain_simps)
  have o: "''a'' < ''m''" "''m'' < ''z''" by (simp_all add: less_list_code less_char_def)
  then have "\<not> ''m'' < ''a''" "\<not> ''z'' < ''m''" by auto
  with o show ?thesis
    by (simp add: Let_def sample_row_def row_before_def compare_rows_def message_timestamp_def history_role_order_def
          string_compare_def t)
qed

end
