(* ===== verification/HistoryRepair.thy ===== *)
theory HistoryRepair
  imports HistoryRows
begin

text \<open>
  What a reader of a history sees, \<open>storage/workspace/history_normalize.go\<close>: internal rows are
  dropped, a round that has neither a result nor an end and is not active gets an assistant row
  that says it was interrupted, and the result of a round is attached to the last assistant row of
  the round. The rounds are visited in the order of their first rows; the code leaves that order to
  the map and sorts the rows afterwards.
\<close>

section \<open>Internal rows\<close>

definition skip_internal_row :: "dict_value \<Rightarrow> bool" where
  "skip_internal_row row =
     (let role = get_str row ''role'' in
      if role = ''system'' then get_str (map_value (get_any row ''metadata'')) ''subtype'' = ''api_retry''
      else if role = ''user'' then is_interrupt_prompt (get_str row ''content'')
      else False)"

definition filter_internal_rows :: "dict_value list \<Rightarrow> dict_value list" where
  "filter_internal_rows rows = filter (\<lambda>r. \<not> skip_internal_row r) rows"

section \<open>Rounds without an end\<close>

datatype round_end_status = StatusRunning | StatusSuccess | StatusInterrupted | StatusError

record history_round =
  rs_session_key :: string
  rs_room :: string
  rs_conversation :: string
  rs_agent :: string
  rs_session :: string
  rs_parent :: string
  rs_last :: int
  rs_has_result :: bool
  rs_status :: round_end_status

definition empty_snapshot :: history_round where
  "empty_snapshot =
     \<lparr>rs_session_key = [], rs_room = [], rs_conversation = [], rs_agent = [], rs_session = [], rs_parent = [],
      rs_last = 0, rs_has_result = False, rs_status = StatusRunning\<rparr>"

definition normalize_round_status :: "any \<Rightarrow> round_end_status" where
  "normalize_round_status value =
     (let s = to_lower (string_from_any value) in
      if s = [] \<or> s = ''running'' then StatusRunning
      else if s = ''interrupted'' \<or> s = ''cancelled'' then StatusInterrupted
      else if s = ''error'' then StatusError
      else StatusSuccess)"

definition assistant_terminal_status :: "dict_value \<Rightarrow> round_end_status" where
  "assistant_terminal_status row =
     (if get_str row ''role'' \<noteq> ''assistant'' then StatusRunning
      else (let reason = to_lower (get_str row ''stop_reason'') in
            if reason = [] then StatusRunning
            else if reason = ''cancelled'' \<or> reason = ''interrupted'' then StatusInterrupted
            else if reason = ''error'' then StatusError
            else StatusSuccess))"

definition observe_row :: "dict_value \<Rightarrow> history_round \<Rightarrow> history_round" where
  "observe_row row s =
     (let s = s\<lparr>rs_session_key := first_non_empty [rs_session_key s, get_str row ''session_key''],
               rs_room := first_non_empty [rs_room s, get_str row ''room_id''],
               rs_conversation := first_non_empty [rs_conversation s, get_str row ''conversation_id''],
               rs_agent := first_non_empty [rs_agent s, get_str row ''agent_id''],
               rs_session := first_non_empty [rs_session s, get_str row ''session_id''],
               rs_parent := first_non_empty [rs_parent s, get_str row ''parent_id'']\<rparr>;
          s = (if rs_last s < message_timestamp row then s\<lparr>rs_last := message_timestamp row\<rparr> else s)
      in if get_str row ''role'' = ''result''
         then s\<lparr>rs_has_result := True, rs_status := normalize_round_status (get_any row ''subtype'')\<rparr>
         else if assistant_terminal_status row \<noteq> StatusRunning
         then s\<lparr>rs_status := assistant_terminal_status row\<rparr>
         else s)"

definition observe_round :: "(string \<times> history_round) list \<Rightarrow> dict_value \<Rightarrow> (string \<times> history_round) list" where
  "observe_round rounds row =
     (let round_id = get_str row ''round_id'' in
      if round_id = [] then rounds
      else AList.update round_id (observe_row row (get_or empty_snapshot rounds round_id)) rounds)"

definition round_pending :: "string list \<Rightarrow> string \<times> history_round \<Rightarrow> bool" where
  "round_pending active e \<longleftrightarrow>
     \<not> rs_has_result (snd e) \<and> fst e \<notin> set active \<and> rs_status (snd e) = StatusRunning"

text \<open>The time after the last row of the round, in the 64 bits of the code.\<close>

definition interrupted_at :: "int \<Rightarrow> history_round \<Rightarrow> int" where
  "interrupted_at now s =
     (let ts = signed_take_bit 63 (rs_last s + 1) in if ts \<le> 0 then now else ts)"

definition interrupted_row :: "int \<Rightarrow> string \<times> history_round \<Rightarrow> dict_value" where
  "interrupted_row now e =
     (let round_id = fst e; s = snd e; ts = interrupted_at now s;
          row = [(''message_id'', AStr (''assistant_interrupt_'' @ round_id)),
                 (''session_key'', AStr (rs_session_key s)), (''room_id'', empty_to_nil (rs_room s)),
                 (''conversation_id'', empty_to_nil (rs_conversation s)), (''agent_id'', AStr (rs_agent s)),
                 (''round_id'', AStr round_id), (''session_id'', empty_to_nil (rs_session s)),
                 (''role'', AStr ''assistant''), (''timestamp'', AInt ts), (''stop_reason'', AStr ''cancelled''),
                 (''is_complete'', ABool True), (''content'', AList []),
                 (''result_summary'',
                   AMap [(''message_id'', AStr (''result_'' @ round_id)), (''timestamp'', AInt ts),
                         (''subtype'', AStr ''interrupted''), (''duration_ms'', AInt 0), (''duration_api_ms'', AInt 0),
                         (''num_turns'', AInt 0), (''is_error'', ABool False)])]
      in if trim_space (rs_parent s) \<noteq> [] then AList.update ''parent_id'' (AStr (rs_parent s)) row else row)"

definition materialize_unfinished :: "int \<Rightarrow> dict_value list \<Rightarrow> string list \<Rightarrow> dict_value list" where
  "materialize_unfinished now rows active =
     (if rows = [] then rows
      else sort_history_rows
             (rows @ map (interrupted_row now) (filter (round_pending active) (foldl observe_round [] rows))))"

section \<open>Results of rounds\<close>

record summary_merger =
  mg_rows :: "dict_value list"
  mg_last_assistant :: "(string \<times> nat) list"
  mg_text :: "(string \<times> string) list"
  mg_merged :: "string list"

definition index_assistant :: "summary_merger \<Rightarrow> nat \<times> dict_value \<Rightarrow> summary_merger" where
  "index_assistant m e =
     (let row = snd e; round_id = get_str row ''round_id''; text = extract_display_text row in
      if message_role row \<noteq> ''assistant'' \<or> round_id = [] then m
      else m\<lparr>mg_last_assistant := AList.update round_id (fst e) (mg_last_assistant m),
            mg_text := (if text = [] then mg_text m else AList.update round_id text (mg_text m))\<rparr>)"

definition new_merger :: "dict_value list \<Rightarrow> summary_merger" where
  "new_merger rows =
     foldl index_assistant \<lparr>mg_rows = rows, mg_last_assistant = [], mg_text = [], mg_merged = []\<rparr>
       (enumerate 0 rows)"

definition attach_result :: "summary_merger \<Rightarrow> nat \<Rightarrow> summary_merger" where
  "attach_result m i =
     (let row = mg_rows m ! i; round_id = get_str row ''round_id'' in
      if message_role row \<noteq> ''result'' then m
      else case map_of (mg_last_assistant m) round_id of
        None \<Rightarrow> m
      | Some a \<Rightarrow>
          (let summary = build_result_summary row (get_or [] (mg_text m) round_id) in
           if summary = [] then m
           else m\<lparr>mg_rows := (mg_rows m)[a := AList.update ''result_summary'' (AMap summary) (mg_rows m ! a)],
                 mg_merged := (if get_str row ''message_id'' \<noteq> []
                               then List.insert (get_str row ''message_id'') (mg_merged m) else mg_merged m)\<rparr>))"

definition attach_results :: "summary_merger \<Rightarrow> summary_merger" where
  "attach_results m = foldl attach_result m [0..<length (mg_rows m)]"

fun build_result_rows :: "string list \<Rightarrow> dict_value list \<Rightarrow> dict_value list" where
  "build_result_rows merged [] = []"
| "build_result_rows merged (row # rows) =
     (if message_role row = ''result'' then
        (if get_str row ''message_id'' \<in> set merged then build_result_rows merged rows
         else build_synthetic_assistant row # build_result_rows merged rows)
      else row # build_result_rows merged rows)"

definition merge_round_results :: "dict_value list \<Rightarrow> dict_value list" where
  "merge_round_results rows =
     (let m = attach_results (new_merger rows) in build_result_rows (mg_merged m) (mg_rows m))"

definition normalize_active_rounds :: "string list \<Rightarrow> string list" where
  "normalize_active_rounds values = trim_unique values"

definition normalize_compacted_rows :: "int \<Rightarrow> dict_value list \<Rightarrow> string list \<Rightarrow> dict_value list" where
  "normalize_compacted_rows now rows active = merge_round_results (materialize_unfinished now rows active)"

definition normalize_history_rows :: "int \<Rightarrow> dict_value list \<Rightarrow> string list \<Rightarrow> dict_value list" where
  "normalize_history_rows now rows active =
     normalize_compacted_rows now (compact_messages (filter_internal_rows rows)) active"


section \<open>What the rounds say\<close>

definition round_rows :: "string \<Rightarrow> dict_value list \<Rightarrow> dict_value list" where
  "round_rows rid rows = filter (\<lambda>r. get_str r ''round_id'' = rid) rows"

definition round_snapshot_of :: "string \<Rightarrow> dict_value list \<Rightarrow> history_round" where
  "round_snapshot_of rid rows = foldl (\<lambda>s r. observe_row r s) empty_snapshot (round_rows rid rows)"

lemma round_rows_snoc:
  "round_rows rid (rows @ [r]) = (if get_str r ''round_id'' = rid then round_rows rid rows @ [r] else round_rows rid rows)"
  by (simp add: round_rows_def)

lemma observed_round:
  "rid \<noteq> [] \<Longrightarrow> map_of (foldl observe_round [] rows) rid =
     (if round_rows rid rows = [] then None else Some (round_snapshot_of rid rows))"
proof (induction rows rule: rev_induct)
  case Nil
  then show ?case by (simp add: round_rows_def)
next
  case (snoc r rows)
  have empty: "round_rows rid rows = [] \<Longrightarrow> round_snapshot_of rid rows = empty_snapshot"
    by (simp add: round_snapshot_of_def)
  show ?case
    using snoc empty
    by (auto simp: observe_round_def Let_def round_rows_snoc get_or_def round_snapshot_of_def)
qed

definition rounds_ok :: "(string \<times> history_round) list \<Rightarrow> bool" where
  "rounds_ok m \<longleftrightarrow> wf_dict m \<and> (\<forall>e \<in> set m. fst e \<noteq> [] \<and> trimmed (fst e))"

interpretation rounds: machine observe_round rounds_ok "[]"
  by unfold_locales
    (auto simp: rounds_ok_def observe_round_def Let_def go_map.wf_upd get_str_def dest!: update_mem)

lemma observed_rounds_ok: "rounds_ok (foldl observe_round [] rows)"
  using rounds.inv_reachable[of rows] by (simp only: run_foldl)

lemma observed_mem:
  "(rid, s) \<in> set (foldl observe_round [] rows) \<longleftrightarrow>
     rid \<noteq> [] \<and> round_rows rid rows \<noteq> [] \<and> s = round_snapshot_of rid rows"
proof -
  let ?m = "foldl observe_round [] rows"
  have ok: "wf_dict ?m" "\<forall>e \<in> set ?m. fst e \<noteq> []" using observed_rounds_ok[of rows] by (auto simp: rounds_ok_def)
  then have "(rid, s) \<in> set ?m \<longleftrightarrow> map_of ?m rid = Some s" by (simp add: wf_dict_def)
  also have "\<dots> \<longleftrightarrow> rid \<noteq> [] \<and> map_of ?m rid = Some s" using ok(2) by (force dest: map_of_SomeD)
  finally show ?thesis by (auto simp: observed_round split: if_splits)
qed

lemma observe_flags:
  "rs_has_result (observe_row r s) \<longleftrightarrow> get_str r ''role'' = ''result'' \<or> rs_has_result s"
  "rs_last (observe_row r s) = max (rs_last s) (message_timestamp r)"
  by (auto simp: observe_row_def Let_def)

lemma snapshot_result:
  "rs_has_result (foldl (\<lambda>s r. observe_row r s) s rs) \<longleftrightarrow> rs_has_result s \<or> (\<exists>r \<in> set rs. get_str r ''role'' = ''result'')"
  by (induction rs arbitrary: s) (auto simp: observe_flags)

lemma snapshot_last:
  "rs_last (foldl (\<lambda>s r. observe_row r s) s rs) = foldl (\<lambda>t r. max t (message_timestamp r)) (rs_last s) rs"
  by (induction rs arbitrary: s) (auto simp: observe_flags)

definition ends_round :: "dict_value \<Rightarrow> bool" where
  "ends_round r \<longleftrightarrow> get_str r ''role'' = ''result'' \<or> get_str r ''role'' = ''assistant'' \<and> get_str r ''stop_reason'' \<noteq> []"

lemma to_lower_Nil_iff [simp]: "to_lower s = [] \<longleftrightarrow> s = []"
  by (subst to_lower.simps) (auto simp: Let_def split: list.split option.split)

lemma terminal_status_iff:
  "assistant_terminal_status r \<noteq> StatusRunning \<longleftrightarrow> get_str r ''role'' = ''assistant'' \<and> get_str r ''stop_reason'' \<noteq> []"
  by (auto simp: assistant_terminal_status_def Let_def)

lemma snapshot_open:
  "\<not> rs_has_result (foldl (\<lambda>s r. observe_row r s) s rs) \<and> rs_status (foldl (\<lambda>s r. observe_row r s) s rs) = StatusRunning \<longleftrightarrow>
   \<not> rs_has_result s \<and> rs_status s = StatusRunning \<and> (\<forall>r \<in> set rs. \<not> ends_round r)"
proof (induction rs arbitrary: s)
  case (Cons r rs)
  have "\<not> rs_has_result (observe_row r s) \<and> rs_status (observe_row r s) = StatusRunning \<longleftrightarrow>
        \<not> rs_has_result s \<and> rs_status s = StatusRunning \<and> \<not> ends_round r"
    using terminal_status_iff[of r] by (auto simp: observe_row_def Let_def ends_round_def)
  with Cons.IH[of "observe_row r s"] show ?case by auto
qed simp

lemma pending_iff:
  "round_pending active (rid, round_snapshot_of rid rows) \<longleftrightarrow>
     rid \<notin> set active \<and> (\<forall>r \<in> set (round_rows rid rows). \<not> ends_round r)"
  using snapshot_open[of empty_snapshot "round_rows rid rows"]
  by (auto simp: round_pending_def round_snapshot_of_def empty_snapshot_def)

section \<open>What becomes of the rows\<close>

definition same_row :: "dict_value \<Rightarrow> dict_value \<Rightarrow> bool" where
  "same_row r r' \<longleftrightarrow> (\<forall>k. k \<noteq> ''result_summary'' \<longrightarrow> get_any r' k = get_any r k)"

definition has_summary :: "dict_value \<Rightarrow> bool" where
  "has_summary r \<longleftrightarrow> map_value (get_any r ''result_summary'') \<noteq> []"

lemma same_row_refl [simp]: "same_row r r"
  by (simp add: same_row_def)

lemma same_row_str: "same_row r r' \<Longrightarrow> k \<noteq> ''result_summary'' \<Longrightarrow> get_str r' k = get_str r k"
  by (simp add: same_row_def get_str_def)

lemma same_row_update [simp]: "same_row r (AList.update ''result_summary'' v r') \<longleftrightarrow> same_row r r'"
  by (auto simp: same_row_def)

lemma Let_dict_ne:
  fixes e :: dict_value and f :: "dict_value \<Rightarrow> dict_value"
  shows "e \<noteq> [] \<Longrightarrow> (\<And>m. m \<noteq> [] \<Longrightarrow> f m \<noteq> []) \<Longrightarrow> Let e f \<noteq> []"
  by (simp add: Let_def)

lemma Let_text_ne:
  fixes e :: string and f :: "string \<Rightarrow> dict_value"
  shows "(\<And>t. f t \<noteq> []) \<Longrightarrow> Let e f \<noteq> []"
  by (simp add: Let_def)

lemma update_ne [simp]: "AList.update k v m \<noteq> []"
  by (cases m) auto

lemma copy_field_ne: "m \<noteq> [] \<Longrightarrow> copy_result_field r k m \<noteq> []"
  by (simp add: copy_result_field_def)

lemma summary_not_empty [simp]: "build_result_summary r t \<noteq> []"
  unfolding build_result_summary_def
  by (intro Let_text_ne Let_dict_ne copy_field_ne) (auto split: option.split)

definition last_assistants :: "dict_value list \<Rightarrow> (string \<times> nat) list \<Rightarrow> bool" where
  "last_assistants rows m \<longleftrightarrow>
     (\<forall>rid a. map_of m rid = Some a \<longrightarrow>
        a < length rows \<and> message_role (rows ! a) = ''assistant'' \<and> get_str (rows ! a) ''round_id'' = rid)"

lemma index_assistant_rows: "mg_rows (index_assistant m e) = mg_rows m" "mg_merged (index_assistant m e) = mg_merged m"
  by (simp_all add: index_assistant_def Let_def)

lemma new_merger_simps:
  "mg_rows (new_merger rows) = rows" "mg_merged (new_merger rows) = []"
  "last_assistants rows (mg_last_assistant (new_merger rows))"
proof -
  have "mg_rows (foldl index_assistant m es) = mg_rows m \<and> mg_merged (foldl index_assistant m es) = mg_merged m"
    for m es by (induction es arbitrary: m) (simp_all add: index_assistant_rows)
  then show "mg_rows (new_merger rows) = rows" "mg_merged (new_merger rows) = []" by (simp_all add: new_merger_def)
  have step: "last_assistants rows (mg_last_assistant (foldl index_assistant m es))"
    if "last_assistants rows (mg_last_assistant m)" "\<forall>e \<in> set es. fst e < length rows \<and> snd e = rows ! fst e" for m es
    using that
  proof (induction es arbitrary: m)
    case (Cons e es)
    obtain i where e: "e = (i, rows ! i)" "i < length rows" using Cons.prems(2) by (cases e) auto
    have "last_assistants rows (mg_last_assistant (index_assistant m e))"
      using Cons.prems(1) e(2) unfolding e(1) by (simp add: index_assistant_def Let_def last_assistants_def)
    with Cons show ?case by simp
  qed simp
  have "\<forall>e \<in> set (enumerate 0 rows). fst e < length rows \<and> snd e = rows ! fst e"
    by (simp add: in_set_enumerate_eq)
  then show "last_assistants rows (mg_last_assistant (new_merger rows))"
    unfolding new_merger_def by (intro step) (simp_all add: last_assistants_def)
qed

definition merge_inv :: "dict_value list \<Rightarrow> (string \<times> nat) list \<Rightarrow> summary_merger \<Rightarrow> bool" where
  "merge_inv rows lasts m \<longleftrightarrow>
     length (mg_rows m) = length rows \<and> mg_last_assistant m = lasts \<and>
     (\<forall>j < length rows. same_row (rows ! j) (mg_rows m ! j)) \<and>
     (\<forall>i \<in> set (mg_merged m). \<exists>j < length rows. \<exists>a < length rows.
        message_role (rows ! j) = ''result'' \<and> get_str (rows ! j) ''message_id'' = i \<and>
        message_role (rows ! a) = ''assistant'' \<and> get_str (rows ! a) ''round_id'' = get_str (rows ! j) ''round_id'' \<and>
        has_summary (mg_rows m ! a))"

lemma attach_result_inv:
  assumes inv: "merge_inv rows lasts m" and lasts: "last_assistants rows lasts" and i: "i < length rows"
  shows "merge_inv rows lasts (attach_result m i)"
proof (cases "message_role (mg_rows m ! i) = ''result'' \<and> map_of lasts (get_str (mg_rows m ! i) ''round_id'') \<noteq> None")
  case False
  then have "attach_result m i = m"
    using inv by (auto simp: attach_result_def Let_def merge_inv_def)
  with inv show ?thesis by simp
next
  case True
  let ?row = "mg_rows m ! i" and ?rid = "get_str (mg_rows m ! i) ''round_id''"
  obtain a where a: "map_of lasts ?rid = Some a" using True by auto
  have len: "length (mg_rows m) = length rows" and eq: "mg_last_assistant m = lasts"
    and same: "\<And>j. j < length rows \<Longrightarrow> same_row (rows ! j) (mg_rows m ! j)"
    using inv by (auto simp: merge_inv_def)
  have row: "get_str (rows ! i) k = get_str ?row k" if "k \<noteq> ''result_summary''" for k
    using same_row_str[OF same[OF i] that] by simp
  have at: "a < length rows" "message_role (rows ! a) = ''assistant''" "get_str (rows ! a) ''round_id'' = ?rid"
    using lasts a by (auto simp: last_assistants_def)
  let ?s = "AMap (build_result_summary ?row (get_or [] (mg_text m) ?rid))"
  let ?rows = "(mg_rows m)[a := AList.update ''result_summary'' ?s (mg_rows m ! a)]"
  have m': "mg_rows (attach_result m i) = ?rows" "mg_last_assistant (attach_result m i) = lasts"
    "set (mg_merged (attach_result m i)) \<subseteq> insert (get_str ?row ''message_id'') (set (mg_merged m))"
    using True a eq by (auto simp: attach_result_def Let_def)
  have keep: "has_summary (mg_rows m ! b) \<Longrightarrow> has_summary (?rows ! b)" if "b < length rows" for b
    using that len by (cases "b = a") (auto simp: has_summary_def)
  have new: "has_summary (?rows ! a)" using at len by (simp add: has_summary_def)
  show ?thesis
    unfolding merge_inv_def m'
  proof (intro conjI ballI allI impI)
    fix j assume "j < length rows"
    then show "same_row (rows ! j) (?rows ! j)" using same len by (cases "j = a") auto
  next
    fix x assume "x \<in> set (mg_merged (attach_result m i))"
    then consider "x = get_str ?row ''message_id''" | "x \<in> set (mg_merged m)" using m'(3) by blast
    then show "\<exists>j < length rows. \<exists>a < length rows.
        message_role (rows ! j) = ''result'' \<and> get_str (rows ! j) ''message_id'' = x \<and>
        message_role (rows ! a) = ''assistant'' \<and> get_str (rows ! a) ''round_id'' = get_str (rows ! j) ''round_id'' \<and>
        has_summary (?rows ! a)"
    proof cases
      case 1
      then show ?thesis using i at new True row by (intro exI[of _ i] exI[of _ a] conjI) (auto simp: message_role_def)
    next
      case 2
      then show ?thesis using inv keep unfolding merge_inv_def by metis
    qed
  qed (use len in simp_all)
qed

lemma attach_results_inv:
  "merge_inv rows (mg_last_assistant (new_merger rows)) (attach_results (new_merger rows))"
proof -
  let ?l = "mg_last_assistant (new_merger rows)"
  have start: "merge_inv rows ?l (new_merger rows)" by (simp add: merge_inv_def new_merger_simps)
  have "merge_inv rows ?l (foldl attach_result m is)" if "merge_inv rows ?l m" "\<forall>i \<in> set is. i < length rows" for m "is"
    using that by (induction "is" arbitrary: m) (auto intro: attach_result_inv new_merger_simps)
  with start show ?thesis by (simp add: attach_results_def new_merger_simps)
qed

lemma put_text_other [simp]: "j \<noteq> k \<Longrightarrow> get_any (put_text k v m) j = get_any m j"
  by (simp add: put_text_def)

lemma attached_other:
  "j \<noteq> ''result_summary'' \<Longrightarrow>
   get_any (case attach_result_summary m r of Some m' \<Rightarrow> m' | None \<Rightarrow> m) j = get_any m j"
  by (auto simp: attach_result_summary_def Let_def)

lemma synthetic_fields [simp]:
  "message_role (build_synthetic_assistant r) = ''assistant''"
  "get_str (build_synthetic_assistant r) ''round_id'' = get_str r ''round_id''"
  "get_str (build_synthetic_assistant r) ''stop_reason'' \<noteq> []"
proof -
  have t: "trim_space ''assistant'' = ''assistant''" "trim_space (get_str r k) = get_str r k" for k
    by (simp_all add: plain_word_trim plain_simps get_str_def)
  have stop: "trim_space ''cancelled'' = ''cancelled''" "trim_space ''error'' = ''error''" "trim_space (''end'' @ CHR 0x5F # ''turn'') \<noteq> []"
    by (simp_all add: plain_word_trim plain_simps)
  show "message_role (build_synthetic_assistant r) = ''assistant''"
    "get_str (build_synthetic_assistant r) ''round_id'' = get_str r ''round_id''"
    by (simp_all add: build_synthetic_assistant_def Let_def attached_other get_str_def message_role_def t[unfolded get_str_def])
  show "get_str (build_synthetic_assistant r) ''stop_reason'' \<noteq> []"
    using stop by (simp add: build_synthetic_assistant_def Let_def attached_other get_str_def)
qed


lemma built_rows:
  "set (build_result_rows merged rows) =
     {r \<in> set rows. message_role r \<noteq> ''result''} \<union>
     build_synthetic_assistant ` {r \<in> set rows. message_role r = ''result'' \<and> get_str r ''message_id'' \<notin> set merged}"
  by (induction rows) auto

definition row_settled :: "dict_value \<Rightarrow> bool" where
  "row_settled r \<longleftrightarrow> message_role r = ''assistant'' \<and> (get_str r ''stop_reason'' \<noteq> [] \<or> has_summary r)"

lemma same_row_role: "same_row r r' \<Longrightarrow> message_role r' = message_role r"
  by (simp add: message_role_def same_row_str)

text \<open>The three facts about attaching results: rows stay, results become settled rows, nothing else appears.\<close>

lemma merged_keeps:
  assumes "r \<in> set rows" "message_role r \<noteq> ''result''"
  shows "\<exists>r' \<in> set (merge_round_results rows). same_row r r'"
proof -
  obtain j where j: "j < length rows" "r = rows ! j" using assms(1) by (auto simp: in_set_conv_nth)
  let ?m = "attach_results (new_merger rows)"
  have "length (mg_rows ?m) = length rows" "same_row r (mg_rows ?m ! j)"
    using attach_results_inv[of rows] j by (auto simp: merge_inv_def)
  moreover from this have "message_role (mg_rows ?m ! j) \<noteq> ''result''" using assms(2) by (simp add: same_row_role)
  ultimately show ?thesis using j(1) by (auto simp: merge_round_results_def Let_def built_rows)
qed

lemma merged_settles:
  assumes "r \<in> set rows" "message_role r = ''result''"
    and uniq: "\<And>x. x \<in> set rows \<Longrightarrow> message_role x = ''result'' \<Longrightarrow> get_str x ''message_id'' = get_str r ''message_id'' \<Longrightarrow> x = r"
  shows "\<exists>r' \<in> set (merge_round_results rows). row_settled r' \<and> get_str r' ''round_id'' = get_str r ''round_id''"
proof -
  obtain j where j: "j < length rows" "r = rows ! j" using assms(1) by (auto simp: in_set_conv_nth)
  let ?m = "attach_results (new_merger rows)"
  have len: "length (mg_rows ?m) = length rows" and same: "\<And>k. k < length rows \<Longrightarrow> same_row (rows ! k) (mg_rows ?m ! k)"
    using attach_results_inv[of rows] by (auto simp: merge_inv_def)
  let ?row = "mg_rows ?m ! j"
  have row: "?row \<in> set (mg_rows ?m)" "message_role ?row = ''result''" "get_str ?row ''round_id'' = get_str r ''round_id''"
    "get_str ?row ''message_id'' = get_str r ''message_id''"
    using len j same[of j] assms(2) by (simp_all add: same_row_role same_row_str)
  show ?thesis
  proof (cases "get_str r ''message_id'' \<in> set (mg_merged ?m)")
    case False
    with row have "build_synthetic_assistant ?row \<in> set (merge_round_results rows)"
      by (simp add: merge_round_results_def Let_def built_rows)
    with row(3) show ?thesis by (intro bexI) (auto simp: row_settled_def)
  next
    case True
    then obtain i a where a: "i < length rows" "a < length rows" "message_role (rows ! i) = ''result''"
      "get_str (rows ! i) ''message_id'' = get_str r ''message_id''" "message_role (rows ! a) = ''assistant''"
      "get_str (rows ! a) ''round_id'' = get_str (rows ! i) ''round_id''" "has_summary (mg_rows ?m ! a)"
      using attach_results_inv[of rows] unfolding merge_inv_def by blast
    have "rows ! i = r" using uniq a by simp
    with a same[of a] have b: "message_role (mg_rows ?m ! a) = ''assistant''"
      "get_str (mg_rows ?m ! a) ''round_id'' = get_str r ''round_id''"
      by (simp_all add: same_row_role same_row_str)
    then have "mg_rows ?m ! a \<in> set (merge_round_results rows)"
      using len a(2) by (simp add: merge_round_results_def Let_def built_rows)
    with a b show ?thesis by (auto simp: row_settled_def)
  qed
qed

lemma merged_origin:
  assumes "r' \<in> set (merge_round_results rows)"
  shows "message_role r' \<noteq> ''result'' \<and> (\<exists>r \<in> set rows. get_str r ''round_id'' = get_str r' ''round_id'')"
proof -
  let ?m = "attach_results (new_merger rows)"
  have "length (mg_rows ?m) = length rows" "\<And>k. k < length rows \<Longrightarrow> same_row (rows ! k) (mg_rows ?m ! k)"
    using attach_results_inv[of rows] by (auto simp: merge_inv_def)
  note m = this
  have "\<exists>r \<in> set rows. get_str r ''round_id'' = get_str x ''round_id''" if x: "x \<in> set (mg_rows ?m)" for x
  proof -
    obtain k where k: "k < length rows" "x = mg_rows ?m ! k" using x m(1) by (metis in_set_conv_nth)
    then have "same_row (rows ! k) x" using m(2) by simp
    then show ?thesis using k(1) by (intro bexI[of _ "rows ! k"]) (simp_all add: same_row_str)
  qed
  then show ?thesis using assms by (auto simp: merge_round_results_def Let_def built_rows)
qed

section \<open>Rows of a repaired history\<close>

lemma materialized_rows:
  "set (materialize_unfinished now rows active) =
     set rows \<union> interrupted_row now ` {e \<in> set (foldl observe_round [] rows). round_pending active e}"
  by (auto simp: materialize_unfinished_def)

lemma interrupted_fields [simp]:
  "get_str (interrupted_row now e) ''role'' = ''assistant''"
  "get_str (interrupted_row now e) ''round_id'' = trim_space (fst e)"
  "get_str (interrupted_row now e) ''stop_reason'' = ''cancelled''"
  "message_timestamp (interrupted_row now e) = interrupted_at now (snd e)"
  "get_str (interrupted_row now e) ''message_id'' = trim_space (''assistant_interrupt_'' @ fst e)"
proof -
  have "trim_space ''assistant'' = ''assistant''" "trim_space ''cancelled'' = ''cancelled''"
    by (simp_all add: plain_word_trim plain_simps)
  then show "get_str (interrupted_row now e) ''role'' = ''assistant''"
    "get_str (interrupted_row now e) ''round_id'' = trim_space (fst e)"
    "get_str (interrupted_row now e) ''stop_reason'' = ''cancelled''"
    "message_timestamp (interrupted_row now e) = interrupted_at now (snd e)"
    "get_str (interrupted_row now e) ''message_id'' = trim_space (''assistant_interrupt_'' @ fst e)"
    by (simp_all add: interrupted_row_def Let_def message_timestamp_def)
qed

lemma ending_row_settles:
  assumes "r \<in> set (materialize_unfinished now (compact_messages rows) active)" "ends_round r"
  shows "\<exists>r' \<in> set (merge_round_results (materialize_unfinished now (compact_messages rows) active)).
           row_settled r' \<and> get_str r' ''round_id'' = get_str r ''round_id''"
proof (cases "message_role r = ''result''")
  case True
  let ?m = "materialize_unfinished now (compact_messages rows) active"
  have stored: "x \<in> set (compact_messages rows)" if "x \<in> set ?m" "message_role x = ''result''" for x
    using that by (auto simp: materialized_rows message_role_def)
  have inj: "inj_on (\<lambda>r. get_str r ''message_id'') (set (compact_messages rows))"
    using compact_distinct[of rows] by (simp add: distinct_map)
  have "x = r"
    if "x \<in> set ?m" "message_role x = ''result''" "get_str x ''message_id'' = get_str r ''message_id''" for x
    by (rule inj_onD[OF inj that(3) stored[OF that(1,2)] stored[OF assms(1) True]])
  from merged_settles[OF assms(1) True this] show ?thesis .
next
  case False
  from merged_keeps[OF assms(1) False] obtain r' where
    r': "r' \<in> set (merge_round_results (materialize_unfinished now (compact_messages rows) active))" "same_row r r'" ..
  have "row_settled r'" using assms(2) False r'(2) by (auto simp: row_settled_def ends_round_def same_row_str message_role_def)
  with r' show ?thesis by (intro bexI[of _ r']) (simp_all add: same_row_str)
qed


lemma pending_rounds:
  assumes "rid \<noteq> []" "round_rows rid rows \<noteq> []"
  shows "filter (\<lambda>e. fst e = rid) (filter (round_pending active) (foldl observe_round [] rows)) =
         (if rid \<in> set active \<or> (\<exists>x \<in> set (round_rows rid rows). ends_round x) then []
          else [(rid, round_snapshot_of rid rows)])"
proof -
  let ?m = "foldl observe_round [] rows"
  have wf: "distinct (map fst m) \<Longrightarrow> map_of m rid = Some s \<Longrightarrow> filter (\<lambda>e. fst e = rid) m = [(rid, s)]" for m s
  proof (induction m)
    case (Cons e m)
    then show ?case by (cases e) (auto simp: filter_empty_conv)
  qed simp
  have "filter (\<lambda>e. fst e = rid) ?m = [(rid, round_snapshot_of rid rows)]"
    using observed_rounds_ok[of rows] assms by (intro wf) (simp_all add: rounds_ok_def wf_dict_def observed_round)
  moreover have "filter (\<lambda>e. fst e = rid) (filter (round_pending active) ?m) =
        filter (round_pending active) (filter (\<lambda>e. fst e = rid) ?m)"
    by (simp add: conj_commute)
  ultimately show ?thesis by (auto simp: pending_iff)
qed

lemma snapshot_time:
  "0 \<le> rs_last (round_snapshot_of rid rows)"
  "x \<in> set (round_rows rid rows) \<Longrightarrow> message_timestamp x \<le> rs_last (round_snapshot_of rid rows)"
  "(\<forall>x \<in> set (round_rows rid rows). message_timestamp x < n) \<Longrightarrow> 0 < n \<Longrightarrow> rs_last (round_snapshot_of rid rows) < n"
proof -
  have *: "t \<le> foldl (\<lambda>t r. max t (message_timestamp r)) t rs" for t rs
    by (induction rs arbitrary: t) (auto intro: order_trans[OF max.cobounded1])
  have "x \<in> set rs \<Longrightarrow> message_timestamp x \<le> foldl (\<lambda>t r. max t (message_timestamp r)) t rs" for t rs x
    by (induction rs arbitrary: t) (auto intro: order_trans[OF max.cobounded2 *])
  then show "x \<in> set (round_rows rid rows) \<Longrightarrow> message_timestamp x \<le> rs_last (round_snapshot_of rid rows)"
    by (simp add: round_snapshot_of_def snapshot_last)
  show "0 \<le> rs_last (round_snapshot_of rid rows)"
    using *[of 0] by (simp add: round_snapshot_of_def snapshot_last empty_snapshot_def)
  have "\<forall>x \<in> set rs. message_timestamp x < n \<Longrightarrow> t < n \<Longrightarrow> foldl (\<lambda>t r. max t (message_timestamp r)) t rs < n" for t rs
    by (induction rs arbitrary: t) auto
  then show "(\<forall>x \<in> set (round_rows rid rows). message_timestamp x < n) \<Longrightarrow> 0 < n \<Longrightarrow> rs_last (round_snapshot_of rid rows) < n"
    by (simp add: round_snapshot_of_def snapshot_last empty_snapshot_def)
qed

lemma last_of_sorted:
  assumes "sorted (map f xs)" "p \<in> set xs" "\<And>x. x \<in> set xs \<Longrightarrow> x \<noteq> p \<Longrightarrow> f x < (f p :: int)"
  shows "last xs = p"
proof (cases xs rule: rev_cases)
  case (snoc ys y)
  with assms have "f p \<le> f y" by (cases "p = y") (auto simp: sorted_append)
  with snoc assms(3)[of y] show ?thesis by fastforce
qed (use assms(2) in simp)

text \<open>C7. A round that is active or has an end keeps exactly the rows it has. Any other round gets one
  row more, and that row ends it: it is later than every row of the round and the last of them in
  the sorted history.\<close>
theorem open_round_gets_one_end:
  assumes "rid \<noteq> []" "round_rows rid rows \<noteq> []"
    and "\<forall>x \<in> set (round_rows rid rows). message_timestamp x < 2 ^ 63 - 1"
  shows "if rid \<in> set active \<or> (\<exists>x \<in> set (round_rows rid rows). ends_round x)
         then mset (round_rows rid (materialize_unfinished now rows active)) = mset (round_rows rid rows)
         else \<exists>p. mset (round_rows rid (materialize_unfinished now rows active)) = add_mset p (mset (round_rows rid rows)) \<and>
                  ends_round p \<and> (\<forall>x \<in> set (round_rows rid rows). message_timestamp x < message_timestamp p) \<and>
                  last (round_rows rid (materialize_unfinished now rows active)) = p"
proof -
  let ?m = "materialize_unfinished now rows active"
  let ?s = "round_snapshot_of rid rows"
  let ?es = "filter (round_pending active) (foldl observe_round [] rows)"
  have ne: "rows \<noteq> []" using assms(2) by (auto simp: round_rows_def)
  obtain x where x: "x \<in> set (round_rows rid rows)" using assms(2) by (meson last_in_set)
  then have rid: "trim_space rid = rid" by (auto simp: round_rows_def get_str_def)
  have "trimmed (fst e)" if "e \<in> set ?es" for e
    using that observed_rounds_ok[of rows] by (auto simp: rounds_ok_def)
  then have "filter (\<lambda>r. get_str r ''round_id'' = rid) (map (interrupted_row now) ?es) =
        map (interrupted_row now) (filter (\<lambda>e. fst e = rid) ?es)"
    unfolding filter_map comp_def by (intro arg_cong[where f = "map _"] filter_cong) auto
  note made = this
  have "mset (round_rows rid ?m) =
      mset (filter (\<lambda>r. get_str r ''round_id'' = rid) (rows @ map (interrupted_row now) ?es))"
    unfolding round_rows_def mset_filter using ne by (simp add: materialize_unfinished_def)
  then have new: "mset (round_rows rid ?m) =
      mset (round_rows rid rows) + mset (map (interrupted_row now) (filter (\<lambda>e. fst e = rid) ?es))"
    unfolding filter_append made by (simp add: round_rows_def)
  show ?thesis
  proof (cases "rid \<in> set active \<or> (\<exists>x \<in> set (round_rows rid rows). ends_round x)")
    case True
    with new show ?thesis unfolding pending_rounds[OF assms(1,2)] by simp
  next
    case False
    let ?p = "interrupted_row now (rid, ?s)"
    have p: "mset (round_rows rid ?m) = add_mset ?p (mset (round_rows rid rows))"
      using new False unfolding pending_rounds[OF assms(1,2)] by simp
    have "signed_take_bit 63 (rs_last ?s + 1) = rs_last ?s + 1"
      using snapshot_time(1)[of rid rows] snapshot_time(3)[OF assms(3)]
      by (intro signed_take_bit_int_eq_self) simp_all
    then have "interrupted_at now ?s = rs_last ?s + 1"
      using snapshot_time(1)[of rid rows] by (simp add: interrupted_at_def Let_def)
    then have late: "\<forall>x \<in> set (round_rows rid rows). message_timestamp x < message_timestamp ?p"
      using snapshot_time(2)[of _ rid rows] by (simp add: zle_add1_eq_le)
    have "sorted (map message_timestamp (round_rows rid ?m))"
      unfolding round_rows_def using sorted_history_rows ne
      by (auto simp: materialize_unfinished_def intro!: sorted_filter)
    moreover have set: "set (round_rows rid ?m) = insert ?p (set (round_rows rid rows))"
      using arg_cong[OF p, of set_mset] by simp
    ultimately have "last (round_rows rid ?m) = ?p" using late by (intro last_of_sorted) auto
    then show ?thesis using p late False by (intro if_not_P[THEN iffD2] exI[of _ ?p]) (auto simp: ends_round_def)
  qed
qed

lemma sample_row_get:
  "get_str (sample_row ''m'' ''r'' ''user'' ts) ''message_id'' = ''m''"
  "get_str (sample_row ''m'' ''r'' ''user'' ts) ''round_id'' = ''r''"
  "get_str (sample_row ''m'' ''r'' ''user'' ts) ''role'' = ''user''"
  "get_str (sample_row ''m'' ''r'' ''user'' ts) ''content'' = []"
  "message_timestamp (sample_row ''m'' ''r'' ''user'' ts) = ts"
  by (simp_all add: sample_row_def message_timestamp_def plain_word_trim plain_simps)


lemma open_round_gets_one_end_witness:
  "message_timestamp (last (round_rows ''r'' (materialize_unfinished 0 [sample_row ''m'' ''r'' ''user'' 5] []))) > 5"
proof -
  have "round_rows ''r'' [sample_row ''m'' ''r'' ''user'' 5] = [sample_row ''m'' ''r'' ''user'' 5]"
    by (simp add: round_rows_def sample_row_get)
  then show ?thesis
    using open_round_gets_one_end[of "''r''" "[sample_row ''m'' ''r'' ''user'' 5]" "[]" 0]
    by (auto simp: sample_row_get ends_round_def)
qed

end
