(* ===== verification/HistoryPages.thy ===== *)
theory HistoryPages
  imports HistoryRepair
begin

text \<open>
  Pages of a repaired history, \<open>paginateNormalizedHistoryRows\<close> of
  \<open>storage/workspace/history_normalize.go\<close>. A page holds whole groups, a group being
  consecutive rows of one round; the caller asks for the page before the cursor that the last page
  gave. The walk of a caller from the newest page to the oldest is \<open>walk_pages\<close>.
\<close>

section \<open>Groups\<close>

record page_group =
  pg_round :: string
  pg_time :: int
  pg_items :: "dict_value list"

definition normalize_room_round :: "string \<Rightarrow> string \<Rightarrow> string" where
  "normalize_room_round round_id agent =
     (let r = trim_space round_id; a = trim_space agent; suf = '':'' @ a in
      if r = [] \<or> a = [] then r
      else if suffix suf r then take (length r - length suf) r
      else r)"

definition page_cursor_round :: "bool \<Rightarrow> dict_value \<Rightarrow> string" where
  "page_cursor_round collapse row =
     (let rid = get_str row ''round_id'' in
      if rid \<noteq> [] then (if collapse then normalize_room_round rid (get_str row ''agent_id'') else rid)
      else get_str row ''message_id'')"

definition page_group_key :: "bool \<Rightarrow> dict_value \<Rightarrow> string" where
  "page_group_key collapse row =
     (let rid = get_str row ''round_id''; ident = get_str row ''message_id'' in
      if rid \<noteq> [] then
        (if collapse then ''round:'' @ normalize_room_round rid (get_str row ''agent_id'') else ''round:'' @ rid)
      else if ident \<noteq> [] then ''message:'' @ ident
      else [])"

definition new_group :: "bool \<Rightarrow> dict_value \<Rightarrow> page_group" where
  "new_group collapse row =
     \<lparr>pg_round = page_cursor_round collapse row, pg_time = message_timestamp row, pg_items = [row]\<rparr>"

text \<open>\<open>flushCurrentGroup\<close> and the loop over the rows.\<close>

definition flush_group :: "page_group option \<Rightarrow> page_group list" where
  "flush_group current = (case current of None \<Rightarrow> [] | Some g \<Rightarrow> [g])"

fun group_rows :: "bool \<Rightarrow> string \<Rightarrow> page_group option \<Rightarrow> dict_value list \<Rightarrow> page_group list" where
  "group_rows collapse key current [] = flush_group current"
| "group_rows collapse key current (row # rows) =
     (let k = page_group_key collapse row in
      if k = [] then group_rows collapse key current rows
      else if k \<noteq> key then flush_group current @ group_rows collapse k (Some (new_group collapse row)) rows
      else group_rows collapse key (map_option (\<lambda>g. g\<lparr>pg_items := pg_items g @ [row]\<rparr>) current) rows)"

definition build_page_groups :: "dict_value list \<Rightarrow> bool \<Rightarrow> page_group list" where
  "build_page_groups rows collapse = group_rows collapse [] None rows"

section \<open>The page before a cursor\<close>

definition compare_group_cursor :: "page_group \<Rightarrow> string \<Rightarrow> int \<Rightarrow> int" where
  "compare_group_cursor g before_round before_time =
     (if pg_time g < before_time then -1
      else if before_time < pg_time g then 1
      else if before_round = [] then 1
      else string_compare (pg_round g) before_round)"

fun first_index :: "(page_group \<Rightarrow> bool) \<Rightarrow> page_group list \<Rightarrow> nat option" where
  "first_index P [] = None"
| "first_index P (g # gs) = (if P g then Some 0 else map_option Suc (first_index P gs))"

definition page_end_index :: "page_group list \<Rightarrow> string \<Rightarrow> int \<Rightarrow> nat" where
  "page_end_index groups before_round before_time =
     (if before_time \<le> 0 \<and> before_round = [] then length groups
      else if before_time \<le> 0 then
        (case first_index (\<lambda>g. pg_round g = before_round) groups of None \<Rightarrow> 0 | Some i \<Rightarrow> i)
      else case first_index (\<lambda>g. 0 \<le> compare_group_cursor g before_round before_time) groups of
        None \<Rightarrow> length groups
      | Some i \<Rightarrow> i)"

definition round_page_limit :: "int \<Rightarrow> nat" where
  "round_page_limit limit = (if limit \<le> 0 then 3 else if 10 < limit then 10 else nat limit)"

record message_page =
  mp_items :: "dict_value list"
  mp_more :: bool
  mp_round :: "string option"
  mp_time :: "int option"

definition empty_page :: message_page where
  "empty_page = \<lparr>mp_items = [], mp_more = False, mp_round = None, mp_time = None\<rparr>"

definition paginate_rows :: "dict_value list \<Rightarrow> int \<Rightarrow> string \<Rightarrow> int \<Rightarrow> bool \<Rightarrow> message_page" where
  "paginate_rows rows limit before_round before_time collapse =
     (let groups = build_page_groups rows collapse;
          stop = page_end_index groups (trim_space before_round) before_time;
          start = stop - round_page_limit limit;
          items = concat (map pg_items (take (stop - start) (drop start groups)))
      in if rows = [] \<or> stop = 0 then empty_page
         else if 0 < start \<and> items \<noteq> [] then
           (let oldest = groups ! start in
            \<lparr>mp_items = items, mp_more = True,
             mp_round = (if trim_space (pg_round oldest) \<noteq> [] then Some (pg_round oldest) else None),
             mp_time = Some (pg_time oldest)\<rparr>)
         else \<lparr>mp_items = items, mp_more = 0 < start, mp_round = None, mp_time = None\<rparr>)"

section \<open>Walking the pages\<close>

text \<open>The caller asks for the newest page and follows the cursors while there are more pages.\<close>

fun walk_pages :: "nat \<Rightarrow> dict_value list \<Rightarrow> int \<Rightarrow> bool \<Rightarrow> string \<Rightarrow> int \<Rightarrow> dict_value list option" where
  "walk_pages 0 rows limit collapse before_round before_time = None"
| "walk_pages (Suc n) rows limit collapse before_round before_time =
     (let page = paginate_rows rows limit before_round before_time collapse in
      if \<not> mp_more page then Some (mp_items page)
      else map_option (\<lambda>older. older @ mp_items page)
             (walk_pages n rows limit collapse (case mp_round page of None \<Rightarrow> [] | Some r \<Rightarrow> r)
               (case mp_time page of None \<Rightarrow> 0 | Some t \<Rightarrow> t)))"


section \<open>Groups hold the rows\<close>

lemma group_rows_items:
  "(current = None \<Longrightarrow> key = []) \<Longrightarrow>
   concat (map pg_items (group_rows collapse key current rows)) =
     (case current of None \<Rightarrow> [] | Some g \<Rightarrow> pg_items g) @ filter (\<lambda>r. page_group_key collapse r \<noteq> []) rows"
proof (induction collapse key current rows rule: group_rows.induct)
  case (1 collapse key current)
  then show ?case by (simp add: flush_group_def split: option.split)
next
  case (2 collapse key current row rows)
  then show ?case by (auto simp: Let_def flush_group_def new_group_def split: option.splits)
qed

lemma groups_items: "concat (map pg_items (build_page_groups rows collapse)) = filter (\<lambda>r. page_group_key collapse r \<noteq> []) rows"
  by (simp add: build_page_groups_def group_rows_items)

lemma group_rows_ne:
  "pred_option (\<lambda>g. pg_items g \<noteq> []) current \<Longrightarrow> g \<in> set (group_rows collapse key current rows) \<Longrightarrow> pg_items g \<noteq> []"
proof (induction collapse key current rows rule: group_rows.induct)
  case (1 collapse key current)
  then show ?case by (auto simp: flush_group_def split: option.splits)
next
  case (2 collapse key current row rows)
  then show ?case by (cases current) (auto simp: Let_def flush_group_def new_group_def split: if_splits)
qed

lemma groups_ne: "g \<in> set (build_page_groups rows collapse) \<Longrightarrow> pg_items g \<noteq> []"
  unfolding build_page_groups_def by (rule group_rows_ne) auto

section \<open>Finding a cursor again\<close>

lemma first_index_at:
  "i < length gs \<Longrightarrow> P (gs ! i) \<Longrightarrow> \<forall>j < i. \<not> P (gs ! j) \<Longrightarrow> first_index P gs = Some i"
proof (induction gs arbitrary: i)
  case (Cons g gs)
  show ?case
  proof (cases i)
    case (Suc k)
    then have "\<not> P g" "\<forall>j < k. \<not> P (gs ! j)" using Cons.prems(3) by force+
    with Cons Suc show ?thesis by simp
  qed (use Cons.prems in simp)
qed simp

definition cursor_before :: "page_group \<Rightarrow> page_group \<Rightarrow> bool" where
  "cursor_before g h \<longleftrightarrow> pg_time g < pg_time h \<or> pg_time g = pg_time h \<and> pg_round g < pg_round h"

definition cursors_ordered :: "page_group list \<Rightarrow> bool" where
  "cursors_ordered gs \<longleftrightarrow> sorted_wrt cursor_before gs \<and> (\<forall>g \<in> set gs. 0 < pg_time g \<and> trimmed (pg_round g))"

lemma cursor_found:
  assumes "cursors_ordered gs" "i < length gs"
  shows "page_end_index gs (pg_round (gs ! i)) (pg_time (gs ! i)) = i"
proof -
  let ?P = "\<lambda>g. 0 \<le> compare_group_cursor g (pg_round (gs ! i)) (pg_time (gs ! i))"
  have "0 < pg_time (gs ! i)" using assms by (simp add: cursors_ordered_def)
  moreover have "?P (gs ! i)" by (simp add: compare_group_cursor_def string_compare_def)
  moreover have "\<not> ?P (gs ! j)" if "j < i" for j
  proof -
    have "cursor_before (gs ! j) (gs ! i)"
      using assms that by (auto simp: cursors_ordered_def dest: sorted_wrt_nth_less)
    then show ?thesis by (auto simp: cursor_before_def compare_group_cursor_def string_compare_def)
  qed
  ultimately show ?thesis
    using first_index_at[of i gs ?P] assms(2) by (simp add: page_end_index_def)
qed

lemma page_limit_pos: "0 < round_page_limit limit"
  by (simp add: round_page_limit_def)

section \<open>Walking all pages\<close>

lemma walk_from:
  assumes "cursors_ordered gs" "gs = build_page_groups rows collapse"
  shows "0 < stop \<Longrightarrow> stop \<le> length gs \<Longrightarrow> page_end_index gs (trim_space before_round) before_time = stop \<Longrightarrow> stop \<le> n \<Longrightarrow>
         walk_pages n rows limit collapse before_round before_time = Some (concat (map pg_items (take stop gs)))"
proof (induction n arbitrary: stop before_round before_time)
  case (Suc n)
  let ?start = "stop - round_page_limit limit"
  let ?items = "concat (map pg_items (take (stop - ?start) (drop ?start gs)))"
  have rows: "rows \<noteq> []" using Suc.prems assms(2) by (auto simp: build_page_groups_def flush_group_def)
  have less: "?start < stop" using Suc.prems(1) page_limit_pos[of limit] by simp
  have "gs ! ?start \<in> set gs" using less Suc.prems(2) by simp
  then have "pg_items (gs ! ?start) \<noteq> []" unfolding assms(2) by (rule groups_ne)
  moreover have "take (stop - ?start) (drop ?start gs) = gs ! ?start # take (stop - ?start - 1) (drop (Suc ?start) gs)"
    using less Suc.prems(2) by (simp add: Cons_nth_drop_Suc[symmetric] take_Cons')
  ultimately have ne: "?items \<noteq> []" by simp
  have join: "concat (map pg_items (take ?start gs)) @ ?items = concat (map pg_items (take stop gs))"
    using less by (simp flip: concat_append map_append take_add)
  show ?case
  proof (cases "?start = 0")
    case True
    with Suc.prems rows ne join show ?thesis
      by (simp add: paginate_rows_def Let_def assms(2)[symmetric])
  next
    case False
    let ?g = "gs ! ?start"
    let ?br = "if trim_space (pg_round ?g) \<noteq> [] then pg_round ?g else []"
    have tr: "trim_space (pg_round ?g) = pg_round ?g"
      using assms(1) \<open>?g \<in> set gs\<close> by (simp add: cursors_ordered_def)
    have "trim_space ?br = pg_round ?g" using tr by simp
    then have at: "page_end_index gs (trim_space ?br) (pg_time ?g) = ?start"
      using cursor_found[OF assms(1), of ?start] less Suc.prems(2) by (simp only: order.strict_trans2)
    have "walk_pages n rows limit collapse ?br (pg_time ?g) = Some (concat (map pg_items (take ?start gs)))"
      using Suc.IH[OF _ _ at] False less Suc.prems by simp
    with False Suc.prems rows ne join show ?thesis
      by (cases "trim_space (pg_round ?g) = []") (simp_all add: paginate_rows_def Let_def assms(2)[symmetric])
  qed
qed simp

text \<open>C8. The pages of a history are the history. When the cursors of its groups are in strict order,
  a reader who starts at the newest page and follows the cursors gets, after at most as many
  requests as there are groups and one more, every row that names a round or a message, once and
  in order, whatever the size of a page.\<close>
theorem pages_give_history:
  assumes "cursors_ordered (build_page_groups rows collapse)"
  shows "walk_pages (Suc (length (build_page_groups rows collapse))) rows limit collapse [] 0 =
         Some (filter (\<lambda>r. page_group_key collapse r \<noteq> []) rows)"
proof (cases "build_page_groups rows collapse = []")
  case True
  then have "filter (\<lambda>r. page_group_key collapse r \<noteq> []) rows = []" using groups_items[of rows collapse] by simp
  with True show ?thesis by (simp add: paginate_rows_def page_end_index_def empty_page_def)
next
  case False
  let ?gs = "build_page_groups rows collapse"
  have "walk_pages (Suc (length ?gs)) rows limit collapse [] 0 = Some (concat (map pg_items (take (length ?gs) ?gs)))"
    using False by (intro walk_from[OF assms refl]) (simp_all add: page_end_index_def)
  then show ?thesis by (simp add: groups_items)
qed

text \<open>Rows of different times, in order, have cursors in order.\<close>

lemma subseq_mem: "subseq xs ys \<Longrightarrow> x \<in> set xs \<Longrightarrow> x \<in> set ys"
  by (auto elim: list_emb_set)

lemma sorted_wrt_subseq: "subseq xs ys \<Longrightarrow> sorted_wrt P ys \<Longrightarrow> sorted_wrt P xs"
proof (induction rule: list_emb.induct)
  case (list_emb_Cons2 x y xs ys)
  have "set xs \<subseteq> set ys" using list_emb_Cons2.hyps(2) by (auto intro: subseq_mem)
  with list_emb_Cons2 show ?case by fastforce
qed auto

lemma subseq_skip: "subseq xs (a @ ts) \<Longrightarrow> subseq xs (a @ t # ts)"
  by (rule subseq_order.trans[of xs "a @ ts"]) (auto simp: subseq_append')

lemma group_rows_times:
  "subseq (map pg_time (group_rows collapse key current rows))
     (map pg_time (flush_group current) @ map message_timestamp rows)"
proof (induction collapse key current rows rule: group_rows.induct)
  case (2 collapse key current row rows)
  let ?grown = "map_option (\<lambda>g. g\<lparr>pg_items := pg_items g @ [row]\<rparr>) current"
  have "map pg_time (flush_group ?grown) = map pg_time (flush_group current)"
    by (cases current) (simp_all add: flush_group_def)
  moreover have "pg_time (new_group collapse row) = message_timestamp row" by (simp add: new_group_def)
  ultimately show ?case
    using 2 subseq_skip by (auto simp: Let_def flush_group_def[of "Some _"] subseq_append')
qed simp

lemma group_rows_rounds:
  "\<not> collapse \<Longrightarrow> pred_option (\<lambda>g. trimmed (pg_round g)) current \<Longrightarrow> g \<in> set (group_rows collapse key current rows) \<Longrightarrow>
   trimmed (pg_round g)"
proof (induction collapse key current rows rule: group_rows.induct)
  case (1 collapse key current)
  then show ?case by (auto simp: flush_group_def split: option.splits)
next
  case (2 collapse key current row rows)
  then show ?case
    by (cases current) (auto simp: Let_def flush_group_def new_group_def page_cursor_round_def get_str_def split: if_splits)
qed

lemma distinct_times_ordered:
  assumes "sorted_wrt (<) (map message_timestamp rows)" "\<forall>r \<in> set rows. 0 < message_timestamp r"
  shows "cursors_ordered (build_page_groups rows False)"
proof -
  let ?gs = "build_page_groups rows False"
  have sub: "subseq (map pg_time ?gs) (map message_timestamp rows)"
    using group_rows_times[of False "[]" None rows] by (simp add: build_page_groups_def flush_group_def)
  have "sorted_wrt (<) (map pg_time ?gs)" by (rule sorted_wrt_subseq[OF sub assms(1)])
  then have "sorted_wrt (\<lambda>g h. pg_time g < pg_time h) ?gs" by (simp add: sorted_wrt_map)
  then have "sorted_wrt cursor_before ?gs"
    by (rule sorted_wrt_mono_rel[rotated]) (simp add: cursor_before_def)
  moreover have "0 < pg_time g" if "g \<in> set ?gs" for g
  proof -
    have "pg_time g \<in> set (map message_timestamp rows)" by (rule subseq_mem[OF sub]) (use that in simp)
    with assms(2) show ?thesis by auto
  qed
  moreover have "\<forall>g \<in> set ?gs. trimmed (pg_round g)"
    unfolding build_page_groups_def by (intro ballI, rule group_rows_rounds[of False None]) simp_all
  ultimately show ?thesis
    unfolding cursors_ordered_def by blast
qed

lemma pages_give_history_witness:
  "walk_pages (Suc (length (build_page_groups [sample_row ''m'' ''r'' ''user'' 5, sample_row ''m'' ''r'' ''user'' 6] False)))
     [sample_row ''m'' ''r'' ''user'' 5, sample_row ''m'' ''r'' ''user'' 6] 1 False [] 0 =
   Some [sample_row ''m'' ''r'' ''user'' 5, sample_row ''m'' ''r'' ''user'' 6]"
proof -
  let ?rows = "[sample_row ''m'' ''r'' ''user'' 5, sample_row ''m'' ''r'' ''user'' 6]"
  have "cursors_ordered (build_page_groups ?rows False)"
    by (rule distinct_times_ordered) (simp_all add: sample_row_get)
  from pages_give_history[OF this, of 1] show ?thesis
    by (simp add: page_group_key_def sample_row_get Let_def)
qed

text \<open>
  Rounds of one time are ordered by the ids of their messages and not of the rounds, so that a
  cursor may be found at an earlier group: here the page that the cursor promises is empty, and
  the row of the first round is never shown.
\<close>

lemma cursor_skips_round:
  "let rows = [sample_row ''a'' ''s'' ''user'' 5, sample_row ''b'' ''r'' ''user'' 5];
       page = paginate_rows rows 1 [] 0 False
   in sort_history_rows rows = rows \<and> mp_more page \<and> mp_round page = Some ''r'' \<and> mp_time page = Some 5 \<and>
      mp_items page = [sample_row ''b'' ''r'' ''user'' 5] \<and>
      paginate_rows rows 1 ''r'' 5 False = empty_page"
proof -
  let ?x = "sample_row ''a'' ''s'' ''user'' 5" and ?y = "sample_row ''b'' ''r'' ''user'' 5"
  have t: "trim_space ''a'' = ''a''" "trim_space ''b'' = ''b''" "trim_space ''r'' = ''r''" "trim_space ''s'' = ''s''"
    by (simp_all add: plain_word_trim plain_simps)
  have f: "get_str ?x ''round_id'' = ''s''" "get_str ?y ''round_id'' = ''r''" "get_str ?x ''message_id'' = ''a''"
    "get_str ?y ''message_id'' = ''b''" "message_timestamp ?x = 5" "message_timestamp ?y = 5"
    by (simp_all add: sample_row_def message_timestamp_def t)
  have o: "''a'' < ''b''" "''r'' < ''s''" by (simp_all add: less_list_code less_char_def)
  then have no: "\<not> ''b'' < ''a''" "\<not> ''s'' < ''r''" by auto
  have "sort_history_rows [?x, ?y] = [?x, ?y]"
    using no by (simp add: sort_history_rows_def slice_stable_def row_before_def compare_rows_def f string_compare_def)
  moreover have groups: "build_page_groups [?x, ?y] False =
      [\<lparr>pg_round = ''s'', pg_time = 5, pg_items = [?x]\<rparr>, \<lparr>pg_round = ''r'', pg_time = 5, pg_items = [?y]\<rparr>]"
    by (simp add: build_page_groups_def page_group_key_def f Let_def flush_group_def new_group_def page_cursor_round_def)
  have c: "string_compare ''s'' ''r'' = 1" using no by (simp add: string_compare_def)
  have "paginate_rows [?x, ?y] 1 [] 0 False =
      \<lparr>mp_items = [?y], mp_more = True, mp_round = Some ''r'', mp_time = Some 5\<rparr>"
    unfolding paginate_rows_def groups by (simp add: page_end_index_def round_page_limit_def t)
  moreover have "page_end_index (build_page_groups [?x, ?y] False) (trim_space ''r'') 5 = 0"
    unfolding groups t by (simp add: page_end_index_def compare_group_cursor_def c)
  then have "paginate_rows [?x, ?y] 1 ''r'' 5 False = empty_page" by (simp add: paginate_rows_def)
  ultimately show ?thesis by (simp add: Let_def)
qed

end
