(* ===== verification/HistoryTranscript.thy ===== *)
theory HistoryTranscript
  imports HistoryPages MessageProcessor QueueStore
begin

text \<open>
  The history of an agent's own session, \<open>storage/workspace/store_agent_history.go\<close>: the
  transcript of the agent SDK is read as a chain of entries, projected to messages with the
  processor of \<open>MessageProcessor\<close>, its user turns are aligned with the markers of the rounds
  that the application wrote, and the rows of the overlay are added.

  The SDK's decoder and the reading of RFC 3339 times are fields of \<open>transcript_env\<close>. The
  decoder also says whether the entry carries a \<open>ToolUseResult\<close>. A transcript file is the list of
  its lines, None for a line that is blank or no JSON object.
\<close>

section \<open>Entries\<close>

record transcript_entry =
  te_index :: nat
  te_data :: dict_value

record round_marker =
  rm_round :: string
  rm_content :: string
  rm_attachments :: "attachment list"
  rm_time :: int
  rm_policy :: string

record transcript_env =
  tv_decode :: "dict_value \<Rightarrow> (sdk_message \<times> bool) option"
  tv_time :: "string \<Rightarrow> int option"
  tv_process :: process_env

definition entry_uuid :: "transcript_entry \<Rightarrow> string" where
  "entry_uuid e = get_str (te_data e) ''uuid''"

definition entry_parent :: "transcript_entry \<Rightarrow> string" where
  "entry_parent e = get_str (te_data e) ''parentUuid''"

definition normalize_entry_shape :: "dict_value \<Rightarrow> dict_value" where
  "normalize_entry_shape entry =
     (let entry = (if get_any entry ''session_id'' = ANil \<and> get_any entry ''sessionId'' \<noteq> ANil
                   then AList.update ''session_id'' (get_any entry ''sessionId'') entry else entry);
          uuid = get_str entry ''uuid''
      in if get_str entry ''type'' \<noteq> ''assistant'' then entry
         else case get_any entry ''message'' of
           AMap m \<Rightarrow> (if get_str m ''id'' \<noteq> [] \<or> uuid = [] then entry
                      else AList.update ''message'' (AMap (AList.update ''id'' (AStr uuid) m)) entry)
         | _ \<Rightarrow> entry)"

fun entries_from :: "nat \<Rightarrow> dict_value option list \<Rightarrow> transcript_entry list" where
  "entries_from i [] = []"
| "entries_from i (line # lines) =
     (case line of
        None \<Rightarrow> entries_from (Suc i) lines
      | Some m \<Rightarrow>
          (if get_str (normalize_entry_shape m) ''uuid'' = [] then entries_from (Suc i) lines
           else \<lparr>te_index = i, te_data = normalize_entry_shape m\<rparr> # entries_from (Suc i) lines))"

definition read_transcript_entries :: "dict_value option list \<Rightarrow> transcript_entry list" where
  "read_transcript_entries lines = entries_from 0 lines"

definition skip_entry :: "transcript_entry \<Rightarrow> bool" where
  "skip_entry e \<longleftrightarrow>
     bool_from_any (get_any (te_data e) ''isSidechain'') \<or> bool_from_any (get_any (te_data e) ''isMeta'') \<or>
     get_str (te_data e) ''teamName'' \<noteq> []"

section \<open>The chain of the newest turn\<close>

definition index_by_uuid :: "transcript_entry list \<Rightarrow> (string \<times> transcript_entry) list" where
  "index_by_uuid es =
     foldl (\<lambda>m e. if entry_uuid e = [] then m else AList.update (entry_uuid e) e m) [] es"

definition parent_uuids :: "transcript_entry list \<Rightarrow> string list" where
  "parent_uuids es = filter (\<lambda>p. p \<noteq> []) (map entry_parent (filter (\<lambda>e. entry_uuid e \<noteq> []) es))"

definition terminal_entries :: "transcript_entry list \<Rightarrow> transcript_entry list" where
  "terminal_entries es =
     filter (\<lambda>e. entry_uuid e \<noteq> [] \<and> entry_uuid e \<notin> set (parent_uuids es) \<and> \<not> skip_entry e) es"

text \<open>The walk from the leaf to the root: no entry is visited twice, so that it ends.\<close>

function walk_parents :: "(string \<times> transcript_entry) list \<Rightarrow> string list \<Rightarrow> transcript_entry \<Rightarrow> transcript_entry list" where
  "walk_parents by seen current =
     (if entry_uuid current = [] \<or> entry_uuid current \<in> set seen then []
      else current #
        (case map_of by (entry_parent current) of
           None \<Rightarrow> []
         | Some parent \<Rightarrow>
             if entry_parent current = [] then []
             else walk_parents by (entry_uuid current # seen) parent))"
  by pat_completeness auto
termination
proof (relation "measure (\<lambda>(by, seen, cur). card (insert (entry_uuid cur) (entry_uuid ` snd ` set by) - set seen))")
  fix bys :: "(string \<times> transcript_entry) list" and seen cur parent
  assume new: "\<not> (entry_uuid cur = [] \<or> entry_uuid cur \<in> set seen)"
    and parent: "map_of bys (entry_parent cur) = Some parent"
  let ?uuids = "entry_uuid ` snd ` set bys"
  have "parent \<in> snd ` set bys" using map_of_SomeD[OF parent] by force
  then have "entry_uuid parent \<in> ?uuids" by blast
  then have "insert (entry_uuid parent) ?uuids - set (entry_uuid cur # seen) \<subset> insert (entry_uuid cur) ?uuids - set seen"
    using new by auto
  then have "card (insert (entry_uuid parent) ?uuids - set (entry_uuid cur # seen))
             < card (insert (entry_uuid cur) ?uuids - set seen)"
    by (rule psubset_card_mono[rotated]) simp
  then show "((bys, entry_uuid cur # seen, parent), bys, seen, cur)
             \<in> measure (\<lambda>(by, seen, cur). card (insert (entry_uuid cur) (entry_uuid ` snd ` set by) - set seen))"
    by simp
qed simp

declare walk_parents.simps [simp del]

definition build_primary_chain :: "transcript_entry list \<Rightarrow> transcript_entry list" where
  "build_primary_chain es =
     (case sort_key (\<lambda>e. - int (te_index e)) (terminal_entries es) of
        [] \<Rightarrow> []
      | leaf # _ \<Rightarrow> rev (walk_parents (index_by_uuid es) [] leaf))"

section \<open>User turns\<close>

definition sanitize_user_content :: "string \<Rightarrow> string" where
  "sanitize_user_content content =
     (if is_interrupt_prompt (trim_space content) then [] else trim_space content)"

definition transcript_user_content :: "dict_value \<Rightarrow> string" where
  "transcript_user_content entry =
     (let content = get_any (map_value (get_any entry ''message'')) ''content'';
          direct = sanitize_user_content (string_from_any content);
          items = (case content of AList xs \<Rightarrow> xs | _ \<Rightarrow> [])
      in if direct \<noteq> [] then direct
         else trim_space (join [CHR 0x0A, CHR 0x0A]
                (filter (\<lambda>t. t \<noteq> [])
                  (map (\<lambda>item. sanitize_user_content (get_str (map_value item) ''text'')) (filter is_map items)))))"

definition materialize_user_turn :: "dict_value \<Rightarrow> bool" where
  "materialize_user_turn entry \<longleftrightarrow> sanitize_user_content (transcript_user_content entry) \<noteq> []"

definition transcript_tool_result :: "sdk_message \<times> bool \<Rightarrow> bool" where
  "transcript_tool_result d \<longleftrightarrow>
     (case sm_user (fst d) of
        None \<Rightarrow> False
      | Some blocks \<Rightarrow>
          snd d \<or> list_ex (\<lambda>b. trim_space (sb_type b) \<in> {''tool_result'', ''server_tool_result''}) blocks)"

definition entry_timestamp :: "transcript_env \<Rightarrow> transcript_entry \<Rightarrow> int \<Rightarrow> int" where
  "entry_timestamp env e last_time =
     (let value = get_str (te_data e) ''timestamp'' in
      case (if value = [] then None else tv_time env value) of
        Some t \<Rightarrow> t
      | None \<Rightarrow> if 0 < last_time then last_time + 1 else int (te_index e) + 1)"

definition user_turn :: "transcript_env \<Rightarrow> transcript_entry \<Rightarrow> bool" where
  "user_turn env e \<longleftrightarrow>
     (case tv_decode env (te_data e) of
        None \<Rightarrow> False
      | Some d \<Rightarrow> sm_type (fst d) = UserKind \<and> \<not> transcript_tool_result d \<and> materialize_user_turn (te_data e))"

fun collect_user_turns :: "transcript_env \<Rightarrow> int \<Rightarrow> transcript_entry list \<Rightarrow> (string \<times> int) list" where
  "collect_user_turns env last_time [] = []"
| "collect_user_turns env last_time (e # es) =
     (let t = entry_timestamp env e last_time in
      (if user_turn env e then [(sanitize_user_content (transcript_user_content (te_data e)), t)] else [])
        @ collect_user_turns env t es)"

section \<open>Aligning the markers of rounds\<close>

definition no_marker :: round_marker where
  "no_marker = \<lparr>rm_round = [], rm_content = [], rm_attachments = [], rm_time = 0, rm_policy = []\<rparr>"

definition blank_marker :: "round_marker \<Rightarrow> bool" where
  "blank_marker m \<longleftrightarrow> trim_space (rm_round m) = [] \<and> trim_space (rm_content m) = []"

definition marker_distance :: "int \<Rightarrow> int \<Rightarrow> int option" where
  "marker_distance turn_time marker_time =
     (if turn_time \<le> 0 \<or> marker_time \<le> 0 then Some 0
      else if turn_time + 5000 < marker_time then None
      else if marker_time \<le> turn_time then Some (turn_time - marker_time)
      else Some (marker_time - turn_time))"

text \<open>The best marker so far with its distance; a later marker wins a tie.\<close>

definition better_marker :: "round_marker list \<Rightarrow> nat list \<Rightarrow> string \<times> int \<Rightarrow> (nat \<times> int) option \<Rightarrow> nat \<Rightarrow> (nat \<times> int) option" where
  "better_marker markers used turn best i =
     (if i \<in> set used \<or> trim_space (rm_content (markers ! i)) \<noteq> trim_space (fst turn) then best
      else case marker_distance (snd turn) (rm_time (markers ! i)) of
        None \<Rightarrow> best
      | Some d \<Rightarrow>
          (case best of
             None \<Rightarrow> Some (i, d)
           | Some (j, bd) \<Rightarrow> if d < bd \<or> d = bd \<and> j < i then Some (i, d) else best))"

definition find_matching_marker :: "round_marker list \<Rightarrow> nat list \<Rightarrow> string \<times> int \<Rightarrow> nat option" where
  "find_matching_marker markers used turn =
     (if trim_space (fst turn) = [] then None
      else map_option fst (foldl (better_marker markers used turn) None [0..<length markers]))"

fun match_turns :: "round_marker list \<Rightarrow> nat list \<Rightarrow> (string \<times> int) list \<Rightarrow> round_marker list" where
  "match_turns markers used [] = []"
| "match_turns markers used (turn # turns) =
     (case find_matching_marker markers used turn of
        None \<Rightarrow> no_marker # match_turns markers used turns
      | Some i \<Rightarrow> markers ! i # match_turns markers (i # used) turns)"

definition tail_markers :: "round_marker list \<Rightarrow> nat \<Rightarrow> round_marker list" where
  "tail_markers markers n = drop (length markers - n) markers"

definition same_marker :: "round_marker \<Rightarrow> round_marker \<Rightarrow> bool" where
  "same_marker m candidate \<longleftrightarrow>
     rm_round m = rm_round candidate \<and> rm_content m = rm_content candidate \<and> rm_time m = rm_time candidate \<and>
     rm_policy m = rm_policy candidate"

definition marker_already_aligned :: "round_marker list \<Rightarrow> round_marker \<Rightarrow> bool" where
  "marker_already_aligned aligned candidate \<longleftrightarrow>
     list_ex (\<lambda>m. \<not> blank_marker m \<and> same_marker m candidate) aligned"

text \<open>The next marker of the fallback that is not aligned yet, and what is left of the fallback.\<close>

fun next_fallback :: "round_marker list \<Rightarrow> round_marker list \<Rightarrow> round_marker option \<times> round_marker list" where
  "next_fallback aligned [] = (None, [])"
| "next_fallback aligned (c # cs) =
     (if marker_already_aligned aligned c then next_fallback aligned cs else (Some c, cs))"

fun fill_blanks :: "round_marker list \<Rightarrow> round_marker list \<Rightarrow> round_marker list \<Rightarrow> round_marker list" where
  "fill_blanks before [] fallback = before"
| "fill_blanks before (m # ms) fallback =
     (if \<not> blank_marker m then fill_blanks (before @ [m]) ms fallback
      else case next_fallback (before @ m # ms) fallback of
        (None, rest) \<Rightarrow> fill_blanks (before @ [m]) ms rest
      | (Some c, rest) \<Rightarrow> fill_blanks (before @ [c]) ms rest)"

definition align_round_markers :: "transcript_env \<Rightarrow> transcript_entry list \<Rightarrow> round_marker list \<Rightarrow> round_marker list" where
  "align_round_markers env chain markers =
     (let turns = collect_user_turns env 0 chain in
      if markers = [] \<or> turns = [] then []
      else fill_blanks [] (match_turns markers [] turns) (tail_markers markers (length turns)))"

definition consume_marker :: "round_marker list \<Rightarrow> round_marker \<times> round_marker list" where
  "consume_marker markers =
     (case dropWhile blank_marker markers of [] \<Rightarrow> (no_marker, []) | m # ms \<Rightarrow> (m, ms))"


section \<open>Guidance of a running round\<close>

definition re_space :: "char \<Rightarrow> bool" where
  "re_space c \<longleftrightarrow> c \<in> {CHR 0x09, CHR 0x0A, CHR 0x0C, CHR 0x0D, CHR 0x20}"

definition decimal_char :: "char \<Rightarrow> bool" where
  "decimal_char c \<longleftrightarrow> 48 \<le> (of_char c :: nat) \<and> (of_char c :: nat) \<le> 57"

text \<open>
  \<open>transcriptGuidanceLinePattern\<close> on a trimmed line without newline: a number, a full stop, space,
  then optionally \<open>round_id=\<close> with a colon, and the text. The optional part is left out when no
  text would follow it.
\<close>

definition parse_guidance_line :: "string \<Rightarrow> (string \<times> string) option" where
  "parse_guidance_line line =
     (let r = dropWhile decimal_char line;
          body = dropWhile re_space (tl r)
      in if r = line \<or> r = [] \<or> hd r \<noteq> CHR ''.'' \<or> body = tl r \<or> body = [] then None
         else
           let rest = drop 9 body;
               rid = takeWhile (\<lambda>c. c \<noteq> CHR '':'') rest;
               txt = dropWhile re_space (drop (length rid + 1) rest)
           in if prefix ''round_id='' body \<and> rid \<noteq> [] \<and> length rid < length rest \<and> txt \<noteq> []
              then Some (rid, txt) else Some ([], body))"

definition guidance_item :: "string \<Rightarrow> (string \<times> string) option" where
  "guidance_item raw =
     (let line = trim_space raw in
      if line = [] \<or> line = ''<nexus_guidance>'' \<or> line = ''</nexus_guidance>'' then None
      else case parse_guidance_line line of
        None \<Rightarrow> None
      | Some (rid, txt) \<Rightarrow> if trim_space txt = [] then None else Some (trim_space rid, trim_space txt))"

definition parse_guidance_inputs :: "string \<Rightarrow> (string \<times> string) list" where
  "parse_guidance_inputs content = List.map_filter guidance_item (split_on (CHR 0x0A) content)"

definition join_guidance_content :: "any \<Rightarrow> string" where
  "join_guidance_content value =
     (if string_from_any value \<noteq> [] then string_from_any value
      else case value of
        AList xs \<Rightarrow> trim_space (join [CHR 0x0A] (filter (\<lambda>t. t \<noteq> []) (map string_from_any xs)))
      | _ \<Rightarrow> [])"

definition guidance_attachment_content :: "dict_value \<Rightarrow> string" where
  "guidance_attachment_content entry =
     (let attachment = map_value (get_any entry ''attachment'');
          content = trim_space (join_guidance_content (get_any attachment ''content''))
      in if get_str attachment ''type'' \<noteq> ''hook_additional_context'' \<or> \<not> contains content ''<nexus_guidance>'' then []
         else content)"

definition transcript_round_id :: "string \<Rightarrow> string" where
  "transcript_round_id uuid = (if trim_space uuid = [] then ''transcript_round'' else trim_space uuid)"

definition guidance_message ::
  "int \<Rightarrow> string \<Rightarrow> string \<Rightarrow> string \<Rightarrow> dict_value \<Rightarrow> int \<Rightarrow> nat \<times> string \<times> string \<Rightarrow> dict_value" where
  "guidance_message now session_key agent round_id entry ts item =
     (let i = fst item; source = trim_space (fst (snd item));
          message_id = (if source \<noteq> [] then source
                        else first_non_empty [get_str entry ''uuid'', round_id] @ '':guidance:'' @ decimal (i + 1))
      in new_guided_message message_id session_key [] [] agent round_id source (snd (snd item))
           (get_str entry ''session_id'') (ts + int i) now)"

definition build_guidance_messages ::
  "int \<Rightarrow> string \<Rightarrow> string \<Rightarrow> string \<Rightarrow> dict_value \<Rightarrow> int \<Rightarrow> dict_value list" where
  "build_guidance_messages now session_key agent current_round entry ts =
     (let content = guidance_attachment_content entry;
          items = (if content = [] then [] else parse_guidance_inputs content);
          round_id = (if trim_space current_round \<noteq> [] then trim_space current_round
                      else transcript_round_id (first_non_empty [get_str entry ''parentUuid'', get_str entry ''uuid'']))
      in map (guidance_message now session_key agent round_id entry ts) (enumerate 0 items))"

section \<open>Projecting a chain to messages\<close>

record projection =
  pj_rows :: "dict_value list"
  pj_round :: string
  pj_processor :: "processor option"
  pj_time :: int
  pj_markers :: "round_marker list"

definition new_transcript_processor :: "string \<Rightarrow> string \<Rightarrow> string \<Rightarrow> string \<Rightarrow> string \<Rightarrow> processor" where
  "new_transcript_processor workspace session_key agent round_id session_id =
     new_processor
       \<lparr>mc_session = session_key, mc_room = [], mc_conversation = [], mc_agent = agent,
        mc_workspace = trim_space workspace, mc_round = round_id, mc_parent = round_id\<rparr>
       (trim_space session_id)"

definition build_transcript_user ::
  "string \<Rightarrow> string \<Rightarrow> string \<Rightarrow> string \<Rightarrow> dict_value \<Rightarrow> round_marker \<Rightarrow> int \<Rightarrow> dict_value option" where
  "build_transcript_user session_key agent round_id session_id entry marker ts =
     (let content = first_non_empty [trim_space (rm_content marker), transcript_user_content entry];
          attachments = normalize_attachments (rm_attachments marker) agent;
          m = [(''message_id'', AStr round_id), (''session_key'', AStr session_key), (''agent_id'', AStr agent),
               (''round_id'', AStr round_id), (''role'', AStr ''user''), (''content'', AStr content), (''timestamp'', AInt ts)];
          m = (if trim_space session_id = [] then m else AList.update ''session_id'' (AStr (trim_space session_id)) m);
          m = (if trim_space (rm_policy marker) = [] then m
               else AList.update ''delivery_policy'' (AStr (normalize_delivery_policy (rm_policy marker))) m);
          m = (if attachments = [] then m
               else AList.update ''attachments'' (AList (map encode_attachment attachments)) m)
      in if content = [] then None else Some m)"

definition stamp_rows :: "dict_value list \<Rightarrow> int \<Rightarrow> dict_value list" where
  "stamp_rows rows ts = map (AList.update ''timestamp'' (AInt ts)) rows"

text \<open>
  A decoded message goes through the processor of the round, and what it makes durable is stamped
  with the time of the entry. None is a panic of the processor; an error of it is dropped.
\<close>

definition process_entry :: "transcript_env \<Rightarrow> sdk_message \<Rightarrow> int \<Rightarrow> processor \<Rightarrow> projection \<Rightarrow> projection option" where
  "process_entry env m ts p st =
     (case process (tv_process env) m p of
        (Panicked, p) \<Rightarrow> None
      | (Refused err, p) \<Rightarrow> Some (st\<lparr>pj_processor := Some p\<rparr>)
      | (Produced out, p) \<Rightarrow>
          Some (st\<lparr>pj_processor := Some p, pj_rows := pj_rows st @ stamp_rows (out_durable out) ts\<rparr>))"

definition project_entry ::
  "transcript_env \<Rightarrow> string \<Rightarrow> string \<Rightarrow> string \<Rightarrow> transcript_entry \<Rightarrow> projection \<Rightarrow> projection option" where
  "project_entry env workspace session_key agent e st =
     (if skip_entry e then Some st
      else
        let ts = entry_timestamp env e (pj_time st);
            st = st\<lparr>pj_time := ts\<rparr>;
            entry = te_data e;
            guidance = build_guidance_messages (pe_now (tv_process env)) session_key agent (pj_round st) entry ts;
            start = (\<lambda>round_id m st. st\<lparr>pj_round := round_id,
                       pj_processor := Some (new_transcript_processor workspace session_key agent round_id (sm_session m))\<rparr>);
            handle = (\<lambda>m st. case pj_processor st of None \<Rightarrow> Some st | Some p \<Rightarrow> process_entry env m ts p st)
        in if guidance \<noteq> [] then Some (st\<lparr>pj_rows := pj_rows st @ guidance\<rparr>)
           else case tv_decode env entry of
             None \<Rightarrow> Some st
           | Some d \<Rightarrow>
               (let m = fst d in
                if sm_type m = UserKind then
                  (if transcript_tool_result d then
                     handle m (if pj_processor st = None
                               then start (first_non_empty [entry_parent e, trim_space (sm_uuid m)]) m st else st)
                   else if \<not> materialize_user_turn entry then Some st
                   else
                     (let (marker, rest) = consume_marker (pj_markers st);
                          round_id = first_non_empty [rm_round marker, transcript_round_id (sm_uuid m)];
                          st = (start round_id m st)\<lparr>pj_markers := rest\<rparr>
                      in case build_transcript_user session_key agent round_id (sm_session m) entry marker ts of
                           None \<Rightarrow> Some st
                         | Some row \<Rightarrow> Some (st\<lparr>pj_rows := pj_rows st @ [row]\<rparr>)))
                else if sm_type m \<in> {AssistantKind, SystemKind, TaskProgressKind} then
                  handle m (if pj_processor st = None then start (transcript_round_id (sm_uuid m)) m st else st)
                else Some st))"

fun project_entries ::
  "transcript_env \<Rightarrow> string \<Rightarrow> string \<Rightarrow> string \<Rightarrow> transcript_entry list \<Rightarrow> projection \<Rightarrow> projection option" where
  "project_entries env workspace session_key agent [] st = Some st"
| "project_entries env workspace session_key agent (e # es) st =
     (case project_entry env workspace session_key agent e st of
        None \<Rightarrow> None
      | Some st \<Rightarrow> project_entries env workspace session_key agent es st)"

definition project_transcript_chain ::
  "transcript_env \<Rightarrow> string \<Rightarrow> string \<Rightarrow> string \<Rightarrow> transcript_entry list \<Rightarrow> round_marker list \<Rightarrow> dict_value list option" where
  "project_transcript_chain env workspace session_key agent chain markers =
     map_option pj_rows
       (project_entries env workspace session_key agent chain
          \<lparr>pj_rows = [], pj_round = [], pj_processor = None, pj_time = 0,
           pj_markers = align_round_markers env chain markers\<rparr>)"


section \<open>The chain is linked\<close>

definition uuids_indexed :: "(string \<times> transcript_entry) list \<Rightarrow> bool" where
  "uuids_indexed m \<longleftrightarrow> (\<forall>u e. map_of m u = Some e \<longrightarrow> entry_uuid e = u)"

lemma walk_parents_chain:
  "uuids_indexed m \<Longrightarrow>
   distinct (map entry_uuid (walk_parents m seen cur)) \<and>
   set seen \<inter> entry_uuid ` set (walk_parents m seen cur) = {} \<and>
   successively (\<lambda>e p. entry_parent e = entry_uuid p) (walk_parents m seen cur) \<and>
   set (walk_parents m seen cur) \<subseteq> insert cur (snd ` set m) \<and>
   (walk_parents m seen cur \<noteq> [] \<longrightarrow> hd (walk_parents m seen cur) = cur)"
proof (induction m seen cur rule: walk_parents.induct)
  case (1 m seen cur)
  show ?case
  proof (cases "entry_uuid cur = [] \<or> entry_uuid cur \<in> set seen")
    case True
    then show ?thesis by (simp add: walk_parents.simps[of m seen cur])
  next
    case False
    show ?thesis
    proof (cases "map_of m (entry_parent cur)")
      case None
      with False show ?thesis by (simp add: walk_parents.simps[of m seen cur])
    next
      case (Some p)
      show ?thesis
      proof (cases "entry_parent cur = []")
        case True
        with False Some show ?thesis by (simp add: walk_parents.simps[of m seen cur])
      next
        case ne: False
        let ?w = "walk_parents m (entry_uuid cur # seen) p"
        have eq: "walk_parents m seen cur = cur # ?w"
          using False Some ne by (simp add: walk_parents.simps[of m seen cur])
        have "p \<in> snd ` set m" using map_of_SomeD[OF Some] by force
        moreover have "entry_parent cur = entry_uuid p" using "1.prems" Some by (simp add: uuids_indexed_def)
        ultimately show ?thesis
          using "1.IH"[OF False Some ne "1.prems"] False unfolding eq
          by (cases ?w) auto
      qed
    qed
  qed
qed

lemma index_by_uuid_ok:
  "uuids_indexed (index_by_uuid es)" "snd ` set (index_by_uuid es) \<subseteq> set es"
proof -
  let ?f = "\<lambda>m e. if entry_uuid e = [] then m else AList.update (entry_uuid e) e m"
  have "uuids_indexed m \<Longrightarrow> uuids_indexed (?f m e)" for m e by (simp add: uuids_indexed_def)
  then have "uuids_indexed m \<Longrightarrow> uuids_indexed (foldl ?f m es)" for m by (induction es arbitrary: m) simp_all
  then show "uuids_indexed (index_by_uuid es)" by (simp add: index_by_uuid_def uuids_indexed_def[of "[]"])
  have step: "snd ` set (?f m e) \<subseteq> insert e (snd ` set m)" for m e
    by (cases "entry_uuid e = []") (auto dest!: update_mem intro: rev_image_eqI)
  have "snd ` set (foldl ?f m es) \<subseteq> snd ` set m \<union> set es" for m
  proof (induction es arbitrary: m)
    case (Cons e es)
    from Cons[of "?f m e"] step[of e m] show ?case by (simp only: foldl_Cons list.set) blast
  qed simp
  from this[of "[]"] show "snd ` set (index_by_uuid es) \<subseteq> set es" by (simp add: index_by_uuid_def)
qed

text \<open>C10. The history that is shown is one line of the conversation. The chain of a transcript has no
  entry twice, every entry of it answers the one before, all are entries of the file, and the last
  one is the newest of the entries that nobody answers and that belong to the conversation. The
  chain is empty only when there is no such entry.\<close>
theorem chain_is_one_line:
  "let chain = build_primary_chain es in
   distinct (map entry_uuid chain) \<and> set chain \<subseteq> set es \<and>
   successively (\<lambda>p e. entry_parent e = entry_uuid p) chain \<and>
   (if terminal_entries es = [] then chain = []
    else last chain \<in> set (terminal_entries es) \<and> (\<forall>t \<in> set (terminal_entries es). te_index t \<le> te_index (last chain)))"
proof (cases "sort_key (\<lambda>e. - int (te_index e)) (terminal_entries es)")
  case Nil
  then have "set (terminal_entries es) = {}" by (metis set_sort set_empty)
  with Nil show ?thesis by (simp add: build_primary_chain_def)
next
  case (Cons leaf rest)
  let ?w = "walk_parents (index_by_uuid es) [] leaf"
  have sorted: "sorted (map (\<lambda>e. - int (te_index e)) (leaf # rest))"
    unfolding Cons[symmetric] by (rule sorted_sort_key)
  have set: "set (terminal_entries es) = insert leaf (set rest)" using arg_cong[OF Cons, of set] by simp
  then have leaf: "leaf \<in> set es" "entry_uuid leaf \<noteq> []" by (auto simp: terminal_entries_def)
  have ne: "?w \<noteq> []" using leaf(2) by (simp add: walk_parents.simps)
  have chain: "distinct (map entry_uuid ?w)" "successively (\<lambda>e p. entry_parent e = entry_uuid p) ?w"
    "set ?w \<subseteq> insert leaf (set es)" "hd ?w = leaf"
    using walk_parents_chain[OF index_by_uuid_ok(1)] index_by_uuid_ok(2) ne by blast+
  have "set ?w \<subseteq> set es" using chain(3) leaf(1) by blast
  moreover have "\<forall>t \<in> set (terminal_entries es). te_index t \<le> te_index leaf" using sorted set by auto
  moreover have "terminal_entries es \<noteq> []" using set by auto
  ultimately show ?thesis
    using chain Cons set ne by (simp add: build_primary_chain_def rev_map[symmetric] last_rev)
qed

section \<open>Markers and turns\<close>

definition marker_key :: "round_marker \<Rightarrow> string \<times> string \<times> int \<times> string" where
  "marker_key m = (rm_round m, rm_content m, rm_time m, rm_policy m)"

definition marked :: "round_marker list \<Rightarrow> round_marker list" where
  "marked ms = filter (\<lambda>m. \<not> blank_marker m) ms"

lemma marked_simps [simp]:
  "marked [] = []" "marked (m # ms) = (if blank_marker m then marked ms else m # marked ms)"
  "marked (ms @ ns) = marked ms @ marked ns"
  by (simp_all add: marked_def)

lemma blank_no_marker [simp]: "blank_marker no_marker"
  by (simp add: blank_marker_def no_marker_def)

lemma same_marker_key: "same_marker m c \<longleftrightarrow> marker_key c = marker_key m"
  by (auto simp: same_marker_def marker_key_def)

lemma already_iff: "marker_already_aligned ms c \<longleftrightarrow> marker_key c \<in> marker_key ` set (marked ms)"
  by (auto simp: marker_already_aligned_def same_marker_key marked_def list_ex_iff image_iff)

lemma better_marker_ok:
  "foldl (better_marker markers used turn) best is = Some (i, d) \<Longrightarrow>
   best = Some (i, d) \<or> i \<in> set is \<and> i \<notin> set used \<and> trim_space (rm_content (markers ! i)) = trim_space (fst turn)"
proof (induction "is" arbitrary: best)
  case (Cons j js)
  from Cons.IH[of "better_marker markers used turn best j"] Cons.prems
  show ?case by (auto simp: better_marker_def split: if_splits option.splits)
qed simp

lemma found_marker:
  assumes "find_matching_marker markers used turn = Some i"
  shows "i < length markers \<and> i \<notin> set used \<and> trim_space (rm_content (markers ! i)) = trim_space (fst turn) \<and>
         \<not> blank_marker (markers ! i)"
  using assms better_marker_ok[of markers used turn None "[0..<length markers]"]
  by (auto simp: find_matching_marker_def blank_marker_def split: if_splits)

lemma match_turns_length [simp]: "length (match_turns markers used turns) = length turns"
  by (induction markers used turns rule: match_turns.induct) (simp_all split: option.split)

lemma distinct_filter_nth:
  "distinct (map f (filter P xs)) \<Longrightarrow> i < length xs \<Longrightarrow> j < length xs \<Longrightarrow> P (xs ! i) \<Longrightarrow> P (xs ! j) \<Longrightarrow>
   f (xs ! i) = f (xs ! j) \<Longrightarrow> i = j"
proof (induction xs arbitrary: i j)
  case (Cons x xs)
  have "xs ! k \<in> set xs" if "k < length xs" for k using that by simp
  with Cons show ?case by (cases i; cases j) (auto simp: image_iff split: if_splits)
qed simp

lemma match_turns_marked:
  "set (marked (match_turns markers used turns)) \<subseteq>
     (\<lambda>i. markers ! i) ` {i. i < length markers \<and> i \<notin> set used \<and> \<not> blank_marker (markers ! i)}"
proof (induction markers used turns rule: match_turns.induct)
  case (2 markers used turn turns)
  show ?case
  proof (cases "find_matching_marker markers used turn")
    case (Some i)
    then show ?thesis using 2(2)[OF Some] found_marker[OF Some] by auto
  qed (use 2(1) in simp)
qed simp

lemma match_turns_distinct:
  "distinct (map marker_key (marked markers)) \<Longrightarrow> distinct (map marker_key (marked (match_turns markers used turns)))"
proof (induction markers used turns rule: match_turns.induct)
  case (2 markers used turn turns)
  show ?case
  proof (cases "find_matching_marker markers used turn")
    case (Some i)
    have i: "i < length markers" "i \<notin> set used" "\<not> blank_marker (markers ! i)" using found_marker[OF Some] by auto
    have "marker_key (markers ! i) \<noteq> marker_key m" if m: "m \<in> set (marked (match_turns markers (i # used) turns))" for m
    proof -
      obtain j where "j < length markers" "j \<noteq> i" "\<not> blank_marker (markers ! j)" "m = markers ! j"
        using match_turns_marked[of markers "i # used" turns] m by auto
      then show ?thesis
        using distinct_filter_nth[of marker_key "\<lambda>m. \<not> blank_marker m" markers i j] i 2(3) by (auto simp: marked_def)
    qed
    then show ?thesis using 2(2)[OF Some 2(3)] Some i by auto
  qed (use 2 in simp)
qed simp

lemma next_fallback_new:
  "next_fallback ms fb = (Some c, rest) \<Longrightarrow> c \<in> set fb \<and> set rest \<subseteq> set fb \<and> marker_key c \<notin> marker_key ` set (marked ms)"
  "next_fallback ms fb = (None, rest) \<Longrightarrow> rest = []"
  by (induction fb) (auto simp: already_iff split: if_splits)

lemma fill_blanks_ok:
  "distinct (map marker_key (marked (before @ ms))) \<Longrightarrow>
   distinct (map marker_key (marked (fill_blanks before ms fb))) \<and>
   set (marked (fill_blanks before ms fb)) \<subseteq> set (marked (before @ ms)) \<union> set fb \<and>
   length (fill_blanks before ms fb) = length before + length ms \<and>
   (\<forall>i < length (before @ ms). i < length before \<or> \<not> blank_marker ((before @ ms) ! i) \<longrightarrow> fill_blanks before ms fb ! i = (before @ ms) ! i)"
proof (induction before ms fb rule: fill_blanks.induct)
  case (2 before m ms fb)
  show ?case
  proof (cases "blank_marker m")
    case False
    with 2(1)[OF False] 2(4) show ?thesis by (auto simp: nth_append)
  next
    case True
    obtain c rest where nf: "next_fallback (before @ m # ms) fb = (c, rest)" by fastforce
    show ?thesis
    proof (cases c)
      case None
      with nf have "next_fallback (before @ m # ms) fb = (None, rest)" by simp
      moreover from next_fallback_new(2)[OF this] have "rest = []" .
      ultimately show ?thesis using 2(2)[OF _ _ refl] 2(4) True by (auto simp: nth_append)
    next
      case (Some d)
      with nf have nd: "next_fallback (before @ m # ms) fb = (Some d, rest)" by simp
      have "distinct (map marker_key (marked ((before @ [d]) @ ms)))"
        using 2(4) True next_fallback_new(1)[OF nd] by auto
      note ih = 2(3)[OF _ nd[symmetric] refl this] and new = next_fallback_new(1)[OF nd]
      have eq: "fill_blanks before (m # ms) fb = fill_blanks (before @ [d]) ms rest" using True nd by simp
      have other: "((before @ [d]) @ ms) ! i = (before @ m # ms) ! i" if "i \<noteq> length before" for i
        using that by (auto simp: nth_append nth_Cons')
      have "fill_blanks before (m # ms) fb ! i = (before @ m # ms) ! i"
        if "i < length (before @ m # ms)" "i < length before \<or> \<not> blank_marker ((before @ m # ms) ! i)" for i
      proof -
        have "i \<noteq> length before" using that(2) True by (auto simp: nth_append)
        with that ih other[of i] True show ?thesis unfolding eq by auto
      qed
      moreover have "set (marked (fill_blanks (before @ [d]) ms rest)) \<subseteq> set (marked (before @ ms)) \<union> set fb"
        using ih new True by (auto split: if_splits)
      ultimately show ?thesis using ih True unfolding eq by auto
    qed
  qed
qed simp

lemma match_turns_content:
  "i < length turns \<Longrightarrow> \<not> blank_marker (match_turns markers used turns ! i) \<Longrightarrow>
   trim_space (rm_content (match_turns markers used turns ! i)) = trim_space (fst (turns ! i))"
proof (induction markers used turns arbitrary: i rule: match_turns.induct)
  case (2 markers used turn turns)
  show ?case
  proof (cases "find_matching_marker markers used turn")
    case None
    with 2(1)[OF None] 2(3,4) show ?thesis by (cases i) auto
  next
    case (Some k)
    with 2(2)[OF Some] 2(3,4) found_marker[OF Some] show ?thesis by (cases i) auto
  qed
qed simp


section \<open>Where the alignment slips\<close>

text \<open>
  A turn without a marker has a blank place, but the projection takes the next marker that is not
  blank: the round that belongs to the second turn is given to the first, together with its text.
\<close>

lemma unmatched_turn_takes_next_marker:
  assumes "trim_space (rm_content m) \<noteq> trim_space (fst t1)" "trim_space (rm_content m) = trim_space (fst t2)"
    and "trim_space (fst t2) \<noteq> []" "marker_distance (snd t2) (rm_time m) \<noteq> None"
  shows "fill_blanks [] (match_turns [m] [] [t1, t2]) (tail_markers [m] 2) = [no_marker, m]"
    and "consume_marker [no_marker, m] = (m, [])"
proof -
  have m: "\<not> blank_marker m" using assms by (simp add: blank_marker_def)
  have "find_matching_marker [m] [] t1 = None" "find_matching_marker [m] [] t2 = Some 0"
    using assms by (auto simp: find_matching_marker_def better_marker_def)
  then show "fill_blanks [] (match_turns [m] [] [t1, t2]) (tail_markers [m] 2) = [no_marker, m]"
    using m by (simp add: tail_markers_def already_iff)
  show "consume_marker [no_marker, m] = (m, [])" using m by (simp add: consume_marker_def)
qed

text \<open>A turn of an entry that the projection skips still takes a marker.\<close>

lemma skipped_entry_takes_marker:
  assumes "skip_entry e" "user_turn env e"
  shows "length (collect_user_turns env t [e]) = 1" "project_entry env workspace session_key agent e st = Some st"
  using assms by (simp_all add: project_entry_def Let_def)

section \<open>Samples\<close>

definition sample_entry :: "nat \<Rightarrow> string \<Rightarrow> string \<Rightarrow> transcript_entry" where
  "sample_entry i uuid parent =
     \<lparr>te_index = i, te_data = [(''uuid'', AStr uuid), (''parentUuid'', AStr parent)]\<rparr>"

lemma chain_is_one_line_witness:
  "last (build_primary_chain [sample_entry 0 ''a'' [], sample_entry 1 ''b'' ''a'', sample_entry 2 ''c'' ''a'']) =
   sample_entry 2 ''c'' ''a''"
proof -
  let ?es = "[sample_entry 0 ''a'' [], sample_entry 1 ''b'' ''a'', sample_entry 2 ''c'' ''a'']"
  have t: "trim_space ''a'' = ''a''" "trim_space ''b'' = ''b''" "trim_space ''c'' = ''c''"
    by (simp_all add: plain_word_trim plain_simps)
  have "terminal_entries ?es = [sample_entry 1 ''b'' ''a'', sample_entry 2 ''c'' ''a'']"
    by (simp add: terminal_entries_def parent_uuids_def entry_uuid_def entry_parent_def sample_entry_def t skip_entry_def)
  then show ?thesis
    using chain_is_one_line[of ?es] by (auto simp: Let_def sample_entry_def)
qed

definition sample_marker :: "string \<Rightarrow> int \<Rightarrow> round_marker" where
  "sample_marker content ts = \<lparr>rm_round = content, rm_content = content, rm_attachments = [], rm_time = ts, rm_policy = []\<rparr>"

definition sample_transcript_env :: transcript_env where
  "sample_transcript_env =
     \<lparr>tv_decode = (\<lambda>d. Some ((sample_message None ''s'')\<lparr>sm_type := UserKind, sm_user := None\<rparr>, False)),
      tv_time = (\<lambda>_. None), tv_process = sample_process_env\<rparr>"

definition user_entry :: "nat \<Rightarrow> string \<Rightarrow> transcript_entry" where
  "user_entry i content =
     \<lparr>te_index = i, te_data = [(''uuid'', AStr content), (''message'', AMap [(''content'', AStr content)])]\<rparr>"


end
