(* ===== verification/Spec2Isabelle.thy ===== *)
theory Spec2Isabelle
  imports Prelude GoStrings GoAny SessionKey SessionPaths InputQueue QueueStore GoDict RuntimeManager Events Permission PermissionFlow Mention RoomRound RoomDomain DirectedMessages RoomWake RoomChat RoomQueue RoomSystem RoomInvariant RoomPolicy VisibleContext DirectedStore RoomContext RoomReader AutomationModel ExecutionSink HeartbeatText Heartbeat AutomationStore AutomationRun AutomationTasks AutomationSafety AutomationMachine MessageText MessageSegment WorkspaceArtifact MessageProcessor RoundExecutor HistoryRows HistoryRepair HistoryPages HistoryTranscript
begin

text \<open>
  A model of the collaboration core of \<open>nexus-core\<close>, the Go server that lets users and
  agents work together in rooms. All paths below are under \<open>src/internal/\<close>.

  \<^bold>\<open>The program.\<close> A user sends a message to a session, which a structured key names. In
  a room the message goes to the agents it mentions; every addressed agent gets a slot of a
  round, and a slot runs a session of the agent SDK. Messages for a busy agent wait in a queue
  or are handed to the running round as guidance. What an agent says in public can mention other
  agents, which wakes them; private messages between agents do the same with a route for the
  reply. While an agent runs, its tools may ask the user for permission. The parts share the
  runtime manager (sessions and running rounds), the queue files and the shared history.

  \<^bold>\<open>Theories and sources.\<close>
  \<^item> \<open>Prelude\<close>, \<open>GoStrings\<close>, \<open>GoAny\<close>, \<open>GoDict\<close>: the shared vocabulary and
    the Go values the source uses: strings as bytes with \<open>TrimSpace\<close> and UTF-8 aware case
    mapping, values of type \<open>any\<close> as JSON decodes them, maps as association lists. The
    locales \<open>stable\<close> and \<open>machine\<close> state once what an invariant of a step function
    is; every stateful part interprets them.
  \<^item> \<open>SessionKey\<close>, \<open>SessionPaths\<close>: \<open>protocol/model_session_key.go\<close> and
    \<open>storage/workspace/paths.go\<close>; parsing and building of keys, the directories of sessions.
  \<^item> \<open>InputQueue\<close>, \<open>QueueStore\<close>: \<open>protocol/model_input_queue.go\<close>,
    \<open>model_chat_attachment.go\<close>, \<open>model_delivery_policy.go\<close> and
    \<open>storage/workspace/store_input_queue.go\<close>: an append-only log of actions whose replay is
    the queue. The locale \<open>append_log\<close> is the interface to the file store; an abstract queue
    (\<open>q_put\<close>, \<open>q_remove\<close>) specifies the operations, which refine it.
  \<^item> \<open>RuntimeManager\<close>: \<open>runtime/manager.go\<close> and \<open>runtime/guidance.go\<close>; each
    critical section is one function, the select loops are decided by an explicit list of wake-ups.
  \<^item> \<open>Events\<close>, \<open>Permission\<close>, \<open>PermissionFlow\<close>: \<open>protocol/model_event.go\<close> and
    \<open>runtime/permission/\<close>; bindings of senders to sessions as functions, the life of a
    request as an inductive step relation over all interleavings of waiter, answer and timer.
  \<^item> \<open>Mention\<close>: \<open>chat/room/mention.go\<close>, \<open>public_mention.go\<close>; code regions are masked
    before mentions are searched.
  \<^item> \<open>RoomRound\<close>: the slots and rounds of \<open>service/room/round_state.go\<close>,
    \<open>interrupt.go\<close>, \<open>active_slot_delivery.go\<close> and \<open>execution.go\<close>, with the gate of
    \<open>chat/room/no_reply.go\<close>.
  \<^item> \<open>RoomDomain\<close>, \<open>DirectedMessages\<close>, \<open>RoomWake\<close>, \<open>RoomChat\<close>,
    \<open>RoomQueue\<close>: directory and queue locations of a conversation; \<open>directed_message*.go\<close>;
    \<open>public_mentions.go\<close>; \<open>chat.go\<close> and \<open>interrupt.go\<close>; \<open>input_queue.go\<close>, all of
    \<open>service/room/\<close>. Handlers are functions of an environment \<open>room_env\<close>, a request and the
    state \<open>room_state\<close>, and return the error or result with the new state.
  \<^item> \<open>RoomSystem\<close>, \<open>RoomInvariant\<close>, \<open>RoomPolicy\<close>: the operations of a room as the
    events of one machine, the invariant every one of them keeps, and what the delivery policies
    promise.
  \<^item> \<open>VisibleContext\<close>, \<open>DirectedStore\<close>: \<open>chat/room/visible_context.go\<close> and
    \<open>storage/workspace/store_room_directed_message.go\<close>; the batch of public messages after an
    agent's cursor, the text of a turn's input within its limits, and the log of directed messages.
  \<^item> \<open>RoomContext\<close>, \<open>RoomReader\<close>: \<open>service/room/public_context.go\<close>,
    \<open>guidance_input.go\<close> and the room cursors of \<open>storage/workspace/store_agent_history.go\<close>;
    the reader of a room as an inductive step relation whose invariant places the cursors.
  \<^item> \<open>AutomationModel\<close>, \<open>AutomationStore\<close>: \<open>protocol/model_automation.go\<close>, \<open>automation/schedule.go\<close>,
    \<open>session.go\<close> and \<open>storage/automation\<close>; task definitions, their validation and next times (time zones
    and the cron library are the record \<open>clockwork\<close>), and every statement on the tables as a function.
  \<^item> \<open>AutomationRun\<close>, \<open>AutomationTasks\<close>: \<open>service/automation\<close>; runtime states, the critical sections of a
    trigger, the end of a run, recovery, requests on tasks and the retries of deliveries. A retry of a delivery
    has its time while fewer than five attempts were made, so four retries settle it.
  \<^item> \<open>AutomationSafety\<close>, \<open>AutomationMachine\<close>: who occupies a task (\<open>occupied\<close>), what each operation does to
    its own task and leaves of the others (\<open>goes\<close>, \<open>frame\<close>), and the machine \<open>auto_step\<close> of all operations,
    under which a task with the policy "skip" has at most one run in execution. A trigger is one step of the
    machine; what interleaved triggers do is shown on concrete states at the end of \<open>AutomationMachine\<close>.
  \<^item> \<open>ExecutionSink\<close>: \<open>automation/execution_sink.go\<close>; the bounded buffer against the list of its latest
    events, and the result of a round read from it.
  \<^item> \<open>HeartbeatText\<close>, \<open>Heartbeat\<close>: \<open>automation/heartbeat_prompt.go\<close>, \<open>heartbeat_delivery.go\<close> and
    \<open>service_heartbeat.go\<close>; the task list of a file, wakes, the claim of events and the heartbeat rounds as a
    step relation with the invariant that one round is in flight per agent.
  \<^item> \<open>MessageText\<close>, \<open>MessageSegment\<close>: \<open>message/helpers.go\<close>, \<open>projection_result.go\<close>,
    \<open>factory_guidance.go\<close> and \<open>segment_assistant.go\<close>; content blocks and messages as dictionaries, the
    segment under construction with its table of stream indices (injective, \<open>segment_ok\<close>), deltas that
    accumulate and snapshots that arrive again.
  \<^item> \<open>WorkspaceArtifact\<close>: \<open>message/processor_workspace_artifact.go\<close>; the paths of written files, which stay
    below every directory they are joined to.
  \<^item> \<open>MessageProcessor\<close>: \<open>message/processor.go\<close>, \<open>event_mapper.go\<close>; one SDK message to durable messages and
    events, the session id, the suppression of repetitions and the treatment of interruptions. A durable
    message is a value: that the event of a message shares its map is written out in \<open>RoundExecutor\<close>.
  \<^item> \<open>RoundExecutor\<close>: \<open>runtime/executor_round.go\<close>; a round as a recursion over what its \<open>select\<close> picks, with
    failing callbacks and a trace of actions, composed with the mapper.
  \<^item> \<open>HistoryRows\<close>, \<open>HistoryRepair\<close>, \<open>HistoryPages\<close>: \<open>storage/workspace/history_normalize.go\<close> and the
    compaction of \<open>store_session_file.go\<close>; snapshots of a message become one row, a round without an end gets
    one, results are attached to the last assistant row, and the pages that a reader walks are the history.
  \<^item> \<open>HistoryTranscript\<close>: \<open>storage/workspace/store_agent_history.go\<close>; the chain of a transcript, the alignment
    of round markers with user turns and the projection to messages. The SDK's decoder and the reading of
    times are parameters.

  \<^bold>\<open>What the lemmas show.\<close> In every theory the operations come first, then the lemmas
  on the result of each operation on every branch, the invariant and its preservation, and last
  the properties (the theorems whose \<open>text\<close> block carries an identifier \<open>C\<close>\<^emph>\<open>n\<close>). They
  cover: well-formedness of what is stored, refinement of abstract queues, at-most-once and
  in-order delivery, agreement of the registry of rounds with the runtime manager, bounds on
  chains of wakes and replies, errors that leave or restore the state, and round trips of
  encodings, histories in which no idle round looks as if it ran, and pages that make up the history.

  \<^bold>\<open>Parameters.\<close> The SDK client, the agent and conversation services, the rendering of
  attachments and the sources of identifiers and of time are arguments of the definitions that
  use them (\<open>room_env\<close>, \<open>made\<close>, \<open>disconnect\<close>, \<open>reconfigure\<close>, \<open>now\<close>,
  \<open>new_id\<close>). What another goroutine does between two critical sections is an argument too
  (\<open>others\<close>). Assumptions on them are hypotheses of the theorem that needs them.

  \<^bold>\<open>Bounds and termination.\<close> All definitions are total. Loops are structural recursion or
  recursion on a measure. Only the walk of a reader over the pages of a history takes a number of
  requests; one more than the number of groups is enough. Integers of the source that only count or hold
  milliseconds are unbounded here; the durations of schedules and the time that ends an unfinished
  round wrap in their 64 bits as in the code.

  \<^bold>\<open>Not modelled.\<close> The service for direct messages (the counterpart of the room service for one
  agent), agent memory, private threads, the cache of projected transcripts, and the file and network
  failures of the stores are left for later. SQL repositories, HTTP handlers, channel and connector
  adapters, provider configuration, authentication, logging and the command line are glue around
  third-party services. The manifest lists every part with its status and reason.
\<close>

end
